(* ===== verification/Prelude.thy ===== *)
theory Prelude
  imports Main "HOL-Library.Word"
begin

text \<open>
  Shared vocabulary of the development: the machine types of the ARM target (PXA270, 32-bit,
  little endian), the errno values the drivers return, the bit helpers the drivers write out by
  hand, and the generic lemmas on words, lists and iterated functions the components use.

  \<open>def.h\<close> of the board support package names the same types \<open>UC\<close> (8 bits), \<open>UI\<close> (16 bits)
  and \<open>UL\<close> (32 bits).
\<close>

unbundle bit_operations_syntax

type_synonym u8 = "8 word"
type_synonym u16 = "16 word"
type_synonym u32 = "32 word"

named_theorems io_simps \<open>what an operation does to the recorded bus traffic\<close>
named_theorems frame_simps \<open>the fields an operation leaves alone\<close>

section \<open>Results\<close>

text \<open>The errno values of \<open>asm-generic/errno-base.h\<close> the code returns, negated.\<close>

abbreviation (input) EIO :: int where "EIO \<equiv> 5"
abbreviation (input) EFAULT :: int where "EFAULT \<equiv> 14"
abbreviation (input) EBUSY :: int where "EBUSY \<equiv> 16"
abbreviation (input) EINVAL :: int where "EINVAL \<equiv> 22"
abbreviation (input) ENOTTY :: int where "ENOTTY \<equiv> 25"

section \<open>Words\<close>

lemma unat_u8_lt: "unat (x :: u8) < 256"
  using unsigned_less [of x] by simp

lemma unat_u16_lt: "unat (x :: u16) < 65536"
  using unsigned_less [of x] by simp

lemma unat_ucast_8_16 [simp]: "unat (ucast (x :: u8) :: u16) = unat x"
  using unat_u8_lt [of x] by (simp add: unsigned_ucast_eq take_bit_nat_eq_self)

lemma and_255: "(x :: 'a::len word) AND 0xff = take_bit 8 x"
  by (simp add: take_bit_eq_mask mask_eq_exp_minus_1)

lemma and_one_bit: "(p :: u32) AND 1 \<noteq> 0 \<longleftrightarrow> bit p 0"
  by (simp add: and_one_eq bit_0 even_iff_mod_2_eq_zero odd_iff_mod_2_eq_one)

lemma upt_shift: "[i..<i + Suc n] = i # [Suc i..<Suc i + n]"
  by (simp add: upt_conv_Cons)

section \<open>Iteration\<close>

text \<open>An invariant of one step of a loop is an invariant of the loop.\<close>

lemma fold_invariant_upto:
  assumes "P s" and "\<And>i s. i < n \<Longrightarrow> P s \<Longrightarrow> P (f i s)"
  shows "P (fold f [0..<n] s)"
  using assms
proof (induction n)
  case 0
  then show ?case by simp
next
  case (Suc n)
  then show ?case by simp
qed

lemma funpow_invariant:
  assumes "P s" and "\<And>s. P s \<Longrightarrow> P (f s)"
  shows "P ((f ^^ n) s)"
  using assms by (induction n) auto

lemma fold_upd_other:
  "(\<And>i. i < n \<Longrightarrow> key i \<noteq> k) \<Longrightarrow> fold (\<lambda>i m. m(key i := v i)) [0..<n] m k = m k"
  by (induction n) auto

lemma fold_upd_at:
  "inj_on key {..<n} \<Longrightarrow> i < n \<Longrightarrow> fold (\<lambda>i m. m(key i := v i)) [0..<n] m (key i) = v i"
proof (induction n)
  case 0
  then show ?case by simp
next
  case (Suc n)
  show ?case
  proof (cases "i = n")
    case True
    then show ?thesis by simp
  next
    case False
    with Suc.prems have "key i \<noteq> key n" by (auto dest: inj_onD)
    with False Suc show ?thesis by (auto simp: inj_on_def)
  qed
qed

section \<open>Positions in a circular memory\<close>

lemma mod_shift_inj_le:
  fixes b u v m :: nat
  assumes "(b + u) mod m = (b + v) mod m" "v < m" "u \<le> v"
  shows "u = v"
proof -
  have "m dvd (b + v) - (b + u)"
    using assms by (metis add_le_cancel_left mod_eq_dvd_iff_nat)
  then have "m dvd v - u" by simp
  with assms show ?thesis by (metis diff_is_0_eq dvd_imp_le le_antisym less_imp_diff_less
      not_less zero_less_diff)
qed

lemma mod_shift_inj:
  fixes b u v m :: nat
  assumes "(b + u) mod m = (b + v) mod m" "u < m" "v < m"
  shows "u = v"
  using assms mod_shift_inj_le [of b u m v] mod_shift_inj_le [of b v m u]
  by (cases "u \<le> v") auto

lemma row_col_inj:
  fixes u v c x w :: nat
  assumes "u * w + c = v * w + x" "c < w" "x < w"
  shows "u = v" "c = x"
  using assms by (metis add.commute mod_less mod_mult_self3 add_left_imp_eq
      mult_cancel2 less_nat_zero_code)+

section \<open>Rings\<close>

text \<open>
  A ring of \<open>n\<close> cells written at \<open>i\<close> and read at \<open>out\<close>: what it holds, oldest first. It is empty where
  the two meet, so that one cell is never used.
\<close>

definition ring_between :: "nat \<Rightarrow> 'a list \<Rightarrow> nat \<Rightarrow> nat \<Rightarrow> 'a list" where
  "ring_between n buf i out = map (\<lambda>j. buf ! ((out + j) mod n)) [0..<(i + n - out) mod n]"

lemma length_ring_between: "length (ring_between n buf i out) = (i + n - out) mod n"
  by (simp add: ring_between_def)

lemma ring_between_same [simp]: "ring_between n buf i i = []"
  by (simp add: ring_between_def)

lemma ring_dist:
  fixes i out n :: nat
  assumes "i < n" "out < n"
  shows "(i + n - out) mod n = (if out \<le> i then i - out else i + n - out)"
proof (cases "out \<le> i")
  case True
  then have "i + n - out = (i - out) + n" by simp
  then show ?thesis using True assms by (simp only: mod_add_self2) simp
next
  case False
  then show ?thesis using assms by simp
qed

lemma ring_succ: "i < n \<Longrightarrow> (i + 1) mod n = (if i + 1 = n then 0 else i + 1 :: nat)"
  by auto

lemma ring_succ_lt: "i < n \<Longrightarrow> (i + 1) mod n < (n :: nat)"
  by simp

lemma ring_empty: "i < n \<Longrightarrow> out < n \<Longrightarrow> ring_between n buf i out = [] \<longleftrightarrow> out = i"
  unfolding ring_between_def by (simp only: ring_dist) auto

lemma ring_put_full:
  assumes "i < n" "out < n" "length (ring_between n buf i out) + 1 = n"
  shows "(i + 1) mod n = out"
  using assms unfolding length_ring_between by (simp only: ring_dist ring_succ) (auto split: if_splits)

lemma ring_put:
  assumes lt: "i < n" "out < n" and room: "length (ring_between n buf i out) + 1 < n" and len: "length buf = n"
  shows "ring_between n (buf[i := w]) ((i + 1) mod n) out = ring_between n buf i out @ [w]"
proof -
  define k where "k = (i + n - out) mod n"
  have k: "k + 1 < n" using room by (simp add: length_ring_between k_def)
  have more: "((i + 1) mod n + n - out) mod n = k + 1" and at: "(out + k) mod n = i"
    using k lt unfolding k_def
    unfolding ring_dist [OF ring_succ_lt [OF lt(1)] lt(2)] ring_dist [OF lt]
    unfolding ring_succ [OF lt(1)]
    by (auto split: if_splits)
  have other: "\<forall>j<k. (out + j) mod n \<noteq> i"
    using mod_shift_inj [of out _ n k] at k by fastforce
  show ?thesis
    using lt len at other unfolding ring_between_def more by (auto simp: k_def [symmetric] nth_list_update)
qed

lemma ring_get:
  assumes lt: "i < n" "out < n" and cons: "ring_between n buf i out = x # xs"
  shows "buf ! out = x" and "ring_between n buf i ((out + 1) mod n) = xs"
proof -
  have k: "(i + n - out) mod n = Suc (length xs)"
    using arg_cong [OF cons, of length] by (simp add: length_ring_between)
  have keys: "x # xs = map (\<lambda>j. buf ! ((out + j) mod n)) [0..<Suc (length xs)]"
    using cons unfolding ring_between_def k by simp
  show "buf ! out = x" using keys lt by (simp add: upt_conv_Cons del: upt_Suc)
  have tl: "xs = map (\<lambda>j. buf ! ((out + 1 + j) mod n)) [0..<length xs]"
    using keys by (simp add: map_upt_Suc del: upt_Suc)
  have idx: "(i + n - (out + 1) mod n) mod n = length xs"
    using k unfolding ring_dist [OF lt(1) ring_succ_lt [OF lt(2)]] ring_dist [OF lt]
    unfolding ring_succ [OF lt(2)] using lt by (auto split: if_splits)
  show "ring_between n buf i ((out + 1) mod n) = xs"
    unfolding ring_between_def idx using tl by (simp add: mod_add_left_eq)
qed

end
