(* ===== verification/Font.thy ===== *)
theory Font
  imports Prelude
begin

text \<open>
  The 8 by 8 font of \<open>genfont8_8.h\<close>: one row of eight 16-bit words for each of the 160 codes
  the table has, two bits a pixel. The codes below \<open>0x21\<close> and above \<open>0x7e\<close> are blank
  in the source, and are written here as one repeated row.
\<close>

definition blank_glyph :: "u16 list" where
  "blank_glyph = [0, 0, 0, 0, 0, 0, 0, 0]"

definition charset :: "u16 list list" where
  "charset = replicate 33 blank_glyph @ [
    [0x0C00, 0x0C00, 0x0C00, 0x0C00, 0x0000, 0x0000, 0x0C00, 0x0000],
    [0x3300, 0x3300, 0x3300, 0x0000, 0x0000, 0x0000, 0x0000, 0x0000],
    [0x3300, 0x3300, 0xFFC0, 0x3300, 0xFFC0, 0x3300, 0x3300, 0x0000],
    [0x0C00, 0xFF00, 0x0CC0, 0x3F00, 0xCC00, 0x3FC0, 0x0C00, 0x0000],
    [0x03C0, 0xC3C0, 0x3000, 0x0C00, 0x0300, 0xF0C0, 0xF000, 0x0000],
    [0x0F00, 0x30C0, 0x0CC0, 0x0300, 0xCCC0, 0x30C0, 0xCF00, 0x0000],
    [0x0F00, 0x0C00, 0x0300, 0x0000, 0x0000, 0x0000, 0x0000, 0x0000],
    [0x3000, 0x0C00, 0x0300, 0x0300, 0x0300, 0x0C00, 0x3000, 0x0000],
    [0x0300, 0x0C00, 0x3000, 0x3000, 0x3000, 0x0C00, 0x0300, 0x0000],
    [0x0000, 0x0C00, 0xCCC0, 0x3F00, 0xCCC0, 0x0C00, 0x0000, 0x0000],
    [0x0000, 0x0C00, 0x0C00, 0xFFC0, 0x0C00, 0x0C00, 0x0000, 0x0000],
    [0x0000, 0x0000, 0x0000, 0x0000, 0x0F00, 0x0C00, 0x0300, 0x0000],
    [0x0000, 0x0000, 0x0000, 0xFFC0, 0x0000, 0x0000, 0x0000, 0x0000],
    [0x0000, 0x0000, 0x0000, 0x0000, 0x0000, 0x0F00, 0x0F00, 0x0000],
    [0x0000, 0xC000, 0x3000, 0x0C00, 0x0300, 0x00C0, 0x0000, 0x0000],
    [0x3F00, 0xC0C0, 0xF0C0, 0xCCC0, 0xC3C0, 0xC0C0, 0x3F00, 0x0000],
    [0x0C00, 0x0F00, 0x0C00, 0x0C00, 0x0C00, 0x0C00, 0x3F00, 0x0000],
    [0x3F00, 0xC0C0, 0xC000, 0x3000, 0x0C00, 0x0300, 0xFFC0, 0x0000],
    [0xFFC0, 0x3000, 0x0C00, 0x3000, 0xC000, 0xC0C0, 0x3F00, 0x0000],
    [0x3000, 0x3C00, 0x3300, 0x30C0, 0xFFC0, 0x3000, 0x3000, 0x0000],
    [0xFFC0, 0x00C0, 0x3FC0, 0xC000, 0xC000, 0xC0C0, 0x3F00, 0x0000],
    [0x3C00, 0x0300, 0x00C0, 0x3FC0, 0xC0C0, 0xC0C0, 0x3F00, 0x0000],
    [0xFFC0, 0xC000, 0x3000, 0x0C00, 0x0C00, 0x0C00, 0x0C00, 0x0000],
    [0x3FC0, 0xC0C0, 0xC0C0, 0x3F00, 0xC0C0, 0xC0C0, 0x3F00, 0x0000],
    [0x3F00, 0xC0C0, 0xC0C0, 0xFF00, 0xC000, 0x3000, 0x0F00, 0x0000],
    [0x0000, 0x0F00, 0x0F00, 0x0000, 0x0F00, 0x0F00, 0x0000, 0x0000],
    [0x0000, 0x0F00, 0x0F00, 0x0000, 0x0F00, 0x0C00, 0x0300, 0x0000],
    [0x3000, 0x0C00, 0x0300, 0x00C0, 0x0300, 0x0C00, 0x3000, 0x0000],
    [0x0000, 0x0000, 0xFFC0, 0x0000, 0xFFC0, 0x0000, 0x0000, 0x0000],
    [0x0300, 0x0C00, 0x3000, 0xC000, 0x3000, 0x0C00, 0x0300, 0x0000],
    [0x3F00, 0xC0C0, 0xC000, 0x3000, 0x0C00, 0x0000, 0x0C00, 0x0000],
    [0x3F00, 0xC0C0, 0xC000, 0xCF00, 0xCCC0, 0xCCC0, 0x3F00, 0x0000],
    [0x3F00, 0xC0C0, 0xC0C0, 0xC0C0, 0xFFC0, 0xC0C0, 0xC0C0, 0x0000],
    [0x3FC0, 0xC300, 0xC300, 0x3F00, 0xC300, 0xC300, 0x3FC0, 0x0000],
    [0x3F00, 0xC0C0, 0x00C0, 0x00C0, 0x00C0, 0xC0C0, 0x3F00, 0x0000],
    [0x3FC0, 0xC300, 0xC300, 0xC300, 0xC300, 0xC300, 0x3FC0, 0x0000],
    [0xFFC0, 0x00C0, 0x00C0, 0xFFC0, 0x00C0, 0x00C0, 0xFFC0, 0x0000],
    [0xFFC0, 0x00C0, 0x00C0, 0x3FC0, 0x00C0, 0x00C0, 0x00C0, 0x0000],
    [0x3F00, 0xC0C0, 0x00C0, 0xF0C0, 0xC0C0, 0xC0C0, 0xFF00, 0x0000],
    [0xC0C0, 0xC0C0, 0xC0C0, 0xFFC0, 0xC0C0, 0xC0C0, 0xC0C0, 0x0000],
    [0x3F00, 0x0C00, 0x0C00, 0x0C00, 0x0C00, 0x0C00, 0x3F00, 0x0000],
    [0xFC00, 0x3000, 0x3000, 0x3000, 0x3000, 0x30C0, 0x0F00, 0x0000],
    [0xC0C0, 0x30C0, 0x0CC0, 0x03C0, 0x0CC0, 0x30C0, 0xC0C0, 0x0000],
    [0x00C0, 0x00C0, 0x00C0, 0x00C0, 0x00C0, 0x00C0, 0xFFC0, 0x0000],
    [0xC0C0, 0xF3C0, 0xCCC0, 0xCCC0, 0xC0C0, 0xC0C0, 0xC0C0, 0x0000],
    [0xC0C0, 0xC3C0, 0xC3C0, 0xCCC0, 0xF0C0, 0xF0C0, 0xC0C0, 0x0000],
    [0x3F00, 0xC0C0, 0xC0C0, 0xC0C0, 0xC0C0, 0xC0C0, 0x3F00, 0x0000],
    [0x3FC0, 0xC0C0, 0xC0C0, 0x3FC0, 0x00C0, 0x00C0, 0x00C0, 0x0000],
    [0x3F00, 0xC0C0, 0xC0C0, 0xC0C0, 0xCCC0, 0x30C0, 0xCFC0, 0x0000],
    [0x3FC0, 0xC0C0, 0xC0C0, 0x3FC0, 0x0CC0, 0x30C0, 0xC0C0, 0x0000],
    [0x3F00, 0xC0C0, 0x00C0, 0x3F00, 0xC000, 0xC0C0, 0x3F00, 0x0000],
    [0xFFC0, 0x0C00, 0x0C00, 0x0C00, 0x0C00, 0x0C00, 0x0C00, 0x0000],
    [0xC0C0, 0xC0C0, 0xC0C0, 0xC0C0, 0xC0C0, 0xC0C0, 0x3F00, 0x0000],
    [0xC0C0, 0xC0C0, 0xC0C0, 0xC0C0, 0xC0C0, 0x3300, 0x0C00, 0x0000],
    [0xC0C0, 0xC0C0, 0xC0C0, 0xCCC0, 0xCCC0, 0xF3C0, 0xC0C0, 0x0000],
    [0xC0C0, 0xC0C0, 0x3300, 0x0C00, 0x3300, 0xC0C0, 0xC0C0, 0x0000],
    [0xC0C0, 0xC0C0, 0xC0C0, 0x3300, 0x0C00, 0x0C00, 0x0C00, 0x0000],
    [0xFFC0, 0xC000, 0x3000, 0x0C00, 0x0300, 0x00C0, 0xFFC0, 0x0000],
    [0x3F00, 0x0300, 0x0300, 0x0300, 0x0300, 0x0300, 0x3F00, 0x0000],
    [0x00C0, 0x0300, 0x0C00, 0x3000, 0xC000, 0x0000, 0x0000, 0x0000],
    [0x3F00, 0x3000, 0x3000, 0x3000, 0x3000, 0x3000, 0x3F00, 0x0000],
    [0x0C00, 0x3300, 0xC0C0, 0x0000, 0x0000, 0x0000, 0x0000, 0x0000],
    [0x0000, 0x0000, 0x0000, 0x0000, 0x0000, 0x0000, 0xFFC0, 0x0000],
    [0x00C0, 0x0300, 0x0C00, 0x0000, 0x0000, 0x0000, 0x0000, 0x0000],
    [0x0000, 0x0000, 0x3F00, 0xC000, 0xFF00, 0xC0C0, 0xFF00, 0x0000],
    [0x00C0, 0x00C0, 0x3CC0, 0xC3C0, 0xC0C0, 0xC0C0, 0x3FC0, 0x0000],
    [0x0000, 0x0000, 0x3F00, 0xC0C0, 0x00C0, 0xC0C0, 0x3F00, 0x0000],
    [0xC000, 0xC000, 0xCF00, 0xF0C0, 0xC0C0, 0xC0C0, 0xFF00, 0x0000],
    [0x0000, 0x0000, 0x3F00, 0xC0C0, 0xFFC0, 0x00C0, 0x3F00, 0x0000],
    [0x3000, 0xCC00, 0x0C00, 0x3F00, 0x0C00, 0x0C00, 0x0C00, 0x0000],
    [0x0000, 0xCF00, 0xF0C0, 0xF0C0, 0xCF00, 0xC000, 0x3F00, 0x0000],
    [0x00C0, 0x00C0, 0x3CC0, 0xC3C0, 0xC0C0, 0xC0C0, 0xC0C0, 0x0000],
    [0x0C00, 0x0000, 0x0F00, 0x0C00, 0x0C00, 0x0C00, 0x3F00, 0x0000],
    [0x3000, 0x0000, 0x3C00, 0x3000, 0x3000, 0x30C0, 0x0F00, 0x0000],
    [0x0300, 0x0300, 0xC300, 0x3300, 0x0F00, 0x3300, 0xC300, 0x0000],
    [0x0F00, 0x0C00, 0x0C00, 0x0C00, 0x0C00, 0x0C00, 0x3F00, 0x0000],
    [0x0000, 0x0000, 0x33C0, 0xCCC0, 0xCCC0, 0xCCC0, 0xCCC0, 0x0000],
    [0x0000, 0x0000, 0x3CC0, 0xC3C0, 0xC0C0, 0xC0C0, 0xC0C0, 0x0000],
    [0x0000, 0x0000, 0x3F00, 0xC0C0, 0xC0C0, 0xC0C0, 0x3F00, 0x0000],
    [0x0000, 0x3CC0, 0xC3C0, 0xC3C0, 0x3CC0, 0x00C0, 0x00C0, 0x0000],
    [0x0000, 0xCF00, 0xF0C0, 0xF0C0, 0xCF00, 0xC000, 0xC000, 0x0000],
    [0x0000, 0x0000, 0x3CC0, 0xC3C0, 0x00C0, 0x00C0, 0x00C0, 0x0000],
    [0x0000, 0x0000, 0xFF00, 0x00C0, 0x3FC0, 0xC000, 0xFFC0, 0x0000],
    [0x0300, 0x0300, 0x0FC0, 0x0300, 0x0300, 0xC300, 0x3C00, 0x0000],
    [0x0000, 0x0000, 0x30C0, 0x30C0, 0x30C0, 0x30C0, 0xCF00, 0x0000],
    [0x0000, 0x0000, 0xC0C0, 0xC0C0, 0xC0C0, 0x3300, 0x0C00, 0x0000],
    [0x0000, 0x0000, 0xC0C0, 0xC0C0, 0xCCC0, 0xCCC0, 0x3300, 0x0000],
    [0x0000, 0x0000, 0xC0C0, 0x3300, 0x0C00, 0x3300, 0xC0C0, 0x0000],
    [0x0000, 0x0000, 0xC0C0, 0xC0C0, 0xF0C0, 0xCF00, 0xC000, 0x3F00],
    [0x0000, 0x0000, 0xFFC0, 0x3000, 0x0C00, 0x0300, 0xFFC0, 0x0000],
    [0x3000, 0x0C00, 0x0C00, 0x0300, 0x0C00, 0x0C00, 0x3000, 0x0000],
    [0x0C00, 0x0C00, 0x0C00, 0x0000, 0x0C00, 0x0C00, 0x0C00, 0x0000],
    [0x0300, 0x0C00, 0x0C00, 0x3000, 0x0C00, 0x0C00, 0x0300, 0x0000],
    [0x0300, 0xCCC0, 0x3000, 0x0000, 0x0000, 0x0000, 0x0000, 0x0000]] @ replicate 33 blank_glyph"

text \<open>\<open>charset[data][i]\<close>, for the codes and raster rows the table has.\<close>

definition glyph_row :: "nat \<Rightarrow> nat \<Rightarrow> u16" where
  "glyph_row ch i = charset ! ch ! i"

lemma length_charset: "length charset = 160"
  by (simp add: charset_def)

lemma charset_rows: "list_all (\<lambda>r. length r = 8) charset"
  by (simp add: charset_def blank_glyph_def numeral_eq_Suc)

lemma glyph_width: "c < 160 \<Longrightarrow> length (charset ! c) = 8"
  using charset_rows by (simp add: list_all_length length_charset)

lemma glyph_space: "i < 8 \<Longrightarrow> glyph_row 32 i = 0"
  by (cases i rule: nat.exhaust)
    (auto simp: glyph_row_def charset_def blank_glyph_def nth_append less_Suc_eq numeral_eq_Suc)

end
