(* ===== verification/Lcd.thy ===== *)
theory Lcd
  imports Font
begin

text \<open>
  The text display of \<open>drivers/char/creator-pxa270-lcd.c\<close>: the statics of the driver's LCD part,
  the two bus ports the panel hangs on, and one definition per function, from \<open>WriteLCD\<close> up to
  \<open>LCD_putchar\<close> and the power-on sequence.

  Reads and writes of the two memory-mapped ports \<open>LCD_CMD\<close> and \<open>LCD_DATA\<close> are volatile and their
  order matters to the panel, so the state records them as a trace, oldest first. The empty
  function \<open>OptimizationDelay\<close> and the timed \<open>mdelay\<close> have no other effect and are left out.
\<close>

section \<open>The ports and the statics\<close>

datatype bus = CMD u16 | DAT u16

record lcdtxt =
  Xpos :: u8
  Ypos :: u8
  ScrWidth :: u8
  ScrHeight :: u8
  YScrollOffset :: u8
  byFontHeight :: u8
  byFontWidth :: u8
  byCursorOn :: u8
  byCursorMode :: u8
  lcd_bus :: "bus list"

text \<open>The driver's statics before the module is initialised: all zero, nothing on the bus.\<close>

definition lcdtxt_bss :: lcdtxt where
  "lcdtxt_bss = \<lparr>Xpos = 0, Ypos = 0, ScrWidth = 0, ScrHeight = 0, YScrollOffset = 0,
     byFontHeight = 0, byFontWidth = 0, byCursorOn = 0, byCursorMode = 0, lcd_bus = []\<rparr>"

text \<open>\<open>enum LCDCommand\<close>.\<close>

definition LCD_START_OSC :: u16 where "LCD_START_OSC = 0"
definition LCD_DRV_OUT :: u16 where "LCD_DRV_OUT = 1"
definition LCD_WAVEFORM :: u16 where "LCD_WAVEFORM = 2"
definition LCD_PWR_CONTROL :: u16 where "LCD_PWR_CONTROL = 3"
definition LCD_CONTRAST :: u16 where "LCD_CONTRAST = 4"
definition LCD_ENTRY_MODE :: u16 where "LCD_ENTRY_MODE = 5"
definition LCD_ROTATION :: u16 where "LCD_ROTATION = 6"
definition LCD_DISPLAY :: u16 where "LCD_DISPLAY = 7"
definition LCD_CURSOR :: u16 where "LCD_CURSOR = 8"
definition LCD_DB_HEIGHT :: u16 where "LCD_DB_HEIGHT = 9"
definition LCD_VET_SCROLL :: u16 where "LCD_VET_SCROLL = 0xa"
definition LCD_HOR_CURSOR_POS :: u16 where "LCD_HOR_CURSOR_POS = 0xb"
definition LCD_VER_CURSOR_POS :: u16 where "LCD_VER_CURSOR_POS = 0xc"
definition LCD_RAM_MASK :: u16 where "LCD_RAM_MASK = 0x10"
definition LCD_RAM_ADDR :: u16 where "LCD_RAM_ADDR = 0x11"
definition LCD_RAM_DATA :: u16 where "LCD_RAM_DATA = 0x12"

lemmas lcd_regs = LCD_START_OSC_def LCD_DRV_OUT_def LCD_WAVEFORM_def LCD_PWR_CONTROL_def
  LCD_CONTRAST_def LCD_ENTRY_MODE_def LCD_ROTATION_def LCD_DISPLAY_def LCD_CURSOR_def
  LCD_DB_HEIGHT_def LCD_VET_SCROLL_def LCD_HOR_CURSOR_POS_def LCD_VER_CURSOR_POS_def
  LCD_RAM_MASK_def LCD_RAM_ADDR_def LCD_RAM_DATA_def

definition TABS :: nat where "TABS = 4"

definition BLACK_BLINK_CURSOR :: u8 where "BLACK_BLINK_CURSOR = 1"

section \<open>The operations\<close>

definition WriteLCD :: "u16 \<Rightarrow> u16 \<Rightarrow> lcdtxt \<Rightarrow> lcdtxt" where
  "WriteLCD addr data s = s\<lparr>lcd_bus := lcd_bus s @
     [CMD 0xff, CMD addr, DAT (drop_bit 8 data), DAT data]\<rparr>"

definition LCD_PutRAMData :: "u16 \<Rightarrow> u16 \<Rightarrow> lcdtxt \<Rightarrow> lcdtxt" where
  "LCD_PutRAMData address data s = WriteLCD LCD_RAM_DATA data (WriteLCD LCD_RAM_ADDR address s)"

definition LCD_ClearViewArea :: "lcdtxt \<Rightarrow> lcdtxt" where
  "LCD_ClearViewArea s =
     WriteLCD LCD_VET_SCROLL 0 ((WriteLCD LCD_RAM_DATA 0 ^^ 0x800) (WriteLCD LCD_RAM_ADDR 0 s))"

text \<open>
  \<open>x\<close> and \<open>y\<close> are \<open>int\<close>; the register values are the low 16 bits of the \<open>int\<close> expressions, and
  the position is kept in two \<open>unsigned char\<close>.
\<close>

definition LCD_SetCursor :: "int \<Rightarrow> int \<Rightarrow> lcdtxt \<Rightarrow> lcdtxt" where
  "LCD_SetCursor x y s =
     (let HS = word_of_int (x * uint (byFontWidth s)) :: u16;
          HE = word_of_int (uint HS + (uint (byFontWidth s) - 1)) :: u16;
          s1 = WriteLCD LCD_HOR_CURSOR_POS (word_of_int (uint HE * 256 + uint HS)) s;
          VS = word_of_int ((y + 1) * uint (byFontHeight s) - 2) :: u16;
          s2 = WriteLCD LCD_VER_CURSOR_POS (word_of_int ((uint VS + 1) * 256 + uint VS)) s1
      in s2\<lparr>Xpos := word_of_int x, Ypos := word_of_int y\<rparr>)"

definition LCD_GetCursor :: "lcdtxt \<Rightarrow> u8 \<times> u8" where
  "LCD_GetCursor s = (Xpos s, Ypos s)"

definition LCD_ClearScreen :: "lcdtxt \<Rightarrow> lcdtxt" where
  "LCD_ClearScreen s =
     (let s1 = (LCD_ClearViewArea s)\<lparr>Xpos := 0, Ypos := 0, YScrollOffset := 0\<rparr>;
          s2 = WriteLCD LCD_VET_SCROLL 0 s1
      in LCD_SetCursor (uint (Xpos s2)) (uint (Ypos s2)) s2)"

text \<open>The character the font is asked for: everything outside \<open>0x20\<close> to \<open>0x7E\<close> is a blank.\<close>

definition displ_data :: "int \<Rightarrow> nat" where
  "displ_data ch = (if 0x20 \<le> ch \<and> ch \<le> 0x7E then nat ch else 0x20)"

text \<open>The loop over the raster rows: \<open>addr\<close> is an \<open>unsigned short\<close> and wraps.\<close>

definition displ_rows :: "nat \<Rightarrow> u16 \<Rightarrow> nat \<Rightarrow> lcdtxt \<Rightarrow> lcdtxt" where
  "displ_rows n addr data s =
     fold (\<lambda>i. LCD_PutRAMData (addr + of_nat i * 0x10) (glyph_row data i)) [0..<n] s"

definition LCD_displ :: "int \<Rightarrow> int \<Rightarrow> int \<Rightarrow> lcdtxt \<Rightarrow> lcdtxt" where
  "LCD_displ x y ch s =
     (let data = displ_data ch;
          YRelation = y - uint (YScrollOffset s);
          addr = word_of_int (x + YRelation * 0x80) :: u16
      in displ_rows (unat (byFontWidth s)) addr data s)"

definition LCD_ClearOneLine :: "int \<Rightarrow> lcdtxt \<Rightarrow> lcdtxt" where
  "LCD_ClearOneLine y s =
     (fold (\<lambda>x. LCD_displ (int x) y 0x20) [0..<unat (ScrWidth s)] s)\<lparr>Xpos := 0\<rparr>"

definition LCD_scroll :: "lcdtxt \<Rightarrow> lcdtxt" where
  "LCD_scroll s =
     (let s1 = (if YScrollOffset s = 0
                then s\<lparr>YScrollOffset := ScrHeight s - 1\<rparr>
                else s\<lparr>YScrollOffset := YScrollOffset s - 1\<rparr>);
          s2 = WriteLCD LCD_VET_SCROLL
                 (word_of_int (uint (byFontHeight s1) * (uint (Ypos s1) - uint (YScrollOffset s1) + 1))) s1
      in LCD_ClearOneLine (uint (Ypos s2)) s2)"

subsection \<open>LCD_putchar\<close>

text \<open>
  \<open>LCD_putchar\<close> calls itself: with a newline from the \<open>default\<close> branch, and with blanks from the
  tab branch. The three branches are three definitions, each ending with the cursor update of the
  last lines of the function; \<open>LCD_putchar\<close> dispatches.
\<close>

definition putchar_cursor :: "lcdtxt \<Rightarrow> lcdtxt" where
  "putchar_cursor s =
     (if byCursorOn s \<noteq> 0 then LCD_SetCursor (uint (Xpos s)) (uint (Ypos s)) s else s)"

definition putchar_newline :: "lcdtxt \<Rightarrow> lcdtxt" where
  "putchar_newline s =
     (let s1 = (if int (unat (Ypos s)) = int (unat (ScrHeight s)) - 1 then LCD_scroll s
                else s\<lparr>Ypos := Ypos s + 1\<rparr>)
      in putchar_cursor (s1\<lparr>Xpos := 0\<rparr>))"

definition putchar_default :: "u8 \<Rightarrow> lcdtxt \<Rightarrow> lcdtxt" where
  "putchar_default c s =
     (let s1 = (if unat (Xpos s) + 1 \<ge> unat (ScrWidth s) then putchar_newline s else s);
          s2 = LCD_displ (uint (Xpos s1)) (uint (Ypos s1)) (uint c) (s1\<lparr>Xpos := Xpos s1 + 1\<rparr>)
      in putchar_cursor s2)"

text \<open>
  The \<open>do ... while (Xpos%TABS)\<close> loop of the tab branch. Nothing in the function bounds it, so it is
  an option: \<open>None\<close> is a loop that never ends, which is what happens before \<open>ScrWidth\<close> is set.
\<close>

partial_function (option) putchar_tab :: "lcdtxt \<Rightarrow> lcdtxt option" where
  "putchar_tab s =
     (let s' = putchar_default 0x20 s
      in if unat (Xpos s') mod TABS \<noteq> 0 then putchar_tab s' else Some s')"

definition LCD_putchar :: "u8 \<Rightarrow> lcdtxt \<Rightarrow> lcdtxt option" where
  "LCD_putchar c s =
     (if c = 0x0a then Some (putchar_newline s)
      else if c = 0x09 then map_option putchar_cursor (putchar_tab s)
      else Some (putchar_default c s))"

text \<open>A run of characters, as the write loops of the driver make it.\<close>

fun LCD_puts :: "u8 list \<Rightarrow> lcdtxt \<Rightarrow> lcdtxt option" where
  "LCD_puts [] s = Some s"
| "LCD_puts (c # cs) s = Option.bind (LCD_putchar c s) (LCD_puts cs)"

subsection \<open>Cursor mode, full images and the power-on sequence\<close>

definition LCD_CursorMode :: "u8 \<Rightarrow> lcdtxt \<Rightarrow> lcdtxt" where
  "LCD_CursorMode Mode s = s\<lparr>byCursorMode := Mode AND 0x3\<rparr>"

definition LCD_EnableCursor :: "u8 \<Rightarrow> lcdtxt \<Rightarrow> lcdtxt" where
  "LCD_EnableCursor bCursorOn s =
     (let s1 = s\<lparr>byCursorOn := bCursorOn\<rparr>;
          data = (if byCursorOn s1 \<noteq> 0 then ucast (byCursorMode s1 OR 0x04) else 0) :: u16
      in WriteLCD LCD_CURSOR data s1)"

definition LCD_DrawFullImage :: "u16 list \<Rightarrow> lcdtxt \<Rightarrow> lcdtxt" where
  "LCD_DrawFullImage pImageBuffer s =
     fold (\<lambda>i. WriteLCD LCD_RAM_DATA (pImageBuffer ! i)) [0..<0x800] (WriteLCD LCD_RAM_ADDR 0 s)"

definition InitialLCD :: "lcdtxt \<Rightarrow> lcdtxt" where
  "InitialLCD s =
     (let s0 = s\<lparr>lcd_bus := lcd_bus s @ [CMD 0, CMD 0, CMD 0, CMD 0]\<rparr>;
          s1 = WriteLCD LCD_START_OSC 1 s0;
          s2 = WriteLCD LCD_DRV_OUT 0x030f s1;
          s3 = WriteLCD LCD_WAVEFORM 0 s2;
          s4 = WriteLCD LCD_PWR_CONTROL 0x23c s3;
          s5 = WriteLCD LCD_CONTRAST 0x18 s4;
          s6 = WriteLCD LCD_ENTRY_MODE 0x10 s5;
          s7 = WriteLCD LCD_ROTATION 0 s6;
          s8 = WriteLCD LCD_CURSOR 4 s7;
          s9 = WriteLCD LCD_DB_HEIGHT 0 s8;
          s10 = WriteLCD LCD_VET_SCROLL 0 s9;
          s11 = WriteLCD LCD_HOR_CURSOR_POS 0 s10;
          s12 = WriteLCD LCD_RAM_MASK 0 s11;
          s13 = WriteLCD LCD_RAM_ADDR 0 s12;
          s14 = WriteLCD LCD_DISPLAY 1 s13
      in LCD_ClearScreen s14)"

definition Initial_LCD :: "lcdtxt \<Rightarrow> lcdtxt" where
  "Initial_LCD s =
     (let s1 = s\<lparr>byFontHeight := 8, byFontWidth := 8\<rparr>;
          s2 = s1\<lparr>ScrWidth := word_of_int (128 div uint (byFontWidth s1)),
                  ScrHeight := word_of_int (128 div uint (byFontHeight s1))\<rparr>;
          s3 = InitialLCD s2
      in LCD_EnableCursor 0 (LCD_CursorMode BLACK_BLINK_CURSOR s3))"

end
