(* ===== verification/LcdPanel.thy ===== *)
theory LcdPanel
  imports Lcd
begin

text \<open>
  What the bus traffic of the text display means, and the display seen as a terminal.

  The panel is read as the driver's comments document it: an index register and a data register of
  16 bits behind 8-bit ports, most significant byte first; a display memory of \<open>0x800\<close> words
  (\<open>AD10-0\<close>) whose address moves on by one after each data write (\<open>I/D=1:Increment by 1\<close>,
  \<open>AM1-0=00:Horizontal move\<close>), sixteen words to a raster row; and a vertical scroll register
  that names the raster row shown at the top (\<open>SL6-0 ... First raster-row displayed at the top\<close>).
  Nothing here is used by the driver's definitions; it is the yardstick they are measured with.

  The abstract terminal is sixteen rows of sixteen characters and a position. The main result of
  this theory is the simulation between the two: a character put by the driver is the character put
  on the terminal, the circular use of the display memory by \<open>LCD_scroll\<close> included.
\<close>

section \<open>The panel\<close>

record panel =
  cmd_msb :: "u16 option"
  cmd_idx :: u16
  dat_msb :: "u16 option"
  ram_addr :: nat
  ram :: "nat \<Rightarrow> u16"
  scroll_reg :: nat
  hcur_reg :: u16
  vcur_reg :: u16
  cursor_reg :: u16

definition panel_reset :: panel where
  "panel_reset = \<lparr>cmd_msb = None, cmd_idx = 0, dat_msb = None, ram_addr = 0, ram = (\<lambda>_. 0),
     scroll_reg = 0, hcur_reg = 0, vcur_reg = 0, cursor_reg = 0\<rparr>"

definition reg_write :: "u16 \<Rightarrow> u16 \<Rightarrow> panel \<Rightarrow> panel" where
  "reg_write a d p =
     (if a = LCD_RAM_ADDR then p\<lparr>cmd_idx := a, ram_addr := unat d mod 0x800\<rparr>
      else if a = LCD_RAM_DATA then p\<lparr>cmd_idx := a, ram := (ram p)(ram_addr p := d),
                                      ram_addr := (ram_addr p + 1) mod 0x800\<rparr>
      else if a = LCD_VET_SCROLL then p\<lparr>cmd_idx := a, scroll_reg := unat d mod 0x80\<rparr>
      else if a = LCD_HOR_CURSOR_POS then p\<lparr>cmd_idx := a, hcur_reg := d\<rparr>
      else if a = LCD_VER_CURSOR_POS then p\<lparr>cmd_idx := a, vcur_reg := d\<rparr>
      else if a = LCD_CURSOR then p\<lparr>cmd_idx := a, cursor_reg := d\<rparr>
      else p\<lparr>cmd_idx := a\<rparr>)"

definition two_bytes :: "u16 \<Rightarrow> u16 \<Rightarrow> u16" where
  "two_bytes h l = push_bit 8 (h AND 0xff) OR (l AND 0xff)"

fun bus_step :: "bus \<Rightarrow> panel \<Rightarrow> panel" where
  "bus_step (CMD v) p =
     (case cmd_msb p of
        None \<Rightarrow> p\<lparr>cmd_msb := Some v\<rparr>
      | Some h \<Rightarrow> p\<lparr>cmd_msb := None, cmd_idx := v AND 0xff\<rparr>)"
| "bus_step (DAT v) p =
     (case dat_msb p of
        None \<Rightarrow> p\<lparr>dat_msb := Some v\<rparr>
      | Some h \<Rightarrow> reg_write (cmd_idx p) (two_bytes h v) (p\<lparr>dat_msb := None\<rparr>))"

definition panel_of :: "lcdtxt \<Rightarrow> panel" where
  "panel_of s = fold bus_step (lcd_bus s) panel_reset"

definition bus_idle :: "panel \<Rightarrow> bool" where
  "bus_idle p \<longleftrightarrow> cmd_msb p = None \<and> dat_msb p = None"

text \<open>Raster row \<open>k\<close> of the glass, word column \<open>c\<close>.\<close>

definition glass :: "panel \<Rightarrow> nat \<Rightarrow> nat \<Rightarrow> u16" where
  "glass p k c = ram p (((scroll_reg p + k) mod 0x80) * 0x10 + c)"

lemma two_bytes_split: "two_bytes (drop_bit 8 d) d = d"
  unfolding two_bytes_def and_255
  by (rule bit_word_eqI) (auto simp: bit_or_iff bit_push_bit_iff bit_take_bit_iff bit_drop_bit_eq)

lemma reg_write_idle [simp]: "bus_idle (reg_write a d p) = bus_idle p"
  by (simp add: reg_write_def bus_idle_def)

text \<open>The four port writes of \<open>WriteLCD\<close> are one register write to an idle panel.\<close>

lemma panel_of_WriteLCD:
  assumes "bus_idle (panel_of s)" "a AND 0xff = a"
  shows "panel_of (WriteLCD a d s) = reg_write a d (panel_of s)"
  using assms
  by (simp add: panel_of_def WriteLCD_def bus_idle_def two_bytes_split reg_write_def)

section \<open>Addresses\<close>

text \<open>The word of raster row \<open>k\<close> and word column \<open>c\<close> of the circular display memory.\<close>

definition slot :: "nat \<Rightarrow> nat \<Rightarrow> nat" where
  "slot k c = (k mod 0x80) * 0x10 + c"

lemma slot_inj:
  assumes "slot (b + k) c = slot (b + l) x" "k < 128" "l < 128" "c < 16" "x < 16"
  shows "k = l \<and> c = x"
proof -
  have "(b + k) mod 128 = (b + l) mod 128" "c = x"
    using row_col_inj [of "(b + k) mod 128" 16 c "(b + l) mod 128" x] assms
    by (simp_all add: slot_def)
  then show ?thesis using mod_shift_inj [of b k 128 l] assms by simp
qed

lemma cell_row_inj:
  assumes "8 * r + j = 8 * y + i" "i < 8" "j < (8::nat)"
  shows "r = y \<and> j = i"
  using assms by presburger

lemma glass_slot: "glass p k c = ram p (slot (scroll_reg p + k) c)"
  by (simp add: glass_def slot_def)

lemma unat_addr_step:
  "unat ((a :: u16) + of_nat i * 0x10) mod 0x800 = (unat a + i * 0x10) mod 0x800"
proof -
  have "unat (a + of_nat i * 0x10) = (unat a + i * 16) mod 65536"
    by (simp add: unat_word_ariths unat_of_nat mod_add_right_eq mod_mult_left_eq)
  then show ?thesis by (simp add: mod_mod_cancel)
qed

lemma panel_of_PutRAMData:
  assumes "bus_idle (panel_of s)"
  shows "panel_of (LCD_PutRAMData a d s) = (panel_of s)\<lparr>cmd_idx := LCD_RAM_DATA,
     ram := (ram (panel_of s))(unat a mod 0x800 := d), ram_addr := (unat a mod 0x800 + 1) mod 0x800\<rparr>"
  using assms
  by (simp add: LCD_PutRAMData_def panel_of_WriteLCD lcd_regs) (simp add: reg_write_def lcd_regs)
section \<open>One character cell\<close>

text \<open>An operation that only talks to the bus.\<close>

definition bus_only :: "lcdtxt \<Rightarrow> lcdtxt \<Rightarrow> bool" where
  "bus_only s s' \<longleftrightarrow> s' = s\<lparr>lcd_bus := lcd_bus s'\<rparr>"

lemma bus_onlyD:
  assumes "bus_only s s'"
  shows "Xpos s' = Xpos s" "Ypos s' = Ypos s" "ScrWidth s' = ScrWidth s" "ScrHeight s' = ScrHeight s"
    "YScrollOffset s' = YScrollOffset s" "byFontHeight s' = byFontHeight s"
    "byFontWidth s' = byFontWidth s" "byCursorOn s' = byCursorOn s" "byCursorMode s' = byCursorMode s"
  using assms unfolding bus_only_def by (metis lcdtxt.select_convs lcdtxt.surjective lcdtxt.update_convs(10))+

lemma bus_only_refl [simp]: "bus_only s s"
  by (simp add: bus_only_def)

lemma bus_only_trans: "bus_only s t \<Longrightarrow> bus_only t u \<Longrightarrow> bus_only s u"
  by (cases s, cases t, cases u) (simp add: bus_only_def)

lemma bus_only_WriteLCD [simp]: "bus_only s (WriteLCD a d s)"
  by (simp add: bus_only_def WriteLCD_def)

lemma bus_only_PutRAMData [simp]: "bus_only s (LCD_PutRAMData a d s)"
  unfolding LCD_PutRAMData_def by (meson bus_only_WriteLCD bus_only_trans)

lemma bus_only_displ_rows [simp]: "bus_only s (displ_rows n a data s)"
  unfolding displ_rows_def
  by (rule fold_invariant_upto) (auto intro: bus_only_trans)

lemma bus_only_displ [simp]: "bus_only s (LCD_displ x y ch s)"
  by (simp add: LCD_displ_def Let_def)

lemma displ_rows_Suc: "displ_rows (Suc n) a data s =
    LCD_PutRAMData (a + of_nat n * 0x10) (glyph_row data n) (displ_rows n a data s)"
  unfolding displ_rows_def by (subst upt_Suc_append) (unfold fold_append o_apply fold_simps, rule le0, rule refl)

lemma panel_of_displ_rows:
  assumes "bus_idle (panel_of s)"
  shows "bus_idle (panel_of (displ_rows n a data s)) \<and>
    scroll_reg (panel_of (displ_rows n a data s)) = scroll_reg (panel_of s) \<and>
    ram (panel_of (displ_rows n a data s)) =
      fold (\<lambda>i m. m((unat a + i * 0x10) mod 0x800 := glyph_row data i)) [0..<n] (ram (panel_of s))"
proof (induction n)
  case 0
  then show ?case using assms by (simp add: displ_rows_def)
next
  case (Suc n)
  let ?s = "displ_rows n a data s"
  from Suc have idle: "bus_idle (panel_of ?s)" by blast
  show ?case
    unfolding displ_rows_Suc panel_of_PutRAMData [OF idle] unat_addr_step
    using Suc idle unfolding bus_idle_def by simp
qed

text \<open>\<open>off\<close> rows have been scrolled out of the circular memory when the scroll register is this.\<close>

definition scroll_of :: "u8 \<Rightarrow> nat" where
  "scroll_of off = (8 * (16 - unat off)) mod 0x80"

lemma int_scroll_of: "unat off < 16 \<Longrightarrow> int (scroll_of off) = (8 * (16 - uint off)) mod 128"
  by (simp add: scroll_of_def zmod_int of_nat_diff)

lemma displ_addr_int:
  fixes x y w i :: int
  assumes "0 \<le> x" "x < 16"
  shows "((x + (y - w) * 128) mod 65536 + i * 16) mod 2048
       = (((8 * (16 - w)) mod 128 + (8 * y + i)) mod 128) * 16 + x"
proof -
  define q where "q = 8 * (16 - w) + 8 * y + i"
  have "((x + (y - w) * 128) mod 65536 + i * 16) mod 2048
      = ((x + (y - w) * 128) mod 65536 mod 2048 + i * 16) mod 2048"
    by (simp only: mod_add_left_eq)
  also have "\<dots> = (x + (y - w) * 128 + i * 16) mod 2048"
    by (simp add: mod_mod_cancel mod_add_left_eq)
  also have "\<dots> = (q * 16 + x + (-1) * 2048) mod 2048"
    by (rule arg_cong [where f = "\<lambda>z. z mod 2048"]) (simp add: q_def algebra_simps)
  also have "\<dots> = (q * 16 + x) mod 2048"
    by (rule mod_mult_self1)
  also have "\<dots> = (q mod 128) * 16 + x"
    using assms zmod_zmult2_eq [of 128 "q * 16 + x" 16] by simp
  also have "q mod 128 = ((8 * (16 - w)) mod 128 + (8 * y + i)) mod 128"
    unfolding q_def by (simp only: mod_add_left_eq add.assoc)
  finally show ?thesis .
qed

lemma int_unat_word_of_int: "int (unat (word_of_int k :: u16)) = k mod 65536"
  by (simp add: uint_word_of_int del: of_int_add of_int_mult flip: uint_nat)

lemma displ_addr:
  assumes "x < 16" "unat off < 16"
  shows "(unat (word_of_int (int x + (int y - uint off) * 0x80) :: u16) + i * 0x10) mod 0x800
       = slot (scroll_of off + (8 * y + i)) x"
proof -
  have "int ((unat (word_of_int (int x + (int y - uint off) * 0x80) :: u16) + i * 0x10) mod 0x800)
      = ((int x + (int y - uint off) * 128) mod 65536 + int i * 16) mod 2048"
    by (simp only: zmod_int of_nat_add of_nat_mult int_unat_word_of_int of_nat_numeral)
  also have "\<dots> = int (slot (scroll_of off + (8 * y + i)) x)"
    using displ_addr_int [of "int x" "int y" "uint off" "int i"] assms
    by (simp add: slot_def zmod_int int_scroll_of)
  finally show ?thesis by (simp only: of_nat_eq_iff)
qed
definition shown :: "panel \<Rightarrow> nat \<Rightarrow> nat \<Rightarrow> nat \<Rightarrow> u16" where
  "shown p r c j = glass p (8 * r + j) c"

definition txt_panel :: "lcdtxt \<Rightarrow> bool" where
  "txt_panel s \<longleftrightarrow> bus_idle (panel_of s) \<and> scroll_reg (panel_of s) = scroll_of (YScrollOffset s) \<and>
     byFontWidth s = 8 \<and> unat (YScrollOffset s) < 16"

lemma panel_of_displ:
  assumes "txt_panel s" "x < 16" "y < 16"
  shows "txt_panel (LCD_displ (int x) (int y) ch s) \<and>
    (\<forall>r<16. \<forall>c<16. \<forall>j<8. shown (panel_of (LCD_displ (int x) (int y) ch s)) r c j =
      (if r = y \<and> c = x then glyph_row (displ_data ch) j else shown (panel_of s) r c j))"
proof -
  define a where "a = (word_of_int (int x + (int y - uint (YScrollOffset s)) * 0x80) :: u16)"
  define key where "key = (\<lambda>i. slot (scroll_of (YScrollOffset s) + (8 * y + i)) x)"
  let ?d = "LCD_displ (int x) (int y) ch s"
  have key: "(unat a + i * 0x10) mod 0x800 = key i" for i
    using displ_addr [OF assms(2), of "YScrollOffset s" y i] assms(1)
    by (simp only: a_def key_def txt_panel_def)
  have d: "?d = displ_rows 8 a (displ_data ch) s"
    using assms(1) by (simp only: LCD_displ_def Let_def a_def txt_panel_def) simp
  have idle: "bus_idle (panel_of s)" using assms(1) by (simp add: txt_panel_def)
  note P = panel_of_displ_rows [OF idle, of 8 a "displ_data ch", folded d, unfolded key]
  have inj: "inj_on key {..<8}"
    unfolding key_def inj_on_def using assms(2,3)
    by (auto dest!: slot_inj)
  have fr: "bus_only s ?d" by simp
  have panel: "txt_panel ?d"
    using assms(1) P bus_onlyD [OF fr] by (simp add: txt_panel_def)
  have "shown (panel_of ?d) r c j =
      (if r = y \<and> c = x then glyph_row (displ_data ch) j else shown (panel_of s) r c j)"
    if "r < 16" "c < 16" "j < 8" for r c j
  proof -
    have sr: "scroll_reg (panel_of ?d) = scroll_of (YScrollOffset s)"
      using P assms(1) by (simp add: txt_panel_def)
    have loc: "shown (panel_of ?d) r c j = ram (panel_of ?d) (slot (scroll_of (YScrollOffset s) + (8 * r + j)) c)"
      by (simp add: shown_def glass_slot sr)
    have old: "shown (panel_of s) r c j = ram (panel_of s) (slot (scroll_of (YScrollOffset s) + (8 * r + j)) c)"
      using assms(1) by (simp add: shown_def glass_slot txt_panel_def)
    show ?thesis
    proof (cases "r = y \<and> c = x")
      case True
      then have "slot (scroll_of (YScrollOffset s) + (8 * r + j)) c = key j"
        by (simp add: key_def)
      with True fold_upd_at [OF inj that(3), of "glyph_row (displ_data ch)" "ram (panel_of s)"]
      show ?thesis unfolding loc using P by simp
    next
      case False
      have "key i \<noteq> slot (scroll_of (YScrollOffset s) + (8 * r + j)) c" if "i < 8" for i
        using slot_inj [of "scroll_of (YScrollOffset s)" "8 * y + i" x "8 * r + j" c]
          cell_row_inj [of y i r j] \<open>r < 16\<close> \<open>c < 16\<close> \<open>j < 8\<close> \<open>i < 8\<close> assms(2,3) False
        by (auto simp: key_def)
      then have "fold (\<lambda>i m. m(key i := glyph_row (displ_data ch) i)) [0..<8] (ram (panel_of s))
          (slot (scroll_of (YScrollOffset s) + (8 * r + j)) c) =
          ram (panel_of s) (slot (scroll_of (YScrollOffset s) + (8 * r + j)) c)"
        by (rule fold_upd_other)
      with False show ?thesis unfolding loc old using P by auto
    qed
  qed
  with panel show ?thesis by blast
qed
section \<open>The terminal\<close>

record terminal =
  cell :: "nat \<Rightarrow> nat \<Rightarrow> nat"
  crow :: nat
  ccol :: nat

definition t_clear :: terminal where
  "t_clear = \<lparr>cell = (\<lambda>_ _. 32), crow = 0, ccol = 0\<rparr>"

definition t_newline :: "terminal \<Rightarrow> terminal" where
  "t_newline t =
     (if crow t = 15
      then t\<lparr>cell := (\<lambda>r c. if r < 15 then cell t (r + 1) c else 32), ccol := 0\<rparr>
      else t\<lparr>crow := crow t + 1, ccol := 0\<rparr>)"

definition t_print :: "u8 \<Rightarrow> terminal \<Rightarrow> terminal" where
  "t_print ch t =
     (let t' = (if ccol t = 15 then t_newline t else t)
      in t'\<lparr>cell := (cell t')(crow t' := ((cell t') (crow t'))(ccol t' := displ_data (uint ch))),
            ccol := ccol t' + 1\<rparr>)"

text \<open>
  How many blanks a tab is worth: up to the next of the columns 4, 8 and 12, and from column 12 on
  through the end of the line to column 4 of the next one.
\<close>

definition tab_blanks :: "nat \<Rightarrow> nat" where
  "tab_blanks c = (if c < 12 then 4 - c mod 4 else 19 - c)"

definition t_putchar :: "u8 \<Rightarrow> terminal \<Rightarrow> terminal" where
  "t_putchar c t =
     (if c = 0x0a then t_newline t
      else if c = 0x09 then (t_print 0x20 ^^ tab_blanks (ccol t)) t
      else t_print c t)"

definition t_puts :: "u8 list \<Rightarrow> terminal \<Rightarrow> terminal" where
  "t_puts cs t = fold t_putchar cs t"

definition wf_txt :: "lcdtxt \<Rightarrow> bool" where
  "wf_txt s \<longleftrightarrow> ScrWidth s = 16 \<and> ScrHeight s = 16 \<and> byFontHeight s = 8 \<and> byFontWidth s = 8 \<and>
     unat (Xpos s) < 16 \<and> unat (Ypos s) < 16 \<and> unat (YScrollOffset s) < 16"

definition cells_shown :: "lcdtxt \<Rightarrow> (nat \<Rightarrow> nat \<Rightarrow> nat) \<Rightarrow> bool" where
  "cells_shown s f \<longleftrightarrow> (\<forall>r<16. \<forall>c<16. \<forall>j<8. shown (panel_of s) r c j = glyph_row (f r c) j)"

definition displays :: "lcdtxt \<Rightarrow> terminal \<Rightarrow> bool" where
  "displays s t \<longleftrightarrow> wf_txt s \<and> txt_panel s \<and> unat (Xpos s) = ccol t \<and> unat (Ypos s) = crow t \<and>
     cells_shown s (cell t)"

text \<open>Operations that move only registers the cells do not depend on.\<close>

lemma neutral_write:
  assumes "txt_panel s" "a AND 0xff = a" "a \<noteq> LCD_RAM_ADDR" "a \<noteq> LCD_RAM_DATA" "a \<noteq> LCD_VET_SCROLL"
  shows "txt_panel (WriteLCD a d s) \<and> shown (panel_of (WriteLCD a d s)) = shown (panel_of s)"
proof -
  have p: "panel_of (WriteLCD a d s) = reg_write a d (panel_of s)"
    using assms by (intro panel_of_WriteLCD) (simp_all add: txt_panel_def)
  have f: "YScrollOffset (WriteLCD a d s) = YScrollOffset s" "byFontWidth (WriteLCD a d s) = byFontWidth s"
    by (simp_all add: WriteLCD_def)
  show ?thesis using assms unfolding txt_panel_def p f
    by (auto simp: reg_write_def bus_idle_def shown_def glass_def fun_eq_iff)
qed

lemma panel_of_bus: "lcd_bus s = lcd_bus s' \<Longrightarrow> panel_of s = panel_of s'"
  by (simp add: panel_of_def)

lemma panel_of_pos [simp]:
  "panel_of (s\<lparr>Xpos := x\<rparr>) = panel_of s" "panel_of (s\<lparr>Ypos := y\<rparr>) = panel_of s"
  "panel_of (s\<lparr>YScrollOffset := w\<rparr>) = panel_of s"
  by (simp_all add: panel_of_def)

lemma txt_panel_pos [simp]:
  "txt_panel (s\<lparr>Xpos := x\<rparr>) = txt_panel s" "txt_panel (s\<lparr>Ypos := y\<rparr>) = txt_panel s"
  by (simp_all add: txt_panel_def)

lemma cells_shown_pos [simp]:
  "cells_shown (s\<lparr>Xpos := x\<rparr>) f = cells_shown s f" "cells_shown (s\<lparr>Ypos := y\<rparr>) f = cells_shown s f"
  by (simp_all add: cells_shown_def)

lemma SetCursor_frame:
  "Xpos (LCD_SetCursor x y s) = word_of_int x" "Ypos (LCD_SetCursor x y s) = word_of_int y"
  "ScrWidth (LCD_SetCursor x y s) = ScrWidth s" "ScrHeight (LCD_SetCursor x y s) = ScrHeight s"
  "YScrollOffset (LCD_SetCursor x y s) = YScrollOffset s"
  "byFontHeight (LCD_SetCursor x y s) = byFontHeight s"
  "byFontWidth (LCD_SetCursor x y s) = byFontWidth s"
  "byCursorOn (LCD_SetCursor x y s) = byCursorOn s"
  by (simp_all add: LCD_SetCursor_def Let_def WriteLCD_def)

lemma SetCursor_panel:
  assumes "txt_panel s"
  shows "txt_panel (LCD_SetCursor x y s) \<and> shown (panel_of (LCD_SetCursor x y s)) = shown (panel_of s)"
proof -
  define h :: u16 where "h = word_of_int (x * uint (byFontWidth s))"
  define h' :: u16 where "h' = word_of_int (uint (word_of_int (uint h + (uint (byFontWidth s) - 1)) :: u16) * 256 + uint h)"
  define s1 where "s1 = WriteLCD LCD_HOR_CURSOR_POS h' s"
  define v :: u16 where "v = word_of_int ((y + 1) * uint (byFontHeight s) - 2)"
  define s2 where "s2 = WriteLCD LCD_VER_CURSOR_POS (word_of_int ((uint v + 1) * 256 + uint v)) s1"
  have eq: "LCD_SetCursor x y s = s2\<lparr>Xpos := word_of_int x, Ypos := word_of_int y\<rparr>"
    by (simp add: LCD_SetCursor_def Let_def s1_def s2_def v_def h_def h'_def WriteLCD_def)
  have 1: "txt_panel s1 \<and> shown (panel_of s1) = shown (panel_of s)"
    unfolding s1_def using assms by (intro neutral_write) (simp_all add: lcd_regs)
  then have "txt_panel s2 \<and> shown (panel_of s2) = shown (panel_of s1)"
    unfolding s2_def by (intro neutral_write) (simp_all add: lcd_regs)
  with 1 show ?thesis by (simp add: eq)
qed

lemma displays_cursor: "displays s t \<Longrightarrow> displays (putchar_cursor s) t"
  using SetCursor_panel [of s "uint (Xpos s)" "uint (Ypos s)"]
  by (auto simp: putchar_cursor_def displays_def wf_txt_def cells_shown_def SetCursor_frame)

subsection \<open>Clearing a line and scrolling\<close>

lemma displ_data_blank [simp]: "displ_data 32 = 32"
  by (simp add: displ_data_def)

lemma clear_columns:
  assumes "txt_panel s" "y < 16" "n \<le> 16"
  shows "txt_panel (fold (\<lambda>x. LCD_displ (int x) (int y) 32) [0..<n] s) \<and>
    bus_only s (fold (\<lambda>x. LCD_displ (int x) (int y) 32) [0..<n] s) \<and>
    (\<forall>r<16. \<forall>c<16. \<forall>j<8. shown (panel_of (fold (\<lambda>x. LCD_displ (int x) (int y) 32) [0..<n] s)) r c j =
      (if r = y \<and> c < n then glyph_row 32 j else shown (panel_of s) r c j))"
  using assms(3)
proof (induction n)
  case 0
  then show ?case using assms by simp
next
  case (Suc n)
  let ?s = "fold (\<lambda>x. LCD_displ (int x) (int y) 32) [0..<n] s"
  have step: "fold (\<lambda>x. LCD_displ (int x) (int y) 32) [0..<Suc n] s = LCD_displ (int n) (int y) 32 ?s"
    by simp
  from Suc have IH: "txt_panel ?s" "bus_only s ?s" and cells: "\<forall>r<16. \<forall>c<16. \<forall>j<8.
      shown (panel_of ?s) r c j = (if r = y \<and> c < n then glyph_row 32 j else shown (panel_of s) r c j)"
    by auto
  have n: "n < 16" using Suc.prems by simp
  note D = panel_of_displ [OF IH(1) n assms(2), of 32]
  have "bus_only s (LCD_displ (int n) (int y) 32 ?s)"
    using IH(2) bus_only_displ by (rule bus_only_trans)
  then show ?case unfolding step using D cells by (auto simp: less_Suc_eq)
qed

lemma ClearOneLine_spec:
  assumes "txt_panel s" "y < 16" "ScrWidth s = 16"
  shows "txt_panel (LCD_ClearOneLine (int y) s) \<and>
    LCD_ClearOneLine (int y) s = s\<lparr>lcd_bus := lcd_bus (LCD_ClearOneLine (int y) s), Xpos := 0\<rparr> \<and>
    (\<forall>r<16. \<forall>c<16. \<forall>j<8. shown (panel_of (LCD_ClearOneLine (int y) s)) r c j =
      (if r = y then glyph_row 32 j else shown (panel_of s) r c j))"
  using clear_columns [OF assms(1,2), of 16] assms(3)
  by (auto simp: LCD_ClearOneLine_def bus_only_def)

lemma scroll_offset_next:
  assumes "unat off < 16"
  defines "off' \<equiv> if off = 0 then 16 - 1 else off - (1 :: u8)"
  shows "unat off' < 16" "scroll_of off' = (scroll_of off + 8) mod 128"
proof -
  show 1: "unat off' < 16"
    using assms by (auto simp: off'_def unat_minus_one)
  show "scroll_of off' = (scroll_of off + 8) mod 128"
  proof (cases "off = 0")
    case True
    then show ?thesis by (simp add: off'_def scroll_of_def)
  next
    case False
    then have "unat off \<ge> 1" by (simp add: Suc_leI unat_gt_0)
    with assms(1) have "17 - unat off = (16 - unat off) + 1" by simp
    with False assms(1) \<open>unat off \<ge> 1\<close> show ?thesis
      by (simp add: off'_def scroll_of_def unat_minus_one mod_simps algebra_simps)
  qed
qed

lemma scroll_value:
  assumes "unat off < 16"
  shows "unat (word_of_int (8 * (15 - uint (off :: u8) + 1)) :: u16) mod 128 = scroll_of off"
proof -
  have "int (unat (word_of_int (8 * (15 - uint off + 1)) :: u16) mod 128) = int (scroll_of off)"
    using assms by (simp only: zmod_int int_unat_word_of_int int_scroll_of)
      (simp add: mod_mod_cancel)
  then show ?thesis by (simp only: of_nat_eq_iff)
qed

lemma reg_write_scroll [simp]:
  "scroll_reg (reg_write LCD_VET_SCROLL v p) = unat v mod 128"
  "ram (reg_write LCD_VET_SCROLL v p) = ram p"
  by (simp_all add: reg_write_def lcd_regs)

lemma LCD_scroll_spec:
  assumes "wf_txt s" "txt_panel s" "Ypos s = 15"
  shows "wf_txt (LCD_scroll s) \<and> txt_panel (LCD_scroll s) \<and>
    Xpos (LCD_scroll s) = 0 \<and> Ypos (LCD_scroll s) = 15 \<and> byCursorOn (LCD_scroll s) = byCursorOn s \<and>
    (\<forall>r<16. \<forall>c<16. \<forall>j<8. shown (panel_of (LCD_scroll s)) r c j =
      (if r = 15 then glyph_row 32 j else shown (panel_of s) (r + 1) c j))"
proof -
  define off' where "off' = (if YScrollOffset s = 0 then 16 - 1 else YScrollOffset s - 1)"
  have off: "unat (YScrollOffset s) < 16" using assms by (simp add: wf_txt_def)
  note off' = scroll_offset_next [OF off, folded off'_def]
  define s1 where "s1 = s\<lparr>YScrollOffset := off'\<rparr>"
  define v :: u16 where "v = word_of_int (8 * (15 - uint off' + 1))"
  define s2 where "s2 = WriteLCD LCD_VET_SCROLL v s1"
  have eq: "LCD_scroll s = LCD_ClearOneLine (int 15) s2"
    using assms unfolding LCD_scroll_def Let_def wf_txt_def s2_def s1_def v_def off'_def
    by (simp add: WriteLCD_def)
  have idle: "bus_idle (panel_of s1)" using assms by (simp add: s1_def txt_panel_def)
  have p2: "panel_of s2 = reg_write LCD_VET_SCROLL v (panel_of s)"
    unfolding s2_def using panel_of_WriteLCD [OF idle, of LCD_VET_SCROLL v]
    by (simp add: lcd_regs s1_def)
  have v: "unat v mod 128 = scroll_of off'"
    unfolding v_def by (rule scroll_value [OF off'(1)])
  have fields: "s2 = s\<lparr>YScrollOffset := off', lcd_bus := lcd_bus s2\<rparr>"
    by (simp add: s2_def s1_def WriteLCD_def)
  have f2: "byFontWidth s2 = byFontWidth s" "YScrollOffset s2 = off'"
    by (simp_all add: s2_def s1_def WriteLCD_def)
  have t2: "txt_panel s2"
    using assms(2) off'(1) v unfolding txt_panel_def p2 f2
    by simp
  have sh2: "shown (panel_of s2) r c j = shown (panel_of s) (r + 1) c j" for r c j
  proof -
    have "(scroll_reg (panel_of s2) + (8 * r + j)) mod 128
        = (scroll_reg (panel_of s) + (8 * (r + 1) + j)) mod 128"
      using assms(2) v off'(2) unfolding p2 txt_panel_def by (simp add: mod_add_left_eq add.assoc)
    moreover have "ram (panel_of s2) = ram (panel_of s)"
      unfolding p2 by simp
    ultimately show ?thesis unfolding shown_def glass_def by simp
  qed
  have w2: "ScrWidth s2 = 16" using assms(1) by (subst fields) (simp add: wf_txt_def)
  note C = ClearOneLine_spec [OF t2 _ w2, of 15, folded eq]
  have f0: "LCD_scroll s = s2\<lparr>lcd_bus := lcd_bus (LCD_scroll s), Xpos := 0\<rparr>"
    using C by simp
  have f: "LCD_scroll s = s\<lparr>YScrollOffset := off', Xpos := 0, lcd_bus := lcd_bus (LCD_scroll s)\<rparr>"
    by (subst f0, subst fields) simp
  show ?thesis using C sh2 assms off'(1) by (subst (1 3 4 5) f) (auto simp: wf_txt_def)
qed
subsection \<open>Characters\<close>

lemma unat_plus_1:
  assumes "unat (x :: u8) < 255"
  shows "unat (x + 1) = unat x + 1"
  using assms unat_u8_lt [of "x + 1"] by (simp add: unat_word_ariths)

lemma displays_newline:
  assumes "displays s t"
  shows "displays (putchar_newline s) (t_newline t)"
proof -
  have w: "wf_txt s" and p: "txt_panel s" and pos: "unat (Xpos s) = ccol t" "unat (Ypos s) = crow t"
    and c: "cells_shown s (cell t)"
    using assms by (simp_all add: displays_def)
  have g: "int (unat (Ypos s)) = int (unat (ScrHeight s)) - 1 \<longleftrightarrow> crow t = 15"
    using w pos by (auto simp: wf_txt_def)
  show ?thesis
  proof (cases "crow t = 15")
    case True
    have y: "Ypos s = 15" using True pos by (simp add: word_unat_eq_iff)
    note S = LCD_scroll_spec [OF w p y]
    have "displays ((LCD_scroll s)\<lparr>Xpos := 0\<rparr>) (t_newline t)"
      using S c True by (auto simp: displays_def t_newline_def wf_txt_def cells_shown_def)
    then show ?thesis using g True by (simp add: putchar_newline_def displays_cursor)
  next
    case False
    with pos w have "unat (Ypos s) < 15" by (simp add: wf_txt_def)
    then have "unat (Ypos s + 1) = crow t + 1" using pos by (simp add: unat_plus_1)
    then have "displays (s\<lparr>Ypos := Ypos s + 1, Xpos := 0\<rparr>) (t_newline t)"
      using w p c False \<open>unat (Ypos s) < 15\<close> pos
      by (auto simp: displays_def t_newline_def wf_txt_def)
    then show ?thesis using g False by (simp add: putchar_newline_def displays_cursor)
  qed
qed

lemma t_newline_pos: "crow t < 16 \<Longrightarrow> crow (t_newline t) < 16 \<and> ccol (t_newline t) = 0"
  by (simp add: t_newline_def)

lemma displays_print:
  assumes "displays s t"
  shows "displays (putchar_default c s) (t_print c t)"
proof -
  define s1 where "s1 = (if unat (Xpos s) + 1 \<ge> unat (ScrWidth s) then putchar_newline s else s)"
  define t1 where "t1 = (if ccol t = 15 then t_newline t else t)"
  have "(unat (Xpos s) + 1 \<ge> unat (ScrWidth s)) = (ccol t = 15)"
    using assms by (auto simp: displays_def wf_txt_def)
  then have d1: "displays s1 t1"
    using assms displays_newline [OF assms] by (simp add: s1_def t1_def)
  then have pos: "unat (Xpos s1) = ccol t1" "unat (Ypos s1) = crow t1"
    and w1: "wf_txt s1" and p1: "txt_panel s1" and c1: "cells_shown s1 (cell t1)"
    by (simp_all add: displays_def)
  have lt: "ccol t1 < 15" "crow t1 < 16"
    using assms w1 pos t_newline_pos [of t] by (auto simp: t1_def displays_def wf_txt_def)
  define s2 where "s2 = LCD_displ (uint (Xpos s1)) (uint (Ypos s1)) (uint c) (s1\<lparr>Xpos := Xpos s1 + 1\<rparr>)"
  have args: "s2 = LCD_displ (int (ccol t1)) (int (crow t1)) (uint c) (s1\<lparr>Xpos := Xpos s1 + 1\<rparr>)"
    by (simp add: s2_def flip: pos)
  have "ccol t1 < 16" using lt by simp
  note D = panel_of_displ [OF _ this lt(2), of "s1\<lparr>Xpos := Xpos s1 + 1\<rparr>" "uint c", folded args]
  have x2: "unat (Xpos s1 + 1) = ccol t1 + 1" using pos lt by (simp add: unat_plus_1)
  have "bus_only (s1\<lparr>Xpos := Xpos s1 + 1\<rparr>) s2" by (simp add: s2_def)
  note F = bus_onlyD [OF this]
  have "displays s2 (t_print c t)"
    using D w1 p1 c1 pos lt x2 F
    by (auto simp: displays_def t_print_def wf_txt_def cells_shown_def simp flip: t1_def)
  moreover have "putchar_default c s = putchar_cursor s2"
    unfolding putchar_default_def Let_def s2_def s1_def by (rule refl)
  ultimately show ?thesis by (simp add: displays_cursor)
qed

lemma t_print_col: "ccol t < 16 \<Longrightarrow> ccol (t_print c t) = (if ccol t = 15 then 1 else ccol t + 1)"
  by (simp add: t_print_def t_newline_def)

text \<open>The tab loop: it ends, and it prints exactly the blanks of \<open>tab_blanks\<close>.\<close>

lemma tab_blanks_step:
  assumes "c < 16"
  shows "tab_blanks c = (if (if c = 15 then 1 else c + 1) mod 4 = 0 then 1
    else Suc (tab_blanks (if c = 15 then 1 else c + 1)))"
proof -
  have "\<forall>c<16. tab_blanks c = (if (if c = 15 then 1 else c + 1) mod 4 = 0 then 1
    else Suc (tab_blanks (if c = 15 then 1 else c + 1)))"
    by code_simp
  with assms show ?thesis by blast
qed

lemma displays_tab:
  assumes "displays s t" "n = tab_blanks (ccol t)"
  shows "\<exists>s'. putchar_tab s = Some s' \<and> displays s' ((t_print 0x20 ^^ n) t)"
  using assms
proof (induction n arbitrary: s t)
  case 0
  then have "ccol t < 16" by (simp add: displays_def wf_txt_def)
  with 0 show ?case by (auto simp: tab_blanks_def split: if_splits)
next
  case (Suc n)
  let ?s = "putchar_default 0x20 s" and ?t = "t_print 0x20 t"
  have d: "displays ?s ?t" using Suc.prems(1) by (rule displays_print)
  have lt: "ccol t < 16" using Suc.prems(1) by (simp add: displays_def wf_txt_def)
  have x: "unat (Xpos ?s) = ccol ?t" using d by (simp add: displays_def)
  show ?case
  proof (cases "ccol ?t mod 4 = 0")
    case True
    then have "n = 0" using Suc.prems(2) tab_blanks_step [OF lt] t_print_col [OF lt] by simp
    with True d x show ?thesis by (subst putchar_tab.simps) (simp add: TABS_def Let_def)
  next
    case False
    then have "n = tab_blanks (ccol ?t)"
      using Suc.prems(2) tab_blanks_step [OF lt] t_print_col [OF lt] by simp
    from Suc.IH [OF d this] obtain s' where
      "putchar_tab ?s = Some s'" "displays s' ((t_print 0x20 ^^ n) ?t)" by blast
    with False x show ?thesis
      by (subst putchar_tab.simps) (simp add: TABS_def Let_def funpow_Suc_right del: funpow.simps)
  qed
qed

lemma displays_putchar:
  assumes "displays s t"
  shows "\<exists>s'. LCD_putchar c s = Some s' \<and> displays s' (t_putchar c t)"
  using displays_newline [OF assms] displays_print [OF assms, of c]
    displays_tab [OF assms refl]
  by (auto simp: LCD_putchar_def t_putchar_def displays_cursor)


subsection \<open>Clearing the screen and power-on\<close>

lemma reg_write_data [simp]:
  "reg_write LCD_RAM_DATA d p =
     p\<lparr>cmd_idx := LCD_RAM_DATA, ram := (ram p)(ram_addr p := d), ram_addr := (ram_addr p + 1) mod 0x800\<rparr>"
  by (simp add: reg_write_def lcd_regs)

lemma clear_words:
  assumes "bus_idle (panel_of s)" "ram_addr (panel_of s) = 0" "n \<le> 0x800"
  shows "bus_idle (panel_of ((WriteLCD LCD_RAM_DATA 0 ^^ n) s)) \<and>
    bus_only s ((WriteLCD LCD_RAM_DATA 0 ^^ n) s) \<and>
    (n < 0x800 \<longrightarrow> ram_addr (panel_of ((WriteLCD LCD_RAM_DATA 0 ^^ n) s)) = n) \<and>
    (\<forall>k<n. ram (panel_of ((WriteLCD LCD_RAM_DATA 0 ^^ n) s)) k = 0)"
  using assms(3)
proof (induction n)
  case 0
  then show ?case using assms by simp
next
  case (Suc n)
  let ?s = "(WriteLCD LCD_RAM_DATA 0 ^^ n) s"
  from Suc have IH: "bus_idle (panel_of ?s)" "bus_only s ?s" "ram_addr (panel_of ?s) = n"
    "\<forall>k<n. ram (panel_of ?s) k = 0" by auto
  have "panel_of (WriteLCD LCD_RAM_DATA 0 ?s) = reg_write LCD_RAM_DATA 0 (panel_of ?s)"
    using IH(1) by (rule panel_of_WriteLCD) (simp add: LCD_RAM_DATA_def)
  with IH bus_only_trans [OF IH(2) bus_only_WriteLCD] show ?case
    by (auto simp: less_Suc_eq bus_idle_def)
qed

lemma ClearViewArea_spec:
  assumes "bus_idle (panel_of s)"
  shows "bus_idle (panel_of (LCD_ClearViewArea s)) \<and> bus_only s (LCD_ClearViewArea s) \<and>
    scroll_reg (panel_of (LCD_ClearViewArea s)) = 0 \<and>
    (\<forall>k<0x800. ram (panel_of (LCD_ClearViewArea s)) k = 0)"
proof -
  define s1 where "s1 = WriteLCD LCD_RAM_ADDR 0 s"
  define s2 where "s2 = (WriteLCD LCD_RAM_DATA 0 ^^ 0x800) s1"
  have eq: "LCD_ClearViewArea s = WriteLCD LCD_VET_SCROLL 0 s2"
    by (simp only: LCD_ClearViewArea_def s1_def s2_def)
  have "panel_of s1 = reg_write LCD_RAM_ADDR 0 (panel_of s)"
    unfolding s1_def using assms by (rule panel_of_WriteLCD) (simp add: LCD_RAM_ADDR_def)
  then have "bus_idle (panel_of s1)" "ram_addr (panel_of s1) = 0"
    using assms by (simp_all add: reg_write_def bus_idle_def)
  from clear_words [OF this, of "0x800", folded s2_def]
  have s2: "bus_idle (panel_of s2)" "bus_only s1 s2" "\<forall>k<0x800. ram (panel_of s2) k = 0"
    by blast+
  have p: "panel_of (LCD_ClearViewArea s) = reg_write LCD_VET_SCROLL 0 (panel_of s2)"
    unfolding eq using s2(1) by (rule panel_of_WriteLCD) (simp add: LCD_VET_SCROLL_def)
  have "bus_only s (LCD_ClearViewArea s)"
    unfolding eq using s2(2) by (metis bus_only_WriteLCD bus_only_trans s1_def)
  then show ?thesis using p s2 by simp
qed

definition sized :: "lcdtxt \<Rightarrow> bool" where
  "sized s \<longleftrightarrow> ScrWidth s = 16 \<and> ScrHeight s = 16 \<and> byFontHeight s = 8 \<and> byFontWidth s = 8"

lemma displays_ClearScreen:
  assumes "bus_idle (panel_of s)" "sized s"
  shows "displays (LCD_ClearScreen s) t_clear"
proof -
  note V = ClearViewArea_spec [OF assms(1)]
  have bo: "bus_only s (LCD_ClearViewArea s)" using V by simp
  define s1 where "s1 = (LCD_ClearViewArea s)\<lparr>Xpos := 0, Ypos := 0, YScrollOffset := 0\<rparr>"
  define s2 where "s2 = WriteLCD LCD_VET_SCROLL 0 s1"
  have eq: "LCD_ClearScreen s = LCD_SetCursor 0 0 s2"
    by (simp add: LCD_ClearScreen_def Let_def s1_def s2_def) (simp add: WriteLCD_def)
  have i1: "bus_idle (panel_of s1)" using V by (simp add: s1_def)
  have p2: "panel_of s2 = reg_write LCD_VET_SCROLL 0 (panel_of s1)"
    unfolding s2_def using i1 by (rule panel_of_WriteLCD) (simp add: LCD_VET_SCROLL_def)
  have f2: "YScrollOffset s2 = 0" "byFontWidth s2 = 8" "sized s2"
    using assms(2) bus_onlyD [OF bo]
    by (simp_all add: s2_def s1_def WriteLCD_def sized_def)
  have t2: "txt_panel s2"
    using i1 f2 unfolding txt_panel_def p2 by (simp add: scroll_of_def)
  have "glass (panel_of s2) (8 * r + j) c = 0" if "c < 16" for r c j
  proof -
    have "(8 * r + j) mod 128 * 16 + c < 0x800"
      using that mod_less_divisor [of 128 "8 * r + j"] by linarith
    then show ?thesis using V unfolding p2 by (simp add: glass_def s1_def)
  qed
  then have "cells_shown s2 (cell t_clear)"
    by (simp add: cells_shown_def shown_def t_clear_def glyph_space)
  then show ?thesis
    using SetCursor_panel [OF t2, of 0 0] f2 unfolding eq
    by (simp add: displays_def wf_txt_def cells_shown_def SetCursor_frame t_clear_def sized_def)
qed

definition bus_ready :: "lcdtxt \<Rightarrow> bool" where
  "bus_ready s \<longleftrightarrow> bus_idle (panel_of s) \<and> sized s"

lemma bus_ready_WriteLCD: "bus_ready s \<Longrightarrow> a AND 0xff = a \<Longrightarrow> bus_ready (WriteLCD a d s)"
  using bus_onlyD [OF bus_only_WriteLCD [of s a d]]
  by (simp add: bus_ready_def panel_of_WriteLCD sized_def)

lemma displays_CursorRegs:
  assumes "displays s t"
  shows "displays (LCD_CursorMode m s) t" "displays (LCD_EnableCursor b s) t"
proof -
  show m: "displays (LCD_CursorMode m s) t"
    using assms by (simp add: LCD_CursorMode_def displays_def wf_txt_def txt_panel_def
        cells_shown_def panel_of_def)
  let ?s = "s\<lparr>byCursorOn := b\<rparr>"
  have "displays ?s t"
    using assms by (simp add: displays_def wf_txt_def txt_panel_def cells_shown_def panel_of_def)
  then show "displays (LCD_EnableCursor b s) t"
    using neutral_write [of ?s LCD_CURSOR]
    by (simp add: LCD_EnableCursor_def Let_def displays_def wf_txt_def cells_shown_def lcd_regs)
      (simp add: WriteLCD_def)
qed

lemma bus_ready_sync: "bus_ready s \<Longrightarrow>
    bus_ready (s\<lparr>lcd_bus := lcd_bus s @ [CMD 0, CMD 0, CMD 0, CMD 0]\<rparr>)"
  by (simp add: bus_ready_def panel_of_def bus_idle_def sized_def)

lemma displays_cleared: "bus_ready s \<Longrightarrow> displays (LCD_ClearScreen s) t_clear"
  by (simp add: bus_ready_def displays_ClearScreen)

lemma displays_InitialLCD: "bus_ready s \<Longrightarrow> displays (InitialLCD s) t_clear"
  unfolding InitialLCD_def Let_def lcd_regs
  by (intro displays_cleared bus_ready_WriteLCD bus_ready_sync) simp_all

lemma displays_Initial_LCD:
  assumes "bus_idle (panel_of s)"
  shows "displays (Initial_LCD s) t_clear"
proof -
  let ?s = "s\<lparr>byFontHeight := 8, byFontWidth := 8, ScrWidth := 16, ScrHeight := 16\<rparr>"
  have "displays (InitialLCD ?s) t_clear"
    using assms by (intro displays_InitialLCD) (simp add: bus_ready_def sized_def panel_of_def)
  then show ?thesis
    by (simp add: Initial_LCD_def Let_def displays_CursorRegs)
qed

section \<open>The interface the writers of the display rely on\<close>

text \<open>
  Everything above the character level uses the display through this contract only: putting a
  character returns, and the result displays the terminal's answer to that character.
\<close>

locale char_display =
  fixes put :: "u8 \<Rightarrow> 's \<Rightarrow> 's option"
    and view :: "'s \<Rightarrow> terminal \<Rightarrow> bool"
  assumes put_ok: "view s t \<Longrightarrow> \<exists>s'. put c s = Some s' \<and> view s' (t_putchar c t)"
begin

fun put_all :: "u8 list \<Rightarrow> 's \<Rightarrow> 's option" where
  "put_all [] s = Some s"
| "put_all (c # cs) s = Option.bind (put c s) (put_all cs)"

lemma put_all_ok:
  assumes "view s t"
  shows "\<exists>s'. put_all cs s = Some s' \<and> view s' (t_puts cs t)"
  using assms
proof (induction cs arbitrary: s t)
  case Nil
  then show ?case by (simp add: t_puts_def)
next
  case (Cons c cs)
  from put_ok [OF Cons.prems, of c] obtain s' where
    "put c s = Some s'" "view s' (t_putchar c t)" by blast
  with Cons.IH [of s' "t_putchar c t"] show ?case by (auto simp: t_puts_def)
qed

lemma put_all_append:
  "put_all (xs @ ys) s = Option.bind (put_all xs s) (put_all ys)"
  by (induction xs arbitrary: s) (auto simp: bind_eq_Some_conv split: Option.bind_split)

end

interpretation lcd: char_display LCD_putchar displays
  by unfold_locales (rule displays_putchar)

lemma LCD_puts_put_all: "LCD_puts cs s = lcd.put_all cs s"
  by (induction cs arbitrary: s) (auto intro: Option.bind_cong)

lemma displays_puts:
  "displays s t \<Longrightarrow> \<exists>s'. LCD_puts cs s = Some s' \<and> displays s' (t_puts cs t)"
  unfolding LCD_puts_put_all by (rule lcd.put_all_ok)

section \<open>The column that is never used\<close>

text \<open>The terminal wraps before its last column: it stays blank whatever is printed.\<close>

definition margin_blank :: "terminal \<Rightarrow> bool" where
  "margin_blank t \<longleftrightarrow> crow t < 16 \<and> ccol t < 16 \<and> (\<forall>r<16. cell t r 15 = 32)"

lemma margin_newline: "margin_blank t \<Longrightarrow> margin_blank (t_newline t)"
  by (auto simp: margin_blank_def t_newline_def)

lemma margin_print: "margin_blank t \<Longrightarrow> margin_blank (t_print c t)"
  using t_newline_pos [of t] margin_newline [of t]
  by (auto simp: margin_blank_def t_print_def Let_def)

lemma margin_putchar: "margin_blank t \<Longrightarrow> margin_blank (t_putchar c t)"
proof -
  assume t: "margin_blank t"
  then have "margin_blank ((t_print 0x20 ^^ n) t)" for n
    by (induction n) (simp_all add: margin_print)
  with t show ?thesis by (simp add: t_putchar_def margin_newline margin_print)
qed

lemma margin_puts: "margin_blank t \<Longrightarrow> margin_blank (t_puts cs t)"
  unfolding t_puts_def by (induction cs arbitrary: t) (simp_all add: margin_putchar)

lemma margin_clear: "margin_blank t_clear"
  by (simp add: margin_blank_def t_clear_def)

section \<open>Properties\<close>

lemma panel_reset_idle: "bus_idle (panel_of lcdtxt_bss)"
  by (simp add: panel_of_def lcdtxt_bss_def panel_reset_def bus_idle_def)

text \<open>
  C1: one character refines the terminal: whenever the panel shows a terminal's screen, scroll
  offset and cursor, \<open>LCD_putchar\<close> returns, and the bus traffic it causes makes the panel show
  the terminal's answer to that character: the glyph at the cursor, a new line, a tab, the scroll at
  the bottom.
\<close>

theorem putchar_refines:
  assumes "displays s t"
  shows "\<exists>s'. LCD_putchar c s = Some s' \<and> displays s' (t_putchar c t)"
  using displays_putchar [OF assms] .

theorem putchar_refines_witness:
  "\<exists>s'. LCD_putchar 0x41 (Initial_LCD lcdtxt_bss) = Some s' \<and> displays s' (t_putchar 0x41 t_clear)"
  by (rule putchar_refines [OF displays_Initial_LCD [OF panel_reset_idle]])

text \<open>
  After the power-on sequence the screen is blank with the cursor in the top left corner, and
  any text put on it comes out as on the terminal: \<open>LCD_puts\<close> returns, and the panel shows it.
\<close>

theorem text_after_power_on:
  assumes "bus_idle (panel_of s)"
  shows "displays (Initial_LCD s) t_clear \<and> (\<exists>s'. LCD_puts cs (Initial_LCD s) = Some s' \<and> displays s' (t_puts cs t_clear))"
  using displays_Initial_LCD [OF assms] displays_puts by blast

theorem text_after_power_on_witness:
  "displays (Initial_LCD lcdtxt_bss) t_clear \<and>
     (\<exists>s'. LCD_puts [0x41, 0x0a] (Initial_LCD lcdtxt_bss) = Some s' \<and> displays s' (t_puts [0x41, 0x0a] t_clear))"
  by (rule text_after_power_on [OF panel_reset_idle])

text \<open>
  The sixteenth column is never used: after the power-on sequence and any text, the eight
  raster words of the last cell of each of the sixteen lines are the blank's, because \<open>LCD_putchar\<close>
  wraps when \<open>Xpos + 1\<close> reaches the width.
\<close>

theorem last_column_blank:
  assumes "bus_idle (panel_of s)" "LCD_puts cs (Initial_LCD s) = Some s'" "r < 16" "j < 8"
  shows "shown (panel_of s') r 15 j = glyph_row 32 j"
proof -
  have "displays s' (t_puts cs t_clear)"
    using displays_puts [OF displays_Initial_LCD [OF assms(1)], of cs] assms(2) by auto
  moreover have "cell (t_puts cs t_clear) r 15 = 32"
    using margin_puts [OF margin_clear] assms(3) by (simp add: margin_blank_def)
  ultimately show ?thesis using assms(3,4) by (simp add: displays_def cells_shown_def)
qed

theorem last_column_blank_witness:
  "shown (panel_of (the (LCD_puts [] (Initial_LCD lcdtxt_bss)))) 0 15 0 = glyph_row 32 0"
  by (rule last_column_blank [OF panel_reset_idle, where cs = "[]"]) simp_all

end
