(* ===== verification/Keypad.thy ===== *)
theory Keypad
  imports Prelude
begin

text \<open>
  The 4 by 4 keypad of \<open>creator-pxa270-lcd.c\<close>: the key codes and their tables, the ring of sixteen
  scanned codes between the scan timer and the readers, and the scan itself, which reads four rows
  of the matrix and debounces them over two scans.

  The values of the volatile input register \<open>IO_REG1\<close> are a parameter: \<open>io_reg1 v\<close> is what a
  read returns while \<open>IO_REG2\<close> holds the row select \<open>v\<close>.
\<close>

section \<open>Codes and tables\<close>

definition key2num_tbl :: "u16 list" where
  "key2num_tbl = [0xdfff, 0xfffe, 0xfffd, 0xfffb, 0xffef, 0xffdf, 0xffbf, 0xfeff,
                  0xfdff, 0xfbff, 0xfff7, 0xff7f, 0xf7ff, 0x7fff, 0xefff, 0xbfff]"

text \<open>\<open>KeyASCIICode[]\<close>: 0 to 9, A to D, star, pound. Reading past its sixteen entries is \<open>None\<close>.\<close>

definition KeyASCIICode :: "u8 list" where
  "KeyASCIICode = [0x30, 0x31, 0x32, 0x33, 0x34, 0x35, 0x36, 0x37,
                   0x38, 0x39, 0x41, 0x42, 0x43, 0x44, 0x2a, 0x23]"

definition key_ascii :: "u8 \<Rightarrow> u8 option" where
  "key_ascii key = (if unat key < length KeyASCIICode then Some (KeyASCIICode ! unat key) else None)"

fun num_from :: "u8 \<Rightarrow> u16 list \<Rightarrow> u16 \<Rightarrow> u8" where
  "num_from idx [] ch = 0xff"
| "num_from idx (k # ks) ch = (if ch = k then idx else num_from (idx + 1) ks ch)"

definition Creator_key2num :: "u16 \<Rightarrow> u8" where
  "Creator_key2num ch = num_from 0 key2num_tbl ch"

section \<open>The ring\<close>

record keypad =
  scan_key_in_idx :: u8
  scan_key_out_idx :: u8
  scan_key_buf :: "u16 list"
  last_scan_key :: u16
  key_assigned :: u8

definition UM :: u8 where "UM = 0"
definition OK :: u8 where "OK = 1"

definition keypad_bss :: keypad where
  "keypad_bss = \<lparr>scan_key_in_idx = 0, scan_key_out_idx = 0, scan_key_buf = replicate 16 0,
     last_scan_key = 0, key_assigned = 0\<rparr>"

definition Reset_KEYPAD :: "keypad \<Rightarrow> keypad" where
  "Reset_KEYPAD s = s\<lparr>last_scan_key := 0xffff, scan_key_in_idx := 0, scan_key_out_idx := 0,
     key_assigned := UM\<rparr>"

definition Initial_KEYPAD :: "keypad \<Rightarrow> keypad" where
  "Initial_KEYPAD s =
     (let s1 = Reset_KEYPAD s
      in s1\<lparr>scan_key_buf := fold (\<lambda>i b. b[i := 0xffff]) [0..<16] (scan_key_buf s1)\<rparr>)"

text \<open>The result: \<open>None\<close> is the return value \<open>UM\<close>, \<open>Some ch\<close> is \<open>OK\<close> with \<open>*ch\<close> stored.\<close>

definition KEYPAD_get_key :: "keypad \<Rightarrow> u8 option \<times> keypad" where
  "KEYPAD_get_key s =
     (if scan_key_out_idx s \<noteq> scan_key_in_idx s
      then let temp = scan_key_buf s ! unat (scan_key_out_idx s)
           in (Some (Creator_key2num temp), s\<lparr>scan_key_out_idx := (scan_key_out_idx s + 1) AND 0xf\<rparr>)
      else (None, s))"

definition KEYPAD_chk_key :: "keypad \<Rightarrow> u8 option" where
  "KEYPAD_chk_key s =
     (if scan_key_out_idx s \<noteq> scan_key_in_idx s
      then Some (Creator_key2num (scan_key_buf s ! unat (scan_key_out_idx s)))
      else None)"

section \<open>The scan\<close>

text \<open>
  The four row reads: each puts four columns in a nibble of \<open>cvt\<close>. \<open>cvt.w[0]\<close> is the two bytes
  \<open>b[0]\<close> and \<open>b[1]\<close>, low byte first on this target.
\<close>

definition row_lo :: "u16 \<Rightarrow> u8" where
  "row_lo v = ucast (drop_bit 8 (v AND 0x0f00))"

definition row_hi :: "u16 \<Rightarrow> u8" where
  "row_hi v = ucast (drop_bit 4 (v AND 0x0f00))"

definition scan_matrix :: "(u16 \<Rightarrow> u16) \<Rightarrow> u16 \<Rightarrow> u16" where
  "scan_matrix io_reg1 scan_led =
     (let b0 = row_lo (io_reg1 (scan_led OR 0xfe)) OR row_hi (io_reg1 (scan_led OR 0xfd));
          b1 = row_lo (io_reg1 (scan_led OR 0xfb)) OR row_hi (io_reg1 (scan_led OR 0xf7))
      in ucast b0 OR push_bit 8 (ucast b1))"

text \<open>The row selects the scan leaves in \<open>IO_REG2\<close>, in order.\<close>

definition scan_selects :: "u16 \<Rightarrow> u16 list" where
  "scan_selects scan_led = [scan_led OR 0xfe, scan_led OR 0xfd, scan_led OR 0xfb, scan_led OR 0xf7]"

definition keypad_overflow :: "keypad \<Rightarrow> bool" where
  "keypad_overflow s \<longleftrightarrow> unat (scan_key_in_idx s) + 1 = unat (scan_key_out_idx s)"

text \<open>The code \<open>w\<close> just scanned against the last one; the second result is \<open>wake_up_interruptible\<close>.\<close>

definition scan_store :: "u16 \<Rightarrow> keypad \<Rightarrow> keypad" where
  "scan_store w s = s\<lparr>scan_key_buf := (scan_key_buf s)[unat (scan_key_in_idx s) := w],
     scan_key_in_idx := (scan_key_in_idx s + 1) AND 0xf\<rparr>"

definition scan_code :: "u16 \<Rightarrow> keypad \<Rightarrow> keypad \<times> bool" where
  "scan_code w s =
     (let (s1, woke) =
        (if last_scan_key s = w
         then (if key_assigned s = UM
               then (if w \<noteq> 0xffff then ((scan_store w s)\<lparr>key_assigned := OK\<rparr>, True)
                     else (s\<lparr>key_assigned := OK\<rparr>, False))
               else (s, False))
         else (s\<lparr>key_assigned := UM\<rparr>, False))
      in (s1\<lparr>last_scan_key := w\<rparr>, woke))"

definition scan_keys :: "u16 \<Rightarrow> keypad \<Rightarrow> keypad \<times> bool" where
  "scan_keys w s = (if keypad_overflow s then (s, False) else scan_code w s)"

section \<open>The code tables\<close>

lemma num_from_notin: "ch \<notin> set ks \<Longrightarrow> num_from i ks ch = 0xff"
  by (induction ks arbitrary: i) auto

lemma key2num_code:
  assumes "i < 16"
  shows "Creator_key2num (key2num_tbl ! i) = of_nat i"
proof -
  have "\<forall>i<16. Creator_key2num (key2num_tbl ! i) = of_nat i" by code_simp
  with assms show ?thesis by blast
qed

lemma key2num_invalid: "ch \<notin> set key2num_tbl \<Longrightarrow> Creator_key2num ch = 0xff"
  unfolding Creator_key2num_def by (rule num_from_notin)

lemma key_ascii_code:
  assumes "i < 16"
  shows "key_ascii (Creator_key2num (key2num_tbl ! i)) = Some (KeyASCIICode ! i)"
proof -
  have "\<forall>i<16. key_ascii (of_nat i) = Some (KeyASCIICode ! i)" by code_simp
  with assms show ?thesis by (simp add: key2num_code)
qed

lemma key_ascii_invalid: "key_ascii 0xff = None"
  by (simp add: key_ascii_def KeyASCIICode_def)

section \<open>The matrix\<close>

text \<open>The row select of row \<open>r\<close>: one of the four low bits is clear.\<close>

definition row_select :: "nat \<Rightarrow> u16" where
  "row_select r = [0xfe, 0xfd, 0xfb, 0xf7] ! r"

text \<open>\<open>pressed k\<close>: the switch of row \<open>k div 4\<close> and column \<open>k mod 4\<close> is closed and pulls its column low.\<close>

definition matrix_wired :: "(nat \<Rightarrow> bool) \<Rightarrow> (u16 \<Rightarrow> u16) \<Rightarrow> u16 \<Rightarrow> bool" where
  "matrix_wired pressed io_reg1 scan_led \<longleftrightarrow>
     (\<forall>r<4. \<forall>c<4. bit (io_reg1 (scan_led OR row_select r)) (8 + c) = (\<not> pressed (4 * r + c)))"

lemma word_0f00: "(0x0f00 :: u16) = push_bit 8 (mask 4)"
  by (simp add: mask_eq_exp_minus_1)

lemma bit_row_lo: "bit (row_lo v) n \<longleftrightarrow> n < 4 \<and> bit v (8 + n)"
  unfolding row_lo_def word_0f00
  by (auto simp: bit_simps ac_simps dest: bit_imp_le_length)

lemma bit_row_hi: "bit (row_hi v) n \<longleftrightarrow> 4 \<le> n \<and> n < 8 \<and> bit v (4 + n)"
  unfolding row_hi_def word_0f00
  by (auto simp: bit_simps ac_simps dest: bit_imp_le_length)

lemma bit_scan_matrix:
  assumes "matrix_wired pressed io led" "k < 16"
  shows "bit (scan_matrix io led) k = (\<not> pressed k)"
proof -
  have row: "bit (io (led OR row_select r)) (8 + c) = (\<not> pressed (4 * r + c))" if "r < 4" "c < 4" for r c
    using assms(1) that by (simp add: matrix_wired_def)
  have sel: "row_select 0 = 0xfe" "row_select 1 = 0xfd" "row_select 2 = 0xfb" "row_select 3 = 0xf7"
    by (simp_all add: row_select_def numeral_eq_Suc)
  have b: "bit (scan_matrix io led) k =
      (if k < 4 then bit (io (led OR 0xfe)) (8 + k)
       else if k < 8 then bit (io (led OR 0xfd)) (4 + k)
       else if k < 12 then bit (io (led OR 0xfb)) k
       else bit (io (led OR 0xf7)) (k - 4))"
    using assms(2)
    by (auto simp: scan_matrix_def Let_def bit_or_iff bit_push_bit_iff bit_ucast_iff bit_row_lo bit_row_hi)
  consider "k < 4" | "4 \<le> k" "k < 8" | "8 \<le> k" "k < 12" | "12 \<le> k" by linarith
  then show ?thesis
  proof cases
    case 1
    then show ?thesis using b row [of 0 k] sel by simp
  next
    case 2
    then show ?thesis using b row [of 1 "k - 4"] sel by (simp add: add.commute)
  next
    case 3
    then show ?thesis using b row [of 2 "k - 8"] sel by simp
  next
    case 4
    then show ?thesis using b row [of 3 "k - 12"] sel assms(2) by simp
  qed
qed

lemma bit_ffff: "n < 16 \<Longrightarrow> bit (0xffff :: u16) n"
proof -
  have "\<forall>n<16. bit (0xffff :: u16) n" by code_simp
  then show "n < 16 \<Longrightarrow> bit (0xffff :: u16) n" by blast
qed

lemma scan_matrix_none:
  assumes "matrix_wired (\<lambda>_. False) io led"
  shows "scan_matrix io led = 0xffff"
proof (rule bit_word_eqI)
  fix n assume "n < LENGTH(16)"
  then have "n < 16" by simp
  with bit_scan_matrix [OF assms this] bit_ffff [OF this]
  show "bit (scan_matrix io led) n = bit (0xffff :: u16) n" by blast
qed

definition key_pos :: "nat \<Rightarrow> nat" where
  "key_pos i = [13, 0, 1, 2, 4, 5, 6, 8, 9, 10, 3, 7, 11, 15, 12, 14] ! i"

lemma key_pos_code: "i < 16 \<Longrightarrow> key2num_tbl ! i = NOT (push_bit (key_pos i) 1)"
proof -
  have "\<forall>i<16. key2num_tbl ! i = NOT (push_bit (key_pos i) 1)" by code_simp
  then show "i < 16 \<Longrightarrow> key2num_tbl ! i = NOT (push_bit (key_pos i) 1)" by blast
qed

lemma bit_not_one_at: "n < 16 \<Longrightarrow> bit (NOT (push_bit k (1 :: u16))) n \<longleftrightarrow> n \<noteq> k"
  unfolding bit_not_iff bit_push_bit_iff by (auto simp: bit_1_iff)

lemma length_key2num_tbl: "length key2num_tbl = 16"
  by (simp add: key2num_tbl_def)

lemma scan_matrix_single:
  assumes "matrix_wired (\<lambda>k. k = key_pos i) io led" "i < 16"
  shows "scan_matrix io led = key2num_tbl ! i"
proof (rule bit_word_eqI)
  fix n assume "n < LENGTH(16)"
  then have "n < 16" by simp
  with bit_scan_matrix [OF assms(1) this] bit_not_one_at [OF this, of "key_pos i"]
  show "bit (scan_matrix io led) n = bit (key2num_tbl ! i) n"
    unfolding key_pos_code [OF assms(2)] by blast
qed

lemma scan_matrix_chord:
  assumes "matrix_wired pressed io led" "pressed j" "pressed k" "j \<noteq> k" "j < 16" "k < 16"
  shows "Creator_key2num (scan_matrix io led) = 0xff"
proof (rule key2num_invalid, rule notI)
  assume "scan_matrix io led \<in> set key2num_tbl"
  then obtain i where i: "i < 16" and code: "scan_matrix io led = key2num_tbl ! i"
    unfolding in_set_conv_nth length_key2num_tbl by metis
  have "bit (scan_matrix io led) n \<longleftrightarrow> n \<noteq> key_pos i" if "n < 16" for n
    unfolding code key_pos_code [OF i] using that by (rule bit_not_one_at)
  with bit_scan_matrix [OF assms(1)] assms show False by metis
qed

section \<open>The ring as a queue\<close>

text \<open>
  What the scan timer and the readers rely on: a queue of room \<open>cap\<close> whose \<open>get\<close> decodes the oldest
  code.
\<close>

locale key_fifo =
  fixes wf :: "'s \<Rightarrow> bool" and contents :: "'s \<Rightarrow> 'k list" and cap :: nat
    and put :: "'k \<Rightarrow> 's \<Rightarrow> 's" and get :: "'s \<Rightarrow> 'c option \<times> 's"
    and decode :: "'k \<Rightarrow> 'c"
  assumes wf_put: "wf s \<Longrightarrow> wf (put k s)"
    and contents_put: "wf s \<Longrightarrow> length (contents s) < cap \<Longrightarrow> contents (put k s) = contents s @ [k]"
    and get_nil: "wf s \<Longrightarrow> contents s = [] \<Longrightarrow> get s = (None, s)"
    and get_cons: "wf s \<Longrightarrow> contents s = k # ks \<Longrightarrow>
      fst (get s) = Some (decode k) \<and> wf (snd (get s)) \<and> contents (snd (get s)) = ks"
begin

lemma wf_put_all: "wf s \<Longrightarrow> wf (fold put ks s)"
  by (induction ks arbitrary: s) (auto intro: wf_put)

lemma contents_put_all:
  "wf s \<Longrightarrow> length (contents s) + length ks \<le> cap \<Longrightarrow> contents (fold put ks s) = contents s @ ks"
  by (induction ks arbitrary: s) (auto simp: wf_put contents_put)

primrec drain :: "nat \<Rightarrow> 's \<Rightarrow> 'c list" where
  "drain 0 s = []"
| "drain (Suc n) s = (case get s of (None, _) \<Rightarrow> [] | (Some c, s') \<Rightarrow> c # drain n s')"

lemma drain_contents: "wf s \<Longrightarrow> drain n s = map decode (take n (contents s))"
proof (induction n arbitrary: s)
  case 0
  then show ?case by simp
next
  case (Suc n)
  show ?case
  proof (cases "contents s")
    case Nil
    with Suc.prems show ?thesis by (simp add: get_nil)
  next
    case (Cons k ks)
    from get_cons [OF Suc.prems Cons] Suc.IH [of "snd (get s)"] Cons
    show ?thesis by (cases "get s") auto
  qed
qed

text \<open>First in, first out: the codes put into an empty queue come out in order, decoded.\<close>

lemma drain_put_all:
  "wf s \<Longrightarrow> contents s = [] \<Longrightarrow> length ks \<le> cap \<Longrightarrow> drain (length ks) (fold put ks s) = map decode ks"
  by (simp add: drain_contents wf_put_all contents_put_all)

end

definition wf_ring :: "keypad \<Rightarrow> bool" where
  "wf_ring s \<longleftrightarrow> length (scan_key_buf s) = 16 \<and> unat (scan_key_in_idx s) < 16 \<and> unat (scan_key_out_idx s) < 16"

definition ring_keys :: "keypad \<Rightarrow> u16 list" where
  "ring_keys s = ring_between 16 (scan_key_buf s) (unat (scan_key_in_idx s)) (unat (scan_key_out_idx s))"

lemma and_15: "(x :: u8) AND 0xf = take_bit 4 x"
  by (simp add: take_bit_eq_mask mask_eq_exp_minus_1)

lemma unat_ring_next:
  assumes "unat (x :: u8) < 16"
  shows "unat ((x + 1) AND 0xf) = (unat x + 1) mod 16"
proof -
  have "unat (x + 1) = unat x + 1"
    using assms by (subst unat_add_lem [THEN iffD1]) auto
  then show ?thesis
    unfolding and_15 unsigned_take_bit_eq take_bit_nat_def by simp
qed

lemma ring_next_idx:
  assumes "unat (x :: u8) < 16" shows "unat ((x + 1) AND 0xf) < 16"
  unfolding unat_ring_next [OF assms] by simp

lemma length_ring_keys: "length (ring_keys s) = (unat (scan_key_in_idx s) + 16 - unat (scan_key_out_idx s)) mod 16"
  by (simp add: ring_keys_def length_ring_between)

lemma wf_scan_store: "wf_ring s \<Longrightarrow> wf_ring (scan_store w s)"
  by (simp add: wf_ring_def scan_store_def ring_next_idx)

lemma ring_keys_scan_store:
  assumes "wf_ring s" "length (ring_keys s) < 15"
  shows "ring_keys (scan_store w s) = ring_keys s @ [w]"
proof -
  have lt: "unat (scan_key_in_idx s) < 16" "unat (scan_key_out_idx s) < 16" and len: "length (scan_key_buf s) = 16"
    using assms(1) by (simp_all add: wf_ring_def)
  have "length (ring_between 16 (scan_key_buf s) (unat (scan_key_in_idx s)) (unat (scan_key_out_idx s))) + 1 < 16"
    using assms(2) by (simp add: ring_keys_def)
  from ring_put [OF lt this len] show ?thesis
    unfolding ring_keys_def scan_store_def by (simp add: unat_ring_next [OF lt(1)])
qed

lemma ring_keys_scan_store_full:
  assumes "wf_ring s" "length (ring_keys s) = 15"
  shows "ring_keys (scan_store w s) = []"
proof -
  have lt: "unat (scan_key_in_idx s) < 16" "unat (scan_key_out_idx s) < 16"
    using assms(1) by (simp_all add: wf_ring_def)
  have "(unat (scan_key_in_idx s) + 1) mod 16 = unat (scan_key_out_idx s)"
    by (rule ring_put_full [OF lt]) (use assms(2) in \<open>simp add: ring_keys_def\<close>)
  then show ?thesis
    unfolding ring_keys_def scan_store_def using unat_ring_next [OF lt(1)] by simp
qed

lemma ring_empty_iff: "wf_ring s \<Longrightarrow> ring_keys s = [] \<longleftrightarrow> scan_key_out_idx s = scan_key_in_idx s"
  by (simp add: ring_keys_def ring_empty wf_ring_def word_unat_eq_iff)

lemma KEYPAD_get_key_cons:
  assumes "wf_ring s" "ring_keys s = k # ks"
  shows "fst (KEYPAD_get_key s) = Some (Creator_key2num k)"
    and "wf_ring (snd (KEYPAD_get_key s))" and "ring_keys (snd (KEYPAD_get_key s)) = ks"
proof -
  have lt: "unat (scan_key_in_idx s) < 16" "unat (scan_key_out_idx s) < 16"
    using assms(1) by (simp_all add: wf_ring_def)
  have ne: "scan_key_out_idx s \<noteq> scan_key_in_idx s" using assms ring_empty_iff by fastforce
  note got = ring_get [OF lt assms(2) [unfolded ring_keys_def]]
  show "fst (KEYPAD_get_key s) = Some (Creator_key2num k)"
    using ne got(1) by (simp add: KEYPAD_get_key_def Let_def)
  show "wf_ring (snd (KEYPAD_get_key s))"
    using assms(1) ne by (simp add: KEYPAD_get_key_def Let_def wf_ring_def ring_next_idx)
  show "ring_keys (snd (KEYPAD_get_key s)) = ks"
    using ne got(2) unat_ring_next [OF lt(2)] by (simp add: KEYPAD_get_key_def Let_def ring_keys_def)
qed

interpretation ring: key_fifo wf_ring ring_keys 15 scan_store KEYPAD_get_key Creator_key2num
proof unfold_locales
  fix s k ks
  show "wf_ring (scan_store k s)" if "wf_ring s" using that by (rule wf_scan_store)
  show "ring_keys (scan_store k s) = ring_keys s @ [k]" if "wf_ring s" "length (ring_keys s) < 15"
    using that by (rule ring_keys_scan_store)
  show "KEYPAD_get_key s = (None, s)" if "wf_ring s" "ring_keys s = []"
    using that ring_empty_iff by (simp add: KEYPAD_get_key_def)
  show "fst (KEYPAD_get_key s) = Some (Creator_key2num k) \<and> wf_ring (snd (KEYPAD_get_key s)) \<and>
      ring_keys (snd (KEYPAD_get_key s)) = ks" if "wf_ring s" "ring_keys s = k # ks"
    using KEYPAD_get_key_cons [OF that] by simp
qed

section \<open>The scan as a debouncer\<close>

text \<open>The maximal runs of equal scans, with their lengths; a press is a run of length at least two.\<close>

fun runs :: "'a list \<Rightarrow> ('a \<times> nat) list" where
  "runs [] = []"
| "runs (x # xs) = (case runs xs of [] \<Rightarrow> [(x, 1)]
     | (y, n) # rs \<Rightarrow> if x = y then (y, Suc n) # rs else (x, 1) # (y, n) # rs)"

definition presses :: "u16 list \<Rightarrow> u16 list" where
  "presses ws = [v. (v, n) \<leftarrow> runs ws, 2 \<le> n \<and> v \<noteq> 0xffff]"

text \<open>What the scans \<open>ws\<close> still owe the ring when the last scan was \<open>l\<close>, seen once or more often.\<close>

definition owed :: "u16 \<Rightarrow> bool \<Rightarrow> u16 list \<Rightarrow> u16 list" where
  "owed l settled ws = (if settled then drop (if l = 0xffff then 0 else 1) (presses (l # l # ws))
     else presses (l # ws))"

lemma runs_hd: "runs (x # xs) = (x, Suc (length (takeWhile ((=) x) xs))) # runs (dropWhile ((=) x) xs)"
proof (induction xs arbitrary: x)
  case Nil
  then show ?case by simp
next
  case (Cons y ys)
  have "runs (x # y # ys) = (if x = y then (y, Suc (Suc (length (takeWhile ((=) y) ys)))) # runs (dropWhile ((=) y) ys)
      else (x, 1) # runs (y # ys))"
    using Cons.IH [of y] by (simp only: runs.simps(2) [of x "y # ys"]) simp
  then show ?case by simp
qed

lemma presses_hd: "presses (x # xs) =
    (if 0 < length (takeWhile ((=) x) xs) \<and> x \<noteq> 0xffff then [x] else []) @ presses (dropWhile ((=) x) xs)"
  unfolding presses_def runs_hd by (cases "takeWhile ((=) x) xs") (simp_all del: runs.simps)

lemma presses_other: "x \<noteq> y \<Longrightarrow> presses (x # y # ys) = presses (y # ys)"
  by (subst presses_hd) simp

lemma presses_third: "presses (x # x # x # ys) = presses (x # x # ys)"
  by (simp add: presses_hd)

lemma owed_step:
  "owed l settled (w # ws) =
     (if w = l then (if settled then owed l True ws
        else (if w = 0xffff then [] else [w]) @ owed l True ws)
      else owed w False ws)"
proof (cases "w = l")
  case True
  then show ?thesis by (auto simp: owed_def presses_third) (auto simp: presses_hd)
next
  case False
  then show ?thesis
    using presses_other [of l w ws] by (auto simp: owed_def presses_hd [of l "l # w # ws"])
qed

lemma owed_Nil [simp]: "owed l settled [] = []"
  by (simp add: owed_def presses_hd) (simp add: presses_def)

definition scans :: "u16 list \<Rightarrow> keypad \<Rightarrow> keypad" where
  "scans ws s = fold (\<lambda>w s. fst (scan_keys w s)) ws s"

definition settled :: "keypad \<Rightarrow> bool" where
  "settled s \<longleftrightarrow> key_assigned s \<noteq> UM"

lemma ring_keys_cong [simp]:
  "ring_keys (s\<lparr>last_scan_key := w\<rparr>) = ring_keys s" "ring_keys (s\<lparr>key_assigned := a\<rparr>) = ring_keys s"
  "wf_ring (s\<lparr>last_scan_key := w\<rparr>) = wf_ring s" "wf_ring (s\<lparr>key_assigned := a\<rparr>) = wf_ring s"
  by (simp_all add: ring_keys_def wf_ring_def)

lemma scan_code_facts:
  fixes w s
  defines "s' \<equiv> fst (scan_code w s)"
  shows scan_code_wf: "wf_ring s \<Longrightarrow> wf_ring s'"
    and scan_code_last: "last_scan_key s' = w"
    and scan_code_settled: "settled s' \<longleftrightarrow> last_scan_key s = w"
    and scan_code_keys: "wf_ring s \<Longrightarrow>
      (last_scan_key s = w \<and> \<not> settled s \<and> w \<noteq> 0xffff \<longrightarrow> length (ring_keys s) < 15) \<Longrightarrow>
      ring_keys s' = ring_keys s @
      (if last_scan_key s = w \<and> \<not> settled s \<and> w \<noteq> 0xffff then [w] else [])"
    and scan_code_woken: "snd (scan_code w s) \<longleftrightarrow> last_scan_key s = w \<and> \<not> settled s \<and> w \<noteq> 0xffff"
  unfolding s'_def scan_code_def settled_def
  by (auto simp: wf_scan_store ring_keys_scan_store UM_def OK_def)

lemma overflow_full:
  assumes "wf_ring s"
  shows "keypad_overflow s \<longleftrightarrow> length (ring_keys s) = 15 \<and> scan_key_out_idx s \<noteq> 0"
proof -
  have "i + 1 = out \<longleftrightarrow> (i + 16 - out) mod 16 = 15 \<and> out \<noteq> 0" if "i < 16" "out < 16" for i out :: nat
    using that by (simp only: ring_dist) auto
  with assms show ?thesis
    by (simp add: keypad_overflow_def length_ring_keys wf_ring_def unat_eq_0 [symmetric])
qed

lemma scans_overflow: "keypad_overflow s \<Longrightarrow> scans ws s = s"
  unfolding scans_def by (induction ws) (simp_all add: scan_keys_def)

text \<open>As long as the ring has room, the scans append exactly the presses of their runs.\<close>

lemma scans_keys:
  assumes "wf_ring s" "length (ring_keys s) + length (owed (last_scan_key s) (settled s) ws) \<le> 15"
  shows "wf_ring (scans ws s) \<and> ring_keys (scans ws s) = ring_keys s @ owed (last_scan_key s) (settled s) ws"
  using assms
proof (induction ws arbitrary: s)
  case Nil
  then show ?case by (simp add: scans_def)
next
  case (Cons w ws)
  show ?case
  proof (cases "keypad_overflow s")
    case True
    then have "owed (last_scan_key s) (settled s) (w # ws) = []"
      using Cons.prems overflow_full [OF Cons.prems(1)] by simp
    with True Cons.prems show ?thesis by (simp add: scans_overflow)
  next
    case False
    define s' where "s' = fst (scan_code w s)"
    have step: "scans (w # ws) s = scans ws s'"
      using False by (simp add: scans_def scan_keys_def s'_def)
    let ?new = "if last_scan_key s = w \<and> \<not> settled s \<and> w \<noteq> 0xffff then [w] else []"
    have owed: "owed (last_scan_key s) (settled s) (w # ws) = ?new @ owed w (settled s') ws"
      unfolding s'_def scan_code_settled by (simp add: owed_step)
    have keys: "ring_keys s' = ring_keys s @ ?new"
      using Cons.prems owed unfolding s'_def by (intro scan_code_keys) (auto split: if_splits)
    have "wf_ring s'" "last_scan_key s' = w"
      using Cons.prems by (simp_all add: s'_def scan_code_wf scan_code_last)
    with Cons.IH [of s'] Cons.prems(2) show ?thesis
      unfolding step owed keys by (simp add: ac_simps)
  qed
qed

text \<open>From a reset keypad, no scan is owed anything by what was pressed before.\<close>

lemma Initial_KEYPAD_simps:
  assumes "length (scan_key_buf s) = 16"
  shows "wf_ring (Initial_KEYPAD s)" "ring_keys (Initial_KEYPAD s) = []"
    "last_scan_key (Initial_KEYPAD s) = 0xffff" "\<not> settled (Initial_KEYPAD s)"
proof -
  have "length (fold (\<lambda>i b. b[i := 0xffff]) [0..<16] (scan_key_buf s)) = 16"
    by (rule fold_invariant_upto [where P = "\<lambda>b. length b = 16"]) (use assms in auto)
  then show "wf_ring (Initial_KEYPAD s)"
    by (simp add: Initial_KEYPAD_def Reset_KEYPAD_def wf_ring_def)
qed (simp_all add: Initial_KEYPAD_def Reset_KEYPAD_def ring_keys_def settled_def UM_def)

lemma Reset_KEYPAD_simps:
  "wf_ring s \<Longrightarrow> wf_ring (Reset_KEYPAD s)" "ring_keys (Reset_KEYPAD s) = []"
  "last_scan_key (Reset_KEYPAD s) = 0xffff" "\<not> settled (Reset_KEYPAD s)"
  by (simp_all add: Reset_KEYPAD_def ring_keys_def settled_def wf_ring_def UM_def)

text \<open>The sixteenth press with the read index at 0: the overflow test misses it and all keys are gone.\<close>

lemma overflow_missed:
  assumes "wf_ring s" "length (ring_keys s) = 15" "scan_key_out_idx s = 0"
    "last_scan_key s = w" "\<not> settled s" "w \<noteq> 0xffff"
  shows "ring_keys (fst (scan_keys w s)) = []" "fst (KEYPAD_get_key (fst (scan_keys w s))) = None"
proof -
  have k: "ring_keys (fst (scan_keys w s)) = []"
    using assms overflow_full [OF assms(1)]
    by (simp add: scan_keys_def scan_code_def settled_def ring_keys_scan_store_full)
  have "wf_ring (fst (scan_keys w s))"
    using assms by (simp add: scan_keys_def scan_code_wf)
  with k show "fst (KEYPAD_get_key (fst (scan_keys w s))) = None" by (simp add: ring.get_nil)
  from k show "ring_keys (fst (scan_keys w s)) = []" .
qed

section \<open>What a reader of the ring sees\<close>

lemma presses_idle: "presses (0xffff # ws) = presses ws"
proof (cases ws)
  case Nil
  then show ?thesis by (simp add: presses_def)
next
  case (Cons v vs)
  then show ?thesis
    using presses_hd [of "0xffff" ws] presses_hd [of v vs] by (cases "v = 0xffff") simp_all
qed

lemma Initial_KEYPAD_scans:
  assumes "length (scan_key_buf s) = 16" "length (presses ws) \<le> 15"
  shows "wf_ring (scans ws (Initial_KEYPAD s)) \<and> ring_keys (scans ws (Initial_KEYPAD s)) = presses ws"
  using scans_keys [of "Initial_KEYPAD s" ws] assms
  by (simp add: Initial_KEYPAD_simps owed_def presses_idle)

lemma scan_keys_out [frame_simps]:
  "scan_key_out_idx (fst (scan_code w s)) = scan_key_out_idx s"
  "scan_key_out_idx (fst (scan_keys w s)) = scan_key_out_idx s"
  by (simp_all add: scan_keys_def scan_code_def scan_store_def)

lemma scans_snoc: "scans (ws @ [w]) s = fst (scan_keys w (scans ws s))"
  by (simp add: scans_def)

text \<open>While the read index stands at 0 the overflow test never fires, and the scans all count.\<close>

lemma scans_unread:
  assumes "scan_key_out_idx s = 0"
  shows "scan_key_out_idx (scans ws s) = 0 \<and> (ws \<noteq> [] \<longrightarrow> last_scan_key (scans ws s) = last ws)"
proof (induction ws rule: rev_induct)
  case Nil
  with assms show ?case by (simp add: scans_def)
next
  case (snoc w ws)
  then have "\<not> keypad_overflow (scans ws s)" by (simp add: keypad_overflow_def)
  with snoc show ?case by (simp add: scans_snoc frame_simps scan_keys_def scan_code_last)
qed

section \<open>Properties\<close>



text \<open>
  C24: a press, two scans of a code that is new and not the idle pattern, on a full ring, one with fifteen keys waiting. The overflow test \<open>in + 1 == out\<close> is not
  taken modulo sixteen. With the read index anywhere but at 0 it works: the scans of the press change
  nothing, the fifteen keys stay and the press is ignored. With the read index at 0 it misses: the
  press is stored, the write index comes round to the read index, and the readers find the ring empty,
  all sixteen keys lost.
\<close>

theorem press_on_full_ring:
  assumes "wf_ring s" "length (ring_keys s) = 15" "last_scan_key s \<noteq> w" "w \<noteq> 0xffff"
  shows "if scan_key_out_idx s = 0
    then ring_keys (scans [w, w] s) = [] \<and> KEYPAD_get_key (scans [w, w] s) = (None, scans [w, w] s)
    else scans [w, w] s = s"
proof (cases "scan_key_out_idx s = 0")
  case True
  define s1 where "s1 = fst (scan_keys w s)"
  have "s1 = fst (scan_code w s)" using True by (simp add: s1_def scan_keys_def keypad_overflow_def)
  then have s1: "wf_ring s1" "length (ring_keys s1) = 15" "scan_key_out_idx s1 = 0"
      "last_scan_key s1 = w" "\<not> settled s1"
    using assms True by (simp_all add: scan_code_wf scan_code_last scan_code_settled scan_code_keys frame_simps)
  have "scans [w, w] s = fst (scan_keys w s1)" by (simp add: scans_def s1_def)
  moreover have "wf_ring (fst (scan_keys w s1))" using s1(1) by (simp add: scan_keys_def scan_code_wf)
  ultimately show ?thesis
    using True overflow_missed(1) [OF s1 assms(4)] by (simp add: ring.get_nil)
next
  case False
  then show ?thesis using overflow_full [OF assms(1)] assms(2) by (simp add: scans_overflow)
qed

text \<open>
  Fifteen presses after \<open>Initial_KEYPAD\<close>, none of them read, lead to the first case; one key read and
  one press more lead to the second.
\<close>

lemma unread_ring:
  assumes "length (scan_key_buf s) = 16" "length (presses ws) = 15"
  shows "wf_ring (scans ws (Initial_KEYPAD s))" "length (ring_keys (scans ws (Initial_KEYPAD s))) = 15"
    "scan_key_out_idx (scans ws (Initial_KEYPAD s)) = 0" "last_scan_key (scans ws (Initial_KEYPAD s)) = last ws"
proof -
  have "scan_key_out_idx (Initial_KEYPAD s) = 0" by (simp add: Initial_KEYPAD_def Reset_KEYPAD_def)
  moreover have "ws \<noteq> []" using assms(2) by (auto simp: presses_def)
  ultimately show "scan_key_out_idx (scans ws (Initial_KEYPAD s)) = 0" "last_scan_key (scans ws (Initial_KEYPAD s)) = last ws"
    using scans_unread [of "Initial_KEYPAD s" ws] by simp_all
qed (use Initial_KEYPAD_scans [OF assms(1), of ws] assms(2) in simp_all)

definition fifteen_presses :: "u16 list" where
  "fifteen_presses = concat (replicate 15 [0xfffe, 0xfffe, 0xffff])"

lemma fifteen_presses: "length (presses fifteen_presses) = 15" "last fifteen_presses = 0xffff"
  by (simp_all add: fifteen_presses_def presses_def numeral_eq_Suc)

lemma refilled_ring:
  assumes "wf_ring s" "length (ring_keys s) = 15" "scan_key_out_idx s = 0" "last_scan_key s = 0xffff"
  defines "s' \<equiv> scans [0xfffe, 0xfffe] (snd (KEYPAD_get_key s))"
  shows "wf_ring s'" "length (ring_keys s') = 15" "scan_key_out_idx s' = 1" "last_scan_key s' = 0xfffe"
proof -
  obtain k ks where k: "ring_keys s = k # ks" "length ks = 14" using assms(2) by (cases "ring_keys s") auto
  let ?s = "snd (KEYPAD_get_key s)"
  have got: "wf_ring ?s" "ring_keys ?s = ks" using KEYPAD_get_key_cons [OF assms(1) k(1)] by simp_all
  have "scan_key_out_idx s \<noteq> scan_key_in_idx s" using ring_empty_iff [OF assms(1)] k(1) by auto
  then have fields: "scan_key_out_idx ?s = 1" "last_scan_key ?s = 0xffff"
    using assms(3,4) by (simp_all add: KEYPAD_get_key_def Let_def)
  have owed: "owed (last_scan_key ?s) (settled ?s) [0xfffe, 0xfffe] = [0xfffe]"
    unfolding fields(2) by (simp add: owed_step)
  show "wf_ring s'" "length (ring_keys s') = 15"
    using scans_keys [of ?s "[0xfffe, 0xfffe]"] got k(2) unfolding owed s'_def by simp_all
  have "\<not> keypad_overflow ?s" using overflow_full [OF got(1)] got(2) k(2) by simp
  moreover have "\<not> keypad_overflow (fst (scan_code 0xfffe ?s))"
    using overflow_full [of "fst (scan_code 0xfffe ?s)"] scan_code_keys [OF got(1), of "0xfffe"] got k(2) fields(2)
    by (simp add: scan_code_wf)
  ultimately show "scan_key_out_idx s' = 1" "last_scan_key s' = 0xfffe"
    by (simp_all add: s'_def scans_def scan_keys_def frame_simps fields scan_code_last)
qed

theorem press_on_full_ring_witness:
  "let s = scans fifteen_presses (Initial_KEYPAD keypad_bss);
       s' = scans [0xfffe, 0xfffe] (snd (KEYPAD_get_key s))
   in ring_keys (scans [0xfffd, 0xfffd] s) = [] \<and> scans [0xfffd, 0xfffd] s' = s'"
proof -
  let ?s = "scans fifteen_presses (Initial_KEYPAD keypad_bss)"
  have s: "wf_ring ?s" "length (ring_keys ?s) = 15" "scan_key_out_idx ?s = 0" "last_scan_key ?s = 0xffff"
    using unread_ring [of keypad_bss fifteen_presses] fifteen_presses by (simp_all add: keypad_bss_def)
  from refilled_ring [OF this] press_on_full_ring [of _ "0xfffd"] s show ?thesis by (simp add: Let_def)
qed

end
