(* ===== verification/Board.thy ===== *)
theory Board
  imports Lcd
begin

text \<open>
  The board core of \<open>arch/arm/mach-pxa/creator-pxa270-core.c\<close>: the shadow registers \<open>creator_io\<close>, the
  compact-flash reset, and the probe that finds out whether the Creator board is there.

  The memory-mapped registers are volatile. The state keeps the accesses made so far, oldest first;
  the device is a parameter \<open>hw\<close>: what a read of a register returns after a given history. Timed
  delays have no other effect and are left out, as is the spin lock around the shadow registers.
\<close>

section \<open>Memory-mapped registers\<close>

datatype reg = LCD_CMD | LCD_DATA | IO_REG0 | IO_REG1 | IO_REG2 | CPLD_CTRL | CPLD_STATUS
  | IRQ_SELECT | IRQ3_PEND | IRQ3_MASK
  | MASTER_INTPEND1 | MASTER_INTPEND2 | MASTER_INTMASK1 | MASTER_INTMASK2 | GEDR0

datatype access = Wr reg u16 | Rd reg u16

type_synonym device = "access list \<Rightarrow> reg \<Rightarrow> u16"

definition wr :: "reg \<Rightarrow> u16 \<Rightarrow> access list \<Rightarrow> access list" where
  "wr r v l = l @ [Wr r v]"

definition rd :: "device \<Rightarrow> reg \<Rightarrow> access list \<Rightarrow> u16 \<times> access list" where
  "rd hw r l = (hw l r, l @ [Rd r (hw l r)])"

text \<open>The values written to a register, oldest first, and the last one.\<close>

definition written :: "reg \<Rightarrow> access list \<Rightarrow> u16 list" where
  "written r l = [v. Wr r' v \<leftarrow> l, r' = r]"

lemma written_simps [simp]:
  "written r [] = []"
  "written r (Wr r' v # l) = (if r' = r then v # written r l else written r l)"
  "written r (Rd r' v # l) = written r l"
  "written r (k @ l) = written r k @ written r l"
  "written r (wr r' v l) = written r l @ (if r' = r then [v] else [])"
  by (simp_all add: written_def wr_def)

text \<open>A register that reads back what was last written to it.\<close>

definition reads_back :: "device \<Rightarrow> reg \<Rightarrow> bool" where
  "reads_back hw r \<longleftrightarrow> (\<forall>l. written r l \<noteq> [] \<longrightarrow> hw l r = last (written r l))"

section \<open>The shadow registers\<close>

record board =
  cpld_ctrl :: u16
  io_reg0 :: u16
  version_first :: bool
  CreatorBoardVersion :: u8
  accesses :: "access list"

definition board_bss :: board where
  "board_bss = \<lparr>cpld_ctrl = 0, io_reg0 = 0, version_first = True, CreatorBoardVersion = 0, accesses = []\<rparr>"

definition put_reg :: "reg \<Rightarrow> u16 \<Rightarrow> board \<Rightarrow> board" where
  "put_reg r v s = s\<lparr>accesses := wr r v (accesses s)\<rparr>"

text \<open>The mask \<open>0x7FFFF\<close> is an \<open>int\<close>: the 16-bit shadow is widened, masked and cut back.\<close>

definition creator_cf_reset :: "board \<Rightarrow> board" where
  "creator_cf_reset s =
     (let s1 = s\<lparr>io_reg0 := ucast ((ucast (io_reg0 s) :: u32) AND 0x7FFFF)\<rparr>;
          s2 = put_reg IO_REG0 (io_reg0 s1) s1;
          s3 = s2\<lparr>io_reg0 := io_reg0 s2 OR 0x8000\<rparr>
      in put_reg IO_REG0 (io_reg0 s3) s3)"

definition creator_pxa270_core_init :: "board \<Rightarrow> board" where
  "creator_pxa270_core_init s =
     (let s1 = s\<lparr>io_reg0 := 0xc000\<rparr>;
          s2 = put_reg IO_REG0 (io_reg0 s1) s1;
          s3 = s2\<lparr>cpld_ctrl := 0x3D\<rparr>;
          s4 = put_reg CPLD_CTRL (cpld_ctrl s3) s3
      in creator_cf_reset s4)"

section \<open>The second LCD access layer\<close>

text \<open>\<open>core.c\<close> has its own copy of the panel routines, used by the probe only.\<close>

definition core_WriteLCD :: "u16 \<Rightarrow> u16 \<Rightarrow> access list \<Rightarrow> access list" where
  "core_WriteLCD addr data l =
     wr LCD_DATA data (wr LCD_DATA (drop_bit 8 data) (wr LCD_CMD addr (wr LCD_CMD 0xff l)))"

definition core_read_word :: "device \<Rightarrow> u16 \<Rightarrow> access list \<Rightarrow> u16 \<times> access list" where
  "core_read_word hw addr l =
     (let l1 = wr LCD_CMD addr (wr LCD_CMD 0xff l);
          (hi, l2) = rd hw LCD_DATA l1;
          (lo, l3) = rd hw LCD_DATA l2
      in (push_bit 8 hi OR lo, l3))"

definition core_ReadLCD :: "device \<Rightarrow> u16 \<Rightarrow> access list \<Rightarrow> u16 \<times> access list" where
  "core_ReadLCD hw addr l =
     (let (data, l1) = core_read_word hw addr l
      in if addr = LCD_RAM_DATA then core_read_word hw addr l1 else (data, l1))"

definition core_InitialLCD :: "access list \<Rightarrow> access list" where
  "core_InitialLCD l =
     fold (\<lambda>(a, d). core_WriteLCD a d)
       [(LCD_START_OSC, 1), (LCD_DRV_OUT, 0x030f), (LCD_WAVEFORM, 0), (LCD_PWR_CONTROL, 0x23c),
        (LCD_CONTRAST, 0x18), (LCD_ENTRY_MODE, 0x10), (LCD_ROTATION, 0), (LCD_CURSOR, 4),
        (LCD_DB_HEIGHT, 0), (LCD_VET_SCROLL, 0), (LCD_HOR_CURSOR_POS, 0), (LCD_RAM_MASK, 0),
        (LCD_RAM_ADDR, 0)]
       ((wr LCD_CMD 0 ^^ 4) l)"

definition core_LCD_PutRAMData :: "u16 \<Rightarrow> u16 \<Rightarrow> access list \<Rightarrow> access list" where
  "core_LCD_PutRAMData address data l = core_WriteLCD LCD_RAM_DATA data (core_WriteLCD LCD_RAM_ADDR address l)"

definition LCD_GetRAMData :: "device \<Rightarrow> u16 \<Rightarrow> access list \<Rightarrow> u16 \<times> access list" where
  "LCD_GetRAMData hw address l = core_ReadLCD hw LCD_RAM_DATA (core_WriteLCD LCD_RAM_ADDR address l)"

section \<open>The probe\<close>

text \<open>One round of the mask test: false is the jump to \<open>err\<close>.\<close>

definition mask_test :: "device \<Rightarrow> u16 \<Rightarrow> u16 \<Rightarrow> access list \<Rightarrow> bool \<times> access list" where
  "mask_test hw m pend l =
     (let (v, l1) = rd hw IRQ3_MASK (wr IRQ3_PEND pend (wr IRQ3_MASK m l))
      in (v AND 3 = m, l1))"

fun mask_tests :: "device \<Rightarrow> (u16 \<times> u16) list \<Rightarrow> access list \<Rightarrow> bool \<times> access list" where
  "mask_tests hw [] l = (True, l)"
| "mask_tests hw ((m, p) # ts) l =
     (let (ok, l1) = mask_test hw m p l in if ok then mask_tests hw ts l1 else (False, l1))"

text \<open>The version test of the \<open>err\<close> branch, three times: false is \<open>return (-1)\<close>.\<close>

fun version_tests :: "device \<Rightarrow> nat \<Rightarrow> access list \<Rightarrow> bool \<times> access list" where
  "version_tests hw 0 l = (True, l)"
| "version_tests hw (Suc n) l =
     (let (v, l1) = rd hw CPLD_STATUS (wr IRQ3_PEND 3 l);
          ver = ucast (drop_bit 8 v) :: u8
      in if ver \<noteq> 0x10 \<and> ver \<noteq> 0x11 then (False, l1) else version_tests hw n l1)"

definition rmw :: "device \<Rightarrow> reg \<Rightarrow> (u16 \<Rightarrow> u16) \<Rightarrow> access list \<Rightarrow> access list" where
  "rmw hw r f l = (let (v, l1) = rd hw r l in wr r (f v) l1)"

definition check_creator_board_exist :: "device \<Rightarrow> access list \<Rightarrow> int \<times> access list" where
  "check_creator_board_exist hw l =
     (let l1 = rmw hw MASTER_INTMASK1 (\<lambda>v. v OR 0xF0) l;
          (ok, l2) = mask_tests hw [(0, 3), (1, 2), (2, 1), (3, 0)] l1
      in if ok then (0, rmw hw MASTER_INTMASK1 (\<lambda>v. v AND NOT 0xF0) l2)
         else let (old, l3) = version_tests hw 3 l2
              in if \<not> old then (- 1, l3)
                 else let addr = 0x800;
                          l4 = core_LCD_PutRAMData addr (NOT addr) (core_InitialLCD l3);
                          (lcd_data, l5) = LCD_GetRAMData hw addr l4
                      in if lcd_data \<noteq> NOT addr then (- 1, l5) else (0, l5))"

definition CREATOR_BOARD_NOT_EXIST :: u8 where "CREATOR_BOARD_NOT_EXIST = 0xff"

definition creator_GetCreatorCPLDVersion :: "device \<Rightarrow> board \<Rightarrow> u8 \<times> board" where
  "creator_GetCreatorCPLDVersion hw s =
     (if version_first s
      then let (rc, l1) = check_creator_board_exist hw (accesses s);
               (v, l2) = (if 0 \<le> rc then (let (st, l) = rd hw CPLD_STATUS l1 in (ucast (drop_bit 8 st), l))
                          else (CREATOR_BOARD_NOT_EXIST, l1));
               s1 = s\<lparr>CreatorBoardVersion := v, version_first := False, accesses := l2\<rparr>
           in (CreatorBoardVersion s1, s1)
      else (CreatorBoardVersion s, s))"

section \<open>The compact-flash reset\<close>

lemma rd_simps [simp]: "fst (rd hw r l) = hw l r" "written r' (snd (rd hw r l)) = written r' l"
  by (simp_all add: rd_def)

lemma mask_7ffff: "ucast ((ucast (v :: u16) :: u32) AND 0x7FFFF) = v"
proof -
  have "(0x7FFFF :: u32) = mask 19" by (simp add: mask_eq_exp_minus_1)
  then have m: "(ucast v :: u32) AND 0x7FFFF = take_bit 19 (ucast v)" by (simp only: take_bit_eq_mask)
  show ?thesis unfolding m by (rule bit_word_eqI) (auto simp: bit_simps)
qed

lemma creator_cf_reset_simps:
  "io_reg0 (creator_cf_reset s) = io_reg0 s OR 0x8000"
  "written IO_REG0 (accesses (creator_cf_reset s)) =
     written IO_REG0 (accesses s) @ [io_reg0 s, io_reg0 s OR 0x8000]"
  "cpld_ctrl (creator_cf_reset s) = cpld_ctrl s"
  by (simp_all add: creator_cf_reset_def mask_7ffff put_reg_def)

lemma core_init_simps:
  "io_reg0 (creator_pxa270_core_init s) = 0xc000"
  "cpld_ctrl (creator_pxa270_core_init s) = 0x3D"
  "written IO_REG0 (accesses (creator_pxa270_core_init s)) =
     written IO_REG0 (accesses s) @ [0xc000, 0xc000, 0xc000]"
  by (simp_all add: creator_pxa270_core_init_def creator_cf_reset_simps put_reg_def)

lemma replicate_two: "replicate (Suc (Suc k)) x = replicate k x @ [x, x]"
  by (induction k) simp_all

lemma cf_reset_again: "io_reg0 s = 0xc000 \<Longrightarrow>
    io_reg0 ((creator_cf_reset ^^ n) s) = 0xc000 \<and>
    written IO_REG0 (accesses ((creator_cf_reset ^^ n) s)) =
      written IO_REG0 (accesses s) @ replicate (2 * n) 0xc000"
  by (induction n) (simp_all add: creator_cf_reset_simps replicate_two del: replicate_Suc)

section \<open>The probe\<close>

lemma mask_test_reads_back:
  assumes "reads_back hw IRQ3_MASK" "m AND 3 = m"
  shows "fst (mask_test hw m p l)" "written r (snd (mask_test hw m p l)) =
    written r l @ (if r = IRQ3_MASK then [m] else if r = IRQ3_PEND then [p] else [])"
proof -
  let ?l = "wr IRQ3_PEND p (wr IRQ3_MASK m l)"
  have "hw ?l IRQ3_MASK = m"
    using assms(1) unfolding reads_back_def by (auto dest: spec [of _ ?l])
  then show "fst (mask_test hw m p l)" using assms(2) by (simp add: mask_test_def rd_def)
qed (auto simp: mask_test_def rd_def)

lemma mask_tests_written:
  "r \<noteq> IRQ3_MASK \<Longrightarrow> r \<noteq> IRQ3_PEND \<Longrightarrow> written r (snd (mask_tests hw ts l)) = written r l"
  by (induction hw ts l rule: mask_tests.induct)
    (auto simp: mask_test_def rd_def split: prod.splits if_splits)

lemma mask_tests_reads_back:
  assumes "reads_back hw IRQ3_MASK" "\<forall>(m, p) \<in> set ts. m AND 3 = m"
  shows "fst (mask_tests hw ts l)"
  using assms(2)
proof (induction ts arbitrary: l)
  case Nil
  then show ?case by simp
next
  case (Cons t ts)
  obtain m p where "t = (m, p)" by (cases t)
  with Cons mask_test_reads_back(1) [OF assms(1), of m p l] show ?case
    by (auto split: prod.splits)
qed

lemma rmw_written: "written r' (rmw hw r f l) = written r' l @ (if r = r' then [f (hw l r)] else [])"
  by (simp add: rmw_def rd_def)

lemma probe_present:
  assumes "reads_back hw IRQ3_MASK"
  shows "fst (check_creator_board_exist hw l) = 0"
    and "reads_back hw MASTER_INTMASK1 \<Longrightarrow>
      written MASTER_INTMASK1 (snd (check_creator_board_exist hw l)) =
      written MASTER_INTMASK1 l @ [hw l MASTER_INTMASK1 OR 0xF0, hw l MASTER_INTMASK1 AND NOT 0xF0]"
proof -
  let ?l1 = "rmw hw MASTER_INTMASK1 (\<lambda>v. v OR 0xF0) l"
  let ?ts = "[(0, 3), (1, 2), (2, 1), (3, 0)] :: (u16 \<times> u16) list"
  have ok: "fst (mask_tests hw ?ts ?l1)"
    by (rule mask_tests_reads_back [OF assms]) simp
  then show "fst (check_creator_board_exist hw l) = 0"
    unfolding check_creator_board_exist_def by (simp add: Let_def case_prod_beta del: mask_tests.simps)
  assume rb: "reads_back hw MASTER_INTMASK1"
  let ?l2 = "snd (mask_tests hw ?ts ?l1)"
  have w2: "written MASTER_INTMASK1 ?l2 = written MASTER_INTMASK1 l @ [hw l MASTER_INTMASK1 OR 0xF0]"
    by (simp add: mask_tests_written rmw_written del: mask_tests.simps)
  then have "hw ?l2 MASTER_INTMASK1 = hw l MASTER_INTMASK1 OR 0xF0"
    using rb unfolding reads_back_def by (auto dest: spec [of _ ?l2])
  moreover have "(v OR 0xF0) AND NOT 0xF0 = v AND NOT 0xF0" for v :: u16
    by (rule bit_word_eqI) (auto simp: bit_simps)
  ultimately show "written MASTER_INTMASK1 (snd (check_creator_board_exist hw l)) =
      written MASTER_INTMASK1 l @ [hw l MASTER_INTMASK1 OR 0xF0, hw l MASTER_INTMASK1 AND NOT 0xF0]"
    using ok w2 unfolding check_creator_board_exist_def
    by (simp add: Let_def case_prod_beta rmw_written del: mask_tests.simps)
qed

lemma version_tests_written:
  "r \<noteq> IRQ3_PEND \<Longrightarrow> written r (snd (version_tests hw n l)) = written r l"
  by (induction hw n l rule: version_tests.induct) (auto simp: rd_def Let_def)

lemma version_tests_old:
  assumes "\<And>l. (ucast (drop_bit 8 (hw l CPLD_STATUS)) :: u8) \<in> {0x10, 0x11}"
  shows "fst (version_tests hw n l)"
  using assms by (induction n arbitrary: l) (auto simp: rd_def Let_def)

lemma core_WriteLCD_written: "r \<noteq> LCD_CMD \<Longrightarrow> r \<noteq> LCD_DATA \<Longrightarrow> written r (core_WriteLCD a d l) = written r l"
  by (simp add: core_WriteLCD_def)

lemma wr_other_funpow: "r \<noteq> r' \<Longrightarrow> written r ((wr r' v ^^ n) l) = written r l"
  by (induction n) auto

lemma core_lcd_written:
  assumes "r \<noteq> LCD_CMD" "r \<noteq> LCD_DATA"
  shows "written r (core_InitialLCD l) = written r l" "written r (core_LCD_PutRAMData a d l) = written r l"
    "written r (snd (LCD_GetRAMData hw a l)) = written r l"
  using assms
  by (simp_all add: core_InitialLCD_def core_WriteLCD_written wr_other_funpow core_LCD_PutRAMData_def
      LCD_GetRAMData_def core_ReadLCD_def core_read_word_def rd_def Let_def)

text \<open>
  On the branch for old boards the probe returns without the second write of \<open>MASTER_INTMASK1\<close>:
  the four board interrupts stay masked whether or not a board is found.
\<close>

lemma probe_err_masked:
  assumes "\<not> fst (mask_tests hw [(0, 3), (1, 2), (2, 1), (3, 0)] (rmw hw MASTER_INTMASK1 (\<lambda>v. v OR 0xF0) l))"
  shows "written MASTER_INTMASK1 (snd (check_creator_board_exist hw l)) =
    written MASTER_INTMASK1 l @ [hw l MASTER_INTMASK1 OR 0xF0]"
  using assms unfolding check_creator_board_exist_def
  by (simp add: Let_def case_prod_beta rmw_written mask_tests_written version_tests_written
      core_lcd_written del: mask_tests.simps version_tests.simps)

lemma version_cached:
  "creator_GetCreatorCPLDVersion hw (snd (creator_GetCreatorCPLDVersion hw s)) =
     (fst (creator_GetCreatorCPLDVersion hw s), snd (creator_GetCreatorCPLDVersion hw s))"
  by (simp add: creator_GetCreatorCPLDVersion_def Let_def case_prod_beta)

section \<open>Properties\<close>

text \<open>
  The compact-flash reset never reaches the socket: whatever number of resets follows the core's
  initialisation, every word written to \<open>IO_REG0\<close> is \<open>0xc000\<close>, with bit 15, the active-low reset
  line, high. The mask \<open>0x7FFFF\<close> has a digit too many and clears nothing of the 16-bit shadow.
\<close>

theorem cf_reset_never_low:
  "written IO_REG0 (accesses ((creator_cf_reset ^^ n) (creator_pxa270_core_init board_bss))) = replicate (2 * n + 3) 0xc000"
proof -
  have "replicate (2 * n + 3) x = replicate 3 x @ replicate (2 * n) (x :: u16)" for x
    unfolding replicate_add [symmetric] by (simp add: add.commute)
  then show ?thesis
    using cf_reset_again [of "creator_pxa270_core_init board_bss" n]
    by (simp add: core_init_simps) (simp add: board_bss_def numeral_eq_Suc)
qed

text \<open>
  A board whose interrupt mask register reads back what is written passes the probe, and the four
  master interrupts masked for it are unmasked again; a board that fails the mask test leaves the
  probe with the four masked, found by the old-board test or not.
\<close>

theorem probe_result:
  assumes "reads_back hw MASTER_INTMASK1"
    and "ok = fst (mask_tests hw [(0, 3), (1, 2), (2, 1), (3, 0)] (rmw hw MASTER_INTMASK1 (\<lambda>v. v OR 0xF0) l))"
  shows "(reads_back hw IRQ3_MASK \<longrightarrow> fst (check_creator_board_exist hw l) = 0 \<and>
      last (written MASTER_INTMASK1 (snd (check_creator_board_exist hw l))) = hw l MASTER_INTMASK1 AND NOT 0xF0) \<and>
    (\<not> ok \<longrightarrow> last (written MASTER_INTMASK1 (snd (check_creator_board_exist hw l))) = hw l MASTER_INTMASK1 OR 0xF0)"
  using probe_present [of hw l] probe_err_masked [of hw l] assms by (simp del: mask_tests.simps)

text \<open>A board all of whose registers are memory, at 0 before the first write.\<close>

definition memory_board :: device where
  "memory_board l r = (if written r l = [] then 0 else last (written r l))"

theorem probe_result_witness:
  "fst (check_creator_board_exist memory_board []) = 0 \<and>
     last (written MASTER_INTMASK1 (snd (check_creator_board_exist memory_board []))) = memory_board [] MASTER_INTMASK1 AND NOT 0xF0"
proof -
  have "reads_back memory_board r" for r by (simp add: reads_back_def memory_board_def)
  with probe_result [of memory_board _ "[]", OF _ refl] show ?thesis by blast
qed

end
