(* ===== verification/SegLed.thy ===== *)
theory SegLed
  imports Board
begin

text \<open>
  The eight LED lamps and the four-digit seven-segment display of \<open>creator-pxa270-lcd.c\<close>.

  The lamps are the high byte of the static \<open>scan_led\<close>, active low, which the driver puts in
  \<open>IO_REG2\<close> together with the row select of the keypad. The segments are a buffer of four patterns,
  also active low, that a timer interrupt multiplexes onto \<open>IO_REG0\<close>, one digit at a time.
\<close>

section \<open>The lamps\<close>

datatype led_cmd = LED_SET | LED_BIT_SET | LED_BIT_CLEAR

text \<open>The \<open>for\<close> loops that build the bit of lamp \<open>led\<close> in an \<open>unsigned char\<close>.\<close>

definition led_bit :: "u8 \<Rightarrow> u8" where
  "led_bit led = ((\<lambda>b. push_bit 1 b) ^^ unat led) 1"

text \<open>The result is the return code, the new \<open>scan_led\<close> and the word written to \<open>IO_REG2\<close>, if any.\<close>

definition Creator_pxa270_led_cmd :: "led_cmd option \<Rightarrow> u8 \<Rightarrow> u16 \<Rightarrow> int \<times> u16 \<times> u16 option" where
  "Creator_pxa270_led_cmd cmd led scan_led =
     (let done = (\<lambda>scan_led. (0, scan_led, Some (scan_led OR 0xfe)))
      in case cmd of
        Some LED_SET \<Rightarrow> done (push_bit 8 (NOT (ucast led)))
      | Some LED_BIT_SET \<Rightarrow>
          (if 8 \<le> unat led then (- EINVAL, scan_led, None)
           else done (scan_led AND push_bit 8 (NOT (ucast (led_bit led)))))
      | Some LED_BIT_CLEAR \<Rightarrow>
          (if 8 \<le> unat led then (- EINVAL, scan_led, None)
           else done (scan_led OR push_bit 8 (ucast (led_bit led))))
      | None \<Rightarrow> (- ENOTTY, scan_led, None))"

text \<open>The lamps that are lit while \<open>IO_REG2\<close> holds \<open>w\<close>.\<close>

definition lamps :: "u16 \<Rightarrow> nat set" where
  "lamps w = {i. i < 8 \<and> \<not> bit w (8 + i)}"

section \<open>The seven-segment display\<close>

datatype lcd_timer = TTIMER_SETUP | TTIMER_START | TTIMER_STOP

record seg7 =
  seven_seg_buf :: "u8 list"
  seven_seg_idx :: u8
  Start7SegmentLED :: u8
  OMCR4 :: u32
  OSMR4 :: u32
  OIER :: u32
  OSCR4 :: u32

definition seg7_bss :: seg7 where
  "seg7_bss = \<lparr>seven_seg_buf = replicate 4 0, seven_seg_idx = 0, Start7SegmentLED = 0,
     OMCR4 = 0, OSMR4 = 0, OIER = 0, OSCR4 = 0\<rparr>"

record seg_info =
  Mode :: u8
  Which :: u8
  Value :: u32

definition tbl_7seg_com :: "u16 list" where
  "tbl_7seg_com = [0x0e00, 0x0d00, 0x0b00, 0x0700]"

definition LED_tbl :: "u8 list" where
  "LED_tbl = [0xc0, 0xf9, 0xa4, 0xb0, 0x99, 0x92, 0x82, 0xf8, 0x80, 0x90,
              0xa0, 0x83, 0xc6, 0xa1, 0x84, 0x8e, 0x7f, 0xff]"

definition Initial_7SEG :: "seg7 \<Rightarrow> seg7" where
  "Initial_7SEG s =
     (let b0 = (seven_seg_buf s)[0 := 0x90]; b1 = b0[1 := 0xA3]; b2 = b1[2 := 0xA3]
      in s\<lparr>seven_seg_buf := b2[3 := 0xA1]\<rparr>)"

text \<open>
  The loop of both modes: \<open>i\<close> counts down the digits left, \<open>enc\<close> makes the pattern and \<open>step\<close> is
  how far the value moves on, only when a digit was selected.
\<close>

fun put_digits :: "(u32 \<Rightarrow> u8) \<Rightarrow> nat \<Rightarrow> nat \<Rightarrow> u8 \<Rightarrow> u32 \<Rightarrow> u8 list \<Rightarrow> u8 list" where
  "put_digits enc step 0 which value buf = buf"
| "put_digits enc step (Suc i) which value buf =
     (if which AND 1 = 0 then put_digits enc step i (drop_bit 1 which) value buf
      else put_digits enc step i (drop_bit 1 which) (drop_bit step value) (buf[i := enc value]))"

definition pattern_digit :: "u32 \<Rightarrow> u8" where
  "pattern_digit value = NOT (ucast (value AND 0xff))"

definition hex_digit :: "u32 \<Rightarrow> u8" where
  "hex_digit value = LED_tbl ! unat (value AND 0xf)"

definition SEG_MODE_PATTERN :: u8 where "SEG_MODE_PATTERN = 0"
definition SEG_MODE_HEX_VALUE :: u8 where "SEG_MODE_HEX_VALUE = 1"

definition SEG7_put_led :: "seg_info \<Rightarrow> seg7 \<Rightarrow> int \<times> seg7" where
  "SEG7_put_led info s =
     (if Mode info = SEG_MODE_PATTERN
      then (0, s\<lparr>seven_seg_buf := put_digits pattern_digit 8 4 (Which info) (Value info) (seven_seg_buf s)\<rparr>)
      else if Mode info = SEG_MODE_HEX_VALUE
      then (0, s\<lparr>seven_seg_buf := put_digits hex_digit 4 4 (Which info) (Value info) (seven_seg_buf s)\<rparr>)
      else (- ENOTTY, s))"

text \<open>The interrupt: \<open>io\<close> is \<open>creator_io.io_reg0\<close>, the first result what goes to \<open>IO_REG0\<close>.\<close>

definition seg7_timer_irq :: "u16 \<Rightarrow> seg7 \<Rightarrow> u16 \<times> seg7" where
  "seg7_timer_irq io s =
     (let s1 = s\<lparr>seven_seg_idx := (seven_seg_idx s + 1) AND 3\<rparr>;
          i = unat (seven_seg_idx s1)
      in (io OR tbl_7seg_com ! i OR ucast (seven_seg_buf s1 ! i), s1))"

text \<open>
  The timer registers. \<open>OIER_E4\<close> is already the mask \<open>1 << 4\<close>, and the driver shifts by it once
  more. \<open>request_irq\<close> is the kernel's: its result, and what it leaves in \<open>OIER\<close>.
\<close>

definition OIER_E4 :: nat where "OIER_E4 = 16"
definition TIMER_COUNT :: u32 where "TIMER_COUNT = 5"
definition OK1 :: u8 where "OK1 = 1"

definition timer_mode :: u32 where
  "timer_mode = push_bit 7 1 + push_bit 6 1 + push_bit 4 0 + push_bit 3 1 + 2"

definition seg7_timer_operation :: "(u32 \<Rightarrow> int \<times> u32) \<Rightarrow> lcd_timer \<Rightarrow> seg7 \<Rightarrow> int \<times> seg7" where
  "seg7_timer_operation request_irq tt s =
     (case tt of
        TTIMER_SETUP \<Rightarrow>
          (let s1 = s\<lparr>OMCR4 := timer_mode, OSMR4 := TIMER_COUNT,
                      OIER := OIER s AND NOT (push_bit OIER_E4 1), OSCR4 := 0\<rparr>;
               (result, oier) = request_irq (OIER s1);
               s2 = s1\<lparr>OIER := oier\<rparr>
           in if result \<noteq> 0 then (result, s2) else (0, s2\<lparr>Start7SegmentLED := OK1\<rparr>))
      | TTIMER_START \<Rightarrow>
          (0, s\<lparr>OMCR4 := timer_mode, OSMR4 := TIMER_COUNT, OIER := OIER s OR push_bit OIER_E4 1,
                OSCR4 := 0, Start7SegmentLED := OK1\<rparr>)
      | TTIMER_STOP \<Rightarrow>
          (0, s\<lparr>OIER := OIER s AND NOT (push_bit OIER_E4 1), OMCR4 := 0, Start7SegmentLED := 0\<rparr>))"

datatype seg_cmd = SEG_ON | SEG_OFF | SEG_SET seg_info

definition Creator_pxa270_7Segment_cmd :: "(u32 \<Rightarrow> int \<times> u32) \<Rightarrow> seg_cmd option \<Rightarrow> seg7 \<Rightarrow> int \<times> seg7" where
  "Creator_pxa270_7Segment_cmd request_irq cmd s =
     (case cmd of
        Some SEG_ON \<Rightarrow>
          (if Start7SegmentLED s \<noteq> 0 then (0, s)
           else let (r, s1) = seg7_timer_operation request_irq TTIMER_START s
                in (if r < 0 then - EIO else 0, s1))
      | Some SEG_OFF \<Rightarrow>
          (if Start7SegmentLED s \<noteq> 0 then (0, snd (seg7_timer_operation request_irq TTIMER_STOP s))
           else (0, s))
      | Some (SEG_SET info) \<Rightarrow> SEG7_put_led info s
      | None \<Rightarrow> (- ENOTTY, s))"

section \<open>What the lamps show\<close>

lemma funpow_push_bit: "((\<lambda>b. push_bit 1 b) ^^ n) b = push_bit n (b :: 'a::len word)"
  by (induction n) (simp_all add: push_bit_eq_mult ac_simps)

lemma led_bit_eq: "led_bit led = push_bit (unat led) 1"
  unfolding led_bit_def funpow_push_bit ..

lemma bit_led_bit: "unat led < 8 \<Longrightarrow> bit (led_bit led) i \<longleftrightarrow> i = unat led"
  unfolding led_bit_eq bit_push_bit_iff by (auto simp: bit_1_iff)

lemma bit_high_not: "i < 8 \<Longrightarrow> bit (push_bit 8 (NOT (ucast (l :: u8))) :: u16) (8 + i) \<longleftrightarrow> \<not> bit l i"
  by (auto simp: bit_simps)

lemma bit_high: "i < 8 \<Longrightarrow> bit (push_bit 8 (ucast (l :: u8)) :: u16) (8 + i) \<longleftrightarrow> bit l i"
  by (auto simp: bit_simps)

lemma lamps_select: "v < 0x100 \<Longrightarrow> lamps (w OR v) = lamps w"
proof -
  assume "v < 0x100"
  then have "unat v < 2 ^ 8" by (simp add: word_less_nat_alt)
  then have "take_bit 8 v = v"
    by (metis take_bit_nat_eq_self_iff unsigned_take_bit_eq word_unat_eq_iff)
  then have "\<not> bit v (8 + i)" for i by (metis bit_take_bit_iff not_add_less1)
  then show ?thesis by (simp add: lamps_def bit_or_iff)
qed

lemma lamps_set: "lamps (push_bit 8 (NOT (ucast (l :: u8)))) = {i. i < 8 \<and> bit l i}"
  unfolding lamps_def by (auto simp: bit_high_not)

lemma lamps_bit_set:
  "unat l < 8 \<Longrightarrow> lamps (w AND push_bit 8 (NOT (ucast (led_bit l)))) = insert (unat l) (lamps w)"
  unfolding lamps_def by (auto simp: bit_and_iff bit_high_not bit_led_bit)

lemma lamps_bit_clear:
  "unat l < 8 \<Longrightarrow> lamps (w OR push_bit 8 (ucast (led_bit l))) = lamps w - {unat l}"
  unfolding lamps_def by (auto simp: bit_or_iff bit_high bit_led_bit)

lemma led_cmd_lamps:
  assumes "Creator_pxa270_led_cmd (Some cmd) l w = (0, w', out)"
  shows "out = Some (w' OR 0xfe)" and
    "lamps w' = (case cmd of LED_SET \<Rightarrow> {i. i < 8 \<and> bit l i}
       | LED_BIT_SET \<Rightarrow> insert (unat l) (lamps w) | LED_BIT_CLEAR \<Rightarrow> lamps w - {unat l})"
  using assms
  by (auto simp: Creator_pxa270_led_cmd_def Let_def lamps_set lamps_bit_set lamps_bit_clear
      split: led_cmd.splits if_splits)

section \<open>What the segments show\<close>

lemma put_digits_length [simp]: "length (put_digits enc st n w v b) = length b"
  by (induction enc st n w v b rule: put_digits.induct) auto

text \<open>Digit \<open>3 - i\<close> belongs to bit \<open>i\<close> of \<open>Which\<close>; the \<open>k\<close>-th selected digit takes the \<open>k\<close>-th part.\<close>

definition selected :: "u8 \<Rightarrow> nat \<Rightarrow> nat" where
  "selected which i = length (filter (bit which) [0..<i])"

lemma and_1_0: "(w :: u8) AND 1 = 0 \<longleftrightarrow> \<not> bit w 0"
  by (simp add: and_one_eq odd_iff_mod_2_eq_one bit_0 even_iff_mod_2_eq_zero)

lemma selected_Suc: "selected w (Suc i) = (if bit w 0 then 1 else 0) + selected (drop_bit 1 w) i"
proof -
  have "[0..<Suc i] = 0 # map Suc [0..<i]" by (simp add: map_Suc_upt upt_conv_Cons del: upt_Suc)
  moreover have "bit w \<circ> Suc = bit (drop_bit 1 w)" by (auto simp: bit_simps)
  ultimately show ?thesis by (simp add: selected_def filter_map)
qed

lemma put_digits_beyond: "n \<le> k \<Longrightarrow> put_digits enc st n w v b ! k = b ! k"
  by (induction enc st n w v b rule: put_digits.induct) auto

lemma put_digits_nth:
  assumes "n \<le> length b" "j < n"
  shows "put_digits enc st n w v b ! (n - 1 - j) =
    (if bit w j then enc (drop_bit (st * selected w j) v) else b ! (n - 1 - j))"
  using assms
proof (induction n arbitrary: j w v b)
  case 0
  then show ?case by simp
next
  case (Suc i)
  show ?case
  proof (cases j)
    case 0
    with Suc.prems show ?thesis
      by (simp add: put_digits_beyond and_1_0 selected_def)
  next
    case (Suc k)
    with Suc.prems have k: "k < i" "i \<noteq> i - 1 - k" by auto
    have sh: "bit w (Suc k) = bit (drop_bit 1 w) k" by (simp add: bit_drop_bit_eq)
    show ?thesis
    proof (cases "bit w 0")
      case True
      have "drop_bit (st * selected (drop_bit 1 w) k) (drop_bit st v) = drop_bit (st * selected w (Suc k)) v"
        using True by (simp add: selected_Suc drop_bit_drop_bit algebra_simps)
      with Suc.IH [of "b[i := enc v]" k "drop_bit 1 w" "drop_bit st v"] Suc.prems k True Suc sh
      show ?thesis by (simp add: and_1_0)
    next
      case False
      with Suc.IH [of b k "drop_bit 1 w" v] Suc.prems k Suc sh
      show ?thesis by (simp add: and_1_0 selected_Suc)
    qed
  qed
qed

text \<open>
  What one word in \<open>IO_REG0\<close> lights: the digits whose common line, bits 8 to 11, is low show the
  segments whose line, bits 0 to 7, is low.
\<close>

definition seg_shown :: "u16 \<Rightarrow> nat \<Rightarrow> nat set" where
  "seg_shown w d = (if bit w (8 + d) then {} else {g. g < 8 \<and> \<not> bit w g})"

definition segments :: "u8 \<Rightarrow> nat set" where
  "segments p = {g. g < 8 \<and> \<not> bit p g}"

definition seg7_wf :: "seg7 \<Rightarrow> bool" where
  "seg7_wf s \<longleftrightarrow> length (seven_seg_buf s) = 4 \<and> unat (seven_seg_idx s) < 4"

lemma and_3: "(x :: u8) AND 3 = take_bit 2 x"
  by (simp add: take_bit_eq_mask mask_eq_exp_minus_1)

lemma unat_idx_next: "unat (x :: u8) < 4 \<Longrightarrow> unat ((x + 1) AND 3) = (unat x + 1) mod 4"
proof -
  assume "unat x < 4"
  then have "unat (x + 1) = unat x + 1" by (subst unat_add_lem [THEN iffD1]) auto
  then show ?thesis unfolding and_3 unsigned_take_bit_eq take_bit_nat_def by simp
qed

lemma com_bit: "i < 4 \<Longrightarrow> d < 4 \<Longrightarrow> bit (tbl_7seg_com ! i) (8 + d) \<longleftrightarrow> d \<noteq> i"
proof -
  have "\<forall>i<4. \<forall>d<4. bit (tbl_7seg_com ! i) (8 + d) = (d \<noteq> i)" by code_simp
  then show "i < 4 \<Longrightarrow> d < 4 \<Longrightarrow> ?thesis" by blast
qed

lemma com_low: "i < 4 \<Longrightarrow> g < 8 \<Longrightarrow> \<not> bit (tbl_7seg_com ! i) g"
proof -
  have "\<forall>i<4. \<forall>g<8. \<not> bit (tbl_7seg_com ! i) g" by code_simp
  then show "i < 4 \<Longrightarrow> g < 8 \<Longrightarrow> ?thesis" by blast
qed

text \<open>The board's bits of \<open>IO_REG0\<close> leave the twelve display lines alone.\<close>

definition display_free :: "u16 \<Rightarrow> bool" where
  "display_free io \<longleftrightarrow> (\<forall>n<12. \<not> bit io n)"

lemma seg7_timer_irq_idx:
  "seg7_wf s \<Longrightarrow> unat (seven_seg_idx (snd (seg7_timer_irq io s))) = (unat (seven_seg_idx s) + 1) mod 4"
  by (simp add: seg7_timer_irq_def Let_def seg7_wf_def unat_idx_next)

lemma seg7_timer_irq_frame [frame_simps]:
  "seven_seg_buf (snd (seg7_timer_irq io s)) = seven_seg_buf s"
  "seg7_wf s \<Longrightarrow> seg7_wf (snd (seg7_timer_irq io s))"
  by (simp_all add: seg7_timer_irq_def Let_def seg7_wf_def unat_idx_next)

lemma seg7_timer_irq_shows:
  assumes "seg7_wf s" "display_free io" "d < 4"
  shows "seg_shown (fst (seg7_timer_irq io s)) d =
    (if d = (unat (seven_seg_idx s) + 1) mod 4 then segments (seven_seg_buf s ! d) else {})"
proof -
  define i where "i = (unat (seven_seg_idx s) + 1) mod 4"
  have i: "i < 4" by (simp add: i_def)
  define w where "w = io OR tbl_7seg_com ! i OR ucast (seven_seg_buf s ! i)"
  have w: "fst (seg7_timer_irq io s) = w"
    using assms(1) by (simp add: seg7_timer_irq_def Let_def seg7_wf_def unat_idx_next w_def i_def)
  have hi: "bit w (8 + d) \<longleftrightarrow> d \<noteq> i"
    using assms(2,3) com_bit [OF i assms(3)]
    by (auto simp: w_def bit_or_iff bit_ucast_iff display_free_def dest: bit_imp_le_length)
  have lo: "bit w g \<longleftrightarrow> bit (seven_seg_buf s ! i) g" if "g < 8" for g
    using assms(2) com_low [OF i that] that
    by (auto simp: w_def bit_or_iff bit_ucast_iff display_free_def)
  show ?thesis unfolding w seg_shown_def segments_def i_def [symmetric] using hi lo by auto
qed

text \<open>The words of \<open>n\<close> interrupts in a row.\<close>

primrec seg7_scan :: "nat \<Rightarrow> u16 \<Rightarrow> seg7 \<Rightarrow> u16 list" where
  "seg7_scan 0 io s = []"
| "seg7_scan (Suc n) io s = (let (w, s1) = seg7_timer_irq io s in w # seg7_scan n io s1)"

lemma seg7_scan_shows:
  assumes "seg7_wf s" "display_free io" "d < 4"
  shows "k < n \<Longrightarrow> seg_shown (seg7_scan n io s ! k) d =
    (if d = (unat (seven_seg_idx s) + 1 + k) mod 4 then segments (seven_seg_buf s ! d) else {})"
  using assms(1)
proof (induction n arbitrary: k s)
  case 0
  then show ?case by simp
next
  case (Suc n)
  show ?case
  proof (cases k)
    case 0
    with seg7_timer_irq_shows [OF Suc.prems(2) assms(2,3)] show ?thesis by (simp add: case_prod_beta Let_def)
  next
    case (Suc j)
    have m: "((x + 1) mod 4 + 1 + j) mod 4 = (x + 1 + Suc j) mod 4" for x :: nat
      using mod_add_left_eq [of "x + 1" 4 "1 + j"] by (simp only: add.assoc plus_1_eq_Suc)
    have "seg_shown (seg7_scan n io (snd (seg7_timer_irq io s)) ! j) d =
        (if d = (unat (seven_seg_idx s) + 1 + Suc j) mod 4 then segments (seven_seg_buf s ! d) else {})"
      using Suc.IH [of j "snd (seg7_timer_irq io s)", OF _ seg7_timer_irq_frame(2) [OF Suc.prems(2)]]
        Suc.prems(1) \<open>k = Suc j\<close>
      unfolding seg7_timer_irq_idx [OF Suc.prems(2)] m seg7_timer_irq_frame(1) by blast
    then show ?thesis unfolding \<open>k = Suc j\<close> by (simp add: case_prod_beta Let_def)
  qed
qed

lemma length_seg7_scan [simp]: "length (seg7_scan n io s) = n"
  by (induction n arbitrary: s) (auto simp: case_prod_beta Let_def)

lemma digit_turn: "d < 4 \<Longrightarrow> \<exists>k<4. d = (x + 1 + k) mod (4 :: nat)"
  by presburger

text \<open>Over any four interrupts every digit is seg_shown, with its own pattern and no other.\<close>

lemma seg7_scan_four:
  assumes "seg7_wf s" "display_free io" "d < 4"
  shows "(\<Union>w \<in> set (seg7_scan 4 io s). seg_shown w d) = segments (seven_seg_buf s ! d)"
proof -
  obtain k where k: "k < 4" "d = (unat (seven_seg_idx s) + 1 + k) mod 4"
    using digit_turn [OF assms(3)] by blast
  have "seg_shown (seg7_scan 4 io s ! k) d = segments (seven_seg_buf s ! d)"
    using seg7_scan_shows [OF assms k(1)] k(2) by simp
  moreover have "seg7_scan 4 io s ! k \<in> set (seg7_scan 4 io s)" using k(1) by (intro nth_mem) simp
  moreover have "seg_shown w d \<subseteq> segments (seven_seg_buf s ! d)" if "w \<in> set (seg7_scan 4 io s)" for w
  proof -
    obtain j where "j < 4" "w = seg7_scan 4 io s ! j"
      using \<open>w \<in> set (seg7_scan 4 io s)\<close> unfolding in_set_conv_nth by auto
    then show ?thesis using seg7_scan_shows [OF assms, of j 4] by (auto split: if_splits)
  qed
  ultimately show ?thesis by blast
qed

section \<open>Setting the digits\<close>

lemma hex_digit_nth: "hex_digit v = LED_tbl ! (unat v mod 16)"
proof -
  have "v AND 0xf = take_bit 4 v" by (simp add: take_bit_eq_mask mask_eq_exp_minus_1)
  then show ?thesis by (simp add: hex_digit_def unsigned_take_bit_eq take_bit_nat_def)
qed

lemma put_led_wf: "seg7_wf s \<Longrightarrow> seg7_wf (snd (SEG7_put_led info s))"
  by (simp add: SEG7_put_led_def seg7_wf_def)

lemma put_led_hex:
  assumes "seg7_wf s" "Mode info = SEG_MODE_HEX_VALUE" "j < 4"
  shows "seven_seg_buf (snd (SEG7_put_led info s)) ! (3 - j) =
    (if bit (Which info) j then LED_tbl ! (unat (Value info) div 16 ^ selected (Which info) j mod 16)
     else seven_seg_buf s ! (3 - j))"
proof -
  have "put_digits hex_digit 4 4 (Which info) (Value info) (seven_seg_buf s) ! (4 - 1 - j) =
    (if bit (Which info) j then hex_digit (drop_bit (4 * selected (Which info) j) (Value info))
     else seven_seg_buf s ! (4 - 1 - j))"
    by (rule put_digits_nth) (use assms in \<open>auto simp: seg7_wf_def\<close>)
  then show ?thesis
    using assms
    by (simp add: SEG7_put_led_def SEG_MODE_HEX_VALUE_def SEG_MODE_PATTERN_def hex_digit_nth
        unat_drop_bit_eq drop_bit_nat_def power_mult)
qed

lemma put_led_pattern:
  assumes "seg7_wf s" "Mode info = SEG_MODE_PATTERN" "j < 4"
  shows "seven_seg_buf (snd (SEG7_put_led info s)) ! (3 - j) =
    (if bit (Which info) j then NOT (ucast (drop_bit (8 * selected (Which info) j) (Value info)))
     else seven_seg_buf s ! (3 - j))"
proof -
  have p: "pattern_digit v = NOT (ucast v)" for v
    unfolding pattern_digit_def by (rule bit_word_eqI) (auto simp: bit_simps and_255)
  have "put_digits pattern_digit 8 4 (Which info) (Value info) (seven_seg_buf s) ! (4 - 1 - j) =
    (if bit (Which info) j then pattern_digit (drop_bit (8 * selected (Which info) j) (Value info))
     else seven_seg_buf s ! (4 - 1 - j))"
    by (rule put_digits_nth) (use assms in \<open>auto simp: seg7_wf_def\<close>)
  then show ?thesis using assms by (simp add: SEG7_put_led_def p)
qed

lemma selected_all: "j < 4 \<Longrightarrow> selected 0xf j = j"
proof -
  have "\<forall>j<4. selected 0xf j = j" by code_simp
  then show "j < 4 \<Longrightarrow> selected 0xf j = j" by blast
qed

section \<open>The interrupt enable\<close>

text \<open>
  The driver means bit 4 of \<open>OIER\<close>, the match interrupt of timer 4, and touches bit 16 instead:
  none of its three operations changes bit 4 by itself.
\<close>

lemma bit_shift16: "bit (push_bit OIER_E4 1 :: u32) n \<longleftrightarrow> n = 16"
  unfolding OIER_E4_def bit_push_bit_iff by (auto simp: bit_1_iff)

lemma timer_operation_bit4:
  "bit (OIER (snd (seg7_timer_operation rq TTIMER_START s))) 4 = bit (OIER s) 4"
  "bit (OIER (snd (seg7_timer_operation rq TTIMER_STOP s))) 4 = bit (OIER s) 4"
  "bit (OIER (snd (seg7_timer_operation rq TTIMER_START s))) 16"
  "\<not> bit (OIER (snd (seg7_timer_operation rq TTIMER_STOP s))) 16"
  by (simp_all add: seg7_timer_operation_def bit_or_iff bit_and_iff bit_not_iff bit_shift16
      del: push_bit_of_1)

lemma seg7_cmd_wf:
  "seg7_wf s \<Longrightarrow> seg7_wf (snd (Creator_pxa270_7Segment_cmd rq cmd s))"
  by (auto simp: Creator_pxa270_7Segment_cmd_def seg7_timer_operation_def Let_def put_led_wf
      seg7_wf_def SEG7_put_led_def split: option.splits seg_cmd.splits)

lemma Initial_7SEG_simps:
  "length (seven_seg_buf s) = 4 \<Longrightarrow> seven_seg_buf (Initial_7SEG s) = [0x90, 0xA3, 0xA3, 0xA1]"
  by (auto simp: Initial_7SEG_def Let_def length_Suc_conv numeral_eq_Suc)

section \<open>Properties\<close>

text \<open>
  The timer interrupt of the display is enabled in the wrong bit: \<open>OIER_E4\<close> is already the mask
  \<open>1 << 4\<close> and is shifted by once more, so starting and stopping the display set and clear bit 16 of
  \<open>OIER\<close>, and bit 4, the match interrupt of timer 4, stays as it was.
\<close>

theorem oier_wrong_bit:
  "bit (OIER (snd (seg7_timer_operation rq TTIMER_START s))) n =
      (bit (OIER s) n \<or> n = 16) \<and>
   bit (OIER (snd (seg7_timer_operation rq TTIMER_STOP s))) n =
      (bit (OIER s) n \<and> n \<noteq> 16)"
  by (auto simp: seg7_timer_operation_def bit_or_iff bit_and_iff bit_not_iff bit_shift16
      simp del: push_bit_of_1 dest: bit_imp_le_length)

text \<open>
  Switching the display is idempotent: once it is on, \<open>SEG_IOCTL_ON\<close> changes nothing, once it is
  off \<open>SEG_IOCTL_OFF\<close> changes nothing, and neither touches the patterns of the digits.
\<close>

theorem seg_on_off:
  "(let s1 = snd (Creator_pxa270_7Segment_cmd rq (Some SEG_ON) s)
    in Start7SegmentLED s1 \<noteq> 0 \<and> Creator_pxa270_7Segment_cmd rq (Some SEG_ON) s1 = (0, s1) \<and>
       seven_seg_buf s1 = seven_seg_buf s) \<and>
   (let s1 = snd (Creator_pxa270_7Segment_cmd rq (Some SEG_OFF) s)
    in Start7SegmentLED s1 = 0 \<and> Creator_pxa270_7Segment_cmd rq (Some SEG_OFF) s1 = (0, s1) \<and>
       seven_seg_buf s1 = seven_seg_buf s)"
  by (simp add: Creator_pxa270_7Segment_cmd_def seg7_timer_operation_def OK1_def Let_def)

end
