(* ===== verification/Eeprom.thy ===== *)
theory Eeprom
  imports Prelude
begin

text \<open>
  The serial EEPROM of \<open>creator-pxa270-lcd.c\<close>: the bit-banged three-wire protocol. The lines are
  bits 12 to 14 of \<open>IO_REG0\<close>, chip select, clock and data in; what the chip answers is bit 0 of
  \<open>CPLD_STATUS\<close>.

  The routine changes only the shadow \<open>creator_io.io_reg0\<close>, and then waits at each \<open>EE_DELAY\<close>; it never
  writes \<open>IO_REG0\<close>. The state records the values of the shadow at these points, oldest first. It is
  the interrupt of the seven-segment display that copies the shadow to the register, if it is running
  and falls into the delay: what reaches the lines is the subject of \<open>pins_during\<close> in \<open>EndToEnd\<close>.

  The answer of the chip is a parameter \<open>status\<close>: what a read of \<open>CPLD_STATUS\<close> returns after the shadow
  values so far. The local \<open>d_out\<close> is not initialised by the source and is part of the state.
\<close>

section \<open>Issuing a command\<close>

record eeprom =
  ee_io :: u16
  ee_shadows :: "u16 list"
  d_out :: u16

definition EE_CMD_READ :: u32 where "EE_CMD_READ = 0x30000"
definition EE_CMD_EWEN :: u32 where "EE_CMD_EWEN = 0x26000"
definition EE_CMD_WRITE :: u32 where "EE_CMD_WRITE = 0x28000"
definition EE_CMD_EWDS :: u32 where "EE_CMD_EWDS = 0x20000"

text \<open>A change of the shadow, and the \<open>EE_DELAY\<close> after it.\<close>

definition ee_set :: "(u16 \<Rightarrow> u16) \<Rightarrow> eeprom \<Rightarrow> eeprom" where
  "ee_set f s = s\<lparr>ee_io := f (ee_io s), ee_shadows := ee_shadows s @ [f (ee_io s)]\<rparr>"

text \<open>One round of the loop: the data bit, the clock up, the answer, the clock down.\<close>

definition ee_clock :: "(u16 list \<Rightarrow> u16) \<Rightarrow> bool \<Rightarrow> eeprom \<Rightarrow> eeprom" where
  "ee_clock status b s =
     (let s1 = ee_set (if b then (\<lambda>io. io OR 0x4000) else (\<lambda>io. io AND 0xbfff)) s;
          s2 = ee_set (\<lambda>io. io OR 0x2000) s1;
          s3 = s2\<lparr>d_out := push_bit 1 (d_out s2) OR (status (ee_shadows s2) AND 1)\<rparr>
      in ee_set (\<lambda>io. io AND 0xdfff) s3)"

fun ee_loop :: "(u16 list \<Rightarrow> u16) \<Rightarrow> u32 \<Rightarrow> nat \<Rightarrow> u32 \<Rightarrow> eeprom \<Rightarrow> eeprom" where
  "ee_loop status command 0 m s = s"
| "ee_loop status command (Suc n) m s =
     ee_loop status command n (drop_bit 1 m) (ee_clock status (m AND command \<noteq> 0) s)"

definition EE_ISSUE_CMD :: "(u16 list \<Rightarrow> u16) \<Rightarrow> u32 \<Rightarrow> eeprom \<Rightarrow> u8 \<times> eeprom" where
  "EE_ISSUE_CMD status command s =
     (let s1 = ee_set (\<lambda>io. io AND 0xdfff) (ee_set (\<lambda>io. io OR 0x1000) s);
          s2 = ee_loop status command 18 0x20000 s1;
          s3 = ee_set (\<lambda>io. io AND 0xcfff) s2
      in (ucast (d_out s3), s3))"

definition EE_WRITE :: "(u16 list \<Rightarrow> u16) \<Rightarrow> u8 \<Rightarrow> u8 \<Rightarrow> eeprom \<Rightarrow> eeprom" where
  "EE_WRITE status addr data s =
     (let addr1 = ucast addr; data1 = ucast data;
          s1 = snd (EE_ISSUE_CMD status (EE_CMD_EWEN OR 0 OR 0) s);
          s2 = snd (EE_ISSUE_CMD status (EE_CMD_WRITE OR push_bit 8 addr1 OR data1) s1)
      in snd (EE_ISSUE_CMD status (EE_CMD_EWDS OR 0 OR 0) s2))"

definition EE_READ :: "(u16 list \<Rightarrow> u16) \<Rightarrow> u8 \<Rightarrow> eeprom \<Rightarrow> u8 \<times> eeprom" where
  "EE_READ status addr s = EE_ISSUE_CMD status (EE_CMD_READ OR push_bit 8 (ucast addr) OR 0) s"

section \<open>What a listener would receive\<close>

text \<open>
  A listener samples the data line when the clock rises while it is selected, and closes the frame
  when chip select falls. This is the yardstick, for the values of the shadow and for those of the
  register; the driver does not use it.
\<close>

fun ee_frames :: "u16 \<Rightarrow> bool list \<Rightarrow> u16 list \<Rightarrow> bool list list" where
  "ee_frames prev cur [] = []"
| "ee_frames prev cur (l # ls) =
     (if \<not> bit l 12 then (if cur = [] then ee_frames l [] ls else cur # ee_frames l [] ls)
      else if bit l 13 \<and> \<not> bit prev 13 then ee_frames l (cur @ [bit l 14]) ls
      else ee_frames l cur ls)"

definition ee_idle :: "u16 \<Rightarrow> bool" where
  "ee_idle io \<longleftrightarrow> \<not> bit io 12 \<and> \<not> bit io 13"

lemma ee_masks:
  "(0x1000 :: u16) = push_bit 12 1" "(0x2000 :: u16) = push_bit 13 1" "(0x4000 :: u16) = push_bit 14 1"
  "(0xdfff :: u16) = NOT (push_bit 13 1)" "(0xbfff :: u16) = NOT (push_bit 14 1)"
  "(0xcfff :: u16) = NOT (push_bit 12 1 OR push_bit 13 1)"
  by simp_all

text \<open>What one command does to each line.\<close>

lemma ee_bits:
  "bit (io OR (0x1000 :: u16)) n \<longleftrightarrow> bit io n \<or> n = 12"
  "bit (io OR (0x2000 :: u16)) n \<longleftrightarrow> bit io n \<or> n = 13"
  "bit (io OR (0x4000 :: u16)) n \<longleftrightarrow> bit io n \<or> n = 14"
  "bit (io AND (0xdfff :: u16)) n \<longleftrightarrow> bit io n \<and> n \<noteq> 13"
  "bit (io AND (0xbfff :: u16)) n \<longleftrightarrow> bit io n \<and> n \<noteq> 14"
  "bit (io AND (0xcfff :: u16)) n \<longleftrightarrow> bit io n \<and> n \<noteq> 12 \<and> n \<noteq> 13"
  unfolding ee_masks
  by (auto simp: bit_or_iff bit_and_iff bit_not_iff bit_push_bit_iff bit_1_iff
      simp del: push_bit_of_1 dest: bit_imp_le_length)


lemma ee_clock_shadows: "\<exists>l1 l2 l3. ee_shadows (ee_clock status b s) = ee_shadows s @ [l1, l2, l3] \<and>
      (\<forall>n. bit l1 n = (if n = 14 then b else bit (ee_io s) n)) \<and>
      (\<forall>n. bit l2 n = (bit l1 n \<or> n = 13)) \<and> (\<forall>n. bit l3 n = (bit l1 n \<and> n \<noteq> 13)) \<and>
      ee_io (ee_clock status b s) = l3"
proof -
  let ?l1 = "(if b then ee_io s OR 0x4000 else ee_io s AND 0xbfff)"
  let ?l2 = "?l1 OR 0x2000"
  show ?thesis
    by (rule exI [of _ ?l1], rule exI [of _ ?l2], rule exI [of _ "?l2 AND 0xdfff"])
      (auto simp: ee_clock_def ee_set_def Let_def ee_bits dest: bit_imp_le_length)
qed

lemma ee_io_clock:
  "bit (ee_io (ee_clock status b s)) n \<longleftrightarrow> (if n = 13 then False else if n = 14 then b else bit (ee_io s) n)"
  using ee_clock_shadows [of status b s] by auto

lemma ee_frames_clock:
  assumes "bit (ee_io s) 12" "\<not> bit (ee_io s) 13"
  shows "\<exists>ls. ee_shadows (ee_clock status b s) = ee_shadows s @ ls \<and> length ls = 3 \<and>
    (\<forall>prev cur more. \<not> bit prev 13 \<longrightarrow>
      ee_frames prev cur (ls @ more) = ee_frames (ee_io (ee_clock status b s)) (cur @ [b]) more)"
proof -
  obtain l1 l2 l3 where l: "ee_shadows (ee_clock status b s) = ee_shadows s @ [l1, l2, l3]"
    and "\<forall>n. bit l1 n = (if n = 14 then b else bit (ee_io s) n)"
    "\<forall>n. bit l2 n = (bit l1 n \<or> n = 13)" "\<forall>n. bit l3 n = (bit l1 n \<and> n \<noteq> 13)"
    and "ee_io (ee_clock status b s) = l3"
    using ee_clock_shadows [of status b s] by blast
  then show ?thesis using assms
    by (intro exI [of _ "[l1, l2, l3]"]) simp
qed

definition msb_bits :: "nat \<Rightarrow> u32 \<Rightarrow> bool list" where
  "msb_bits n c = map (bit c) (rev [0..<n])"

lemma msb_bits_Suc: "msb_bits (Suc n) c = bit c n # msb_bits n c"
  by (simp add: msb_bits_def)

lemma mask_test_bit: "n < 32 \<Longrightarrow> push_bit n 1 AND c \<noteq> 0 \<longleftrightarrow> bit (c :: u32) n"
proof -
  assume n: "n < 32"
  have bit: "bit (push_bit n 1 AND c) k \<longleftrightarrow> k = n \<and> bit c n" for k
    unfolding bit_and_iff bit_push_bit_iff using n by (auto simp: bit_1_iff)
  show ?thesis by (metis bit bit_0_eq bot_apply bot_bool_def bit_eq_iff)
qed

lemma drop_push_one: "n < 31 \<Longrightarrow> drop_bit 1 (push_bit (Suc n) 1 :: u32) = push_bit n 1"
  by (rule bit_word_eqI)
    (simp only: bit_drop_bit_eq bit_push_bit_iff bit_1_iff o_def possible_bit_word, auto)

text \<open>The loop over the mask is the sequence of clocks over the bits, most significant first.\<close>

lemma ee_loop_fold:
  "n < 32 \<Longrightarrow> ee_loop status c (Suc n) (push_bit n 1) s = fold (ee_clock status) (msb_bits (Suc n) c) s"
proof (induction n arbitrary: s)
  case 0
  then show ?case using mask_test_bit [of 0 c] by (simp add: msb_bits_def)
next
  case (Suc n)
  have "ee_loop status c (Suc (Suc n)) (push_bit (Suc n) 1) s =
      ee_loop status c (Suc n) (push_bit n 1) (ee_clock status (bit c (Suc n)) s)"
    unfolding ee_loop.simps(2) [of status c "Suc n"]
    using Suc.prems drop_push_one [of n] mask_test_bit [of "Suc n" c] by simp
  with Suc show ?case by (simp only: msb_bits_Suc [of "Suc n"]) simp
qed

lemma ee_frames_fold:
  assumes "bit (ee_io s) 12" "\<not> bit (ee_io s) 13"
  shows "\<exists>ls. ee_shadows (fold (ee_clock status) bs s) = ee_shadows s @ ls \<and>
    (\<forall>prev cur more. \<not> bit prev 13 \<longrightarrow>
      (\<exists>prev'. \<not> bit prev' 13 \<and> ee_frames prev cur (ls @ more) = ee_frames prev' (cur @ bs) more)) \<and>
    bit (ee_io (fold (ee_clock status) bs s)) 12 \<and> \<not> bit (ee_io (fold (ee_clock status) bs s)) 13"
  using assms
proof (induction bs arbitrary: s)
  case Nil
  then show ?case by auto
next
  case (Cons b bs)
  let ?s = "ee_clock status b s"
  have io: "bit (ee_io ?s) 12" "\<not> bit (ee_io ?s) 13" using Cons.prems by (simp_all add: ee_io_clock)
  obtain l1 where l1: "ee_shadows ?s = ee_shadows s @ l1"
    "\<And>prev cur more. \<not> bit prev 13 \<Longrightarrow>
       ee_frames prev cur (l1 @ more) = ee_frames (ee_io ?s) (cur @ [b]) more"
    using ee_frames_clock [OF Cons.prems] by blast
  obtain l2 where l2: "ee_shadows (fold (ee_clock status) bs ?s) = ee_shadows ?s @ l2"
    "\<And>prev cur more. \<not> bit prev 13 \<Longrightarrow>
      (\<exists>prev'. \<not> bit prev' 13 \<and> ee_frames prev cur (l2 @ more) = ee_frames prev' (cur @ bs) more)"
    "bit (ee_io (fold (ee_clock status) bs ?s)) 12" "\<not> bit (ee_io (fold (ee_clock status) bs ?s)) 13"
    using Cons.IH [OF io] by blast
  show ?case
  proof (intro exI [of _ "l1 @ l2"] conjI allI impI)
    show "ee_shadows (fold (ee_clock status) (b # bs) s) = ee_shadows s @ l1 @ l2"
      using l1(1) l2(1) by simp
  next
    fix prev :: u16 and cur more assume "\<not> bit prev 13"
    then have "ee_frames prev cur ((l1 @ l2) @ more) = ee_frames (ee_io ?s) (cur @ [b]) (l2 @ more)"
      using l1(2) by simp
    with l2(2) [OF io(2), of "cur @ [b]" more]
    show "\<exists>prev'. \<not> bit prev' 13 \<and> ee_frames prev cur ((l1 @ l2) @ more) = ee_frames prev' (cur @ b # bs) more"
      by simp
  qed (use l2(3,4) in simp_all)
qed

definition ee_start :: "eeprom \<Rightarrow> eeprom" where
  "ee_start s = ee_set (\<lambda>io. io AND 0xdfff) (ee_set (\<lambda>io. io OR 0x1000) s)"

lemma EE_ISSUE_CMD_fold:
  "EE_ISSUE_CMD status c s =
     (let s2 = fold (ee_clock status) (msb_bits 18 c) (ee_start s)
      in (ucast (d_out s2), ee_set (\<lambda>io. io AND 0xcfff) s2))"
  using ee_loop_fold [of 17 status c "ee_start s"]
  by (simp add: EE_ISSUE_CMD_def ee_start_def ee_set_def Let_def)

text \<open>In the shadow, a command is one frame of eighteen bits, and leaves chip select and clock low.\<close>

lemma EE_ISSUE_CMD_frame:
  assumes "ee_idle (ee_io s)"
  shows "\<exists>ls. ee_shadows (snd (EE_ISSUE_CMD status c s)) = ee_shadows s @ ls \<and>
    (\<forall>more prev. ee_frames prev [] (ls @ more) =
      msb_bits 18 c # ee_frames (ee_io (snd (EE_ISSUE_CMD status c s))) [] more) \<and>
    ee_idle (ee_io (snd (EE_ISSUE_CMD status c s)))"
proof -
  let ?s1 = "ee_start s" and ?bs = "msb_bits 18 c"
  let ?s2 = "fold (ee_clock status) ?bs ?s1"
  let ?last = "ee_io ?s2 AND 0xcfff"
  have io: "bit (ee_io ?s1) 12" "\<not> bit (ee_io ?s1) 13"
    by (simp_all add: ee_start_def ee_set_def ee_bits)
  obtain ls where ls: "ee_shadows ?s2 = ee_shadows ?s1 @ ls"
    "\<And>prev cur more. \<not> bit prev 13 \<Longrightarrow>
      (\<exists>prev'. \<not> bit prev' 13 \<and> ee_frames prev cur (ls @ more) = ee_frames prev' (cur @ ?bs) more)"
    using ee_frames_fold [OF io] by blast
  have start: "ee_frames prev [] ([ee_io s OR 0x1000, ee_io ?s1] @ ls @ more) = ee_frames prev' [] (ls @ more)"
    if "prev' = ee_io ?s1" for prev prev' more
    using that assms by (simp add: ee_start_def ee_set_def ee_bits ee_idle_def)
  have ne: "?bs \<noteq> []" by (simp add: msb_bits_def)
  have stop: "ee_frames prev ?bs (?last # more) = ?bs # ee_frames ?last [] more" for prev more
    using ne by (simp add: ee_bits)
  have "\<forall>more prev.
      ee_frames prev [] (([ee_io s OR 0x1000, ee_io ?s1] @ ls @ [?last]) @ more) = ?bs # ee_frames ?last [] more"
  proof (intro allI)
    fix more prev
    have "ee_frames prev [] (([ee_io s OR 0x1000, ee_io ?s1] @ ls @ [?last]) @ more) =
        ee_frames (ee_io ?s1) [] (ls @ (?last # more))"
      using start [OF refl, of prev "?last # more"] by simp
    also obtain prev' where "\<dots> = ee_frames prev' ([] @ ?bs) (?last # more)"
      using ls(2) [OF io(2), of "[]" "?last # more"] by blast
    also have "\<dots> = ?bs # ee_frames ?last [] more" by (simp only: append_Nil stop)
    finally show "ee_frames prev [] (([ee_io s OR 0x1000, ee_io ?s1] @ ls @ [?last]) @ more) =
      ?bs # ee_frames ?last [] more" .
  qed
  moreover have "ee_shadows (snd (EE_ISSUE_CMD status c s)) =
      ee_shadows s @ ([ee_io s OR 0x1000, ee_io ?s1] @ ls @ [?last])"
    using ls(1) by (simp add: EE_ISSUE_CMD_fold Let_def ee_set_def ee_start_def)
  moreover have "ee_io (snd (EE_ISSUE_CMD status c s)) = ?last"
    by (simp add: EE_ISSUE_CMD_fold Let_def ee_set_def)
  moreover have "ee_idle ?last" by (simp add: ee_idle_def ee_bits)
  ultimately show ?thesis by (metis (no_types, lifting))
qed

text \<open>In the shadow, a write is three frames: write enable, the write itself, write disable.\<close>

lemma EE_WRITE_frames:
  assumes "ee_idle (ee_io s)"
  shows "\<exists>ls. ee_shadows (EE_WRITE status addr data s) = ee_shadows s @ ls \<and>
    (\<forall>prev. ee_frames prev [] ls = [msb_bits 18 EE_CMD_EWEN,
      msb_bits 18 (EE_CMD_WRITE OR push_bit 8 (ucast addr) OR ucast data), msb_bits 18 EE_CMD_EWDS])"
proof -
  let ?w = "EE_CMD_WRITE OR push_bit 8 (ucast addr) OR ucast data"
  define s1 where "s1 = snd (EE_ISSUE_CMD status EE_CMD_EWEN s)"
  define s2 where "s2 = snd (EE_ISSUE_CMD status ?w s1)"
  define s3 where "s3 = snd (EE_ISSUE_CMD status EE_CMD_EWDS s2)"
  obtain l1 where l1: "ee_shadows s1 = ee_shadows s @ l1" "ee_idle (ee_io s1)"
    "\<And>prev more. ee_frames prev [] (l1 @ more) = msb_bits 18 EE_CMD_EWEN # ee_frames (ee_io s1) [] more"
    using EE_ISSUE_CMD_frame [OF assms, of status EE_CMD_EWEN] unfolding s1_def by blast
  obtain l2 where l2: "ee_shadows s2 = ee_shadows s1 @ l2" "ee_idle (ee_io s2)"
    "\<And>more. ee_frames (ee_io s1) [] (l2 @ more) = msb_bits 18 ?w # ee_frames (ee_io s2) [] more"
    using EE_ISSUE_CMD_frame [OF l1(2), of status ?w] l1(2) unfolding s2_def by blast
  obtain l3 where l3: "ee_shadows s3 = ee_shadows s2 @ l3"
    "\<And>more. ee_frames (ee_io s2) [] (l3 @ more) = msb_bits 18 EE_CMD_EWDS # ee_frames (ee_io s3) [] more"
    using EE_ISSUE_CMD_frame [OF l2(2), of status EE_CMD_EWDS] l2(2) unfolding s3_def by blast
  have "EE_WRITE status addr data s = s3"
    by (simp add: EE_WRITE_def s1_def s2_def s3_def Let_def)
  moreover have "ee_frames prev [] (l1 @ l2 @ l3) =
      [msb_bits 18 EE_CMD_EWEN, msb_bits 18 ?w, msb_bits 18 EE_CMD_EWDS]" for prev
    using l1(3) l2(3) l3(2) [of "[]"] by simp
  moreover have "ee_shadows s3 = ee_shadows s @ l1 @ l2 @ l3" using l1(1) l2(1) l3(1) by simp
  ultimately show ?thesis by metis
qed

section \<open>What comes back\<close>

text \<open>The answers of the chip, one for each clock.\<close>

fun ee_answers :: "(u16 list \<Rightarrow> u16) \<Rightarrow> bool list \<Rightarrow> eeprom \<Rightarrow> bool list" where
  "ee_answers status [] s = []"
| "ee_answers status (b # bs) s =
     bit (status (butlast (ee_shadows (ee_clock status b s)))) 0 # ee_answers status bs (ee_clock status b s)"

lemma ee_answers_length [simp]: "length (ee_answers status bs s) = length bs"
  by (induction status bs s rule: ee_answers.induct) auto

lemma bit_and_1: "bit (v AND 1 :: u16) i \<longleftrightarrow> i = 0 \<and> bit v 0"
  by (auto simp: bit_and_iff bit_1_iff)

lemma bit_shl1_or: "i < 16 \<Longrightarrow> bit (push_bit 1 d OR (v AND 1) :: u16) i \<longleftrightarrow>
    (if i = 0 then bit v 0 else bit d (i - 1))"
  unfolding bit_or_iff bit_push_bit_iff bit_and_1 by auto

lemma d_out_ee_clock: "d_out (ee_clock status b s) =
    push_bit 1 (d_out s) OR (status (butlast (ee_shadows (ee_clock status b s))) AND 1)"
  by (simp add: ee_clock_def ee_set_def Let_def butlast_append)

lemma d_out_clock: "i < 16 \<Longrightarrow> bit (d_out (ee_clock status b s)) i \<longleftrightarrow>
    (if i = 0 then bit (status (butlast (ee_shadows (ee_clock status b s)))) 0 else bit (d_out s) (i - 1))"
  unfolding d_out_ee_clock by (rule bit_shl1_or)

lemma d_out_fold:
  "i < 16 \<Longrightarrow> bit (d_out (fold (ee_clock status) bs s)) i \<longleftrightarrow>
    (if i < length bs then ee_answers status bs s ! (length bs - 1 - i) else bit (d_out s) (i - length bs))"
proof (induction bs arbitrary: s)
  case Nil
  then show ?case by simp
next
  case (Cons b bs)
  show ?case
  proof (cases "i < length bs")
    case True
    then have "length bs - i = Suc (length bs - 1 - i)" by simp
    with True Cons show ?thesis by simp
  next
    case False
    with Cons.prems show ?thesis
      by (auto simp: Cons.IH d_out_clock not_less)
  qed
qed

text \<open>The byte returned is the last eight answers; the uninitialised \<open>d_out\<close> is shifted out.\<close>

lemma EE_ISSUE_CMD_byte:
  assumes "i < 8"
  shows "bit (fst (EE_ISSUE_CMD status c s)) i \<longleftrightarrow>
    ee_answers status (msb_bits 18 c) (ee_start s) ! (17 - i)"
proof -
  have "length (msb_bits 18 c) = 18" by (simp add: msb_bits_def)
  with assms d_out_fold [of i status "msb_bits 18 c" "ee_start s"] show ?thesis
    by (simp add: EE_ISSUE_CMD_fold Let_def ee_set_def bit_ucast_iff)
qed

lemma ee_start_d_out: "ee_answers status bs (ee_start (s\<lparr>d_out := d\<rparr>)) = ee_answers status bs (ee_start s)"
proof -
  have "ee_answers status bs (s\<lparr>d_out := d\<rparr>) = ee_answers status bs s" for s
  proof (induction bs arbitrary: s d)
    case Nil
    then show ?case by simp
  next
    case (Cons b bs)
    have "\<exists>d'. ee_clock status b (s\<lparr>d_out := d\<rparr>) = (ee_clock status b s)\<lparr>d_out := d'\<rparr>"
      by (rule exI [of _ "d_out (ee_clock status b (s\<lparr>d_out := d\<rparr>))"], rule eeprom.equality)
        (simp_all add: ee_clock_def ee_set_def Let_def)
    then obtain d' where d': "ee_clock status b (s\<lparr>d_out := d\<rparr>) = (ee_clock status b s)\<lparr>d_out := d'\<rparr>" ..
    show ?case by (simp add: d' Cons.IH)
  qed
  moreover have "ee_start (s\<lparr>d_out := d\<rparr>) = (ee_start s)\<lparr>d_out := d\<rparr>"
    by (simp add: ee_start_def ee_set_def)
  ultimately show ?thesis by simp
qed

lemma EE_ISSUE_CMD_uninit:
  "fst (EE_ISSUE_CMD status c (s\<lparr>d_out := d\<rparr>)) = fst (EE_ISSUE_CMD status c s)"
  by (rule bit_word_eqI) (simp add: EE_ISSUE_CMD_byte ee_start_d_out)

text \<open>In the shadow, the bits of the display, 0 to 11, and the reset line, 15, are left alone.\<close>

lemma ee_clock_other: "n \<noteq> 13 \<Longrightarrow> n \<noteq> 14 \<Longrightarrow> bit (ee_io (ee_clock status b s)) n = bit (ee_io s) n"
  by (simp add: ee_io_clock)

lemma EE_ISSUE_CMD_other:
  assumes "n < 12 \<or> n = 15"
  shows "bit (ee_io (snd (EE_ISSUE_CMD status c s))) n = bit (ee_io s) n"
proof -
  have "bit (ee_io (fold (ee_clock status) bs t)) n = bit (ee_io t) n" for bs t
  proof -
    have "n \<noteq> 13" "n \<noteq> 14" using assms by auto
    then show ?thesis by (induction bs arbitrary: t) (simp_all add: ee_clock_other)
  qed
  moreover have "n \<noteq> 12" "n \<noteq> 13" using assms by auto
  ultimately show ?thesis
    by (simp add: EE_ISSUE_CMD_fold Let_def ee_set_def ee_start_def ee_bits)
qed

lemma EE_WRITE_other:
  "n < 12 \<or> n = 15 \<Longrightarrow> bit (ee_io (EE_WRITE status addr data s)) n = bit (ee_io s) n"
  by (simp add: EE_WRITE_def Let_def EE_ISSUE_CMD_other)

section \<open>Properties\<close>

text \<open>
  Reading a byte returns the chip's last eight answers, the first of them in the highest bit; the
  local \<open>d_out\<close>, which the source does not initialise, has no influence.
\<close>

theorem eeprom_read_byte:
  assumes "i < 8"
  shows "bit (fst (EE_READ status addr s)) i =
      ee_answers status (msb_bits 18 (EE_CMD_READ OR push_bit 8 (ucast addr) OR 0)) (ee_start s) ! (17 - i) \<and>
    fst (EE_READ status addr (s\<lparr>d_out := d\<rparr>)) = fst (EE_READ status addr s)"
  using EE_ISSUE_CMD_byte [OF assms] EE_ISSUE_CMD_uninit unfolding EE_READ_def by blast

theorem eeprom_read_byte_witness:
  "bit (fst (EE_READ (\<lambda>_. 1) 3 \<lparr>ee_io = 0, ee_shadows = [], d_out = 0\<rparr>)) 7 =
      ee_answers (\<lambda>_. 1) (msb_bits 18 (EE_CMD_READ OR push_bit 8 (ucast (3 :: u8)) OR 0))
        (ee_start \<lparr>ee_io = 0, ee_shadows = [], d_out = 0\<rparr>) ! (17 - 7) \<and>
    fst (EE_READ (\<lambda>_. 1) 3 (\<lparr>ee_io = 0, ee_shadows = [], d_out = 0\<rparr>\<lparr>d_out := 5\<rparr>)) =
      fst (EE_READ (\<lambda>_. 1) 3 \<lparr>ee_io = 0, ee_shadows = [], d_out = 0\<rparr>)"
  by (rule eeprom_read_byte) simp

end
