(* ===== verification/Ioctl.thy ===== *)
theory Ioctl
  imports Prelude
begin

text \<open>
  The user interface of the board driver: the command numbers of \<open>creator_pxa270_lcd.h\<close>, encoded by
  the macros of \<open>asm-arm/ioctl.h\<close>, the layout of the structures that go through them, and the
  user memory a driver copies from and to.

  User memory is a map from 32-bit addresses to bytes; an address outside its domain faults. A
  multi-byte value is little endian. The kernel is built with the APCS layout (\<open>CFLAGS_ABI\<close> of
  \<open>arch/arm/Makefile\<close>), in which a structure takes a multiple of four bytes.
\<close>

section \<open>Command numbers\<close>

definition IOC :: "u32 \<Rightarrow> u32 \<Rightarrow> u32 \<Rightarrow> nat \<Rightarrow> u32" where
  "IOC dir ty nr sz = push_bit 30 dir OR push_bit 8 ty OR push_bit 0 nr OR push_bit 16 (of_nat sz)"

definition IOC_TYPE :: "u32 \<Rightarrow> u32" where "IOC_TYPE n = drop_bit 8 n AND 0xff"
definition IOC_SIZE :: "u32 \<Rightarrow> nat" where "IOC_SIZE n = unat (drop_bit 16 n AND 0x3fff)"

definition LCD_IOCTL_MAGIC :: u32 where "LCD_IOCTL_MAGIC = 120"

definition LCD_IO :: "u32 \<Rightarrow> u32" where "LCD_IO nr = IOC 0 LCD_IOCTL_MAGIC nr 0"
definition LCD_IOR :: "u32 \<Rightarrow> nat \<Rightarrow> u32" where "LCD_IOR nr sz = IOC 2 LCD_IOCTL_MAGIC nr sz"
definition LCD_IOW :: "u32 \<Rightarrow> nat \<Rightarrow> u32" where "LCD_IOW nr sz = IOC 1 LCD_IOCTL_MAGIC nr sz"

definition struct_size :: "nat \<Rightarrow> nat" where "struct_size n = (n + 3) div 4 * 4"

definition sizeof_lcd_write_info :: nat where "sizeof_lcd_write_info = 524"
definition sizeof_lcd_full_image_info :: nat where "sizeof_lcd_full_image_info = 2 * 0x800"
definition sizeof_7seg_info :: nat where "sizeof_7seg_info = 8"
definition sizeof_Timer_info :: nat where "sizeof_Timer_info = struct_size 3"
definition sizeof_short :: nat where "sizeof_short = 2"

datatype lcd_command =
    LCD_IOCTL_CLEAR | LCD_IOCTL_WRITE | LCD_IOCTL_CUR_ON | LCD_IOCTL_CUR_OFF | LCD_IOCTL_CUR_GET
  | LCD_IOCTL_CUR_SET | LCD_IOCTL_DRAW_FULL_IMAGE
  | LED_IOCTL_SET | LED_IOCTL_BIT_SET | LED_IOCTL_BIT_CLEAR
  | DIPSW_IOCTL_GET
  | KEY_IOCTL_GET_CHAR | KEY_IOCTL_WAIT_CHAR | KEY_IOCTL_CHECK_EMTPY | KEY_IOCTL_CLEAR
  | KEY_IOCTL_CANCEL_WAIT_CHAR
  | SEG_IOCTL_ON | SEG_IOCTL_OFF | SEG_IOCTL_SET
  | TIME_IOCTL_GET | TIME_IOCTL_SET
  | EEPROM_IOCTL_GET | EEPROM_IOCTL_SET

fun command_number :: "lcd_command \<Rightarrow> u32" where
  "command_number LCD_IOCTL_CLEAR = LCD_IO 0x0"
| "command_number LCD_IOCTL_WRITE = LCD_IOW 0x01 sizeof_lcd_write_info"
| "command_number LCD_IOCTL_CUR_ON = LCD_IO 0x02"
| "command_number LCD_IOCTL_CUR_OFF = LCD_IO 0x03"
| "command_number LCD_IOCTL_CUR_GET = LCD_IOR 0x04 sizeof_lcd_write_info"
| "command_number LCD_IOCTL_CUR_SET = LCD_IOW 0x05 sizeof_lcd_write_info"
| "command_number LCD_IOCTL_DRAW_FULL_IMAGE = LCD_IOW 0x06 sizeof_lcd_full_image_info"
| "command_number LED_IOCTL_SET = LCD_IOW 0x40 sizeof_short"
| "command_number LED_IOCTL_BIT_SET = LCD_IOW 0x41 sizeof_short"
| "command_number LED_IOCTL_BIT_CLEAR = LCD_IOW 0x42 sizeof_short"
| "command_number DIPSW_IOCTL_GET = LCD_IOR 0x50 sizeof_short"
| "command_number KEY_IOCTL_GET_CHAR = LCD_IOR 0x60 sizeof_short"
| "command_number KEY_IOCTL_WAIT_CHAR = LCD_IOR 0x61 sizeof_short"
| "command_number KEY_IOCTL_CHECK_EMTPY = LCD_IOR 0x62 sizeof_short"
| "command_number KEY_IOCTL_CLEAR = LCD_IO 0x63"
| "command_number KEY_IOCTL_CANCEL_WAIT_CHAR = LCD_IO 0x64"
| "command_number SEG_IOCTL_ON = LCD_IO 0x70"
| "command_number SEG_IOCTL_OFF = LCD_IO 0x71"
| "command_number SEG_IOCTL_SET = LCD_IOW 0x72 sizeof_7seg_info"
| "command_number TIME_IOCTL_GET = LCD_IOR 0x73 sizeof_Timer_info"
| "command_number TIME_IOCTL_SET = LCD_IOW 0x74 sizeof_Timer_info"
| "command_number EEPROM_IOCTL_GET = LCD_IOR 0x80 sizeof_short"
| "command_number EEPROM_IOCTL_SET = LCD_IOW 0x81 sizeof_short"

definition all_commands :: "lcd_command list" where
  "all_commands = [LCD_IOCTL_CLEAR, LCD_IOCTL_WRITE, LCD_IOCTL_CUR_ON, LCD_IOCTL_CUR_OFF,
     LCD_IOCTL_CUR_GET, LCD_IOCTL_CUR_SET, LCD_IOCTL_DRAW_FULL_IMAGE,
     LED_IOCTL_SET, LED_IOCTL_BIT_SET, LED_IOCTL_BIT_CLEAR, DIPSW_IOCTL_GET,
     KEY_IOCTL_GET_CHAR, KEY_IOCTL_WAIT_CHAR, KEY_IOCTL_CHECK_EMTPY, KEY_IOCTL_CLEAR,
     KEY_IOCTL_CANCEL_WAIT_CHAR, SEG_IOCTL_ON, SEG_IOCTL_OFF, SEG_IOCTL_SET,
     TIME_IOCTL_GET, TIME_IOCTL_SET, EEPROM_IOCTL_GET, EEPROM_IOCTL_SET]"

text \<open>The \<open>switch (command)\<close>: the case whose number it is, or the \<open>default\<close>.\<close>

definition command_case :: "u32 \<Rightarrow> lcd_command option" where
  "command_case n = List.find (\<lambda>c. command_number c = n) all_commands"

lemma command_numbers_distinct: "distinct (map command_number all_commands)"
  by code_simp

lemma all_commands_complete: "c \<in> set all_commands"
  by (cases c) (simp_all add: all_commands_def)

lemma find_distinct:
  "distinct (map f xs) \<Longrightarrow> x \<in> set xs \<Longrightarrow> List.find (\<lambda>y. f y = f x) xs = Some x"
  by (induction xs) auto

lemma command_case_number [simp]: "command_case (command_number c) = Some c"
  unfolding command_case_def
  by (rule find_distinct [OF command_numbers_distinct all_commands_complete])

lemma command_case_Some: "command_case n = Some c \<Longrightarrow> n = command_number c"
  by (auto simp: command_case_def find_Some_iff)

lemma command_number_inject: "command_number a = command_number b \<longleftrightarrow> a = b"
  using command_case_number [of a] command_case_number [of b] by (metis option.inject)

lemma command_type: "IOC_TYPE (command_number c) = LCD_IOCTL_MAGIC"
proof -
  have "list_all (\<lambda>c. IOC_TYPE (command_number c) = LCD_IOCTL_MAGIC) all_commands" by code_simp
  then show ?thesis using all_commands_complete by (simp add: list_all_iff)
qed

section \<open>User memory\<close>

type_synonym umem = "u32 \<Rightarrow> u8 option"

definition copy_from_user :: "umem \<Rightarrow> u32 \<Rightarrow> nat \<Rightarrow> u8 list option" where
  "copy_from_user m a n = those (map (\<lambda>i. m (a + of_nat i)) [0..<n])"

text \<open>True is a complete copy; a copy that faults has stored the bytes before the fault.\<close>

fun copy_to_user :: "umem \<Rightarrow> u32 \<Rightarrow> u8 list \<Rightarrow> bool \<times> umem" where
  "copy_to_user m a [] = (True, m)"
| "copy_to_user m a (b # bs) =
     (if m a = None then (False, m) else copy_to_user (m(a \<mapsto> b)) (a + 1) bs)"

definition get_user :: "umem \<Rightarrow> u32 \<Rightarrow> u8" where
  "get_user m a = (case m a of None \<Rightarrow> 0 | Some b \<Rightarrow> b)"

definition mapped :: "umem \<Rightarrow> u32 \<Rightarrow> nat \<Rightarrow> bool" where
  "mapped m a n \<longleftrightarrow> (\<forall>i<n. m (a + of_nat i) \<noteq> None)"

definition u16_at :: "u8 list \<Rightarrow> nat \<Rightarrow> u16" where
  "u16_at bs i = ucast (bs ! i) OR push_bit 8 (ucast (bs ! (i + 1)))"

definition u32_at :: "u8 list \<Rightarrow> nat \<Rightarrow> u32" where
  "u32_at bs i = ucast (bs ! i) OR push_bit 8 (ucast (bs ! (i + 1))) OR
     push_bit 16 (ucast (bs ! (i + 2))) OR push_bit 24 (ucast (bs ! (i + 3)))"

definition u16_bytes :: "u16 \<Rightarrow> u8 list" where
  "u16_bytes v = [ucast v, ucast (drop_bit 8 v)]"

definition u32_bytes :: "u32 \<Rightarrow> u8 list" where
  "u32_bytes v = [ucast v, ucast (drop_bit 8 v), ucast (drop_bit 16 v), ucast (drop_bit 24 v)]"

lemma u16_at_bytes: "u16_at (u16_bytes v) 0 = v"
  by (rule bit_word_eqI) (auto simp: u16_at_def u16_bytes_def bit_simps)

lemma u32_at_bytes: "u32_at (u32_bytes v) 0 = v"
proof (rule bit_word_eqI)
  fix n assume "n < LENGTH(32)"
  then consider "n < 8" | "8 \<le> n" "n < 16" | "16 \<le> n" "n < 24" | "24 \<le> n" "n < 32" by force
  then show "bit (u32_at (u32_bytes v) 0) n = bit v n"
    by cases (auto simp: u32_at_def u32_bytes_def bit_simps)
qed

lemma those_Some: "those xs = Some ys \<longleftrightarrow> xs = map Some ys"
  by (induction xs arbitrary: ys) (auto split: option.splits)

lemma copy_from_user_Some:
  "copy_from_user m a n = Some bs \<longleftrightarrow> length bs = n \<and> (\<forall>i<n. m (a + of_nat i) = Some (bs ! i))"
  unfolding copy_from_user_def those_Some by (auto simp: list_eq_iff_nth_eq)

lemma copy_from_user_mapped: "mapped m a n \<longleftrightarrow> copy_from_user m a n \<noteq> None"
proof
  assume "mapped m a n"
  then have "copy_from_user m a n = Some (map (\<lambda>i. the (m (a + of_nat i))) [0..<n])"
    by (auto simp: copy_from_user_Some mapped_def)
  then show "copy_from_user m a n \<noteq> None" by simp
qed (auto simp: copy_from_user_Some mapped_def)

lemma addr_inj:
  assumes "(a :: u32) + of_nat i = a + of_nat j" "i < 2 ^ 32" "j < 2 ^ 32"
  shows "i = j"
proof -
  have "unat (of_nat i :: u32) = unat (of_nat j :: u32)" using assms(1) by simp
  moreover have "unat (of_nat n :: u32) = n" if "n < 2 ^ 32" for n
    unfolding unat_of_nat using that by simp
  ultimately show ?thesis using assms(2,3) by simp
qed

lemma copy_to_user_Cons:
  "copy_to_user m a (b # bs) = (if m a = None then (False, m) else copy_to_user (m(a := Some b)) (a + 1) bs)"
  by simp

lemma copy_to_user_other:
  "(\<And>i. i < length bs \<Longrightarrow> k \<noteq> a + of_nat i) \<Longrightarrow> snd (copy_to_user m a bs) k = m k"
proof (induction bs arbitrary: m a)
  case Nil
  then show ?case by simp
next
  case (Cons b bs)
  from Cons.prems [of 0] have "k \<noteq> a" by simp
  moreover have "k \<noteq> (a + 1) + of_nat i" if "i < length bs" for i
    using Cons.prems [of "Suc i"] that by (simp add: ac_simps)
  ultimately have "(m(a := Some b)) k = m k"
    "snd (copy_to_user (m(a := Some b)) (a + 1) bs) k = (m(a := Some b)) k"
    by (simp, intro Cons.IH)
  moreover define m' where "m' = m(a := Some b)"
  ultimately show ?case unfolding copy_to_user_Cons m'_def [symmetric] by simp
qed

lemma mapped_tail:
  "mapped m a (Suc n) \<longleftrightarrow> m a \<noteq> None \<and> mapped m (a + 1) n"
  by (auto simp: mapped_def less_Suc_eq_0_disj ac_simps)

lemma mapped_upd: "mapped m a n \<Longrightarrow> mapped (m(k := Some b)) a n"
  by (simp add: mapped_def)

lemma mapped_upd_iff: "m k \<noteq> None \<Longrightarrow> mapped (m(k := Some b)) a n = mapped m a n"
  by (auto simp: mapped_def)

lemma copy_to_user_mapped:
  assumes "mapped m a (length bs)" "length bs < 2 ^ 32"
  shows "fst (copy_to_user m a bs) \<and> copy_from_user (snd (copy_to_user m a bs)) a (length bs) = Some bs"
  using assms
proof (induction bs arbitrary: m a)
  case Nil
  then show ?case by (simp add: copy_from_user_def)
next
  case (Cons b bs)
  let ?m = "m(a := Some b)"
  from Cons.prems have m: "m a \<noteq> None" "mapped ?m (a + 1) (length bs)"
    by (auto simp: mapped_tail mapped_upd)
  with Cons have IH: "fst (copy_to_user ?m (a + 1) bs)"
    "copy_from_user (snd (copy_to_user ?m (a + 1) bs)) (a + 1) (length bs) = Some bs" by auto
  have "snd (copy_to_user ?m (a + 1) bs) a = ?m a"
  proof (rule copy_to_user_other)
    fix i assume i: "i < length bs"
    have "a + of_nat 0 \<noteq> a + of_nat (Suc i)"
      using addr_inj [of a 0 "Suc i"] i Cons.prems(2) by auto
    then show "a \<noteq> a + 1 + of_nat i" by (simp add: ac_simps)
  qed
  with IH m show ?case
    by (auto simp: copy_from_user_Some less_Suc_eq_0_disj ac_simps)
qed

lemma copy_to_user_fault: "\<not> mapped m a (length bs) \<Longrightarrow> \<not> fst (copy_to_user m a bs)"
proof (induction bs arbitrary: m a)
  case Nil
  then show ?case by (simp add: mapped_def)
next
  case (Cons b bs)
  define m' where "m' = m(a := Some b)"
  show ?case
  proof (cases "m a = None")
    case False
    then have "\<not> mapped m' (a + 1) (length bs)"
      using Cons.prems unfolding m'_def by (simp add: mapped_tail mapped_upd_iff)
    then show ?thesis
      unfolding copy_to_user_Cons m'_def [symmetric] using False Cons.IH by simp
  qed simp
qed

section \<open>Properties\<close>

text \<open>
  The command numbers: every command of the header is decoded to itself by the driver's
  \<open>switch\<close>, no two share a number, the magic field is the driver's, and the \<open>default\<close> is for numbers
  that are no command.
\<close>

theorem command_numbers_decode:
  "command_case (command_number c) = Some c \<and> IOC_TYPE (command_number c) = LCD_IOCTL_MAGIC \<and>
     (command_case n = None) = (n \<notin> range command_number)"
proof -
  have "command_case n = None \<longleftrightarrow> n \<notin> range command_number"
    using command_case_Some [of n] command_case_number by (cases "command_case n") (auto simp: image_iff)
  then show ?thesis by (simp add: command_type)
qed

end
