(* ===== verification/LcdDriver.thy ===== *)
theory LcdDriver
  imports LcdPanel Keypad SegLed Eeprom Ioctl
begin

text \<open>
  The character device of \<open>creator-pxa270-lcd.c\<close>: the state of all its parts together, the scan
  timer, the \<open>write\<close> and \<open>ioctl\<close> operations, and the module's initialisation and cleanup.

  What the hardware and the kernel answer is a parameter \<open>env\<close>: the input register as a function of
  the row select in \<open>IO_REG2\<close>, the EEPROM's answers, the result of \<open>request_irq\<close> with what it
  leaves in \<open>OIER\<close>, and the contents of the stack byte that pads \<open>_Timer_info_t\<close>. A lookup outside
  \<open>KeyASCIICode\<close> or \<open>Msg\<close> is undefined in C and is the result \<open>OutOfBounds\<close>; a call that does not
  return is \<open>Hangs\<close>; a reader put to sleep is \<open>Asleep\<close>.
\<close>

section \<open>The state\<close>

record lcd_env =
  io_reg1 :: "u16 \<Rightarrow> u16"
  cpld_status :: "u16 list \<Rightarrow> u16"
  request_irq :: "u32 \<Rightarrow> int \<times> u32"
  stack_pad :: u8

record lcd_drv =
  lcd :: lcdtxt
  kp :: keypad
  seg :: seg7
  ee :: eeprom
  scan_led :: u16
  reg0_pins :: u16
  reg2_pins :: u16
  tick_count :: u8
  tick_sec :: u8
  tick_min :: u8
  tick_hour :: u8
  byScanning :: u8
  scan_timer_added :: bool
  registered :: bool

definition TRUE :: u8 where "TRUE = 1"
definition OFF :: u8 where "OFF = 0"
definition KEYPAD_SCAN_FREQ :: u8 where "KEYPAD_SCAN_FREQ = 5"

text \<open>The driver as loaded: \<open>scan_led\<close> has an initialiser; \<open>creator_io.io_reg0\<close> is the core's.\<close>

definition lcd_drv_loaded :: "u16 \<Rightarrow> lcd_drv" where
  "lcd_drv_loaded io =
     \<lparr>lcd = lcdtxt_bss, kp = keypad_bss, seg = seg7_bss,
      ee = \<lparr>ee_io = io, ee_shadows = [], d_out = 0\<rparr>, scan_led = 0x5500,
      reg0_pins = io, reg2_pins = 0, tick_count = 0, tick_sec = 0, tick_min = 0, tick_hour = 0,
      byScanning = 0, scan_timer_added = False, registered = False\<rparr>"

section \<open>Timers\<close>

definition scan_clock :: "lcd_drv \<Rightarrow> lcd_drv" where
  "scan_clock d =
     (let d1 = d\<lparr>tick_count := tick_count d + 1\<rparr>
      in if tick_count d1 = KEYPAD_SCAN_FREQ
         then let d2 = d1\<lparr>tick_count := 0, tick_sec := tick_sec d1 + 1\<rparr>
              in if 60 \<le> unat (tick_sec d2)
                 then let d3 = d2\<lparr>tick_sec := 0, tick_min := tick_min d2 + 1\<rparr>
                      in if 60 \<le> unat (tick_min d3)
                         then d3\<lparr>tick_min := 0, tick_hour := tick_hour d3 + 1\<rparr>
                         else d3
                 else d2
         else d1)"

text \<open>The second result is \<open>wake_up_interruptible(&wq_read)\<close>.\<close>

definition ScanTimer :: "lcd_env \<Rightarrow> lcd_drv \<Rightarrow> lcd_drv \<times> bool" where
  "ScanTimer env d =
     (let d0 = d\<lparr>scan_timer_added := False, byScanning := UM\<rparr>;
          (d1, woke) =
            (if keypad_overflow (kp d0) then (d0, False)
             else let (k, woke) = scan_code (scan_matrix (io_reg1 env) (scan_led d0)) (kp d0)
                  in (d0\<lparr>kp := k, reg2_pins := last (scan_selects (scan_led d0))\<rparr>, woke))
      in ((scan_clock d1)\<lparr>scan_timer_added := True, byScanning := TRUE\<rparr>, woke))"

definition segment_timer_irq :: "lcd_drv \<Rightarrow> lcd_drv" where
  "segment_timer_irq d =
     (let (w, s) = seg7_timer_irq (ee_io (ee d)) (seg d) in d\<lparr>seg := s, reg0_pins := w\<rparr>)"

section \<open>File operations\<close>

datatype result = Returns int lcd_drv umem | Asleep lcd_drv umem | OutOfBounds | Hangs

definition with_txt :: "lcd_drv \<Rightarrow> lcdtxt option \<Rightarrow> umem \<Rightarrow> int \<Rightarrow> result" where
  "with_txt d t m rc = (case t of None \<Rightarrow> Hangs | Some s \<Rightarrow> Returns rc (d\<lparr>lcd := s\<rparr>) m)"

definition creator_pxa270_lcdtxt_open :: "lcd_drv \<Rightarrow> int \<times> lcd_drv" where
  "creator_pxa270_lcdtxt_open d = (0, d)"

definition creator_pxa270_lcdtxt_release :: "lcd_drv \<Rightarrow> int \<times> lcd_drv" where
  "creator_pxa270_lcdtxt_release d = (0, d)"

text \<open>\<open>GET_USER\<close> stores 0 when it faults, and its error is not looked at.\<close>

definition creator_pxa270_lcdtxt_write :: "u32 \<Rightarrow> u32 \<Rightarrow> lcd_drv \<Rightarrow> umem \<Rightarrow> result" where
  "creator_pxa270_lcdtxt_write buf count d m =
     with_txt d (LCD_puts (map (\<lambda>num. get_user m (buf + of_nat num)) [0..<unat count]) (lcd d)) m (sint count)"

text \<open>The \<open>if (copy_from_user(...)) return (-EINVAL);\<close> most cases start with.\<close>

definition from_user :: "lcd_drv \<Rightarrow> umem \<Rightarrow> u32 \<Rightarrow> nat \<Rightarrow> (u8 list \<Rightarrow> result) \<Rightarrow> result" where
  "from_user d m arg n f = (case copy_from_user m arg n of None \<Rightarrow> Returns (- EINVAL) d m | Some bs \<Rightarrow> f bs)"

definition to_user :: "lcd_drv \<Rightarrow> umem \<Rightarrow> u32 \<Rightarrow> u8 list \<Rightarrow> result" where
  "to_user d m arg bs = (let (ok, m1) = copy_to_user m arg bs in Returns (if ok then 0 else - EINVAL) d m1)"

text \<open>\<open>data = (key << 8) + KeyASCIICode[key]\<close> and its copy to the user.\<close>

definition key_to_user :: "lcd_drv \<Rightarrow> umem \<Rightarrow> u32 \<Rightarrow> u8 \<Rightarrow> result" where
  "key_to_user d m arg key =
     (case key_ascii key of
        None \<Rightarrow> OutOfBounds
      | Some a \<Rightarrow> to_user d m arg (u16_bytes (push_bit 8 (ucast key) + ucast a)))"

text \<open>The end of \<open>KEY_IOCTL_GET_CHAR\<close>, and of \<open>KEY_IOCTL_WAIT_CHAR\<close> once it is awake.\<close>

definition key_get :: "u32 \<Rightarrow> lcd_drv \<Rightarrow> umem \<Rightarrow> result" where
  "key_get arg d m =
     (case KEYPAD_get_key (kp d) of
        (None, k) \<Rightarrow> Returns (- EIO) (d\<lparr>kp := k\<rparr>) m
      | (Some key, k) \<Rightarrow> key_to_user (d\<lparr>kp := k\<rparr>) m arg key)"

definition MSG_LEN :: nat where "MSG_LEN = 512"

definition ioctl_lcd :: "lcd_command \<Rightarrow> u32 \<Rightarrow> nat \<Rightarrow> lcd_drv \<Rightarrow> umem \<Rightarrow> result" where
  "ioctl_lcd cmd arg arg_size d m =
     (case cmd of
        LCD_IOCTL_CLEAR \<Rightarrow> Returns 0 (d\<lparr>lcd := LCD_ClearScreen (lcd d)\<rparr>) m
      | LCD_IOCTL_WRITE \<Rightarrow> from_user d m arg arg_size (\<lambda>display.
          let count = unat (u16_at display 512)
          in if MSG_LEN < count then OutOfBounds
             else with_txt d (LCD_puts (take count display) (lcd d)) m 0)
      | LCD_IOCTL_CUR_ON \<Rightarrow> Returns 0 (d\<lparr>lcd := LCD_EnableCursor OK (lcd d)\<rparr>) m
      | LCD_IOCTL_CUR_OFF \<Rightarrow> Returns 0 (d\<lparr>lcd := LCD_EnableCursor OFF (lcd d)\<rparr>) m
      | LCD_IOCTL_CUR_GET \<Rightarrow> from_user d m arg arg_size (\<lambda>display.
          let (x, y) = LCD_GetCursor (lcd d)
          in to_user d m arg (take 516 display @ u32_bytes (ucast x) @ u32_bytes (ucast y)))
      | LCD_IOCTL_CUR_SET \<Rightarrow> from_user d m arg arg_size (\<lambda>display.
          Returns 0 (d\<lparr>lcd := LCD_SetCursor (sint (u32_at display 516)) (sint (u32_at display 520)) (lcd d)\<rparr>) m)
      | LCD_IOCTL_DRAW_FULL_IMAGE \<Rightarrow> from_user d m arg arg_size (\<lambda>image.
          Returns 0 (d\<lparr>lcd := LCD_DrawFullImage (map (\<lambda>i. u16_at image (2 * i)) [0..<0x800]) (lcd d)\<rparr>) m)
      | _ \<Rightarrow> Returns (- ENOTTY) d m)"

text \<open>The 16-bit argument is cut to the 8 bits of the parameter \<open>led\<close>.\<close>

definition ioctl_led :: "led_cmd \<Rightarrow> u32 \<Rightarrow> nat \<Rightarrow> lcd_drv \<Rightarrow> umem \<Rightarrow> result" where
  "ioctl_led cmd arg arg_size d m = from_user d m arg arg_size (\<lambda>bs.
     let (rc, led, out) = Creator_pxa270_led_cmd (Some cmd) (ucast (u16_at bs 0)) (scan_led d);
         d1 = d\<lparr>scan_led := led, reg2_pins := (case out of None \<Rightarrow> reg2_pins d | Some w \<Rightarrow> w)\<rparr>
     in if rc < - EFAULT then Returns (- EINVAL) d1 m else Returns 0 d1 m)"

definition ioctl_key :: "lcd_command \<Rightarrow> u32 \<Rightarrow> lcd_drv \<Rightarrow> umem \<Rightarrow> result" where
  "ioctl_key cmd arg d m =
     (case cmd of
        KEY_IOCTL_GET_CHAR \<Rightarrow> key_get arg d m
      | KEY_IOCTL_WAIT_CHAR \<Rightarrow> (if KEYPAD_chk_key (kp d) = None then Asleep d m else key_get arg d m)
      | KEY_IOCTL_CANCEL_WAIT_CHAR \<Rightarrow> Returns 0 d m
      | KEY_IOCTL_CHECK_EMTPY \<Rightarrow>
          (case KEYPAD_chk_key (kp d) of
             None \<Rightarrow> Returns (- EINVAL) d m
           | Some key \<Rightarrow> key_to_user d m arg key)
      | KEY_IOCTL_CLEAR \<Rightarrow> Returns 0 (d\<lparr>kp := Reset_KEYPAD (kp d)\<rparr>) m
      | _ \<Rightarrow> Returns (- ENOTTY) d m)"

definition ioctl_seg :: "lcd_env \<Rightarrow> lcd_command \<Rightarrow> u32 \<Rightarrow> nat \<Rightarrow> lcd_drv \<Rightarrow> umem \<Rightarrow> result" where
  "ioctl_seg env cmd arg arg_size d m =
     (let run = (\<lambda>c. let (rc, s) = Creator_pxa270_7Segment_cmd (request_irq env) (Some c) (seg d)
                     in Returns rc (d\<lparr>seg := s\<rparr>) m)
      in case cmd of
        SEG_IOCTL_ON \<Rightarrow> run SEG_ON
      | SEG_IOCTL_OFF \<Rightarrow> run SEG_OFF
      | SEG_IOCTL_SET \<Rightarrow> from_user d m arg arg_size (\<lambda>bs.
          run (SEG_SET \<lparr>Mode = bs ! 0, Which = bs ! 1, Value = u32_at bs 4\<rparr>))
      | _ \<Rightarrow> Returns (- ENOTTY) d m)"

definition ioctl_time :: "lcd_env \<Rightarrow> lcd_command \<Rightarrow> u32 \<Rightarrow> nat \<Rightarrow> lcd_drv \<Rightarrow> umem \<Rightarrow> result" where
  "ioctl_time env cmd arg arg_size d m =
     (case cmd of
        TIME_IOCTL_GET \<Rightarrow>
          to_user d m arg (take arg_size [tick_sec d, tick_min d, tick_hour d, stack_pad env])
      | TIME_IOCTL_SET \<Rightarrow> from_user d m arg arg_size (\<lambda>bs.
          Returns 0 (d\<lparr>tick_sec := bs ! 0, tick_min := bs ! 1, tick_hour := bs ! 2\<rparr>) m)
      | _ \<Rightarrow> Returns (- ENOTTY) d m)"

definition ioctl_eeprom :: "lcd_env \<Rightarrow> lcd_command \<Rightarrow> u32 \<Rightarrow> nat \<Rightarrow> lcd_drv \<Rightarrow> umem \<Rightarrow> result" where
  "ioctl_eeprom env cmd arg arg_size d m =
     (case cmd of
        EEPROM_IOCTL_SET \<Rightarrow> from_user d m arg arg_size (\<lambda>bs.
          Returns 0 (d\<lparr>ee := EE_WRITE (cpld_status env) (bs ! 0) (bs ! 1) (ee d)\<rparr>) m)
      | EEPROM_IOCTL_GET \<Rightarrow> from_user d m arg arg_size (\<lambda>bs.
          let (data, e) = EE_READ (cpld_status env) (bs ! 0) (ee d)
          in to_user (d\<lparr>ee := e\<rparr>) m arg (bs[1 := data]))
      | _ \<Rightarrow> Returns (- ENOTTY) d m)"

definition creator_pxa270_lcdtxt_ioctl :: "lcd_env \<Rightarrow> u32 \<Rightarrow> u32 \<Rightarrow> lcd_drv \<Rightarrow> umem \<Rightarrow> result" where
  "creator_pxa270_lcdtxt_ioctl env command arg d m =
     (if IOC_TYPE command \<noteq> LCD_IOCTL_MAGIC then Returns (- ENOTTY) d m
      else let arg_size = IOC_SIZE command
           in case command_case command of
             None \<Rightarrow> Returns (- ENOTTY) d m
           | Some cmd \<Rightarrow>
               (if cmd \<in> {LCD_IOCTL_CLEAR, LCD_IOCTL_WRITE, LCD_IOCTL_CUR_ON, LCD_IOCTL_CUR_OFF,
                          LCD_IOCTL_CUR_GET, LCD_IOCTL_CUR_SET, LCD_IOCTL_DRAW_FULL_IMAGE}
                then ioctl_lcd cmd arg arg_size d m
                else if cmd = LED_IOCTL_SET then ioctl_led LED_SET arg arg_size d m
                else if cmd = LED_IOCTL_BIT_SET then ioctl_led LED_BIT_SET arg arg_size d m
                else if cmd = LED_IOCTL_BIT_CLEAR then ioctl_led LED_BIT_CLEAR arg arg_size d m
                else if cmd = DIPSW_IOCTL_GET
                then to_user d m arg (u16_bytes (ucast (ucast (io_reg1 env (reg2_pins d)) :: u8)))
                else if cmd \<in> {KEY_IOCTL_GET_CHAR, KEY_IOCTL_WAIT_CHAR, KEY_IOCTL_CANCEL_WAIT_CHAR,
                               KEY_IOCTL_CHECK_EMTPY, KEY_IOCTL_CLEAR}
                then ioctl_key cmd arg d m
                else if cmd \<in> {SEG_IOCTL_ON, SEG_IOCTL_OFF, SEG_IOCTL_SET}
                then ioctl_seg env cmd arg arg_size d m
                else if cmd \<in> {TIME_IOCTL_GET, TIME_IOCTL_SET}
                then ioctl_time env cmd arg arg_size d m
                else ioctl_eeprom env cmd arg arg_size d m))"

section \<open>Loading and unloading\<close>

definition lcd_hwsetup :: "lcd_drv \<Rightarrow> lcd_drv" where
  "lcd_hwsetup d = d\<lparr>tick_count := 0, tick_sec := 0, tick_min := 0, tick_hour := 0\<rparr>"

text \<open>\<open>region\<close> and \<open>added\<close> are the results of \<open>register_chrdev_region\<close> and \<open>cdev_add\<close>.\<close>

definition init_module_drv_lcdtxt :: "lcd_env \<Rightarrow> int \<Rightarrow> int \<Rightarrow> lcd_drv \<Rightarrow> int \<times> lcd_drv" where
  "init_module_drv_lcdtxt env region added d =
     (if region \<noteq> 0 then (- EBUSY, d)
      else if added \<noteq> 0 then (- EBUSY, d)
      else let d1 = lcd_hwsetup (d\<lparr>registered := True\<rparr>);
               d2 = d1\<lparr>lcd := LCD_EnableCursor OK (Initial_LCD (lcd d1))\<rparr>;
               d3 = d2\<lparr>kp := Initial_KEYPAD (kp d2)\<rparr>;
               d4 = d3\<lparr>seg := Initial_7SEG (seg d3)\<rparr>;
               d5 = d4\<lparr>seg := snd (seg7_timer_operation (request_irq env) TTIMER_SETUP (seg d4))\<rparr>
           in (0, d5\<lparr>byScanning := TRUE, scan_timer_added := True\<rparr>))"

definition cleanup_module_drv_lcdtxt :: "lcd_env \<Rightarrow> lcd_drv \<Rightarrow> lcd_drv" where
  "cleanup_module_drv_lcdtxt env d =
     (let d1 = d\<lparr>seg := snd (seg7_timer_operation (request_irq env) TTIMER_STOP (seg d))\<rparr>;
          d2 = (if byScanning d1 \<noteq> 0 then d1\<lparr>scan_timer_added := False\<rparr> else d1)
      in d2\<lparr>registered := False\<rparr>)"

section \<open>The clock\<close>

text \<open>The time of day in fifths of a second; \<open>tick_hour\<close> is a byte and no carry stops it at 24.\<close>

definition drv_time :: "lcd_drv \<Rightarrow> nat" where
  "drv_time d = ((unat (tick_hour d) * 60 + unat (tick_min d)) * 60 + unat (tick_sec d)) * 5 + unat (tick_count d)"

definition clock_ok :: "lcd_drv \<Rightarrow> bool" where
  "clock_ok d \<longleftrightarrow> unat (tick_count d) < 5 \<and> unat (tick_sec d) < 60 \<and> unat (tick_min d) < 60"

lemma u8_inc: "unat (x :: u8) < 255 \<Longrightarrow> unat (x + 1) = unat x + 1"
  by (subst unat_add_lem [THEN iffD1]) auto

lemma u8_inc_mod: "unat ((x :: u8) + 1) = (unat x + 1) mod 256"
  by (simp add: unat_word_ariths)

lemma u8_eq_iff: "(x :: u8) = y \<longleftrightarrow> unat x = unat y"
  by (simp add: word_unat_eq_iff)

lemma scan_clock_step:
  assumes "clock_ok d"
  shows "clock_ok (scan_clock d) \<and> drv_time (scan_clock d) = (drv_time d + 1) mod (256 * 18000)"
proof -
  define c s m h where "c = unat (tick_count d)" and "s = unat (tick_sec d)"
    and "m = unat (tick_min d)" and "h = unat (tick_hour d)"
  have b: "c < 5" "s < 60" "m < 60" "h < 256"
    using assms unat_u8_lt [of "tick_hour d"] by (auto simp: clock_ok_def c_def s_def m_def h_def)
  have cc: "unat (tick_count d + 1) = c + 1" and ss: "unat (tick_sec d + 1) = s + 1"
    and mm: "unat (tick_min d + 1) = m + 1"
    using b unfolding c_def s_def m_def by (simp_all add: u8_inc)
  have five: "tick_count d + 1 = KEYPAD_SCAN_FREQ \<longleftrightarrow> c = 4"
    unfolding u8_eq_iff cc by (simp add: KEYPAD_SCAN_FREQ_def)
  have hh: "unat (tick_hour d + 1) = (if h = 255 then 0 else h + 1)"
    unfolding u8_inc_mod h_def [symmetric] using b by auto
  have T: "drv_time d = ((h * 60 + m) * 60 + s) * 5 + c"
    by (simp add: drv_time_def c_def s_def m_def h_def)
  have bound: "drv_time d + 1 \<le> 256 * 18000" using b unfolding T by simp
  consider "c < 4" | "c = 4" "s < 59" | "c = 4" "s = 59" "m < 59" | "c = 4" "s = 59" "m = 59"
    using b by linarith
  then show ?thesis
  proof cases
    case 1
    then have "scan_clock d = d\<lparr>tick_count := tick_count d + 1\<rparr>" using five by (simp add: scan_clock_def Let_def)
    moreover have "drv_time d + 1 < 256 * 18000" using b 1 unfolding T by simp
    ultimately show ?thesis using 1 b cc T
      by (simp add: clock_ok_def drv_time_def s_def [symmetric] m_def [symmetric] h_def [symmetric])
  next
    case 2
    then have "scan_clock d = d\<lparr>tick_count := 0, tick_sec := tick_sec d + 1\<rparr>"
      using five ss by (simp add: scan_clock_def Let_def)
    moreover have "drv_time d + 1 < 256 * 18000" using b 2 unfolding T by simp
    ultimately show ?thesis using 2 b ss T
      by (simp add: clock_ok_def drv_time_def m_def [symmetric] h_def [symmetric])
  next
    case 3
    then have "scan_clock d = d\<lparr>tick_count := 0, tick_sec := 0, tick_min := tick_min d + 1\<rparr>"
      using five ss mm by (simp add: scan_clock_def Let_def)
    moreover have "drv_time d + 1 < 256 * 18000" using b 3 unfolding T by simp
    ultimately show ?thesis using 3 b mm T
      by (simp add: clock_ok_def drv_time_def h_def [symmetric])
  next
    case 4
    then have sc: "scan_clock d = d\<lparr>tick_count := 0, tick_sec := 0, tick_min := 0, tick_hour := tick_hour d + 1\<rparr>"
      using five ss mm by (simp add: scan_clock_def Let_def)
    show ?thesis
    proof (cases "h = 255")
      case True
      then show ?thesis using 4 T hh unfolding sc by (simp add: clock_ok_def drv_time_def)
    next
      case False
      then have "drv_time d + 1 < 256 * 18000" using b 4 unfolding T by simp
      then show ?thesis using 4 T hh False unfolding sc by (simp add: clock_ok_def drv_time_def)
    qed
  qed
qed

lemma scan_clock_run:
  "clock_ok d \<Longrightarrow> clock_ok ((scan_clock ^^ n) d) \<and>
     drv_time ((scan_clock ^^ n) d) = (drv_time d + n) mod (256 * 18000)"
proof (induction n)
  case 0
  have "drv_time d < 256 * 18000"
    using 0 unat_u8_lt [of "tick_hour d"] unfolding clock_ok_def drv_time_def by simp
  with 0 show ?case by simp
next
  case (Suc n)
  then show ?case using scan_clock_step [of "(scan_clock ^^ n) d"] by (simp add: mod_Suc_eq)
qed


section \<open>Every call returns\<close>

text \<open>The frame of the text display: the sizes the power-on sequence sets are never changed.\<close>

lemma sized_bus_only: "bus_only s s' \<Longrightarrow> sized s \<Longrightarrow> sized s'"
  by (simp add: sized_def bus_onlyD)

lemma sized_upd [simp]:
  "sized (s\<lparr>Xpos := x\<rparr>) = sized s" "sized (s\<lparr>Ypos := x\<rparr>) = sized s"
  "sized (s\<lparr>YScrollOffset := x\<rparr>) = sized s" "sized (s\<lparr>byCursorOn := x\<rparr>) = sized s"
  "sized (s\<lparr>byCursorMode := x\<rparr>) = sized s" "sized (s\<lparr>lcd_bus := b\<rparr>) = sized s"
  "sized (WriteLCD a v s) = sized s" "sized (LCD_SetCursor i j s) = sized s"
  by (simp_all add: sized_def SetCursor_frame WriteLCD_def)

lemma sized_displ: "sized s \<Longrightarrow> sized (LCD_displ x y c s)"
  by (rule sized_bus_only [OF bus_only_displ])

lemma sized_ClearOneLine: "sized s \<Longrightarrow> sized (LCD_ClearOneLine y s)"
  unfolding LCD_ClearOneLine_def by simp (rule fold_invariant_upto, auto simp: sized_displ)

lemma sized_scroll: "sized s \<Longrightarrow> sized (LCD_scroll s)"
  by (simp add: LCD_scroll_def Let_def sized_ClearOneLine)

lemma sized_cursor: "sized (putchar_cursor s) = sized s"
  by (simp add: putchar_cursor_def)

lemma sized_newline: "sized s \<Longrightarrow> sized (putchar_newline s)"
  by (simp add: putchar_newline_def Let_def sized_cursor sized_scroll)

lemma sized_default: "sized s \<Longrightarrow> sized (putchar_default c s)"
  by (simp add: putchar_default_def Let_def sized_cursor sized_newline sized_displ)

lemma Xpos_cursor: "Xpos (putchar_cursor s) = Xpos s"
  by (simp add: putchar_cursor_def SetCursor_frame)

lemma Xpos_displ: "Xpos (LCD_displ x y c s) = Xpos s"
  using bus_only_displ by (rule bus_onlyD(1))

lemma Xpos_default:
  "sized s \<Longrightarrow> Xpos (putchar_default c s) = (if 15 \<le> unat (Xpos s) then 1 else Xpos s + 1)"
  by (simp add: putchar_default_def Let_def Xpos_cursor Xpos_displ putchar_newline_def sized_def)

text \<open>From any column, the one the user set included, the tab loop meets a tab stop.\<close>

definition tab_distance :: "nat \<Rightarrow> nat" where
  "tab_distance x = (if 15 \<le> x then 10 else if 12 \<le> x then 25 - x else 4 - x mod 4)"

lemma tab_distance_step:
  assumes "(if 15 \<le> x then 1 else x + 1) mod 4 \<noteq> 0"
  shows "tab_distance (if 15 \<le> x then 1 else x + 1) < tab_distance x"
proof (cases "15 \<le> x")
  case True
  then show ?thesis by (simp add: tab_distance_def)
next
  case False
  then have "x < 15" by simp
  moreover have "\<forall>x<15. (x + 1) mod 4 \<noteq> (0 :: nat) \<longrightarrow> tab_distance (x + 1) < tab_distance x"
    by code_simp
  ultimately show ?thesis using assms by simp
qed

lemma putchar_tab_ends:
  assumes "sized s"
  shows "\<exists>s'. putchar_tab s = Some s' \<and> sized s'"
  using assms
proof (induction "tab_distance (unat (Xpos s))" arbitrary: s rule: less_induct)
  case less
  let ?s = "putchar_default 0x20 s"
  have sz: "sized ?s" using less.prems by (rule sized_default)
  have X: "unat (Xpos ?s) = (if 15 \<le> unat (Xpos s) then 1 else unat (Xpos s) + 1)"
    using less.prems by (simp add: Xpos_default u8_inc)
  show ?case
  proof (cases "unat (Xpos ?s) mod TABS = 0")
    case True
    with sz show ?thesis by (subst putchar_tab.simps) (simp add: Let_def)
  next
    case False
    then have "tab_distance (unat (Xpos ?s)) < tab_distance (unat (Xpos s))"
      unfolding X TABS_def by (rule tab_distance_step)
    from less.hyps [OF this sz] False show ?thesis
      by (subst putchar_tab.simps) (simp add: Let_def)
  qed
qed

lemma putchar_ends:
  assumes "sized s"
  shows "\<exists>s'. LCD_putchar c s = Some s' \<and> sized s'"
  using putchar_tab_ends [OF assms] sized_newline [OF assms] sized_default [OF assms]
  by (auto simp: LCD_putchar_def sized_cursor)

lemma puts_ends: "sized s \<Longrightarrow> \<exists>s'. LCD_puts cs s = Some s' \<and> sized s'"
proof (induction cs arbitrary: s)
  case (Cons c cs)
  from putchar_ends [OF Cons.prems, of c] obtain s1 where "LCD_putchar c s = Some s1" "sized s1" by blast
  with Cons.IH [of s1] show ?case by simp
qed simp

section \<open>The invariant of the driver\<close>

text \<open>
  The call comes back, with an answer or put to sleep, and leaves a state that satisfies \<open>P\<close>. A call
  that does not return, or that reads outside its tables, does not.
\<close>

fun result_all :: "(lcd_drv \<Rightarrow> bool) \<Rightarrow> result \<Rightarrow> bool" where
  "result_all P (Returns rc d m) = P d"
| "result_all P (Asleep d m) = P d"
| "result_all P OutOfBounds = False"
| "result_all P Hangs = False"

text \<open>The half of it that does not need the bounds, in which the parts of \<open>ioctl\<close> are proved.\<close>

fun unless_out :: "(lcd_drv \<Rightarrow> bool) \<Rightarrow> result \<Rightarrow> bool" where
  "unless_out P (Returns rc d m) = P d"
| "unless_out P (Asleep d m) = P d"
| "unless_out P OutOfBounds = True"
| "unless_out P Hangs = False"

lemma result_all_unless_out: "result_all P r \<longleftrightarrow> unless_out P r \<and> r \<noteq> OutOfBounds"
  by (cases r) simp_all

text \<open>
  The calls that read outside a table, by what the user and the keypad gave them: a message whose
  length field, at offset 512 of the user's structure, is above the 512 bytes of the text; a read or
  test of the key ring while the oldest code is not in \<open>key2num_tbl\<close>.
\<close>

definition overlong_message :: "umem \<Rightarrow> u32 \<Rightarrow> bool" where
  "overlong_message m arg = (case copy_from_user m arg sizeof_lcd_write_info of
     None \<Rightarrow> False | Some bs \<Rightarrow> 512 < unat (u16_at bs 512))"

definition chord_first :: "lcd_drv \<Rightarrow> bool" where
  "chord_first d = (case ring_keys (kp d) of [] \<Rightarrow> False | w # ws \<Rightarrow> w \<notin> set key2num_tbl)"

definition reads_outside :: "u32 \<Rightarrow> u32 \<Rightarrow> lcd_drv \<Rightarrow> umem \<Rightarrow> bool" where
  "reads_outside command arg d m \<longleftrightarrow>
     command = command_number LCD_IOCTL_WRITE \<and> overlong_message m arg \<or>
     command \<in> command_number ` {KEY_IOCTL_GET_CHAR, KEY_IOCTL_WAIT_CHAR, KEY_IOCTL_CHECK_EMTPY} \<and> chord_first d"

definition drv_inv :: "lcd_drv \<Rightarrow> bool" where
  "drv_inv d \<longleftrightarrow> sized (lcd d) \<and> wf_ring (kp d) \<and> seg7_wf (seg d) \<and>
     display_free (ee_io (ee d)) \<and> ee_idle (ee_io (ee d)) \<and> bit (ee_io (ee d)) 15"

lemma drv_inv_upd [simp]:
  "drv_inv (d\<lparr>scan_led := w\<rparr>) = drv_inv d" "drv_inv (d\<lparr>reg0_pins := w\<rparr>) = drv_inv d"
  "drv_inv (d\<lparr>reg2_pins := w\<rparr>) = drv_inv d" "drv_inv (d\<lparr>tick_count := v\<rparr>) = drv_inv d"
  "drv_inv (d\<lparr>tick_sec := v\<rparr>) = drv_inv d" "drv_inv (d\<lparr>tick_min := v\<rparr>) = drv_inv d"
  "drv_inv (d\<lparr>tick_hour := v\<rparr>) = drv_inv d" "drv_inv (d\<lparr>byScanning := v\<rparr>) = drv_inv d"
  "drv_inv (d\<lparr>scan_timer_added := b\<rparr>) = drv_inv d" "drv_inv (d\<lparr>registered := b\<rparr>) = drv_inv d"
  by (simp_all add: drv_inv_def)

lemma drv_inv_lcd: "drv_inv d \<Longrightarrow> sized t \<Longrightarrow> drv_inv (d\<lparr>lcd := t\<rparr>)"
  and drv_inv_kp: "drv_inv d \<Longrightarrow> wf_ring k \<Longrightarrow> drv_inv (d\<lparr>kp := k\<rparr>)"
  and drv_inv_seg: "drv_inv d \<Longrightarrow> seg7_wf s \<Longrightarrow> drv_inv (d\<lparr>seg := s\<rparr>)"
  and drv_inv_ee: "drv_inv d \<Longrightarrow> display_free (ee_io e) \<Longrightarrow> ee_idle (ee_io e) \<Longrightarrow> bit (ee_io e) 15 \<Longrightarrow>
     drv_inv (d\<lparr>ee := e\<rparr>)"
  by (simp_all add: drv_inv_def)


lemma inv_from_user:
  "P d \<Longrightarrow> (\<And>bs. length bs = n \<Longrightarrow> unless_out P (f bs)) \<Longrightarrow> unless_out P (from_user d m arg n f)"
  by (auto simp: from_user_def copy_from_user_Some split: option.splits)

lemma inv_to_user: "unless_out P (to_user d m arg bs) = P d"
  by (simp add: to_user_def case_prod_beta)

lemma inv_with_txt: "drv_inv d \<Longrightarrow> unless_out drv_inv (with_txt d (LCD_puts cs (lcd d)) m rc)"
  using puts_ends [of "lcd d" cs] by (auto simp: with_txt_def drv_inv_lcd drv_inv_def)

lemma drv_inv_sized: "drv_inv d \<Longrightarrow> sized (lcd d)"
  and drv_inv_ring: "drv_inv d \<Longrightarrow> wf_ring (kp d)"
  and drv_inv_seg7: "drv_inv d \<Longrightarrow> seg7_wf (seg d)"
  by (simp_all add: drv_inv_def)

lemma sized_clear: "sized s \<Longrightarrow> sized (LCD_ClearScreen s)"
proof -
  have "sized ((WriteLCD LCD_RAM_DATA 0 ^^ n) t) = sized t" for n t by (induction n) simp_all
  then show "sized s \<Longrightarrow> sized (LCD_ClearScreen s)"
    by (simp add: LCD_ClearScreen_def LCD_ClearViewArea_def Let_def)
qed

lemma sized_EnableCursor: "sized (LCD_EnableCursor b s) = sized s"
  by (simp add: LCD_EnableCursor_def Let_def)

lemma sized_DrawFullImage: "sized s \<Longrightarrow> sized (LCD_DrawFullImage img s)"
  unfolding LCD_DrawFullImage_def by (rule fold_invariant_upto) simp_all

lemma inv_ioctl_lcd: "drv_inv d \<Longrightarrow> unless_out drv_inv (ioctl_lcd cmd arg n d m)"
  unfolding ioctl_lcd_def
  by (auto simp: inv_to_user sized_clear sized_EnableCursor sized_DrawFullImage drv_inv_sized Let_def
      case_prod_beta split: lcd_command.splits
      intro!: inv_from_user inv_with_txt drv_inv_lcd)

lemma inv_ioctl_led: "drv_inv d \<Longrightarrow> unless_out drv_inv (ioctl_led cmd arg n d m)"
  unfolding ioctl_led_def by (auto simp: Let_def case_prod_beta intro!: inv_from_user)

lemma wf_ring_get: "wf_ring s \<Longrightarrow> wf_ring (snd (KEYPAD_get_key s))"
  using KEYPAD_get_key_cons(2) [of s] ring.get_nil [of s] by (cases "ring_keys s") auto

lemma inv_key_to_user: "P d \<Longrightarrow> unless_out P (key_to_user d m arg key)"
  by (simp add: key_to_user_def inv_to_user split: option.splits)

lemma inv_key_get: "drv_inv d \<Longrightarrow> unless_out drv_inv (key_get arg d m)"
  using wf_ring_get [of "kp d"]
  by (auto simp: key_get_def drv_inv_ring split: prod.splits option.splits
      intro!: inv_key_to_user drv_inv_kp)

lemma inv_ioctl_key: "drv_inv d \<Longrightarrow> unless_out drv_inv (ioctl_key cmd arg d m)"
  unfolding ioctl_key_def
  by (auto simp: inv_key_get Reset_KEYPAD_simps drv_inv_ring
      split: lcd_command.splits option.splits intro!: inv_key_to_user drv_inv_kp)

lemma inv_ioctl_seg: "drv_inv d \<Longrightarrow> unless_out drv_inv (ioctl_seg env cmd arg n d m)"
  unfolding ioctl_seg_def
  by (auto simp: Let_def case_prod_beta seg7_cmd_wf drv_inv_seg7 split: lcd_command.splits
      intro!: inv_from_user drv_inv_seg)

lemma inv_ioctl_time: "drv_inv d \<Longrightarrow> unless_out drv_inv (ioctl_time env cmd arg n d m)"
  unfolding ioctl_time_def
  by (auto simp: inv_to_user split: lcd_command.splits intro!: inv_from_user)

lemma ee_idle_issue: "ee_idle (ee_io s) \<Longrightarrow> ee_idle (ee_io (snd (EE_ISSUE_CMD status c s)))"
  using EE_ISSUE_CMD_frame by blast

lemma drv_inv_issue:
  assumes "drv_inv d" "\<And>n. n < 12 \<or> n = 15 \<Longrightarrow> bit (ee_io e) n = bit (ee_io (ee d)) n" "ee_idle (ee_io e)"
  shows "drv_inv (d\<lparr>ee := e\<rparr>)"
  using assms by (auto intro!: drv_inv_ee simp: drv_inv_def display_free_def)

lemma inv_ioctl_eeprom: "drv_inv d \<Longrightarrow> unless_out drv_inv (ioctl_eeprom env cmd arg n d m)"
proof -
  assume d: "drv_inv d"
  then have idle: "ee_idle (ee_io (ee d))" by (simp add: drv_inv_def)
  have w: "drv_inv (d\<lparr>ee := EE_WRITE st a b (ee d)\<rparr>)" for st a b
    by (rule drv_inv_issue [OF d EE_WRITE_other])
      (simp_all add: EE_WRITE_def Let_def ee_idle_issue idle)
  have r: "drv_inv (d\<lparr>ee := snd (EE_READ st a (ee d))\<rparr>)" for st a
    unfolding EE_READ_def by (rule drv_inv_issue [OF d EE_ISSUE_CMD_other]) (simp_all add: ee_idle_issue idle)
  show ?thesis
    unfolding ioctl_eeprom_def
    by (auto simp: d w r inv_to_user Let_def case_prod_beta split: lcd_command.splits intro!: inv_from_user)
qed

lemma inv_ioctl:
  "drv_inv d \<Longrightarrow> unless_out drv_inv (creator_pxa270_lcdtxt_ioctl env command arg d m)"
  unfolding creator_pxa270_lcdtxt_ioctl_def Let_def
  by (simp add: inv_ioctl_lcd inv_ioctl_led inv_ioctl_key inv_ioctl_seg inv_ioctl_time
      inv_ioctl_eeprom inv_to_user split: option.split)

lemma inv_write: "drv_inv d \<Longrightarrow> unless_out drv_inv (creator_pxa270_lcdtxt_write buf count d m)"
  unfolding creator_pxa270_lcdtxt_write_def by (rule inv_with_txt)

lemma drv_inv_clock: "drv_inv (scan_clock d) = drv_inv d"
  by (simp add: scan_clock_def Let_def)

lemma inv_ScanTimer: "drv_inv d \<Longrightarrow> drv_inv (fst (ScanTimer env d))"
  by (simp add: ScanTimer_def Let_def case_prod_beta drv_inv_clock scan_code_wf drv_inv_ring drv_inv_kp)

lemma inv_segment_irq: "drv_inv d \<Longrightarrow> drv_inv (segment_timer_irq d)"
  by (simp add: segment_timer_irq_def case_prod_beta seg7_timer_irq_frame drv_inv_seg7 drv_inv_seg)

section \<open>When a call reads outside a table\<close>

lemma to_user_in [simp]: "to_user d m arg bs \<noteq> OutOfBounds"
  by (simp add: to_user_def case_prod_beta)

lemma with_txt_in [simp]: "with_txt d t m rc \<noteq> OutOfBounds"
  by (simp add: with_txt_def split: option.split)

lemma from_user_out:
  "from_user d m arg n f = OutOfBounds \<longleftrightarrow> (\<exists>bs. copy_from_user m arg n = Some bs \<and> f bs = OutOfBounds)"
  by (simp add: from_user_def split: option.split)

lemma ioctl_parts_in:
  "ioctl_led lc arg n d m \<noteq> OutOfBounds" "ioctl_seg env cmd arg n d m \<noteq> OutOfBounds"
  "ioctl_time env cmd arg n d m \<noteq> OutOfBounds" "ioctl_eeprom env cmd arg n d m \<noteq> OutOfBounds"
  by (auto simp: ioctl_led_def ioctl_seg_def ioctl_time_def ioctl_eeprom_def from_user_out Let_def case_prod_beta
      split: lcd_command.split if_splits)

lemma ioctl_lcd_out: "ioctl_lcd cmd arg n d m = OutOfBounds \<longleftrightarrow>
    cmd = LCD_IOCTL_WRITE \<and> (\<exists>bs. copy_from_user m arg n = Some bs \<and> 512 < unat (u16_at bs 512))"
  by (auto simp: ioctl_lcd_def from_user_out MSG_LEN_def Let_def case_prod_beta split: lcd_command.split if_splits)

text \<open>A code has a character exactly if it is in the table of codes.\<close>

lemma key_ascii_None: "key_ascii (Creator_key2num w) = None \<longleftrightarrow> w \<notin> set key2num_tbl"
proof (cases "w \<in> set key2num_tbl")
  case True
  then obtain i where "i < 16" "w = key2num_tbl ! i" unfolding in_set_conv_nth length_key2num_tbl by metis
  with True key_ascii_code show ?thesis by simp
next
  case False
  then show ?thesis by (simp add: key2num_invalid key_ascii_invalid)
qed

lemma key_to_user_out: "key_to_user d m arg key = OutOfBounds \<longleftrightarrow> key_ascii key = None"
  by (simp add: key_to_user_def split: option.split)

lemma chk_key_get: "KEYPAD_chk_key s = fst (KEYPAD_get_key s)"
  by (simp add: KEYPAD_chk_key_def KEYPAD_get_key_def Let_def)

lemma chk_key_ring: "wf_ring s \<Longrightarrow> KEYPAD_chk_key s =
    (case ring_keys s of [] \<Rightarrow> None | w # ws \<Rightarrow> Some (Creator_key2num w))"
  using KEYPAD_get_key_cons(1) [of s] ring.get_nil [of s] by (auto simp: chk_key_get split: list.split)

lemma key_get_out: "wf_ring (kp d) \<Longrightarrow> key_get arg d m = OutOfBounds \<longleftrightarrow> chord_first d"
  using chk_key_ring [of "kp d"]
  by (auto simp: key_get_def chord_first_def chk_key_get key_to_user_out key_ascii_None
      split: prod.splits option.splits list.splits)

lemma ioctl_key_out: "wf_ring (kp d) \<Longrightarrow> ioctl_key cmd arg d m = OutOfBounds \<longleftrightarrow>
    cmd \<in> {KEY_IOCTL_GET_CHAR, KEY_IOCTL_WAIT_CHAR, KEY_IOCTL_CHECK_EMTPY} \<and> chord_first d"
  by (cases cmd) (auto simp: ioctl_key_def key_get_out key_to_user_out key_ascii_None chk_key_ring chord_first_def
      split: list.split)

lemma write_size: "IOC_SIZE (command_number LCD_IOCTL_WRITE) = sizeof_lcd_write_info"
  by code_simp

lemma ioctl_out:
  assumes "drv_inv d"
  shows "creator_pxa270_lcdtxt_ioctl env command arg d m = OutOfBounds \<longleftrightarrow> reads_outside command arg d m"
proof (cases "command_case command")
  case None
  then have "command \<noteq> command_number cmd" for cmd by auto
  with None show ?thesis
    by (simp add: creator_pxa270_lcdtxt_ioctl_def reads_outside_def image_iff Let_def del: command_number.simps)
next
  case (Some cmd)
  then have c: "command = command_number cmd" by (rule command_case_Some)
  show ?thesis
    using assms write_size unfolding c
    by (auto simp: creator_pxa270_lcdtxt_ioctl_def command_type Let_def ioctl_parts_in ioctl_lcd_out ioctl_key_out
        drv_inv_ring reads_outside_def overlong_message_def command_number_inject image_iff split: option.splits simp del: command_number.simps)
qed

lemma ioctl_comes_back:
  "drv_inv d \<Longrightarrow> result_all drv_inv (creator_pxa270_lcdtxt_ioctl env command arg d m) \<longleftrightarrow> \<not> reads_outside command arg d m"
  by (simp only: result_all_unless_out inv_ioctl ioctl_out simp_thms)

lemma write_comes_back: "drv_inv d \<Longrightarrow> result_all drv_inv (creator_pxa270_lcdtxt_write buf count d m)"
  using inv_write [of d buf count m] by (simp add: result_all_unless_out creator_pxa270_lcdtxt_write_def)

section \<open>Runs of the driver\<close>

text \<open>
  The runs of the driver: loaded by a successful \<open>init\<close>, then file operations, a sleeping reader
  waking up, scan timer ticks and segment interrupts in any order.
\<close>

inductive drv_step :: "lcd_env \<Rightarrow> lcd_drv \<Rightarrow> lcd_drv \<Rightarrow> bool" for env where
  call: "creator_pxa270_lcdtxt_ioctl env command arg d m = Returns rc d' m' \<Longrightarrow> drv_step env d d'"
| sleep: "creator_pxa270_lcdtxt_ioctl env command arg d m = Asleep d' m' \<Longrightarrow> drv_step env d d'"
| wake: "key_get arg d m = Returns rc d' m' \<Longrightarrow> drv_step env d d'"
| put: "creator_pxa270_lcdtxt_write buf count d m = Returns rc d' m' \<Longrightarrow> drv_step env d d'"
| scan: "drv_step env d (fst (ScanTimer env d))"
| segment: "drv_step env d (segment_timer_irq d)"

inductive drv_reach :: "lcd_env \<Rightarrow> lcd_drv \<Rightarrow> bool" for env where
  init: "display_free io \<Longrightarrow> ee_idle io \<Longrightarrow> bit io 15 \<Longrightarrow>
    init_module_drv_lcdtxt env 0 0 (lcd_drv_loaded io) = (0, d) \<Longrightarrow> drv_reach env d"
| step: "drv_reach env d \<Longrightarrow> drv_step env d d' \<Longrightarrow> drv_reach env d'"

inductive_cases drv_stepE: "drv_step env d d'"

lemma drv_inv_step: "drv_step env d d' \<Longrightarrow> drv_inv d \<Longrightarrow> drv_inv d'"
proof (induction rule: drv_step.induct)
  case (call command arg d m rc d' m')
  then show ?case using inv_ioctl [of d env command arg m] by simp
next
  case (sleep command arg d m d' m')
  then show ?case using inv_ioctl [of d env command arg m] by simp
next
  case (wake arg d m rc d' m')
  then show ?case using inv_key_get [of d arg m] by simp
next
  case (put buf count d m rc d' m')
  then show ?case using inv_write [of d buf count m] by simp
qed (simp_all add: inv_ScanTimer inv_segment_irq)

lemma seg7_wf_setup: "length (seven_seg_buf s) = 4 \<Longrightarrow> unat (seven_seg_idx s) < 4 \<Longrightarrow>
    seg7_wf (snd (seg7_timer_operation rq TTIMER_SETUP (Initial_7SEG s)))"
  by (simp add: seg7_timer_operation_def Let_def case_prod_beta seg7_wf_def Initial_7SEG_def)

lemma sized_Initial_LCD: "sized (Initial_LCD s)"
proof -
  have "sized (InitialLCD t)" if "sized t" for t
    unfolding InitialLCD_def Let_def by (rule sized_clear) (simp add: that)
  then show ?thesis
    by (simp add: Initial_LCD_def Let_def sized_EnableCursor LCD_CursorMode_def) (simp add: sized_def)
qed

lemma drv_inv_init:
  assumes "display_free io" "ee_idle io" "bit io 15"
    "init_module_drv_lcdtxt env 0 0 (lcd_drv_loaded io) = (0, d)"
  shows "drv_inv d"
  using assms
  by (auto simp: init_module_drv_lcdtxt_def Let_def lcd_hwsetup_def drv_inv_def sized_EnableCursor
      sized_Initial_LCD lcd_drv_loaded_def Initial_KEYPAD_simps keypad_bss_def seg7_wf_setup seg7_bss_def)

lemma drv_inv_reach: "drv_reach env d \<Longrightarrow> drv_inv d"
  by (induction rule: drv_reach.induct) (auto intro: drv_inv_init drv_inv_step)


end
