(* ===== verification/Apps.thy ===== *)
theory Apps
  imports LcdDriver
begin

text \<open>
  What the user programs of the course have in common: the requests they make of \<open>/dev/lcd\<close>, the
  decimal numbers they print and parse, and 32-bit \<open>int\<close> arithmetic. Plain \<open>char\<close> is unsigned on
  this target.
\<close>

section \<open>Requests\<close>

datatype request =
    KeyClear | LcdClear | LcdWrite "u8 list" | CurOn | CurOff
  | SegSet seg_info | SegOn | SegOff
  | LedSet u16 | LedBitSet u16 | LedBitClear u16

section \<open>Integers and numbers\<close>

definition s32 :: "int \<Rightarrow> int" where "s32 x = signed_take_bit 31 x"

lemma s32_id: "- (2 ^ 31) \<le> x \<Longrightarrow> x < 2 ^ 31 \<Longrightarrow> s32 x = x"
  unfolding s32_def by (rule signed_take_bit_int_eq_self) simp_all

definition digit_char :: "nat \<Rightarrow> u8" where "digit_char d = of_nat (48 + d)"

text \<open>\<open>sprintf("%d")\<close>.\<close>

fun dec_nat :: "nat \<Rightarrow> u8 list" where
  "dec_nat n = (if n < 10 then [digit_char n] else dec_nat (n div 10) @ [digit_char (n mod 10)])"

declare dec_nat.simps [simp del]

definition dec :: "int \<Rightarrow> u8 list" where
  "dec n = (if n < 0 then 0x2d # dec_nat (nat (- n)) else dec_nat (nat n))"

lemma unat_digit_char: "d < 10 \<Longrightarrow> unat (digit_char d) = 48 + d"
  unfolding digit_char_def unat_of_nat by simp

lemma uint_digit_char: "d < 10 \<Longrightarrow> uint (digit_char d) = 48 + int d"
  using unat_digit_char [of d] by (metis of_nat_add of_nat_numeral uint_nat)

lemma dec_nat_not_Nil: "dec_nat n \<noteq> []"
  by (subst dec_nat.simps) simp

definition ascii :: "string \<Rightarrow> u8 list" where "ascii cs = map of_char cs"

text \<open>Reading the digits back in base \<open>b\<close>; base 10 gives the number again.\<close>

definition value_in :: "nat \<Rightarrow> u8 list \<Rightarrow> nat" where
  "value_in b cs = fold (\<lambda>c v. v * b + (unat c - 48)) cs 0"

lemma value_in_snoc: "value_in b (cs @ [c]) = value_in b cs * b + (unat c - 48)"
  by (simp add: value_in_def)

lemma value_dec_nat: "value_in 10 (dec_nat n) = n"
proof (induction n rule: dec_nat.induct)
  case (1 n)
  then show ?case
    by (subst dec_nat.simps) (simp add: value_in_snoc unat_digit_char, simp add: value_in_def unat_digit_char)
qed

lemma dec_nat_digits: "c \<in> set (dec_nat n) \<Longrightarrow> \<exists>d<10. c = digit_char d"
proof (induction n rule: dec_nat.induct)
  case (1 n)
  have "\<exists>d<10. digit_char (n mod 10) = digit_char d" by (rule exI [of _ "n mod 10"]) simp
  with 1 show ?case using dec_nat.simps [of n] by (cases "n < 10") auto
qed

text \<open>Decimal digits read as hexadecimal: digit \<open>j\<close> becomes nibble \<open>j\<close>.\<close>

lemma value_16_digit: "value_in 16 (dec_nat n) div 16 ^ j mod 16 = n div 10 ^ j mod 10"
proof (induction n arbitrary: j rule: dec_nat.induct)
  case (1 n)
  show ?case
  proof (cases "n < 10")
    case True
    then have "value_in 16 (dec_nat n) = n"
      by (subst dec_nat.simps) (simp add: value_in_def unat_digit_char)
    moreover have "n div 16 ^ Suc i = 0" "n div 10 ^ Suc i = 0" for i
      using True by (simp_all add: div_mult2_eq)
    ultimately show ?thesis using True by (cases j) simp_all
  next
    case False
    then have v: "value_in 16 (dec_nat n) = value_in 16 (dec_nat (n div 10)) * 16 + n mod 10"
      by (subst dec_nat.simps) (simp add: value_in_snoc unat_digit_char)
    show ?thesis
    proof (cases j)
      case 0
      then show ?thesis unfolding v by simp
    next
      case (Suc i)
      have "(value_in 16 (dec_nat (n div 10)) * 16 + n mod 10) div 16 ^ Suc i =
          value_in 16 (dec_nat (n div 10)) div 16 ^ i"
        by (simp add: div_mult2_eq)
      then show ?thesis unfolding v Suc using 1 [OF False, of i] by (simp add: div_mult2_eq)
    qed
  qed
qed

lemma length_dec_nat: "n < 10 ^ k \<Longrightarrow> 0 < k \<Longrightarrow> length (dec_nat n) \<le> k"
proof (induction n arbitrary: k rule: dec_nat.induct)
  case (1 n)
  show ?case
  proof (cases "n < 10")
    case True
    then show ?thesis using 1 by (subst dec_nat.simps) simp
  next
    case False
    then obtain i where i: "k = Suc i" "0 < i"
      using 1(2,3) by (cases k; cases "k - 1") auto
    then have "n div 10 < 10 ^ i" using 1(2) by (simp add: less_mult_imp_div_less mult.commute)
    then have "length (dec_nat (n div 10)) \<le> i" using 1(1) [OF False] i(2) by blast
    then show ?thesis using False i by (subst dec_nat.simps) simp
  qed
qed

end
