(* ===== verification/Lab3.thy ===== *)
theory Lab3
  imports Apps "HOL-Library.Signed_Division"
begin

text \<open>
  The keypad calculator of \<open>0851084_eos_lab3/lab3.c\<close>: the keys typed so far, their rewriting into
  number and operator pairs, the evaluation with precedence, and the answer on the text display,
  the seven segments and the lamps.

  The two buffers \<open>c\<close> and \<open>c_new\<close> hold twenty characters; an access past them is undefined and is
  the error \<open>OutOfRange\<close>. \<open>int\<close> arithmetic wraps at 32 bits, and a number is stored in a \<open>char\<close> as
  its value plus 48, modulo 256.
\<close>

section \<open>Keys\<close>

definition change_operator :: "u8 \<Rightarrow> u8" where
  "change_operator keyin =
     (if keyin = 0x41 then 0x2b else if keyin = 0x42 then 0x2d else if keyin = 0x43 then 0x2a
      else if keyin = 0x44 then 0x2f else if keyin = 0x2a then 0x43 else if keyin = 0x23 then 0x3d
      else keyin)"

section \<open>The calculator\<close>

datatype calc_error = OutOfRange | DivideByZero

text \<open>The inner loop: \<open>acc\<close> is \<open>second.num\<close>, \<open>oper\<close> is \<open>second.oper\<close>, \<open>ch\<close> the rest of the array.\<close>

fun mul_loop :: "int \<Rightarrow> u8 \<Rightarrow> u8 list \<Rightarrow> calc_error + (int \<times> u8 \<times> u8 list)" where
  "mul_loop acc oper (c # oper' # ch) =
     (if oper = 0x2a then mul_loop (s32 (acc * (uint c - 48))) oper' ch
      else if oper = 0x2f
      then (if uint c - 48 = 0 then Inl DivideByZero
            else mul_loop (s32 (acc sdiv (uint c - 48))) oper' ch)
      else Inr (acc, oper, c # oper' # ch))"
| "mul_loop acc oper ch = (if oper = 0x2a \<or> oper = 0x2f then Inl OutOfRange else Inr (acc, oper, ch))"

lemma mul_loop_shorter: "mul_loop acc oper ch = Inr (n, oper', ch') \<Longrightarrow> length ch' \<le> length ch"
  by (induction acc oper ch rule: mul_loop.induct) (auto split: if_splits)

text \<open>The outer loop: \<open>first\<close> and \<open>oper\<close> are the two fields of \<open>first\<close>.\<close>

function add_loop :: "int \<Rightarrow> u8 \<Rightarrow> u8 list \<Rightarrow> calc_error + int" where
  "add_loop first oper ch =
     (if oper = 0x3d then Inr first
      else case ch of
        c # oper2 # ch1 \<Rightarrow>
          (case mul_loop (uint c - 48) oper2 ch1 of
             Inl e \<Rightarrow> Inl e
           | Inr (second, oper3, ch2) \<Rightarrow>
               add_loop (if oper = 0x2b then s32 (first + second)
                         else if oper = 0x2d then s32 (first - second) else first) oper3 ch2)
      | _ \<Rightarrow> Inl OutOfRange)"
  by pat_completeness auto

termination add_loop
  by (relation "measure (\<lambda>(f, op, ch). length ch)") (auto dest: mul_loop_shorter)

declare add_loop.simps [simp del]

definition calculator :: "u8 list \<Rightarrow> calc_error + int" where
  "calculator ch = add_loop 0 0x2b ch"

section \<open>Showing the answer\<close>

definition SEG_ALL :: u8 where "SEG_ALL = 8 OR 4 OR 2 OR 1"
definition SEG_D5 :: u8 where "SEG_D5 = 8"
definition SEG_D6 :: u8 where "SEG_D6 = 4"
definition SEG_D7 :: u8 where "SEG_D7 = 2"
definition SEG_D8 :: u8 where "SEG_D8 = 1"

definition seg_hex :: "u8 \<Rightarrow> int \<Rightarrow> request" where
  "seg_hex which v = SegSet \<lparr>Mode = SEG_MODE_HEX_VALUE, Which = which, Value = word_of_int v\<rparr>"

definition seg_pattern :: "u8 \<Rightarrow> int \<Rightarrow> request" where
  "seg_pattern which v = SegSet \<lparr>Mode = SEG_MODE_PATTERN, Which = which, Value = word_of_int v\<rparr>"

text \<open>\<open>strtol\<close> in base 16, which stops at \<open>LONG_MAX\<close>; \<open>hex\<close> has room for nine digits and the zero.\<close>

definition strtol16 :: "u8 list \<Rightarrow> int" where
  "strtol16 cs = min (int (value_in 16 cs)) 0x7fffffff"

definition print_positive :: "int \<Rightarrow> calc_error + request list" where
  "print_positive n =
     (let hex = dec n
      in if 10 < length hex + 1 then Inl OutOfRange else Inr [seg_hex SEG_ALL (strtol16 hex)])"

fun num_digits :: "nat \<Rightarrow> nat" where
  "num_digits n = (if n = 0 then 0 else 1 + num_digits (n div 10))"

declare num_digits.simps [simp del]

definition print_negative :: "int \<Rightarrow> request list" where
  "print_negative n =
     (let a = \<bar>n\<bar>; digits = num_digits (nat a)
      in if digits = 1 then
           [seg_pattern SEG_D5 0, seg_pattern SEG_D6 0, seg_hex SEG_D8 a, seg_pattern SEG_D7 0x40]
         else if digits = 2 then
           [seg_pattern SEG_D5 0, seg_hex SEG_D7 (a div 10), seg_hex SEG_D8 (a mod 10), seg_pattern SEG_D6 0x40]
         else if digits = 3 then
           [seg_hex SEG_D6 (a div 100), seg_hex SEG_D7 (a div 10 mod 10), seg_hex SEG_D8 (a mod 100 mod 10),
            seg_pattern SEG_D5 0x40]
         else [])"

text \<open>The binary number written with decimal digits; the power of ten \<open>i\<close> is an \<open>int\<close> and wraps.\<close>

fun binary_digits :: "nat \<Rightarrow> int \<Rightarrow> int \<Rightarrow> int" where
  "binary_digits n i bin =
     (if n = 0 then bin
      else binary_digits (n div 2) (s32 (i * 10)) (bin + s32 (int (n mod 2) * i)))"

declare binary_digits.simps [simp del]

primrec led_array :: "nat \<Rightarrow> int \<Rightarrow> int list" where
  "led_array 0 bin = []"
| "led_array (Suc k) bin = led_array k (bin sdiv 10) @ [bin smod 10]"

text \<open>\<open>abs(n)\<close> is \<open>\<bar>n\<bar>\<close>; of the least \<open>int\<close>, which has no absolute value in C, it is taken as \<open>2 ^ 31\<close>.\<close>

definition print_led :: "int \<Rightarrow> request list" where
  "print_led n =
     (let arr = led_array 8 (binary_digits (nat \<bar>n\<bar>) 1 0)
      in map (\<lambda>i. if arr ! i = 1 then LedBitSet (of_nat i) else LedBitClear (of_nat i)) [0..<8])"

section \<open>The main loop\<close>

record lab3 =
  c_typed :: "u8 list"
  c_new :: "u8 list"
  index_c :: nat

definition is_oper :: "u8 \<Rightarrow> bool" where
  "is_oper ch \<longleftrightarrow> ch = 0x2b \<or> ch = 0x2d \<or> ch = 0x2a \<or> ch = 0x2f \<or> ch = 0x3d"

text \<open>The rewriting loop, over the \<open>index_c\<close> characters typed.\<close>

fun convert_loop :: "u8 list \<Rightarrow> nat \<Rightarrow> int \<Rightarrow> u8 list \<Rightarrow> u8 list option" where
  "convert_loop [] i_new tmp new = Some new"
| "convert_loop (ch # cs) i_new tmp new =
     (if \<not> is_oper ch then convert_loop cs i_new (s32 (tmp * 10 + (uint ch - 48))) new
      else if i_new + 1 < length new
      then convert_loop cs (i_new + 2) 0 (new[i_new := word_of_int (tmp + 48), i_new + 1 := ch])
      else None)"

text \<open>The requests made before the first key.\<close>

definition lab3_start :: "request list" where
  "lab3_start = [KeyClear, LcdClear, SegSet \<lparr>Mode = 0, Which = SEG_ALL, Value = 0\<rparr>, SegOn, LedSet 0]"

text \<open>One key that \<open>KEY_IOCTL_GET_CHAR\<close> delivered.\<close>

definition lab3_key :: "u8 \<Rightarrow> lab3 \<Rightarrow> calc_error + (lab3 \<times> request list)" where
  "lab3_key key s =
     (if length (c_typed s) \<le> index_c s then Inl OutOfRange
      else
        let ch = change_operator key;
            s1 = s\<lparr>c_typed := (c_typed s)[index_c s := ch], index_c := index_c s + 1\<rparr>;
            echo = [LcdWrite [ch]]
        in if key = 0x23
           then case convert_loop (take (index_c s1) (c_typed s1)) 0 0 (c_new s1) of
                  None \<Rightarrow> Inl OutOfRange
                | Some new \<Rightarrow>
                    (case calculator new of
                       Inl e \<Rightarrow> Inl e
                     | Inr ans \<Rightarrow>
                         (case (if 0 \<le> ans then print_positive ans else Inr (print_negative ans)) of
                            Inl e \<Rightarrow> Inl e
                          | Inr segs \<Rightarrow>
                              Inr (s1\<lparr>c_new := new\<rparr>, echo @ [LcdWrite (dec ans)] @ segs @ print_led ans)))
           else if key = 0x2a
           then Inr (s1\<lparr>index_c := 0\<rparr>, echo @ [seg_hex SEG_ALL 0, LcdClear, LedSet 0])
           else Inr (s1, echo))"

fun lab3_keys :: "u8 list \<Rightarrow> lab3 \<Rightarrow> calc_error + (lab3 \<times> request list)" where
  "lab3_keys [] s = Inr (s, [])"
| "lab3_keys (k # ks) s =
     (case lab3_key k s of
        Inl e \<Rightarrow> Inl e
      | Inr (s1, out1) \<Rightarrow>
          (case lab3_keys ks s1 of Inl e \<Rightarrow> Inl e | Inr (s2, out2) \<Rightarrow> Inr (s2, out1 @ out2)))"

section \<open>The calculator against an evaluator with precedence\<close>

text \<open>
  An expression is a sum of terms, a term a product of numbers: in both, the first element and then
  pairs of an operator, true for \<open>+\<close> and \<open>*\<close>, and an element.
\<close>

type_synonym calc_term = "nat \<times> (bool \<times> nat) list"
type_synonym calc_expr = "calc_term \<times> (bool \<times> calc_term) list"

fun eval_factors :: "int \<Rightarrow> (bool \<times> nat) list \<Rightarrow> int option" where
  "eval_factors acc [] = Some acc"
| "eval_factors acc ((True, n) # fs) = eval_factors (s32 (acc * int n)) fs"
| "eval_factors acc ((False, n) # fs) = (if n = 0 then None else eval_factors (s32 (acc sdiv int n)) fs)"

definition eval_term :: "calc_term \<Rightarrow> int option" where
  "eval_term t = eval_factors (int (fst t)) (snd t)"

fun eval_terms :: "int \<Rightarrow> (bool \<times> calc_term) list \<Rightarrow> int option" where
  "eval_terms acc [] = Some acc"
| "eval_terms acc ((pos, t) # ts) =
     (case eval_term t of None \<Rightarrow> None
      | Some v \<Rightarrow> eval_terms (if pos then s32 (acc + v) else s32 (acc - v)) ts)"

definition eval_expr :: "calc_expr \<Rightarrow> int option" where
  "eval_expr e = eval_terms 0 ((True, fst e) # snd e)"

text \<open>The numbers of an expression, each with the operator that follows it; the last is \<open>=\<close>.\<close>

fun pairs_term :: "nat \<Rightarrow> (bool \<times> nat) list \<Rightarrow> u8 \<Rightarrow> (nat \<times> u8) list" where
  "pairs_term n [] oper = [(n, oper)]"
| "pairs_term n ((mul, k) # fs) oper = (n, if mul then 0x2a else 0x2f) # pairs_term k fs oper"

fun pairs_terms :: "calc_term \<Rightarrow> (bool \<times> calc_term) list \<Rightarrow> (nat \<times> u8) list" where
  "pairs_terms t [] = pairs_term (fst t) (snd t) 0x3d"
| "pairs_terms t ((pos, t') # ts) =
     pairs_term (fst t) (snd t) (if pos then 0x2b else 0x2d) @ pairs_terms t' ts"

definition pairs_of :: "calc_expr \<Rightarrow> (nat \<times> u8) list" where
  "pairs_of e = pairs_terms (fst e) (snd e)"

text \<open>As \<open>c_new\<close> holds them: a number in one \<open>char\<close>, which holds it up to 207.\<close>

definition packed :: "(nat \<times> u8) list \<Rightarrow> u8 list" where
  "packed ps = concat (map (\<lambda>(n, oper). [of_nat (n + 48), oper]) ps)"

definition numbers_fit :: "(nat \<times> u8) list \<Rightarrow> bool" where
  "numbers_fit ps \<longleftrightarrow> (\<forall>(n, oper) \<in> set ps. n \<le> 207)"

lemma packed_simps [simp]:
  "packed [] = []" "packed ((n, oper) # ps) = of_nat (n + 48) # oper # packed ps"
  "packed (ps @ qs) = packed ps @ packed qs"
  by (simp_all add: packed_def)

lemma numbers_fit_simps [simp]:
  "numbers_fit []" "numbers_fit ((n, oper) # ps) \<longleftrightarrow> n \<le> 207 \<and> numbers_fit ps"
  "numbers_fit (ps @ qs) \<longleftrightarrow> numbers_fit ps \<and> numbers_fit qs"
  by (auto simp: numbers_fit_def)

lemma uint_packed: "n \<le> 207 \<Longrightarrow> uint (of_nat (n + 48) :: u8) - 48 = int n"
proof -
  assume "n \<le> 207"
  then have "unat (of_nat (n + 48) :: u8) = n + 48" unfolding unat_of_nat by simp
  then show ?thesis by (metis add_diff_cancel_right' of_nat_add of_nat_numeral uint_nat)
qed

definition as_result :: "'a option \<Rightarrow> calc_error + 'a" where
  "as_result r = (case r of None \<Rightarrow> Inl DivideByZero | Some v \<Rightarrow> Inr v)"

text \<open>
  The inner loop is entered after the first number and its operator have been read, and leaves with
  the operator after the last factor.
\<close>

lemma mul_loop_term:
  assumes "numbers_fit (pairs_term n fs oper)" "oper \<noteq> 0x2a" "oper \<noteq> 0x2f"
  shows "\<exists>op1 ch1. packed (pairs_term n fs oper) @ r = of_nat (n + 48) # op1 # ch1 \<and>
    mul_loop acc op1 ch1 = as_result (map_option (\<lambda>v. (v, oper, r)) (eval_factors acc fs))"
  using assms(1)
proof (induction fs arbitrary: n acc)
  case Nil
  have "mul_loop acc oper r = Inr (acc, oper, r)"
    using assms(2,3) by (cases "(acc, oper, r)" rule: mul_loop.cases) auto
  then show ?case by (simp add: as_result_def)
next
  case (Cons f fs)
  obtain mul k where f: "f = (mul, k)" by (cases f)
  have "k \<le> 207" using Cons.prems f by (cases fs) auto
  then have k: "uint (of_nat (k + 48) :: u8) - 48 = int k" by (rule uint_packed)
  let ?acc = "if mul then s32 (acc * int k) else s32 (acc sdiv int k)"
  obtain op1 ch1 where IH: "packed (pairs_term k fs oper) @ r = of_nat (k + 48) # op1 # ch1"
    "mul_loop ?acc op1 ch1 = as_result (map_option (\<lambda>v. (v, oper, r)) (eval_factors ?acc fs))"
    using Cons.IH [of k ?acc] Cons.prems f by auto
  have "mul_loop acc (if mul then 0x2a else 0x2f) (of_nat (k + 48) # op1 # ch1) =
      as_result (map_option (\<lambda>v. (v, oper, r)) (eval_factors acc (f # fs)))"
    using IH(2) f k by (cases mul) (auto simp: as_result_def)
  then show ?case using IH(1) f
    by (intro exI [of _ "if mul then 0x2a else 0x2f"] exI [of _ "of_nat (k + 48) # op1 # ch1"]) simp
qed

lemma add_loop_term:
  assumes "numbers_fit (pairs_term n fs oper2)" "oper2 \<noteq> 0x2a" "oper2 \<noteq> 0x2f" "oper \<noteq> 0x3d"
  shows "add_loop first oper (packed (pairs_term n fs oper2) @ r) =
    (case eval_factors (int n) fs of None \<Rightarrow> Inl DivideByZero
     | Some v \<Rightarrow> add_loop (if oper = 0x2b then s32 (first + v) else if oper = 0x2d then s32 (first - v)
                           else first) oper2 r)"
proof -
  have "n \<le> 207" using assms(1) by (cases fs) auto
  then have n: "uint (of_nat (n + 48) :: u8) - 48 = int n" by (rule uint_packed)
  obtain op1 ch1 where m: "packed (pairs_term n fs oper2) @ r = of_nat (n + 48) # op1 # ch1"
    "mul_loop (int n) op1 ch1 = as_result (map_option (\<lambda>v. (v, oper2, r)) (eval_factors (int n) fs))"
    using mul_loop_term [OF assms(1-3)] by blast
  show ?thesis unfolding m(1)
    using assms(4) m(2) n
    by (subst add_loop.simps) (simp add: as_result_def split: option.splits)
qed

lemma add_loop_terms:
  "numbers_fit (pairs_terms t ts) \<Longrightarrow>
   add_loop first (if pos then 0x2b else 0x2d) (packed (pairs_terms t ts) @ r) =
     as_result (eval_terms first ((pos, t) # ts))"
proof (induction ts arbitrary: t first pos)
  case Nil
  then show ?case
    by (cases pos)
      (simp_all add: add_loop_term eval_term_def as_result_def add_loop.simps [of _ "0x3d"] split: option.splits)
next
  case (Cons p ts)
  obtain pos' t' where p: "p = (pos', t')" by (cases p)
  have fit: "numbers_fit (pairs_term (fst t) (snd t) (if pos' then 0x2b else 0x2d))"
    "numbers_fit (pairs_terms t' ts)" using Cons.prems p by auto
  have step: "add_loop first (if pos then 0x2b else 0x2d)
      (packed (pairs_term (fst t) (snd t) (if pos' then 0x2b else 0x2d)) @ packed (pairs_terms t' ts) @ r) =
    (case eval_term t of None \<Rightarrow> Inl DivideByZero
     | Some v \<Rightarrow> add_loop (if pos then s32 (first + v) else s32 (first - v))
         (if pos' then 0x2b else 0x2d) (packed (pairs_terms t' ts) @ r))"
    by (subst add_loop_term [OF fit(1)]) (auto simp: eval_term_def split: option.split)
  have whole: "packed (pairs_terms t (p # ts)) @ r =
      packed (pairs_term (fst t) (snd t) (if pos' then 0x2b else 0x2d)) @ packed (pairs_terms t' ts) @ r"
    using p by simp
  show ?case
  proof (cases "eval_term t")
    case None
    then show ?thesis unfolding whole step using p by (simp add: as_result_def)
  next
    case (Some v)
    let ?first = "if pos then s32 (first + v) else s32 (first - v)"
    have "eval_terms first ((pos, t) # p # ts) = eval_terms ?first ((pos', t') # ts)"
      using Some unfolding p eval_terms.simps(2) [of first] by simp
    then show ?thesis unfolding whole step using Some Cons.IH [OF fit(2), of ?first pos'] by simp
  qed
qed

lemma calculator_eval:
  assumes "numbers_fit (pairs_of e)"
  shows "calculator (packed (pairs_of e) @ r) = as_result (eval_expr e)"
  using add_loop_terms [of "fst e" "snd e" 0 True r] assms
  by (simp add: calculator_def pairs_of_def eval_expr_def)

section \<open>Typing an expression\<close>

text \<open>The characters of an expression as they are typed and echoed.\<close>

definition typed :: "(nat \<times> u8) list \<Rightarrow> u8 list" where
  "typed ps = concat (map (\<lambda>(n, oper). dec_nat n @ [oper]) ps)"

definition operators_ok :: "(nat \<times> u8) list \<Rightarrow> bool" where
  "operators_ok ps \<longleftrightarrow> (\<forall>(n, oper) \<in> set ps. is_oper oper)"

lemma digit_not_oper: "d < 10 \<Longrightarrow> \<not> is_oper (digit_char d)"
proof -
  have "\<forall>d<10. \<not> is_oper (digit_char d)" by code_simp
  then show "d < 10 \<Longrightarrow> \<not> is_oper (digit_char d)" by blast
qed

lemma s32_small: "0 \<le> x \<Longrightarrow> x < 2 ^ 31 \<Longrightarrow> s32 x = x"
  by (rule s32_id) auto

lemma convert_number:
  "n < 2 ^ 31 \<Longrightarrow> convert_loop (dec_nat n @ cs) i 0 new = convert_loop cs i (int n) new"
proof (induction n arbitrary: cs rule: dec_nat.induct)
  case (1 n)
  show ?case
  proof (cases "n < 10")
    case True
    then show ?thesis
      by (subst dec_nat.simps) (simp add: digit_not_oper uint_digit_char s32_small)
  next
    case False
    have "int (n div 10) * 10 + int (n mod 10) = int n"
      by (metis div_mult_mod_eq of_nat_add of_nat_mult of_nat_numeral)
    moreover have "int n < 2 ^ 31" using 1(2) by (simp add: of_nat_less_iff [symmetric])
    moreover have "n div 10 < 2 ^ 31" using 1(2) by (rule le_less_trans [OF div_le_dividend])
    ultimately show ?thesis
      using False 1(1) by (subst dec_nat.simps) (simp add: digit_not_oper uint_digit_char s32_small)
  qed
qed

lemma convert_pairs:
  assumes "numbers_fit ps" "operators_ok ps" "i + 2 * length ps \<le> length new"
  shows "convert_loop (typed ps) i 0 new = Some (take i new @ packed ps @ drop (i + 2 * length ps) new)"
  using assms
proof (induction ps arbitrary: i new)
  case Nil
  then show ?case by (simp add: typed_def)
next
  case (Cons p ps)
  obtain n oper where p: "p = (n, oper)" by (cases p)
  let ?new = "new[i := of_nat (n + 48), i + 1 := oper]"
  have "convert_loop (typed (p # ps)) i 0 new = convert_loop (typed ps) (i + 2) 0 ?new"
    using Cons.prems p
    by (simp add: typed_def convert_number operators_ok_def)
  also have "\<dots> = Some (take (i + 2) ?new @ packed ps @ drop (i + 2 + 2 * length ps) ?new)"
    using Cons.prems by (intro Cons.IH) (auto simp: operators_ok_def p)
  also have "take (i + 2) ?new = take i new @ [of_nat (n + 48), oper]"
    using Cons.prems
    by (simp add: take_Suc_conv_app_nth numeral_2_eq_2 take_update_swap list_update_append)
  finally show ?case using p by (simp add: numeral_2_eq_2)
qed

lemma pairs_term_ops: "operators_ok (pairs_term n fs oper) \<longleftrightarrow> is_oper oper"
  by (induction n fs oper rule: pairs_term.induct) (auto simp: operators_ok_def is_oper_def)

lemma pairs_of_ops: "operators_ok (pairs_of e)"
proof -
  have app: "operators_ok (ps @ qs) \<longleftrightarrow> operators_ok ps \<and> operators_ok qs" for ps qs
    by (auto simp: operators_ok_def)
  have "operators_ok (pairs_terms t ts)" for t ts
    by (induction t ts rule: pairs_terms.induct) (auto simp: app pairs_term_ops is_oper_def)
  then show ?thesis by (simp add: pairs_of_def)
qed


section \<open>The lamps\<close>

text \<open>The number whose decimal digits are the binary digits of \<open>n\<close>.\<close>

fun bin_as_dec :: "nat \<Rightarrow> nat" where
  "bin_as_dec n = (if n = 0 then 0 else n mod 2 + 10 * bin_as_dec (n div 2))"

declare bin_as_dec.simps [simp del]

lemma bin_as_dec_digit: "bin_as_dec n div 10 ^ j mod 10 = n div 2 ^ j mod 2"
proof (induction n arbitrary: j rule: bin_as_dec.induct)
  case (1 n)
  show ?case
  proof (cases "n = 0")
    case True
    then show ?thesis by (subst bin_as_dec.simps) simp
  next
    case False
    then have b: "bin_as_dec n = n mod 2 + 10 * bin_as_dec (n div 2)" by (subst bin_as_dec.simps) simp
    have lt: "n mod 2 < 10" by (rule less_trans [of _ 2]) simp_all
    show ?thesis
    proof (cases j)
      case 0
      then show ?thesis unfolding b using lt by (simp add: mod_add_eq [symmetric])
    next
      case (Suc i)
      have "(n mod 2 + 10 * bin_as_dec (n div 2)) div 10 = bin_as_dec (n div 2)"
        using lt by simp
      then have "bin_as_dec n div 10 ^ j = bin_as_dec (n div 2) div 10 ^ i"
        unfolding b Suc by (simp add: div_mult2_eq)
      then show ?thesis using 1 [OF False, of i] Suc by (simp add: div_mult2_eq)
    qed
  qed
qed

text \<open>Below 1024 the power of ten that is used stays within \<open>int\<close>.\<close>

lemma s32_power: "j \<le> 9 \<Longrightarrow> s32 (10 ^ j) = 10 ^ j"
proof -
  have "\<forall>j\<le>9. (10 :: int) ^ j < 2 ^ 31" by (simp add: le_Suc_eq numeral_eq_Suc)
  moreover have "- (2 ^ 31) \<le> (10 :: int) ^ j"
    by (rule order_trans [of _ 0]) simp_all
  ultimately show "j \<le> 9 \<Longrightarrow> s32 (10 ^ j) = 10 ^ j" by (intro s32_id) auto
qed

lemma binary_digits_value:
  "n < 2 ^ k \<Longrightarrow> j + k \<le> 10 \<Longrightarrow> binary_digits n (10 ^ j) b = b + 10 ^ j * int (bin_as_dec n)"
proof (induction k arbitrary: n j b)
  case 0
  then show ?case by (subst binary_digits.simps, subst bin_as_dec.simps) simp
next
  case (Suc k)
  show ?case
  proof (cases "n = 0")
    case True
    then show ?thesis by (subst binary_digits.simps, subst bin_as_dec.simps) simp
  next
    case False
    have j: "j \<le> 9" using Suc.prems by simp
    have r: "s32 (int (n mod 2) * 10 ^ j) = int (n mod 2) * 10 ^ j"
      using s32_power [OF j] by (cases "n mod 2 = 0") (auto simp: s32_def mod2_eq_if)
    have step: "binary_digits n (10 ^ j) b = binary_digits (n div 2) (s32 (10 ^ j * 10)) (b + int (n mod 2) * 10 ^ j)"
      using False by (subst binary_digits.simps) (simp add: r)
    have val: "int (bin_as_dec n) = int (n mod 2) + 10 * int (bin_as_dec (n div 2))"
      using False by (subst bin_as_dec.simps) simp
    show ?thesis
    proof (cases "n div 2 = 0")
      case True
      then have "bin_as_dec (n div 2) = 0" by (subst bin_as_dec.simps) simp
      then show ?thesis unfolding step val using True by (subst binary_digits.simps) simp
    next
      case F: False
      then have "0 < k" using Suc.prems by (cases k) auto
      then have "s32 (10 ^ j * 10) = 10 ^ Suc j" using Suc.prems s32_power [of "Suc j"] by (simp add: mult.commute)
      then show ?thesis unfolding step val
        using Suc.IH [of "n div 2" "Suc j"] Suc.prems by (simp add: algebra_simps)
    qed
  qed
qed

lemma led_array_length [simp]: "length (led_array k b) = k"
  by (induction k arbitrary: b) auto

lemma led_array_nth: "i < k \<Longrightarrow> led_array k (int m) ! (k - 1 - i) = int (m div 10 ^ i mod 10)"
proof (induction k arbitrary: m i)
  case 0
  then show ?case by simp
next
  case (Suc k)
  have d: "int m sdiv 10 = int (m div 10)" "int m smod 10 = int (m mod 10)"
    by (simp_all add: signed_divide_int_def signed_modulo_int_def zdiv_int zmod_int sgn_if)
  show ?case
  proof (cases i)
    case 0
    then show ?thesis by (simp add: d nth_append)
  next
    case (Suc h)
    then have "k - Suc h < k" "h < k" using Suc.prems by auto
    then show ?thesis using Suc.IH [of h "m div 10"] Suc by (simp add: d nth_append div_mult2_eq)
  qed
qed

lemma print_led_requests:
  assumes "\<bar>n\<bar> < 1024"
  shows "print_led n = map (\<lambda>i. if bit (nat \<bar>n\<bar>) (7 - i) then LedBitSet (of_nat i) else LedBitClear (of_nat i)) [0..<8]"
proof -
  let ?m = "bin_as_dec (nat \<bar>n\<bar>)"
  have "nat \<bar>n\<bar> < 2 ^ 10" using assms by simp
  then have b: "binary_digits (nat \<bar>n\<bar>) 1 0 = int ?m"
    using binary_digits_value [of "nat \<bar>n\<bar>" 10 0 0] by simp
  have "led_array 8 (int ?m) ! i = 1 \<longleftrightarrow> bit (nat \<bar>n\<bar>) (7 - i)" if "i < 8" for i
  proof -
    have "led_array 8 (int ?m) ! (8 - 1 - (7 - i)) = int (?m div 10 ^ (7 - i) mod 10)"
      by (rule led_array_nth) simp
    moreover have "8 - 1 - (7 - i) = i" using that by simp
    ultimately have "led_array 8 (int ?m) ! i = int (nat \<bar>n\<bar> div 2 ^ (7 - i) mod 2)"
      by (simp only: bin_as_dec_digit)
    then show ?thesis by (simp add: bit_iff_odd odd_iff_mod_2_eq_one)
  qed
  then show ?thesis unfolding print_led_def b Let_def by auto
qed

section \<open>The segments\<close>

lemma value_16_bound: "n < 10 ^ k \<Longrightarrow> value_in 16 (dec_nat n) < 16 ^ k"
proof (induction n arbitrary: k rule: dec_nat.induct)
  case (1 n)
  show ?case
  proof (cases "n < 10")
    case True
    then have "value_in 16 (dec_nat n) = n"
      by (subst dec_nat.simps) (simp add: value_in_def unat_digit_char)
    moreover have "n < 16 ^ k" using 1(2) power_mono [of 10 "16 :: nat" k] by linarith
    ultimately show ?thesis by simp
  next
    case False
    then obtain i where i: "k = Suc i" using 1(2) by (cases k) auto
    then have "n div 10 < 10 ^ i" using 1(2) by (simp add: less_mult_imp_div_less mult.commute)
    then have "value_in 16 (dec_nat (n div 10)) < 16 ^ i" using 1(1) [OF False] by blast
    moreover have "value_in 16 (dec_nat n) = value_in 16 (dec_nat (n div 10)) * 16 + n mod 10"
      using False by (subst dec_nat.simps) (simp add: value_in_snoc unat_digit_char)
    moreover have "n mod 10 < 16" by (rule less_trans [of _ 10]) simp_all
    ultimately show ?thesis unfolding i by simp
  qed
qed

lemma print_positive_request:
  assumes "0 \<le> n" "n < 10 ^ 7"
  shows "print_positive n = Inr [seg_hex SEG_ALL (int (value_in 16 (dec_nat (nat n))))]"
proof -
  have n: "nat n < 10 ^ 7" using assms by simp
  have "length (dec_nat (nat n)) \<le> 7" using length_dec_nat [OF n] by simp
  moreover have "value_in 16 (dec_nat (nat n)) < 2 ^ 28" using value_16_bound [OF n] by simp
  ultimately show ?thesis using assms by (simp add: print_positive_def dec_def strtol16_def Let_def)
qed

lemma SEG_ALL_15: "SEG_ALL = 0xf"
  by (simp add: SEG_ALL_def)


section \<open>From the keys to the answer\<close>

text \<open>The key whose character \<open>change_operator\<close> makes of it.\<close>

definition key_for :: "u8 \<Rightarrow> u8" where
  "key_for ch =
     (if ch = 0x2b then 0x41 else if ch = 0x2d then 0x42 else if ch = 0x2a then 0x43
      else if ch = 0x2f then 0x44 else if ch = 0x3d then 0x23 else ch)"

definition key_char :: "u8 \<Rightarrow> bool" where
  "key_char ch \<longleftrightarrow> (\<exists>d<10. ch = digit_char d) \<or> ch \<in> {0x2b, 0x2d, 0x2a, 0x2f}"

lemma key_char_facts:
  assumes "key_char ch"
  shows "change_operator (key_for ch) = ch" "key_for ch \<noteq> 0x23" "key_for ch \<noteq> 0x2a"
proof -
  have "\<forall>d<10. change_operator (key_for (digit_char d)) = digit_char d \<and>
      key_for (digit_char d) \<noteq> 0x23 \<and> key_for (digit_char d) \<noteq> 0x2a" by code_simp
  then show "change_operator (key_for ch) = ch" "key_for ch \<noteq> 0x23" "key_for ch \<noteq> 0x2a"
    using assms by (auto simp: key_char_def) (auto simp: key_for_def change_operator_def)
qed

lemma lab3_typing:
  assumes "\<forall>ch \<in> set cs. key_char ch" "index_c s + length cs \<le> length (c_typed s)"
  shows "\<exists>s'. lab3_keys (map key_for cs) s = Inr (s', map (\<lambda>ch. LcdWrite [ch]) cs) \<and>
    index_c s' = index_c s + length cs \<and> c_new s' = c_new s \<and> length (c_typed s') = length (c_typed s) \<and>
    take (index_c s') (c_typed s') = take (index_c s) (c_typed s) @ cs"
  using assms
proof (induction cs arbitrary: s)
  case Nil
  then show ?case by simp
next
  case (Cons ch cs)
  let ?s1 = "s\<lparr>c_typed := (c_typed s)[index_c s := ch], index_c := index_c s + 1\<rparr>"
  have k: "lab3_key (key_for ch) s = Inr (?s1, [LcdWrite [ch]])"
    using Cons.prems key_char_facts [of ch] by (simp add: lab3_key_def Let_def)
  have "take (index_c s + 1) (c_typed ?s1) = take (index_c s) (c_typed s) @ [ch]"
    using Cons.prems by (simp add: take_Suc_conv_app_nth)
  with Cons.IH [of ?s1] Cons.prems show ?case by (auto simp: k)
qed

lemma lab3_keys_append:
  "lab3_keys (ks @ ls) s = (case lab3_keys ks s of Inl e \<Rightarrow> Inl e
     | Inr (s1, out1) \<Rightarrow> (case lab3_keys ls s1 of Inl e \<Rightarrow> Inl e | Inr (s2, out2) \<Rightarrow> Inr (s2, out1 @ out2)))"
  by (induction ks arbitrary: s) (auto split: sum.splits prod.splits)

text \<open>An expression is keys for numbers and the four operators, and one final \<open>=\<close>.\<close>

definition inner_ops :: "(nat \<times> u8) list \<Rightarrow> bool" where
  "inner_ops ps \<longleftrightarrow> (\<forall>(n, oper) \<in> set ps. oper \<in> {0x2b, 0x2d, 0x2a, 0x2f})"

lemma pairs_term_split:
  "\<exists>ps m. pairs_term n fs oper = ps @ [(m, oper)] \<and> inner_ops ps"
proof (induction n fs oper rule: pairs_term.induct)
  case (1 n oper)
  show ?case by (rule exI [of _ "[]"]) (simp add: inner_ops_def)
next
  case (2 n mul k fs oper)
  then obtain ps m where "pairs_term k fs oper = ps @ [(m, oper)]" "inner_ops ps" by blast
  then show ?case
    by (intro exI [of _ "(n, if mul then 0x2a else 0x2f) # ps"] exI [of _ m]) (simp add: inner_ops_def)
qed

lemma pairs_terms_split:
  "\<exists>ps m. pairs_terms t ts = ps @ [(m, 0x3d)] \<and> inner_ops ps"
proof (induction t ts rule: pairs_terms.induct)
  case (1 t)
  show ?case using pairs_term_split by simp
next
  case (2 t pos t' ts)
  then obtain qs m where q: "pairs_terms t' ts = qs @ [(m, 0x3d)]" "inner_ops qs" by blast
  obtain ps k where p: "pairs_term (fst t) (snd t) (if pos then 0x2b else 0x2d) =
      ps @ [(k, if pos then 0x2b else 0x2d)]" "inner_ops ps"
    using pairs_term_split by blast
  show ?case
    using p q
    by (intro exI [of _ "ps @ [(k, if pos then 0x2b else 0x2d)] @ qs"] exI [of _ m])
      (auto simp: inner_ops_def)
qed

lemma typed_inner: "inner_ops ps \<Longrightarrow> ch \<in> set (typed ps) \<Longrightarrow> key_char ch"
proof (induction ps)
  case Nil
  then show ?case by (simp add: typed_def)
next
  case (Cons p ps)
  then show ?case
    by (cases p) (auto simp: typed_def inner_ops_def key_char_def dest: dec_nat_digits)
qed

lemma typed_append [simp]: "typed (ps @ qs) = typed ps @ typed qs"
  by (simp add: typed_def)

lemma typed_length: "2 * length ps \<le> length (typed ps)"
proof (induction ps)
  case (Cons p ps)
  obtain n oper where "p = (n, oper)" by (cases p)
  moreover have "1 \<le> length (dec_nat n)" using dec_nat_not_Nil [of n] by (simp add: Suc_le_eq)
  ultimately show ?case using Cons by (simp add: typed_def)
qed (simp add: typed_def)

definition lab3_room :: "lab3 \<Rightarrow> bool" where
  "lab3_room s \<longleftrightarrow> length (c_typed s) = 20 \<and> length (c_new s) = 20 \<and> index_c s = 0"

lemma lab3_answer:
  assumes "lab3_room s" "numbers_fit (pairs_of e)" "length (typed (pairs_of e)) \<le> 20"
    "eval_expr e = Some v" "0 \<le> v" "v < 10 ^ 7"
  shows "\<exists>s'. lab3_keys (map key_for (typed (pairs_of e))) s = Inr (s',
    map (\<lambda>ch. LcdWrite [ch]) (typed (pairs_of e)) @
    [LcdWrite (dec v), seg_hex SEG_ALL (int (value_in 16 (dec_nat (nat v))))] @ print_led v)"
proof -
  obtain ps m where ps: "pairs_of e = ps @ [(m, 0x3d)]" "inner_ops ps"
    using pairs_terms_split unfolding pairs_of_def by blast
  define body where "body = typed ps @ dec_nat m"
  have ty: "typed (pairs_of e) = body @ [0x3d]" by (simp add: ps(1) body_def typed_def)
  have body: "\<forall>ch \<in> set body. key_char ch"
    using typed_inner [OF ps(2)] dec_nat_digits by (auto simp: body_def key_char_def)
  have len: "length body + 1 \<le> 20" using assms(3) by (simp add: ty)
  obtain s1 where s1: "lab3_keys (map key_for body) s = Inr (s1, map (\<lambda>ch. LcdWrite [ch]) body)"
    "index_c s1 = length body" "c_new s1 = c_new s" "length (c_typed s1) = 20"
    "take (index_c s1) (c_typed s1) = body"
    using lab3_typing [OF body, of s] assms(1) len by (auto simp: lab3_room_def)
  let ?c = "(c_typed s1)[length body := 0x3d]"
  have "take (length body + 1) ?c = body @ [0x3d]"
    using s1 len by (simp add: take_Suc_conv_app_nth)
  then have c: "take (length body + 1) ?c = typed (pairs_of e)" by (simp add: ty)
  have room: "2 * length (pairs_of e) \<le> 20" using typed_length [of "pairs_of e"] assms(3) by linarith
  have conv: "convert_loop (typed (pairs_of e)) 0 0 (c_new s) =
      Some (packed (pairs_of e) @ drop (2 * length (pairs_of e)) (c_new s))"
    using convert_pairs [OF assms(2) pairs_of_ops, of 0 "c_new s"] room assms(1) by (simp add: lab3_room_def)
  have calc: "calculator (packed (pairs_of e) @ drop (2 * length (pairs_of e)) (c_new s)) = Inr v"
    by (simp add: calculator_eval [OF assms(2)] assms(4) as_result_def)
  have "\<exists>s'. lab3_key 0x23 s1 = Inr (s', [LcdWrite [0x3d], LcdWrite (dec v),
      seg_hex SEG_ALL (int (value_in 16 (dec_nat (nat v))))] @ print_led v)"
    using s1 len c conv calc assms(5) print_positive_request [OF assms(5,6)]
    by (simp add: lab3_key_def Let_def change_operator_def)
  then show ?thesis
    using s1(1) unfolding ty by (auto simp: lab3_keys_append key_for_def)
qed

section \<open>Properties\<close>

text \<open>
  C7: the calculator is an evaluator with precedence: on the number and operator pairs of an
  expression whose numbers fit a character, whatever follows them in the array, it stops at the
  equals sign with the value of the expression in 32-bit arithmetic, products and truncating
  quotients before sums; a division by zero is the only error.
\<close>

theorem calculator_evaluates:
  assumes "numbers_fit (pairs_of e)"
  shows "calculator (packed (pairs_of e) @ r) =
    (case eval_expr e of None \<Rightarrow> Inl DivideByZero | Some v \<Rightarrow> Inr v)"
  using calculator_eval [OF assms] by (simp add: as_result_def)

theorem calculator_evaluates_witness:
  "calculator (packed (pairs_of ((2, []), [(True, (3, [(True, 4)])), (False, (9, [(False, 2)]))])) @ [0, 0]) = Inr 10"
  using calculator_evaluates [of "((2, []), [(True, (3, [(True, 4)])), (False, (9, [(False, 2)]))])" "[0, 0]"]
  by (simp add: pairs_of_def numbers_fit_def eval_expr_def eval_term_def s32_def signed_divide_int_def
      signed_take_bit_int_eq_self)

text \<open>
  A number typed is kept in one \<open>char\<close>, so from 208 on the calculator works with another: the keys
  of \<open>n\<close> and the equals sign give \<open>(n + 48) mod 256 - 48\<close>.
\<close>

theorem typed_number_wraps:
  assumes "n < 2 ^ 31" "2 \<le> length new"
  shows "\<exists>new'. convert_loop (dec_nat n @ [0x3d]) 0 0 new = Some new' \<and>
    calculator new' = Inr (s32 ((int n + 48) mod 256 - 48))"
proof -
  obtain a b rest where new: "new = a # b # rest"
    using assms(2) by (metis Suc_le_length_iff numeral_2_eq_2)
  have c: "convert_loop (dec_nat n @ [0x3d]) 0 0 new = Some (word_of_int (int n + 48) # 0x3d # rest)"
    by (simp add: convert_number [OF assms(1)] is_oper_def new)
  have u: "uint (word_of_int (int n + 48) :: u8) = (int n + 48) mod 256"
    by (simp only: uint_word_of_int) simp
  have "mul_loop x 0x3d rest = Inr (x, 0x3d, rest)" for x
    by (cases "(x, 0x3d :: u8, rest)" rule: mul_loop.cases) auto
  then have "calculator (word_of_int (int n + 48) # 0x3d # rest) = Inr (s32 ((int n + 48) mod 256 - 48))"
    unfolding calculator_def
    by (subst add_loop.simps) (simp add: u add_loop.simps [of _ "0x3d"] del: of_int_add of_int_of_nat_eq)
  with c show ?thesis by blast
qed

theorem typed_number_wraps_witness:
  "\<exists>new'. convert_loop (dec_nat 300 @ [0x3d]) 0 0 (replicate 20 0) = Some new' \<and>
    calculator new' = Inr (s32 ((int 300 + 48) mod 256 - 48))"
  by (rule typed_number_wraps) simp_all

lemma num_digits_small: "0 < n \<Longrightarrow> num_digits n \<le> 3 \<longleftrightarrow> n < 1000"
  by (subst num_digits.simps, subst num_digits.simps, subst num_digits.simps, subst num_digits.simps)
    (auto simp: div_mult2_eq [symmetric])

text \<open>
  Answers out of the displays' reach: a negative answer of four digits or more changes no
  digit of the segments, and from 1024 on the lamps go wrong: the power of ten that builds the
  binary digits overflows \<open>int\<close>, and 1024, whose low eight bits are zero, lights lamp 0.
\<close>

theorem answers_out_of_reach:
  "(v < 0 \<longrightarrow> (print_negative v = []) = (v \<le> - 1000)) \<and>
   LedBitSet 0 \<in> set (print_led 1024)"
proof
  have pos: "0 < num_digits n" if "0 < n" for n using that by (subst num_digits.simps) simp
  show "v < 0 \<longrightarrow> (print_negative v = []) = (v \<le> - 1000)"
    using num_digits_small [of "nat \<bar>v\<bar>"] pos [of "nat \<bar>v\<bar>"] by (auto simp: print_negative_def Let_def)
  show "LedBitSet 0 \<in> set (print_led 1024)" by code_simp
qed

theorem answers_out_of_reach_witness:
  "print_negative (- 1234) = [] \<and> print_negative (- 999) \<noteq> []"
  using answers_out_of_reach [of "- 1234"] answers_out_of_reach [of "- 999"] by simp

end
