(* ===== verification/AppsOnDriver.thy ===== *)
theory AppsOnDriver
  imports Lab3
begin

text \<open>
  The programs' requests as \<open>ioctl\<close> calls of the board driver: which command a request is, what its
  argument holds in user memory, and what the driver's state is after a run of requests was served.
\<close>

section \<open>One request\<close>

fun request_command :: "request \<Rightarrow> lcd_command" where
  "request_command KeyClear = KEY_IOCTL_CLEAR"
| "request_command LcdClear = LCD_IOCTL_CLEAR"
| "request_command (LcdWrite cs) = LCD_IOCTL_WRITE"
| "request_command CurOn = LCD_IOCTL_CUR_ON"
| "request_command CurOff = LCD_IOCTL_CUR_OFF"
| "request_command (SegSet info) = SEG_IOCTL_SET"
| "request_command SegOn = SEG_IOCTL_ON"
| "request_command SegOff = SEG_IOCTL_OFF"
| "request_command (LedSet v) = LED_IOCTL_SET"
| "request_command (LedBitSet v) = LED_IOCTL_BIT_SET"
| "request_command (LedBitClear v) = LED_IOCTL_BIT_CLEAR"

text \<open>The argument of a request in user memory; padding and unused fields may hold anything.\<close>

fun arg_holds :: "umem \<Rightarrow> u32 \<Rightarrow> request \<Rightarrow> bool" where
  "arg_holds m arg (LcdWrite cs) \<longleftrightarrow> (\<exists>bs. copy_from_user m arg sizeof_lcd_write_info = Some bs \<and>
     length cs \<le> MSG_LEN \<and> take (length cs) bs = cs \<and> unat (u16_at bs 512) = length cs)"
| "arg_holds m arg (SegSet info) \<longleftrightarrow> (\<exists>bs. copy_from_user m arg sizeof_7seg_info = Some bs \<and>
     bs ! 0 = Mode info \<and> bs ! 1 = Which info \<and> u32_at bs 4 = Value info)"
| "arg_holds m arg (LedSet v) \<longleftrightarrow> copy_from_user m arg sizeof_short = Some (u16_bytes v)"
| "arg_holds m arg (LedBitSet v) \<longleftrightarrow> copy_from_user m arg sizeof_short = Some (u16_bytes v)"
| "arg_holds m arg (LedBitClear v) \<longleftrightarrow> copy_from_user m arg sizeof_short = Some (u16_bytes v)"
| "arg_holds m arg r \<longleftrightarrow> True"

definition led_effect :: "led_cmd \<Rightarrow> u16 \<Rightarrow> lcd_drv \<Rightarrow> lcd_drv" where
  "led_effect cmd v d =
     (let (rc, led, out) = Creator_pxa270_led_cmd (Some cmd) (ucast v) (scan_led d)
      in d\<lparr>scan_led := led, reg2_pins := (case out of None \<Rightarrow> reg2_pins d | Some w \<Rightarrow> w)\<rparr>)"

definition seg_effect :: "lcd_env \<Rightarrow> seg_cmd \<Rightarrow> lcd_drv \<Rightarrow> lcd_drv" where
  "seg_effect env c d = d\<lparr>seg := snd (Creator_pxa270_7Segment_cmd (request_irq env) (Some c) (seg d))\<rparr>"

fun request_effect :: "lcd_env \<Rightarrow> request \<Rightarrow> lcd_drv \<Rightarrow> lcd_drv" where
  "request_effect env KeyClear d = d\<lparr>kp := Reset_KEYPAD (kp d)\<rparr>"
| "request_effect env LcdClear d = d\<lparr>lcd := LCD_ClearScreen (lcd d)\<rparr>"
| "request_effect env (LcdWrite cs) d =
     (case LCD_puts cs (lcd d) of None \<Rightarrow> d | Some s \<Rightarrow> d\<lparr>lcd := s\<rparr>)"
| "request_effect env CurOn d = d\<lparr>lcd := LCD_EnableCursor OK (lcd d)\<rparr>"
| "request_effect env CurOff d = d\<lparr>lcd := LCD_EnableCursor OFF (lcd d)\<rparr>"
| "request_effect env (SegSet info) d = seg_effect env (SEG_SET info) d"
| "request_effect env SegOn d = seg_effect env SEG_ON d"
| "request_effect env SegOff d = seg_effect env SEG_OFF d"
| "request_effect env (LedSet v) d = led_effect LED_SET v d"
| "request_effect env (LedBitSet v) d = led_effect LED_BIT_SET v d"
| "request_effect env (LedBitClear v) d = led_effect LED_BIT_CLEAR v d"

text \<open>The size field of a command is the size of its argument.\<close>

lemma command_sizes:
  "IOC_SIZE (command_number LCD_IOCTL_WRITE) = sizeof_lcd_write_info"
  "IOC_SIZE (command_number SEG_IOCTL_SET) = sizeof_7seg_info"
  "IOC_SIZE (command_number LED_IOCTL_SET) = sizeof_short"
  "IOC_SIZE (command_number LED_IOCTL_BIT_SET) = sizeof_short"
  "IOC_SIZE (command_number LED_IOCTL_BIT_CLEAR) = sizeof_short"
  by code_simp+

lemma ioctl_of_command:
  "creator_pxa270_lcdtxt_ioctl env (command_number cmd) arg d m =
     (let arg_size = IOC_SIZE (command_number cmd) in
      if cmd \<in> {LCD_IOCTL_CLEAR, LCD_IOCTL_WRITE, LCD_IOCTL_CUR_ON, LCD_IOCTL_CUR_OFF,
                LCD_IOCTL_CUR_GET, LCD_IOCTL_CUR_SET, LCD_IOCTL_DRAW_FULL_IMAGE}
      then ioctl_lcd cmd arg arg_size d m
      else if cmd = LED_IOCTL_SET then ioctl_led LED_SET arg arg_size d m
      else if cmd = LED_IOCTL_BIT_SET then ioctl_led LED_BIT_SET arg arg_size d m
      else if cmd = LED_IOCTL_BIT_CLEAR then ioctl_led LED_BIT_CLEAR arg arg_size d m
      else if cmd = DIPSW_IOCTL_GET
      then to_user d m arg (u16_bytes (ucast (ucast (io_reg1 env (reg2_pins d)) :: u8)))
      else if cmd \<in> {KEY_IOCTL_GET_CHAR, KEY_IOCTL_WAIT_CHAR, KEY_IOCTL_CANCEL_WAIT_CHAR,
                     KEY_IOCTL_CHECK_EMTPY, KEY_IOCTL_CLEAR}
      then ioctl_key cmd arg d m
      else if cmd \<in> {SEG_IOCTL_ON, SEG_IOCTL_OFF, SEG_IOCTL_SET}
      then ioctl_seg env cmd arg arg_size d m
      else if cmd \<in> {TIME_IOCTL_GET, TIME_IOCTL_SET}
      then ioctl_time env cmd arg arg_size d m
      else ioctl_eeprom env cmd arg arg_size d m)"
  unfolding creator_pxa270_lcdtxt_ioctl_def command_type command_case_number by simp

declare command_number.simps [simp del]

text \<open>The shape of a call that returns: its code, and the state the effect describes.\<close>

lemma led_served:
  assumes "copy_from_user m arg sizeof_short = Some (u16_bytes v)"
  shows "\<exists>rc. ioctl_led cmd arg sizeof_short d m = Returns rc (led_effect cmd v d) m"
  using assms by (simp add: ioctl_led_def from_user_def u16_at_bytes led_effect_def case_prod_beta Let_def)

lemma request_served:
  assumes "drv_inv d" "arg_holds m arg r"
  shows "\<exists>rc. creator_pxa270_lcdtxt_ioctl env (command_number (request_command r)) arg d m =
    Returns rc (request_effect env r d) m"
proof (cases r)
  case KeyClear
  then show ?thesis by (simp add: ioctl_of_command ioctl_key_def)
next
  case LcdClear
  then show ?thesis by (simp add: ioctl_of_command ioctl_lcd_def)
next
  case (LcdWrite cs)
  then obtain bs where bs: "copy_from_user m arg sizeof_lcd_write_info = Some bs"
    "length cs \<le> MSG_LEN" "take (length cs) bs = cs" "unat (u16_at bs 512) = length cs"
    using assms(2) by auto
  obtain s where "LCD_puts cs (lcd d) = Some s"
    using puts_ends [OF drv_inv_sized [OF assms(1)]] by blast
  with LcdWrite bs show ?thesis
    by (simp add: ioctl_of_command command_sizes Let_def ioctl_lcd_def from_user_def with_txt_def)
next
  case CurOn
  then show ?thesis by (simp add: ioctl_of_command ioctl_lcd_def)
next
  case CurOff
  then show ?thesis by (simp add: ioctl_of_command ioctl_lcd_def)
next
  case (SegSet info)
  then obtain bs where "copy_from_user m arg sizeof_7seg_info = Some bs"
    "\<lparr>Mode = bs ! 0, Which = bs ! 1, Value = u32_at bs 4\<rparr> = info"
    using assms(2) by auto
  with SegSet show ?thesis
    by (simp add: ioctl_of_command command_sizes Let_def ioctl_seg_def from_user_def seg_effect_def
        case_prod_beta)
next
  case SegOn
  then show ?thesis
    by (simp add: ioctl_of_command ioctl_seg_def seg_effect_def case_prod_beta Let_def)
next
  case SegOff
  then show ?thesis
    by (simp add: ioctl_of_command ioctl_seg_def seg_effect_def case_prod_beta Let_def)
next
  case (LedSet v)
  then show ?thesis using assms(2) led_served [of m arg v LED_SET d]
    by (simp add: ioctl_of_command command_sizes Let_def)
next
  case (LedBitSet v)
  then show ?thesis using assms(2) led_served [of m arg v LED_BIT_SET d]
    by (simp add: ioctl_of_command command_sizes Let_def)
next
  case (LedBitClear v)
  then show ?thesis using assms(2) led_served [of m arg v LED_BIT_CLEAR d]
    by (simp add: ioctl_of_command command_sizes Let_def)
qed

section \<open>A run of requests\<close>

text \<open>
  A program's requests, each a call that finds its argument in memory, with any number of scan
  timer ticks and segment interrupts between them.
\<close>

inductive served :: "lcd_env \<Rightarrow> request list \<Rightarrow> lcd_drv \<Rightarrow> lcd_drv \<Rightarrow> bool" for env where
  nothing: "served env [] d d"
| tick: "served env rs (fst (ScanTimer env d)) d' \<Longrightarrow> served env rs d d'"
| segment: "served env rs (segment_timer_irq d) d' \<Longrightarrow> served env rs d d'"
| call: "arg_holds m arg r \<Longrightarrow>
    creator_pxa270_lcdtxt_ioctl env (command_number (request_command r)) arg d m = Returns rc d1 m1 \<Longrightarrow>
    served env rs d1 d' \<Longrightarrow> served env (r # rs) d d'"


text \<open>What a program can see of the driver: the text, the segments and the lamps.\<close>

definition same_view :: "lcd_drv \<Rightarrow> lcd_drv \<Rightarrow> bool" where
  "same_view d e \<longleftrightarrow> lcd d = lcd e \<and> seven_seg_buf (seg d) = seven_seg_buf (seg e) \<and> scan_led d = scan_led e"

lemma same_view_refl [simp]: "same_view d d"
  by (simp add: same_view_def)

lemma same_view_trans: "same_view d e \<Longrightarrow> same_view e f \<Longrightarrow> same_view d f"
  by (simp add: same_view_def)

lemma scan_clock_view [simp]:
  "lcd (scan_clock d) = lcd d" "seg (scan_clock d) = seg d" "scan_led (scan_clock d) = scan_led d"
  by (simp_all add: scan_clock_def Let_def)

lemma ScanTimer_view: "same_view (fst (ScanTimer env d)) d"
  by (simp add: same_view_def ScanTimer_def Let_def case_prod_beta)

lemma segment_view: "same_view (segment_timer_irq d) d"
  by (simp add: same_view_def segment_timer_irq_def case_prod_beta seg7_timer_irq_frame)

lemma seg_cmd_buf:
  "seven_seg_buf s = seven_seg_buf t \<Longrightarrow>
     seven_seg_buf (snd (Creator_pxa270_7Segment_cmd rq (Some c) s)) =
     seven_seg_buf (snd (Creator_pxa270_7Segment_cmd rq (Some c) t))"
  by (cases c) (simp_all add: Creator_pxa270_7Segment_cmd_def seg7_timer_operation_def SEG7_put_led_def)

lemma led_effect_frame [simp]:
  "lcd (led_effect c v d) = lcd d" "seg (led_effect c v d) = seg d"
  by (simp_all add: led_effect_def case_prod_beta Let_def)

lemma seg_effect_frame [simp]:
  "lcd (seg_effect env c d) = lcd d" "scan_led (seg_effect env c d) = scan_led d"
  by (simp_all add: seg_effect_def)

lemma led_effect_view:
  "scan_led d = scan_led e \<Longrightarrow> scan_led (led_effect c v d) = scan_led (led_effect c v e)"
  by (simp add: led_effect_def case_prod_beta Let_def)

lemma seg_effect_view:
  "seven_seg_buf (seg d) = seven_seg_buf (seg e) \<Longrightarrow>
     seven_seg_buf (seg (seg_effect env c d)) = seven_seg_buf (seg (seg_effect env c e))"
  unfolding seg_effect_def by simp (rule seg_cmd_buf)

lemma request_effect_view:
  assumes "same_view d e"
  shows "same_view (request_effect env r d) (request_effect env r e)"
proof -
  have e: "lcd d = lcd e" "seven_seg_buf (seg d) = seven_seg_buf (seg e)" "scan_led d = scan_led e"
    using assms by (simp_all add: same_view_def)
  note v = led_effect_view [OF e(3)] seg_effect_view [OF e(2)]
  show ?thesis
    by (cases r; simp only: request_effect.simps same_view_def e) (simp_all add: e v split: option.split)
qed

lemma fold_effect_view:
  "same_view d e \<Longrightarrow> same_view (fold (request_effect env) rs d) (fold (request_effect env) rs e)"
proof (induction rs arbitrary: d e)
  case Nil
  then show ?case by simp
next
  case (Cons r rs)
  from Cons.IH [OF request_effect_view [OF Cons.prems, of env r]] show ?case by simp
qed

text \<open>
  The simulation: whatever timers ran in between, the program sees the driver as if its requests had
  been carried out one after the other.
\<close>

lemma served_view:
  "served env rs d d' \<Longrightarrow> drv_inv d \<Longrightarrow> drv_inv d' \<and> same_view d' (fold (request_effect env) rs d)"
proof (induction rule: served.induct)
  case (nothing d)
  then show ?case by simp
next
  case (tick rs d d')
  then show ?case
    using fold_effect_view [OF ScanTimer_view] by (blast intro: inv_ScanTimer same_view_trans)
next
  case (segment rs d d')
  then show ?case
    using fold_effect_view [OF segment_view] by (blast intro: inv_segment_irq same_view_trans)
next
  case (call m arg r d rc d1 m1 rs d')
  then have "d1 = request_effect env r d" using request_served [OF call.prems call.hyps(1), of env] by auto
  moreover have "drv_inv d1"
    using inv_ioctl [OF call.prems, of env "command_number (request_command r)" arg m] call.hyps(2) by simp
  ultimately show ?case using call.IH by simp
qed

section \<open>Runs of one kind\<close>

text \<open>A run of single-lamp requests, and the four digits of the calculator's answer.\<close>

definition lamp_requests :: "(nat \<Rightarrow> bool) \<Rightarrow> nat list \<Rightarrow> request list" where
  "lamp_requests on is = map (\<lambda>i. if on i then LedBitSet (of_nat i) else LedBitClear (of_nat i)) is"

lemma u16_lamp: "i < 8 \<Longrightarrow> unat (ucast (of_nat i :: u16) :: u8) = i"
proof -
  have "\<forall>i<8. unat (ucast (of_nat i :: u16) :: u8) = i" by code_simp
  then show "i < 8 \<Longrightarrow> ?thesis" by blast
qed

lemma led_effect_bit:
  assumes "i < 8"
  shows "lamps (scan_led (led_effect LED_BIT_SET (of_nat i) d)) = insert i (lamps (scan_led d))"
    "lamps (scan_led (led_effect LED_BIT_CLEAR (of_nat i) d)) = lamps (scan_led d) - {i}"
  using assms
  by (simp_all add: led_effect_def Creator_pxa270_led_cmd_def Let_def lamps_bit_set lamps_bit_clear u16_lamp)

lemma lamp_requests_effect:
  "\<forall>i \<in> set is. i < 8 \<Longrightarrow> d' = fold (request_effect env) (lamp_requests on is) d \<Longrightarrow>
     lamps (scan_led d') = (lamps (scan_led d) - set is) \<union> {i \<in> set is. on i} \<and> lcd d' = lcd d \<and> seg d' = seg d"
proof (induction "is" arbitrary: d)
  case Nil
  then show ?case by (simp add: lamp_requests_def)
next
  case (Cons i "is")
  let ?d = "request_effect env (if on i then LedBitSet (of_nat i) else LedBitClear (of_nat i)) d"
  have i: "i < 8" using Cons.prems(1) by simp
  have l: "lamps (scan_led ?d) = (if on i then insert i (lamps (scan_led d)) else lamps (scan_led d) - {i})"
    "lcd ?d = lcd d" "seg ?d = seg d"
    using led_effect_bit [OF i, of d] by simp_all
  have "d' = fold (request_effect env) (lamp_requests on is) ?d"
    using Cons.prems(2) by (simp add: lamp_requests_def)
  with Cons.IH [of ?d] Cons.prems(1) l show ?case by auto
qed

lemma print_led_effect:
  assumes "\<bar>n\<bar> < 1024" "d' = fold (request_effect env) (print_led n) d"
  shows "lamps (scan_led d') = {i. i < 8 \<and> bit (nat \<bar>n\<bar>) (7 - i)}" "lcd d' = lcd d" "seg d' = seg d"
proof -
  have "d' = fold (request_effect env) (lamp_requests (\<lambda>i. bit (nat \<bar>n\<bar>) (7 - i)) [0..<8]) d"
    unfolding assms(2) lamp_requests_def print_led_requests [OF assms(1)] ..
  from lamp_requests_effect [OF _ this, unfolded set_upt]
  have "lamps (scan_led d') = (lamps (scan_led d) - {0..<8}) \<union> {i \<in> {0..<8}. bit (nat \<bar>n\<bar>) (7 - i)}
      \<and> lcd d' = lcd d \<and> seg d' = seg d" by (metis atLeastLessThan_iff)
  moreover have "lamps (scan_led d) - {0..<8} = {}" by (auto simp: lamps_def)
  moreover have "{i \<in> {0..<8}. bit (nat \<bar>n\<bar>) (7 - i)} = {i. i < 8 \<and> bit (nat \<bar>n\<bar>) (7 - i)}" by auto
  ultimately show "lamps (scan_led d') = {i. i < 8 \<and> bit (nat \<bar>n\<bar>) (7 - i)}" "lcd d' = lcd d" "seg d' = seg d"
    by (simp_all only: Un_empty_left)
qed

lemma seg_hex_effect:
  assumes "seg7_wf (seg d)" "0 \<le> v" "v < 2 ^ 32" "j < 4"
  shows "seven_seg_buf (seg (request_effect env (seg_hex SEG_ALL v) d)) ! (3 - j) =
    LED_tbl ! (nat v div 16 ^ j mod 16)"
proof -
  have "unat (word_of_int v :: u32) = nat v"
    using assms(2,3) by (simp add: unat_eq_nat_uint uint_word_of_int)
  moreover have "bit (0xf :: u8) j"
  proof -
    have "\<forall>j<4. bit (0xf :: u8) j" by code_simp
    then show ?thesis using assms(4) by blast
  qed
  ultimately show ?thesis
    using put_led_hex [OF assms(1) _ assms(4),
        of "\<lparr>Mode = SEG_MODE_HEX_VALUE, Which = 0xf, Value = word_of_int v\<rparr>"] assms(4)
    by (simp add: seg_hex_def seg_effect_def Creator_pxa270_7Segment_cmd_def SEG_ALL_15 selected_all)
qed

text \<open>The echo of the keys and the printed answer, as one text.\<close>

lemma echo_effect:
  assumes "displays (lcd d) t"
  shows "displays (lcd (fold (request_effect env) (map (\<lambda>ch. LcdWrite [ch]) cs) d)) (t_puts cs t) \<and>
    seg (fold (request_effect env) (map (\<lambda>ch. LcdWrite [ch]) cs) d) = seg d"
  using assms
proof (induction cs arbitrary: d t)
  case Nil
  then show ?case by (simp add: t_puts_def)
next
  case (Cons ch cs)
  obtain s where s: "LCD_puts [ch] (lcd d) = Some s" "displays s (t_puts [ch] t)"
    using displays_puts [OF Cons.prems, of "[ch]"] by blast
  then have "request_effect env (LcdWrite [ch]) d = d\<lparr>lcd := s\<rparr>" by (simp del: LCD_puts.simps)
  with Cons.IH [of "d\<lparr>lcd := s\<rparr>"] s(2) show ?case by (simp add: t_puts_def del: request_effect.simps)
qed

lemma write_effect:
  assumes "displays (lcd d) t"
  shows "displays (lcd (request_effect env (LcdWrite cs) d)) (t_puts cs t)"
    "seg (request_effect env (LcdWrite cs) d) = seg d"
  using displays_puts [OF assms, of cs] by auto

end
