(* ===== verification/EndToEnd.thy ===== *)
theory EndToEnd
  imports AppsOnDriver
begin

text \<open>
  The board driver seen from both ends: what a system call does when the switches, the timers and
  the display are on the other side. The theory adds no operation of the program, but makes visible
  what happens inside two calls that sleep: the moment between the test of \<open>KEY_IOCTL_WAIT_CHAR\<close> and
  the wait queue, and the interrupts that fall into the delays of an EEPROM command.
\<close>

section \<open>Scans and keys\<close>

text \<open>One expiry of the scan timer, without the wake-up it may cause.\<close>

abbreviation scan_tick :: "lcd_env \<Rightarrow> lcd_drv \<Rightarrow> lcd_drv" where
  "scan_tick env d \<equiv> fst (ScanTimer env d)"

lemma scan_clock_frame [frame_simps]:
  "kp (scan_clock d) = kp d" "ee (scan_clock d) = ee d" "reg2_pins (scan_clock d) = reg2_pins d"
  by (simp_all add: scan_clock_def Let_def)

lemma scan_tick_kp:
  "kp (scan_tick env d) = fst (scan_keys (scan_matrix (io_reg1 env) (scan_led d)) (kp d))"
  "scan_led (scan_tick env d) = scan_led d"
  by (simp_all add: ScanTimer_def Let_def case_prod_beta frame_simps scan_keys_def)

lemma inv_scan_ticks: "drv_inv d \<Longrightarrow> drv_inv ((scan_tick env ^^ n) d)"
  by (rule funpow_invariant) (auto intro: inv_ScanTimer)

text \<open>Two scans of the same new code put it in an empty ring.\<close>

lemma two_scans:
  assumes "drv_inv d" "ring_keys (kp d) = []"
    and "w = scan_matrix (io_reg1 env) (scan_led d)" "last_scan_key (kp d) \<noteq> w" "w \<noteq> 0xffff"
  shows "wf_ring (kp ((scan_tick env ^^ 2) d))" "ring_keys (kp ((scan_tick env ^^ 2) d)) = [w]"
proof -
  have "kp ((scan_tick env ^^ 2) d) = scans [w, w] (kp d)"
    using assms(3) by (simp add: numeral_2_eq_2 scan_tick_kp scans_def)
  moreover have "owed (last_scan_key (kp d)) (settled (kp d)) [w, w] = [w]"
    using assms(4,5) by (simp add: owed_step)
  ultimately show "wf_ring (kp ((scan_tick env ^^ 2) d))" "ring_keys (kp ((scan_tick env ^^ 2) d)) = [w]"
    using scans_keys [of "kp d" "[w, w]"] assms(1,2) by (simp_all add: drv_inv_ring)
qed

lemma ioctl_key_calls:
  "creator_pxa270_lcdtxt_ioctl env (command_number KEY_IOCTL_GET_CHAR) arg d m = key_get arg d m"
  "creator_pxa270_lcdtxt_ioctl env (command_number KEY_IOCTL_CHECK_EMTPY) arg d m =
     (case KEYPAD_chk_key (kp d) of None \<Rightarrow> Returns (- EINVAL) d m | Some key \<Rightarrow> key_to_user d m arg key)"
  by (simp_all add: ioctl_of_command ioctl_key_def)

lemma u16_bytes_pair: "u16_bytes (push_bit 8 (ucast (k :: u8)) + ucast (a :: u8)) = [a, k]"
proof -
  have "push_bit 8 (ucast k) + ucast a = (push_bit 8 (ucast k) OR ucast a :: u16)"
    by (rule disjunctive_add) (auto simp: bit_push_bit_iff bit_ucast_iff dest: bit_imp_le_length)
  moreover have "u16_bytes (push_bit 8 (ucast k) OR ucast a) = [a, k]"
    by (auto simp: u16_bytes_def bit_eq_iff bit_simps dest: bit_imp_le_length)
  ultimately show ?thesis by simp
qed

lemma key_get_one:
  assumes "wf_ring (kp d)" "ring_keys (kp d) = [w]"
  shows "\<exists>k. key_get arg d m = key_to_user (d\<lparr>kp := k\<rparr>) m arg (Creator_key2num w)"
  using KEYPAD_get_key_cons(1) [OF assms] by (auto simp: key_get_def split: prod.split)

section \<open>The multiplexed display\<close>

lemma segment_irq_frame: "ee (segment_timer_irq d) = ee d"
    "seg (segment_timer_irq d) = snd (seg7_timer_irq (ee_io (ee d)) (seg d))"
    "reg0_pins (segment_timer_irq d) = fst (seg7_timer_irq (ee_io (ee d)) (seg d))"
  by (simp_all add: segment_timer_irq_def case_prod_beta)

lemma segment_irqs:
  "map (\<lambda>k. reg0_pins ((segment_timer_irq ^^ Suc k) d)) [0..<n] = seg7_scan n (ee_io (ee d)) (seg d)"
proof (induction n arbitrary: d)
  case 0
  then show ?case by simp
next
  case (Suc n)
  have "map (\<lambda>k. reg0_pins ((segment_timer_irq ^^ Suc k) d)) [0..<Suc n] =
      reg0_pins (segment_timer_irq d) #
      map (\<lambda>k. reg0_pins ((segment_timer_irq ^^ Suc k) (segment_timer_irq d))) [0..<n]"
    by (simp add: upt_conv_Cons map_Suc_upt [symmetric] funpow_swap1 o_def del: upt_Suc)
  then show ?case unfolding Suc.IH by (simp add: segment_irq_frame case_prod_beta Let_def)
qed

lemma four_irqs_show:
  assumes "drv_inv d" "j < 4"
  shows "(\<Union>k<4. seg_shown (reg0_pins ((segment_timer_irq ^^ Suc k) d)) j) = segments (seven_seg_buf (seg d) ! j)"
proof -
  have "(\<Union>k<4. seg_shown (reg0_pins ((segment_timer_irq ^^ Suc k) d)) j) =
      (\<Union>w \<in> set (map (\<lambda>k. reg0_pins ((segment_timer_irq ^^ Suc k) d)) [0..<4]). seg_shown w j)"
    by (simp add: lessThan_atLeast0 del: funpow.simps)
  also have "\<dots> = segments (seven_seg_buf (seg d) ! j)"
    unfolding segment_irqs using assms by (intro seg7_scan_four) (auto simp: drv_inv_def)
  finally show ?thesis .
qed

section \<open>The EEPROM behind the multiplexed display\<close>

text \<open>
  What \<open>IO_REG0\<close> holds while an EEPROM command runs: the command only changes the shadow, and the
  segment interrupt, \<open>k\<close> times during the delay after a change, copies it together with a digit.
\<close>

fun pins_during :: "nat list \<Rightarrow> u16 list \<Rightarrow> seg7 \<Rightarrow> u16 list" where
  "pins_during (k # ks) (io # ios) s =
     seg7_scan k io s @ pins_during ks ios (((\<lambda>s. snd (seg7_timer_irq io s)) ^^ k) s)"
| "pins_during ks ios s = []"

text \<open>The values of the shadow that some interrupt copied.\<close>

fun caught :: "nat list \<Rightarrow> u16 list \<Rightarrow> u16 list" where
  "caught (k # ks) (io # ios) = (if k = 0 then caught ks ios else io # caught ks ios)"
| "caught ks ios = []"

definition same_lines :: "u16 \<Rightarrow> u16 \<Rightarrow> bool" where
  "same_lines v w \<longleftrightarrow> (\<forall>n\<in>{12, 13, 14}. bit v n = bit w n)"

lemma com_high: "i < 4 \<Longrightarrow> n \<in> {12, 13, 14} \<Longrightarrow> \<not> bit (tbl_7seg_com ! i) n"
proof -
  have "\<forall>i<4. \<forall>n\<in>set [12, 13, 14]. \<not> bit (tbl_7seg_com ! i) n" by code_simp
  then show "i < 4 \<Longrightarrow> n \<in> {12, 13, 14} \<Longrightarrow> ?thesis" by auto
qed

lemma irq_lines:
  assumes "seg7_wf s"
  shows "same_lines (fst (seg7_timer_irq io s)) io"
proof -
  define i where "i = unat ((seven_seg_idx s + 1) AND 3)"
  have i: "i < 4" using assms by (simp add: i_def seg7_wf_def unat_idx_next)
  have "fst (seg7_timer_irq io s) = io OR tbl_7seg_com ! i OR ucast (seven_seg_buf s ! i)"
    by (simp add: seg7_timer_irq_def Let_def i_def)
  then show ?thesis
    unfolding same_lines_def using com_high [OF i]
    by (auto simp: bit_or_iff bit_ucast_iff dest: bit_imp_le_length)
qed

lemma scan_lines: "seg7_wf s \<Longrightarrow> w \<in> set (seg7_scan k io s) \<Longrightarrow> same_lines w io"
proof (induction k arbitrary: s)
  case (Suc k)
  then show ?case
    using Suc.IH [OF seg7_timer_irq_frame(2)] by (auto simp: case_prod_beta Let_def irq_lines)
qed simp

lemma irqs_wf: "seg7_wf s \<Longrightarrow> seg7_wf (((\<lambda>s. snd (seg7_timer_irq io s)) ^^ k) s)"
  by (induction k) (simp_all add: seg7_timer_irq_frame)

text \<open>A listener does not notice how often a level is repeated.\<close>

lemma ee_frames_prev: "bit p 13 = bit q 13 \<Longrightarrow> ee_frames p cur ls = ee_frames q cur ls"
  by (cases ls) simp_all

lemma ee_frames_again:
  "(\<And>w. w \<in> set ws \<Longrightarrow> same_lines w l) \<Longrightarrow> (\<not> bit l 12 \<longrightarrow> cur = []) \<Longrightarrow>
    ee_frames l cur (ws @ ls) = ee_frames l cur ls"
proof (induction ws)
  case (Cons w ws)
  then have w: "bit w 12 = bit l 12" "bit w 13 = bit l 13" by (simp_all add: same_lines_def)
  have "ee_frames w cur (ws @ ls) = ee_frames l cur (ws @ ls)" by (rule ee_frames_prev) (rule w(2))
  with Cons w show ?case by auto
qed simp

lemma ee_frames_copies:
  assumes "\<And>w. w \<in> set ws \<Longrightarrow> same_lines w l" "ws \<noteq> []"
  shows "ee_frames prev cur (ws @ ls) = ee_frames prev cur (l # ls)"
proof -
  obtain w ws' where ws: "ws = w # ws'" using assms(2) by (cases ws) auto
  then have w: "bit w 12 = bit l 12" "bit w 13 = bit l 13" "bit w 14 = bit l 14"
    using assms(1) [of w] by (simp_all add: same_lines_def)
  have "ee_frames w c (ws' @ ls) = ee_frames l c ls" if "\<not> bit l 12 \<longrightarrow> c = []" for c
    using ee_frames_again [of ws' l c ls] ee_frames_prev [of w l, OF w(2)] assms(1) that ws by auto
  then show ?thesis using w by (simp add: ws)
qed

text \<open>On the register a listener receives what it would of the values that were copied.\<close>

lemma ee_frames_pins:
  "seg7_wf s \<Longrightarrow> ee_frames prev cur (pins_during ks ios s) = ee_frames prev cur (caught ks ios)"
proof (induction ks ios s arbitrary: prev cur rule: pins_during.induct)
  case (1 k ks io ios s)
  let ?s = "((\<lambda>s. snd (seg7_timer_irq io s)) ^^ k) s"
  have IH: "ee_frames p c (pins_during ks ios ?s) = ee_frames p c (caught ks ios)" for p c
    by (rule "1.IH") (rule irqs_wf, rule "1.prems")
  show ?case
  proof (cases k)
    case 0
    then show ?thesis using IH by simp
  next
    case (Suc j)
    then have "seg7_scan k io s \<noteq> []" by (metis length_seg7_scan list.size(3) nat.distinct(1))
    then have "ee_frames prev cur (pins_during (k # ks) (io # ios) s) =
        ee_frames prev cur (io # pins_during ks ios ?s)"
      using ee_frames_copies scan_lines [OF "1.prems"] by simp
    then show ?thesis using IH Suc by simp
  qed
qed simp_all

lemma caught_all: "length ks = length ios \<Longrightarrow> \<forall>k\<in>set ks. 0 < k \<Longrightarrow> caught ks ios = ios"
  by (induction ks ios rule: caught.induct) auto

lemma pins_none: "\<forall>k\<in>set ks. k = 0 \<Longrightarrow> pins_during ks ios s = []"
  by (induction ks ios s rule: pins_during.induct) auto

lemma ioctl_eeprom_set:
  assumes "copy_from_user m arg sizeof_short = Some [addr, byte]"
  shows "creator_pxa270_lcdtxt_ioctl env (command_number EEPROM_IOCTL_SET) arg d m =
    Returns 0 (d\<lparr>ee := EE_WRITE (cpld_status env) addr byte (ee d)\<rparr>) m"
proof -
  have "IOC_SIZE (command_number EEPROM_IOCTL_SET) = sizeof_short" by code_simp
  with assms show ?thesis
    by (simp add: ioctl_of_command Let_def ioctl_eeprom_def from_user_def del: command_number.simps)
qed

section \<open>Two boards\<close>

text \<open>A board at rest, a board with the key of code 1 held, and one with that key and its neighbour.\<close>

definition board :: "(u16 \<Rightarrow> u16) \<Rightarrow> lcd_env" where
  "board io = \<lparr>io_reg1 = io, cpld_status = \<lambda>_. 0, request_irq = \<lambda>oier. (0, oier), stack_pad = 0\<rparr>"

definition columns :: "u16 \<Rightarrow> u16 \<Rightarrow> u16" where
  "columns pulled v = (if bit v 0 then 0xffff else NOT pulled)"

definition fresh :: lcd_drv where
  "fresh = snd (init_module_drv_lcdtxt (board (\<lambda>_. 0xffff)) 0 0 (lcd_drv_loaded 0x8000))"

lemma fresh_idle: "display_free 0x8000" "ee_idle 0x8000" "bit (0x8000 :: u16) 15"
proof -
  have "(0x8000 :: u16) = push_bit 15 1" by simp
  then have "bit (0x8000 :: u16) n \<longleftrightarrow> n = 15" for n
    by (simp only: bit_push_bit_iff bit_1_iff possible_bit_word) auto
  then show "display_free 0x8000" "ee_idle 0x8000" "bit (0x8000 :: u16) 15"
    by (simp_all only: display_free_def ee_idle_def) simp_all
qed

lemma init_ok: "init_module_drv_lcdtxt env 0 0 d = (0, snd (init_module_drv_lcdtxt env 0 0 d))"
proof (rule prod_eqI)
  show "fst (init_module_drv_lcdtxt env 0 0 d) = fst (0, snd (init_module_drv_lcdtxt env 0 0 d))"
    unfolding init_module_drv_lcdtxt_def Let_def by (simp only: fst_conv if_False simp_thms)
qed (simp only: snd_conv)

lemma fresh_reach: "drv_reach (board (\<lambda>_. 0xffff)) fresh"
  unfolding fresh_def by (rule drv_reach.init [OF fresh_idle init_ok])

lemma fresh_inv: "drv_inv fresh"
  by (rule drv_inv_reach [OF fresh_reach])

lemma init_simps: "kp (snd (init_module_drv_lcdtxt env 0 0 d)) = Initial_KEYPAD (kp d)"
    "scan_led (snd (init_module_drv_lcdtxt env 0 0 d)) = scan_led d"
    "clock_ok (snd (init_module_drv_lcdtxt env 0 0 d))" "drv_time (snd (init_module_drv_lcdtxt env 0 0 d)) = 0"
  by (simp_all add: init_module_drv_lcdtxt_def Let_def lcd_hwsetup_def clock_ok_def drv_time_def)

lemma fresh_simps: "kp fresh = Initial_KEYPAD keypad_bss" "scan_led fresh = 0x5500" "clock_ok fresh"
    "drv_time fresh = 0"
  by (simp_all only: fresh_def init_simps) (simp_all add: lcd_drv_loaded_def)

lemma fresh_keys: "ring_keys (kp fresh) = []" "last_scan_key (kp fresh) = 0xffff"
  by (simp_all add: fresh_simps Initial_KEYPAD_simps keypad_bss_def)

lemma columns_wired:
  "matrix_wired (\<lambda>k. k = key_pos 1) (columns 0x0100) 0x5500"
  "matrix_wired (\<lambda>k. k = 0 \<or> k = 1) (columns 0x0300) 0x5500"
proof -
  have "\<forall>r<4. \<forall>c<4. bit (columns 0x0100 (0x5500 OR row_select r)) (8 + c) = (\<not> 4 * r + c = key_pos 1)"
    by code_simp
  then show "matrix_wired (\<lambda>k. k = key_pos 1) (columns 0x0100) 0x5500"
    unfolding matrix_wired_def by blast
  have "\<forall>r<4. \<forall>c<4. bit (columns 0x0300 (0x5500 OR row_select r)) (8 + c) = (\<not> (4 * r + c = 0 \<or> 4 * r + c = 1))"
    by code_simp
  then show "matrix_wired (\<lambda>k. k = 0 \<or> k = 1) (columns 0x0300) 0x5500"
    unfolding matrix_wired_def by blast
qed

section \<open>Properties\<close>

text \<open>
  C2: in every state the loaded driver can reach, the invariant of its parts holds (the sizes of the
  text display, the indices of the key ring and of the segment multiplexer, the reset and display
  lines of the shadow register). Every \<open>write\<close> comes back with the invariant kept. An \<open>ioctl\<close>, whatever
  its command, argument and user memory, comes back, asleep at worst, with the invariant kept, unless
  it is one of the two calls that read outside a table (\<open>reads_outside\<close>), and those do: a message that
  claims more than 512 bytes, and a read or test of the ring while its oldest code is that of no
  single key. No call runs for ever: the tab loop of \<open>LCD_putchar\<close> ends from any column a user may set.
\<close>

theorem driver_calls_return:
  assumes "drv_reach env d"
  shows "drv_inv d \<and> result_all drv_inv (creator_pxa270_lcdtxt_write buf count d m) \<and>
    (if reads_outside command arg d m
     then creator_pxa270_lcdtxt_ioctl env command arg d m = OutOfBounds
     else result_all drv_inv (creator_pxa270_lcdtxt_ioctl env command arg d m))"
  using drv_inv_reach [OF assms] ioctl_out ioctl_comes_back write_comes_back by simp

lemma fresh_reads_inside: "\<not> reads_outside (command_number KEY_IOCTL_GET_CHAR) arg fresh m"
  by (simp add: reads_outside_def chord_first_def fresh_keys command_number_inject del: command_number.simps)

lemma overlong_threes: "overlong_message (\<lambda>_. Some 3) arg"
proof -
  have bs: "copy_from_user (\<lambda>_. Some 3) arg sizeof_lcd_write_info = Some (replicate 524 3)"
    unfolding copy_from_user_Some by (simp add: sizeof_lcd_write_info_def)
  have "u16_at (replicate 524 3) 512 = 0x303" by (simp add: u16_at_def)
  then show ?thesis by (simp add: overlong_message_def bs)
qed

text \<open>The first read of the keys comes back; a message that claims 771 bytes does not.\<close>

theorem driver_calls_return_witness:
  "result_all drv_inv (creator_pxa270_lcdtxt_ioctl (board (\<lambda>_. 0xffff)) (command_number KEY_IOCTL_GET_CHAR) 0 fresh Map.empty) \<and>
   creator_pxa270_lcdtxt_ioctl (board (\<lambda>_. 0xffff)) (command_number LCD_IOCTL_WRITE) 0 fresh (\<lambda>_. Some 3) = OutOfBounds"
proof
  show "result_all drv_inv (creator_pxa270_lcdtxt_ioctl (board (\<lambda>_. 0xffff)) (command_number KEY_IOCTL_GET_CHAR) 0 fresh Map.empty)"
    using driver_calls_return [OF fresh_reach] fresh_reads_inside by metis
  have "reads_outside (command_number LCD_IOCTL_WRITE) 0 fresh (\<lambda>_. Some 3)"
    using overlong_threes by (simp add: reads_outside_def)
  then show "creator_pxa270_lcdtxt_ioctl (board (\<lambda>_. 0xffff)) (command_number LCD_IOCTL_WRITE) 0 fresh (\<lambda>_. Some 3) = OutOfBounds"
    using driver_calls_return [OF fresh_reach] by metis
qed

text \<open>
  C5: a key reaches its reader: with the keypad wired and one key held, two scans of the timer and
  \<open>KEY_IOCTL_GET_CHAR\<close> succeed with the key's code and its ASCII character in user memory.
\<close>

theorem key_to_reader:
  assumes "drv_inv d" "ring_keys (kp d) = []" "i < 16" "last_scan_key (kp d) \<noteq> key2num_tbl ! i"
    and "matrix_wired (\<lambda>k. k = key_pos i) (io_reg1 env) (scan_led d)" "mapped m arg 2"
  shows "\<exists>d' m'. creator_pxa270_lcdtxt_ioctl env (command_number KEY_IOCTL_GET_CHAR) arg ((scan_tick env ^^ 2) d) m =
      Returns 0 d' m' \<and> copy_from_user m' arg 2 = Some [KeyASCIICode ! i, of_nat i]"
proof -
  let ?d = "(scan_tick env ^^ 2) d"
  have w: "scan_matrix (io_reg1 env) (scan_led d) = key2num_tbl ! i"
    by (rule scan_matrix_single [OF assms(5,3)])
  have "\<forall>i<16. key2num_tbl ! i \<noteq> 0xffff" by code_simp
  then have ne: "key2num_tbl ! i \<noteq> 0xffff" using assms(3) by blast
  obtain k where k: "key_get arg ?d m = key_to_user (?d\<lparr>kp := k\<rparr>) m arg (of_nat i)"
    using key_get_one [OF two_scans [OF assms(1,2) w [symmetric] assms(4) ne]] key2num_code [OF assms(3)] by auto
  have a: "key_ascii (of_nat i) = Some (KeyASCIICode ! i)"
    using key_ascii_code [OF assms(3)] by (simp add: key2num_code assms(3))
  let ?bs = "[KeyASCIICode ! i, of_nat i]"
  have "key_get arg ?d m = to_user (?d\<lparr>kp := k\<rparr>) m arg ?bs"
    unfolding k key_to_user_def a by (simp only: option.case u16_bytes_pair)
  moreover have "fst (copy_to_user m arg ?bs)" "copy_from_user (snd (copy_to_user m arg ?bs)) arg 2 = Some ?bs"
    using copy_to_user_mapped [of m arg ?bs] assms(6) by (simp_all flip: numeral_2_eq_2 del: copy_to_user.simps)
  ultimately show ?thesis
    by (simp add: ioctl_key_calls to_user_def case_prod_beta Let_def del: copy_to_user.simps)
qed

theorem key_to_reader_witness:
  "\<exists>d' m'. creator_pxa270_lcdtxt_ioctl (board (columns 0x0100)) (command_number KEY_IOCTL_GET_CHAR) 0
      ((scan_tick (board (columns 0x0100)) ^^ 2) fresh) (\<lambda>_. Some 0) =
      Returns 0 d' m' \<and> copy_from_user m' 0 2 = Some [KeyASCIICode ! 1, of_nat 1]"
proof (rule key_to_reader [OF fresh_inv fresh_keys(1)])
  show "last_scan_key (kp fresh) \<noteq> key2num_tbl ! 1" by (simp add: fresh_keys key2num_tbl_def)
  show "matrix_wired (\<lambda>k. k = key_pos 1) (io_reg1 (board (columns 0x0100))) (scan_led fresh)"
    using columns_wired(1) by (simp add: board_def fresh_simps)
qed (simp_all add: mapped_def)

text \<open>
  Two keys at once: the code of a chord is in no entry of \<open>key2num_tbl\<close>, so the driver stores it
  as a key, decodes it to 0xff and reads \<open>KeyASCIICode\<close> past its end; the reader's \<open>ioctl\<close> and the
  test for a waiting key alike.
\<close>

theorem chord_reads_past_table:
  assumes "drv_inv d" "ring_keys (kp d) = []"
    and "matrix_wired pressed (io_reg1 env) (scan_led d)" "pressed j" "pressed k" "j \<noteq> k" "j < 16" "k < 16"
    and "last_scan_key (kp d) \<noteq> scan_matrix (io_reg1 env) (scan_led d)"
  shows "creator_pxa270_lcdtxt_ioctl env (command_number KEY_IOCTL_GET_CHAR) arg ((scan_tick env ^^ 2) d) m = OutOfBounds \<and>
    creator_pxa270_lcdtxt_ioctl env (command_number KEY_IOCTL_CHECK_EMTPY) arg ((scan_tick env ^^ 2) d) m = OutOfBounds"
proof -
  let ?d = "(scan_tick env ^^ 2) d" and ?w = "scan_matrix (io_reg1 env) (scan_led d)"
  have inv: "Creator_key2num ?w = 0xff" by (rule scan_matrix_chord [OF assms(3-8)])
  have ne: "?w \<noteq> 0xffff" using bit_scan_matrix [OF assms(3,7)] assms(4) bit_ffff [OF assms(7)] by metis
  note ring = two_scans [OF assms(1,2) refl assms(9) ne]
  have "creator_pxa270_lcdtxt_ioctl env (command_number KEY_IOCTL_GET_CHAR) arg ?d m = OutOfBounds"
    using key_get_one [OF ring] by (auto simp: ioctl_key_calls inv key_to_user_def key_ascii_invalid)
  moreover have "fst (KEYPAD_get_key (kp ?d)) = Some 0xff"
    using KEYPAD_get_key_cons(1) [OF ring] inv by simp
  then have "KEYPAD_chk_key (kp ?d) = Some 0xff"
    by (auto simp: KEYPAD_chk_key_def KEYPAD_get_key_def Let_def split: if_splits)
  ultimately show ?thesis
    by (simp add: ioctl_key_calls key_to_user_def key_ascii_invalid)
qed

theorem chord_reads_past_table_witness:
  "creator_pxa270_lcdtxt_ioctl (board (columns 0x0300)) (command_number KEY_IOCTL_GET_CHAR) 0
     ((scan_tick (board (columns 0x0300)) ^^ 2) fresh) Map.empty = OutOfBounds \<and>
   creator_pxa270_lcdtxt_ioctl (board (columns 0x0300)) (command_number KEY_IOCTL_CHECK_EMTPY) 0
     ((scan_tick (board (columns 0x0300)) ^^ 2) fresh) Map.empty = OutOfBounds"
proof (rule chord_reads_past_table [OF fresh_inv fresh_keys(1), of "\<lambda>k. k = 0 \<or> k = 1" _ 0 1])
  show wired: "matrix_wired (\<lambda>k. k = 0 \<or> k = 1) (io_reg1 (board (columns 0x0300))) (scan_led fresh)"
    using columns_wired(2) by (simp add: board_def fresh_simps)
  show "last_scan_key (kp fresh) \<noteq> scan_matrix (io_reg1 (board (columns 0x0300))) (scan_led fresh)"
    using bit_scan_matrix [OF wired, of 0] bit_ffff [of 0] unfolding fresh_keys(2) by auto
qed simp_all

text \<open>
  \<open>write\<close> puts its bytes on the screen as on the terminal, a zero byte for each address that
  faults, and reports \<open>count\<close>.
\<close>

theorem write_shows_text:
  assumes "displays (lcd d) t"
  shows "\<exists>d'. creator_pxa270_lcdtxt_write buf count d m = Returns (sint count) d' m \<and>
    displays (lcd d') (t_puts (map (\<lambda>i. get_user m (buf + of_nat i)) [0..<unat count]) t)"
proof -
  let ?cs = "map (\<lambda>i. get_user m (buf + of_nat i)) [0..<unat count]"
  obtain s where "LCD_puts ?cs (lcd d) = Some s" "displays s (t_puts ?cs t)"
    using displays_puts [OF assms, of ?cs] by blast
  then show ?thesis by (simp add: creator_pxa270_lcdtxt_write_def with_txt_def)
qed

theorem write_shows_text_witness:
  "\<exists>d'. creator_pxa270_lcdtxt_write 16 2 (fresh\<lparr>lcd := Initial_LCD lcdtxt_bss\<rparr>) [16 \<mapsto> 0x48] =
      Returns (sint (2 :: u32)) d' [16 \<mapsto> 0x48] \<and>
    displays (lcd d') (t_puts (map (\<lambda>i. get_user [16 \<mapsto> 0x48] (16 + of_nat i)) [0..<unat (2 :: u32)]) t_clear)"
  by (rule write_shows_text) (simp add: displays_Initial_LCD [OF panel_reset_idle])

text \<open>
  C25: \<open>EEPROM_IOCTL_SET\<close> and the pins. Once its argument is copied, the call answers 0 whatever happens on the bus, and writes
  nothing to \<open>IO_REG0\<close> itself: the values it gives the shadow reach the pins only as far as the segment
  interrupt copies them, \<open>k\<close> times during each delay, mixed with the digits. A listener that samples the
  data line at the rising clock while selected receives exactly the frames of the values that were
  copied. If at least one interrupt falls into every delay, these are the three frames of a write,
  eighteen bits each, most significant first: write enable, the write with address and data, write
  disable; whatever the digits show and the chip answers. If the interrupt is not running, as after
  \<open>SEG_IOCTL_OFF\<close>, nothing at all reaches the chip.
\<close>

theorem eeprom_write_on_pins:
  assumes "drv_inv d" "copy_from_user m arg sizeof_short = Some [addr, byte]"
  shows "\<exists>d' ios. creator_pxa270_lcdtxt_ioctl env (command_number EEPROM_IOCTL_SET) arg d m = Returns 0 d' m \<and>
    reg0_pins d' = reg0_pins d \<and> ee_shadows (ee d') = ee_shadows (ee d) @ ios \<and>
    (\<forall>ks prev. length ks = length ios \<longrightarrow>
      ee_frames prev [] (pins_during ks ios (seg d)) = ee_frames prev [] (caught ks ios) \<and>
      ((\<forall>k\<in>set ks. 0 < k) \<longrightarrow> ee_frames prev [] (pins_during ks ios (seg d)) =
        map (msb_bits 18) [EE_CMD_EWEN, EE_CMD_WRITE OR push_bit 8 (ucast addr) OR ucast byte, EE_CMD_EWDS]) \<and>
      ((\<forall>k\<in>set ks. k = 0) \<longrightarrow> pins_during ks ios (seg d) = []))"
proof -
  let ?d = "d\<lparr>ee := EE_WRITE (cpld_status env) addr byte (ee d)\<rparr>"
  have "ee_idle (ee_io (ee d))" using assms(1) by (simp add: drv_inv_def)
  from EE_WRITE_frames [OF this] obtain ios where
    "ee_shadows (ee ?d) = ee_shadows (ee d) @ ios"
    "\<And>prev. ee_frames prev [] ios =
      map (msb_bits 18) [EE_CMD_EWEN, EE_CMD_WRITE OR push_bit 8 (ucast addr) OR ucast byte, EE_CMD_EWDS]"
    by fastforce
  then show ?thesis
    using ioctl_eeprom_set [OF assms(2)] ee_frames_pins [OF drv_inv_seg7 [OF assms(1)]] caught_all pins_none
    by (intro exI [of _ ?d] exI [of _ ios]) auto
qed

theorem eeprom_write_on_pins_witness:
  "\<exists>d' ios. creator_pxa270_lcdtxt_ioctl (board (\<lambda>_. 0xffff)) (command_number EEPROM_IOCTL_SET) 0 fresh (\<lambda>_. Some 7) =
      Returns 0 d' (\<lambda>_. Some 7) \<and>
    ee_frames 0 [] (pins_during (map (\<lambda>_. 2) ios) ios (seg fresh)) =
      map (msb_bits 18) [EE_CMD_EWEN, EE_CMD_WRITE OR push_bit 8 (ucast (7 :: u8)) OR ucast (7 :: u8), EE_CMD_EWDS] \<and>
    pins_during (map (\<lambda>_. 0) ios) ios (seg fresh) = []"
proof -
  have "copy_from_user (\<lambda>_. Some 7) 0 sizeof_short = Some [7, 7]" by code_simp
  from eeprom_write_on_pins [OF fresh_inv this, of "board (\<lambda>_. 0xffff)"]
  obtain d' ios where io: "creator_pxa270_lcdtxt_ioctl (board (\<lambda>_. 0xffff)) (command_number EEPROM_IOCTL_SET) 0 fresh (\<lambda>_. Some 7) =
      Returns 0 d' (\<lambda>_. Some 7)"
    and fr: "\<And>ks prev. length ks = length ios \<Longrightarrow> \<forall>k\<in>set ks. 0 < k \<Longrightarrow>
      ee_frames prev [] (pins_during ks ios (seg fresh)) =
        map (msb_bits 18) [EE_CMD_EWEN, EE_CMD_WRITE OR push_bit 8 (ucast (7 :: u8)) OR ucast (7 :: u8), EE_CMD_EWDS]"
    and none: "\<And>ks. length ks = length ios \<Longrightarrow> \<forall>k\<in>set ks. k = 0 \<Longrightarrow> pins_during ks ios (seg fresh) = []"
    by blast
  from io fr [of "map (\<lambda>_. 2) ios" 0] none [of "map (\<lambda>_. 0) ios"] show ?thesis by auto
qed

section \<open>Segments, lamps and clock\<close>

lemma ioctl_seg_set:
  assumes "copy_from_user m arg sizeof_7seg_info = Some bs"
    "info = \<lparr>Mode = bs ! 0, Which = bs ! 1, Value = u32_at bs 4\<rparr>"
  shows "creator_pxa270_lcdtxt_ioctl env (command_number SEG_IOCTL_SET) arg d m =
    (let (rc, s) = SEG7_put_led info (seg d) in Returns rc (d\<lparr>seg := s\<rparr>) m)"
  using assms by (simp add: ioctl_of_command command_sizes Let_def ioctl_seg_def from_user_def
      Creator_pxa270_7Segment_cmd_def)

lemma scan_tick_clock: "scan_clock d = d\<lparr>tick_count := tick_count (scan_clock d),
    tick_sec := tick_sec (scan_clock d), tick_min := tick_min (scan_clock d), tick_hour := tick_hour (scan_clock d)\<rparr>"
  by (simp add: scan_clock_def Let_def)

lemma scan_clock_cong:
  assumes "tick_count d = tick_count e" "tick_sec d = tick_sec e" "tick_min d = tick_min e" "tick_hour d = tick_hour e"
  shows "tick_count (scan_clock d) = tick_count (scan_clock e)" "tick_sec (scan_clock d) = tick_sec (scan_clock e)"
    "tick_min (scan_clock d) = tick_min (scan_clock e)" "tick_hour (scan_clock d) = tick_hour (scan_clock e)"
  using assms by (simp_all add: scan_clock_def Let_def)

lemma scan_tick_time:
  "drv_time (scan_tick env d) = drv_time (scan_clock d)" "clock_ok (scan_tick env d) = clock_ok (scan_clock d)"
proof -
  obtain d1 where "scan_tick env d = (scan_clock d1)\<lparr>scan_timer_added := True, byScanning := TRUE\<rparr>"
    "tick_count d1 = tick_count d" "tick_sec d1 = tick_sec d" "tick_min d1 = tick_min d" "tick_hour d1 = tick_hour d"
    by (rule that [of "fst (if keypad_overflow (kp d) then (d\<lparr>scan_timer_added := False, byScanning := UM\<rparr>, False)
             else let (k, woke) = scan_code (scan_matrix (io_reg1 env) (scan_led d)) (kp d)
                  in (d\<lparr>scan_timer_added := False, byScanning := UM, kp := k,
                        reg2_pins := last (scan_selects (scan_led d))\<rparr>, woke))"])
      (simp_all add: ScanTimer_def Let_def case_prod_beta)
  with scan_clock_cong [of d1 d] show
    "drv_time (scan_tick env d) = drv_time (scan_clock d)" "clock_ok (scan_tick env d) = clock_ok (scan_clock d)"
    by (simp_all add: drv_time_def clock_ok_def)
qed

lemma scan_clock_time:
  "clock_ok d \<Longrightarrow> clock_ok (scan_clock d) \<and> drv_time (scan_clock d) = (drv_time d + 1) mod (256 * 18000)"
  using scan_clock_run [of d 1] by simp

section \<open>A reader that sleeps\<close>

text \<open>
  \<open>KEY_IOCTL_WAIT_CHAR\<close> tests for a key and then calls \<open>interruptible_sleep_on\<close>, which enters the
  wait queue. The timer may expire between the two. \<open>wake_up_interruptible\<close> wakes those in the queue
  at that moment. The relation has one reader and the timer: the two other ways to wake a reader,
  \<open>KEY_IOCTL_CANCEL_WAIT_CHAR\<close> from another process and a signal, are not steps of it.
\<close>

datatype reader = Calling | Found_none | Queued | Awake

inductive wait_step :: "lcd_env \<Rightarrow> reader \<times> lcd_drv \<Rightarrow> reader \<times> lcd_drv \<Rightarrow> bool" for env where
  test_none: "KEYPAD_chk_key (kp d) = None \<Longrightarrow> wait_step env (Calling, d) (Found_none, d)"
| test_key: "KEYPAD_chk_key (kp d) \<noteq> None \<Longrightarrow> wait_step env (Calling, d) (Awake, d)"
| sleep_on: "wait_step env (Found_none, d) (Queued, d)"
| expiry: "ScanTimer env d = (d', woke) \<Longrightarrow>
    wait_step env (r, d) (if r = Queued \<and> woke then Awake else r, d')"

inductive_cases wait_queued: "wait_step env (Queued, d) s"

lemma scan_wakes_iff:
  "snd (ScanTimer env d) \<longleftrightarrow> \<not> keypad_overflow (kp d) \<and>
     (let w = scan_matrix (io_reg1 env) (scan_led d)
      in last_scan_key (kp d) = w \<and> \<not> settled (kp d) \<and> w \<noteq> 0xffff)"
  by (simp add: ScanTimer_def Let_def case_prod_beta scan_code_woken)

text \<open>While the switches do not change, a scan that has settled wakes nobody.\<close>

definition held :: "lcd_env \<Rightarrow> lcd_drv \<Rightarrow> bool" where
  "held env d \<longleftrightarrow> last_scan_key (kp d) = scan_matrix (io_reg1 env) (scan_led d) \<and> settled (kp d) \<and> ring_keys (kp d) \<noteq> []"

lemma held_tick:
  assumes "held env d"
  shows "held env (scan_tick env d)" "\<not> snd (ScanTimer env d)"
proof -
  have "fst (scan_keys (last_scan_key (kp d)) (kp d)) = kp d"
    using assms by (simp add: held_def scan_keys_def scan_code_def settled_def)
  then show "held env (scan_tick env d)" using assms by (simp add: held_def scan_tick_kp)
  show "\<not> snd (ScanTimer env d)" using assms by (simp add: held_def scan_wakes_iff Let_def)
qed

lemma queued_stays:
  assumes "(wait_step env)\<^sup>*\<^sup>* s t" "fst s = Queued" "held env (snd s)"
  shows "fst t = Queued \<and> held env (snd t)"
  using assms
proof (induction rule: rtranclp_induct)
  case base
  then show ?case by simp
next
  case (step t u)
  then have t: "t = (Queued, snd t)" "held env (snd t)" by (auto simp: prod_eq_iff)
  from step.hyps(2) have "wait_step env (Queued, snd t) u" using t(1) by simp
  then show ?case
    by (rule wait_queued) (use held_tick [OF t(2)] in auto)
qed

section \<open>More properties\<close>

text \<open>
  C17: the seven-segment display end to end: after \<open>SEG_IOCTL_SET\<close> in hexadecimal mode, over any four
  timer interrupts digit \<open>3 - j\<close> shows, if bit \<open>j\<close> of \<open>which\<close> selects it, the glyph of its nibble of the
  value (the nibbles go to the selected digits in turn), and what it showed before otherwise; no
  digit ever shows another's segments.
\<close>

theorem seven_segments_show:
  assumes "drv_inv d" "copy_from_user m arg sizeof_7seg_info = Some bs" "bs ! 0 = SEG_MODE_HEX_VALUE" "j < 4"
  shows "\<exists>d'. creator_pxa270_lcdtxt_ioctl env (command_number SEG_IOCTL_SET) arg d m = Returns 0 d' m \<and>
    (\<Union>k<4. seg_shown (reg0_pins ((segment_timer_irq ^^ Suc k) d')) (3 - j)) =
      segments (if bit (bs ! 1) j then LED_tbl ! (unat (u32_at bs 4) div 16 ^ selected (bs ! 1) j mod 16)
                else seven_seg_buf (seg d) ! (3 - j))"
proof -
  let ?info = "\<lparr>Mode = bs ! 0, Which = bs ! 1, Value = u32_at bs 4\<rparr>"
  let ?d = "d\<lparr>seg := snd (SEG7_put_led ?info (seg d))\<rparr>"
  have rc: "fst (SEG7_put_led ?info (seg d)) = 0"
    using assms(3) by (simp add: SEG7_put_led_def SEG_MODE_HEX_VALUE_def SEG_MODE_PATTERN_def)
  have buf: "seven_seg_buf (seg ?d) ! (3 - j) =
      (if bit (bs ! 1) j then LED_tbl ! (unat (u32_at bs 4) div 16 ^ selected (bs ! 1) j mod 16)
       else seven_seg_buf (seg d) ! (3 - j))"
    using put_led_hex [OF drv_inv_seg7 [OF assms(1)], of ?info j] assms(3,4) by simp
  have "drv_inv ?d" using assms(1) by (intro drv_inv_seg put_led_wf drv_inv_seg7)
  then have "(\<Union>k<4. seg_shown (reg0_pins ((segment_timer_irq ^^ Suc k) ?d)) (3 - j)) =
      segments (seven_seg_buf (seg ?d) ! (3 - j))"
    by (rule four_irqs_show) simp
  moreover have "creator_pxa270_lcdtxt_ioctl env (command_number SEG_IOCTL_SET) arg d m = Returns 0 ?d m"
    unfolding ioctl_seg_set [OF assms(2) refl] case_prod_beta Let_def rc ..
  ultimately show ?thesis unfolding buf by blast
qed

theorem seven_segments_show_witness:
  "\<exists>d'. creator_pxa270_lcdtxt_ioctl (board (\<lambda>_. 0xffff)) (command_number SEG_IOCTL_SET) 0 fresh (\<lambda>_. Some 1) = Returns 0 d' (\<lambda>_. Some 1) \<and>
    (\<Union>k<4. seg_shown (reg0_pins ((segment_timer_irq ^^ Suc k) d')) (3 - 0)) =
      segments (if bit (replicate 8 (1 :: u8) ! 1) 0
        then LED_tbl ! (unat (u32_at (replicate 8 1) 4) div 16 ^ selected (replicate 8 (1 :: u8) ! 1) 0 mod 16)
        else seven_seg_buf (seg fresh) ! (3 - 0))"
  by (rule seven_segments_show [OF fresh_inv])
    (simp_all add: copy_from_user_Some sizeof_7seg_info_def SEG_MODE_HEX_VALUE_def)

text \<open>
  C18: the lamp commands: \<open>LED_IOCTL_SET\<close> lights the lamps of the low byte of its argument,
  \<open>LED_IOCTL_BIT_SET\<close> and \<open>LED_IOCTL_BIT_CLEAR\<close> add and remove one lamp, and the word written to the
  port shows the same lamps. The lamp number is the argument cut to eight bits before the range
  check, so 256 is accepted and means lamp 0; only a low byte of 8 or more is refused.
\<close>

theorem lamp_commands:
  assumes "copy_from_user m arg sizeof_short = Some (u16_bytes v)"
  shows "(\<exists>d'. creator_pxa270_lcdtxt_ioctl env (command_number LED_IOCTL_SET) arg d m = Returns 0 d' m \<and>
      lamps (scan_led d') = {i. i < 8 \<and> bit v i} \<and> lamps (reg2_pins d') = lamps (scan_led d')) \<and>
    (if unat v mod 256 < 8
     then (\<exists>d'. creator_pxa270_lcdtxt_ioctl env (command_number LED_IOCTL_BIT_SET) arg d m = Returns 0 d' m \<and>
        lamps (scan_led d') = insert (unat v mod 256) (lamps (scan_led d)) \<and> lamps (reg2_pins d') = lamps (scan_led d')) \<and>
       (\<exists>d'. creator_pxa270_lcdtxt_ioctl env (command_number LED_IOCTL_BIT_CLEAR) arg d m = Returns 0 d' m \<and>
        lamps (scan_led d') = lamps (scan_led d) - {unat v mod 256} \<and> lamps (reg2_pins d') = lamps (scan_led d'))
     else creator_pxa270_lcdtxt_ioctl env (command_number LED_IOCTL_BIT_SET) arg d m = Returns (- EINVAL) d m \<and>
       creator_pxa270_lcdtxt_ioctl env (command_number LED_IOCTL_BIT_CLEAR) arg d m = Returns (- EINVAL) d m)"
proof -
  have u: "unat (ucast v :: u8) = unat v mod 256"
    by (simp add: unsigned_ucast_eq take_bit_nat_def)
  have s: "lamps (push_bit 8 (NOT (ucast (ucast v :: u8)))) = {i. i < 8 \<and> bit v i}"
    unfolding lamps_set by (auto simp: bit_ucast_iff)
  have c: "creator_pxa270_lcdtxt_ioctl env (command_number LED_IOCTL_SET) arg d m = ioctl_led LED_SET arg sizeof_short d m"
    "creator_pxa270_lcdtxt_ioctl env (command_number LED_IOCTL_BIT_SET) arg d m = ioctl_led LED_BIT_SET arg sizeof_short d m"
    "creator_pxa270_lcdtxt_ioctl env (command_number LED_IOCTL_BIT_CLEAR) arg d m = ioctl_led LED_BIT_CLEAR arg sizeof_short d m"
    by (simp_all add: ioctl_of_command command_sizes Let_def)
  note led = ioctl_led_def from_user_def assms u16_at_bytes Creator_pxa270_led_cmd_def Let_def lamps_select
  show ?thesis
  proof (intro conjI)
    show "\<exists>d'. creator_pxa270_lcdtxt_ioctl env (command_number LED_IOCTL_SET) arg d m = Returns 0 d' m \<and>
      lamps (scan_led d') = {i. i < 8 \<and> bit v i} \<and> lamps (reg2_pins d') = lamps (scan_led d')"
      unfolding c by (simp add: led s)
  qed (use lamps_bit_set [of "ucast v"] lamps_bit_clear [of "ucast v"] in
      \<open>auto simp: c led u\<close>)
qed

theorem lamp_commands_witness:
  "\<exists>d'. creator_pxa270_lcdtxt_ioctl (board (\<lambda>_. 0xffff)) (command_number LED_IOCTL_BIT_SET) 0 fresh [0 \<mapsto> 0, 1 \<mapsto> 1] =
      Returns 0 d' [0 \<mapsto> 0, 1 \<mapsto> 1] \<and> lamps (scan_led d') = insert 0 (lamps (scan_led fresh))"
proof -
  let ?m = "[0 \<mapsto> 0, 1 \<mapsto> 1] :: umem"
  have "copy_from_user ?m 0 sizeof_short = Some (u16_bytes 256)"
    unfolding copy_from_user_Some sizeof_short_def u16_bytes_def by (auto simp: less_2_cases_iff)
  note lamp = lamp_commands [OF this, of "board (\<lambda>_. 0xffff)" fresh]
  have "unat (256 :: u16) mod 256 = 0" and lt: "(0 :: nat) < 8" by simp_all
  from lamp [THEN conjunct2, unfolded this(1), unfolded if_P [OF lt], THEN conjunct1]
  show ?thesis by (elim ex_forward conjE) (intro conjI; assumption)
qed

text \<open>
  The clock: from a time of day whose minutes and seconds are below sixty, each scan adds a fifth
  of a second and carries; but nothing resets the hours at 24, so the time repeats after 256 hours.
\<close>

theorem clock_counts_scans:
  assumes "clock_ok d"
  shows "clock_ok ((scan_tick env ^^ n) d) \<and> drv_time ((scan_tick env ^^ n) d) = (drv_time d + n) mod (256 * 18000)"
proof (induction n)
  case 0
  then show ?case using scan_clock_run [OF assms, of 0] assms by simp
next
  case (Suc n)
  then show ?case using scan_clock_time [of "(scan_tick env ^^ n) d"] by (simp add: scan_tick_time mod_Suc_eq)
qed

theorem clock_counts_scans_witness:
  "drv_time ((scan_tick (board (\<lambda>_. 0xffff)) ^^ (25 * 18000)) fresh) = 25 * 18000"
  using clock_counts_scans [OF fresh_simps(3), where env = "board (\<lambda>_. 0xffff)" and n = "25 * 18000"]
  unfolding fresh_simps(4) by simp

text \<open>
  C19: a wake-up can be lost: a reader that has tested for a key and is not yet in the wait queue when
  the press is stored enters the queue afterwards, and sleeps there with the key in the ring for as
  long as the switches stay as they are, however often the timer expires.
\<close>

theorem wakeup_can_be_lost:
  assumes "drv_inv d" "ring_keys (kp d) = []" "w = scan_matrix (io_reg1 env) (scan_led d)"
    and "last_scan_key (kp d) \<noteq> w" "w \<noteq> 0xffff"
  shows "\<exists>s. (wait_step env)\<^sup>*\<^sup>* (Calling, d) s \<and> ring_keys (kp (snd s)) = [w] \<and>
    (\<forall>t. (wait_step env)\<^sup>*\<^sup>* s t \<longrightarrow> fst t = Queued \<and> ring_keys (kp (snd t)) \<noteq> [])"
proof -
  let ?d1 = "scan_tick env d"
  let ?d2 = "scan_tick env ?d1"
  have ring: "ring_keys (kp ?d2) = [w]"
    using two_scans(2) [OF assms] by (simp add: numeral_2_eq_2)
  have "KEYPAD_chk_key (kp d) = None"
    using assms(2) ring_empty_iff [OF drv_inv_ring [OF assms(1)]] by (simp add: KEYPAD_chk_key_def)
  moreover have "wait_step env (Found_none, e) (Found_none, scan_tick env e)" for e
    using expiry [of env e "fst (ScanTimer env e)" "snd (ScanTimer env e)" Found_none] by simp
  ultimately have reach: "(wait_step env)\<^sup>*\<^sup>* (Calling, d) (Queued, ?d2)"
    by (meson sleep_on test_none converse_rtranclp_into_rtranclp rtranclp.rtrancl_refl)
  have "\<not> keypad_overflow (kp d)"
    using overflow_full [OF drv_inv_ring [OF assms(1)]] assms(2) by simp
  moreover have "\<not> keypad_overflow (kp ?d1)"
  proof
    assume full: "keypad_overflow (kp ?d1)"
    then have "kp ?d2 = kp ?d1" by (simp add: scan_tick_kp(1) [of env ?d1] scan_keys_def)
    then show False
      using full ring overflow_full [OF drv_inv_ring [OF inv_ScanTimer [OF assms(1)]], of env] by simp
  qed
  ultimately have "kp ?d1 = fst (scan_code w (kp d))" "kp ?d2 = fst (scan_code w (kp ?d1))"
    using assms(3) by (simp_all add: scan_tick_kp scan_keys_def)
  then have "last_scan_key (kp ?d2) = w" "settled (kp ?d2)"
    by (simp_all add: scan_code_last scan_code_settled)
  then have "held env ?d2" using ring assms(3) by (simp add: held_def scan_tick_kp(2))
  then have "\<forall>t. (wait_step env)\<^sup>*\<^sup>* (Queued, ?d2) t \<longrightarrow> fst t = Queued \<and> ring_keys (kp (snd t)) \<noteq> []"
    using queued_stays [of env "(Queued, ?d2)"] unfolding held_def by simp
  then show ?thesis using reach ring by (intro exI [of _ "(Queued, ?d2)"]) simp
qed

theorem wakeup_can_be_lost_witness:
  "\<exists>s. (wait_step (board (columns 0x0100)))\<^sup>*\<^sup>* (Calling, fresh) s \<and> ring_keys (kp (snd s)) = [0xfffe] \<and>
    (\<forall>t. (wait_step (board (columns 0x0100)))\<^sup>*\<^sup>* s t \<longrightarrow> fst t = Queued \<and> ring_keys (kp (snd t)) \<noteq> [])"
proof (rule wakeup_can_be_lost [OF fresh_inv fresh_keys(1)])
  have "matrix_wired (\<lambda>k. k = key_pos 1) (io_reg1 (board (columns 0x0100))) (scan_led fresh)"
    using columns_wired(1) by (simp add: board_def fresh_simps)
  from scan_matrix_single [OF this] show "0xfffe = scan_matrix (io_reg1 (board (columns 0x0100))) (scan_led fresh)"
    by (simp add: key2num_tbl_def)
qed (simp_all add: fresh_keys)

section \<open>Properties\<close>

lemma t_puts_append: "t_puts (cs @ ds) t = t_puts ds (t_puts cs t)"
  by (simp add: t_puts_def)

text \<open>
  C3: the calculator on the driver, for expressions whose numbers are at most 207 (a number is kept in
  one \<open>char\<close>), that take at most 20 keys (the size of the two buffers) and whose value lies between 0
  and 1023 (beyond, the binary number written in decimal leaves \<open>int\<close>, and a negative value goes to
  the segments in another way). Typing such an expression makes the program send a run of requests
  which, served by the driver with any timer activity in between, leave the keys and the value on the
  text display, the four lowest decimal digits of the value on the seven segments and its low eight
  bits on the lamps, lamp 7 the lowest.
\<close>

theorem calculator_on_driver:
  assumes "drv_inv d" "displays (lcd d) t" "lab3_room s"
    and "numbers_fit (pairs_of e)" "length (typed (pairs_of e)) \<le> 20"
    and "eval_expr e = Some v" "0 \<le> v" "v < 1024"
  shows "\<exists>s' rs. lab3_keys (map key_for (typed (pairs_of e))) s = Inr (s', rs) \<and>
    (\<forall>d'. served env rs d d' \<longrightarrow>
      displays (lcd d') (t_puts (typed (pairs_of e) @ dec v) t) \<and>
      (\<forall>j<4. seven_seg_buf (seg d') ! (3 - j) = LED_tbl ! (nat v div 10 ^ j mod 10)) \<and>
      lamps (scan_led d') = {i. i < 8 \<and> bit (nat v) (7 - i)})"
proof -
  let ?echo = "map (\<lambda>ch. LcdWrite [ch]) (typed (pairs_of e))"
  let ?hex = "int (value_in 16 (dec_nat (nat v)))"
  let ?rs = "?echo @ [LcdWrite (dec v), seg_hex SEG_ALL ?hex] @ print_led v"
  define d1 where "d1 = fold (request_effect env) ?echo d"
  define d2 where "d2 = request_effect env (LcdWrite (dec v)) d1"
  define d3 where "d3 = request_effect env (seg_hex SEG_ALL ?hex) d2"
  define d4 where "d4 = fold (request_effect env) (print_led v) d3"
  have d4: "fold (request_effect env) ?rs d = d4"
    by (simp add: d1_def d2_def d3_def d4_def del: request_effect.simps)
  obtain s' where keys: "lab3_keys (map key_for (typed (pairs_of e))) s = Inr (s', ?rs)"
    using lab3_answer [OF assms(3-7)] assms(8) by auto
  have "displays (lcd d1) (t_puts (typed (pairs_of e)) t)" and seg1: "seg d1 = seg d"
    using echo_effect [OF assms(2)] by (simp_all add: d1_def)
  from write_effect [OF this(1), of env "dec v"] seg1
  have lcd2: "displays (lcd d2) (t_puts (typed (pairs_of e) @ dec v) t)" and seg2: "seg d2 = seg d"
    by (simp_all add: d2_def t_puts_append del: request_effect.simps)
  have "nat v < 10 ^ 7" using assms(8) by simp
  from value_16_bound [OF this] have hex: "0 \<le> ?hex" "?hex < 2 ^ 32" by simp_all
  have wf: "seg7_wf (seg d2)" using drv_inv_seg7 [OF assms(1)] by (simp add: seg2)
  have lcd3: "lcd d3 = lcd d2" by (simp add: d3_def seg_hex_def)
  have seg3: "seven_seg_buf (seg d3) ! (3 - j) = LED_tbl ! (nat v div 10 ^ j mod 10)" if "j < 4" for j
    using seg_hex_effect [OF wf hex that, of env] unfolding d3_def nat_int value_16_digit .
  have small: "\<bar>v\<bar> < 1024" using assms(7,8) by simp
  note led = print_led_effect [OF small d4_def]
  have "displays (lcd d') (t_puts (typed (pairs_of e) @ dec v) t) \<and>
      (\<forall>j<4. seven_seg_buf (seg d') ! (3 - j) = LED_tbl ! (nat v div 10 ^ j mod 10)) \<and>
      lamps (scan_led d') = {i. i < 8 \<and> bit (nat v) (7 - i)}" if "served env ?rs d d'" for d'
  proof -
    have "same_view d' d4" using served_view [OF that assms(1)] unfolding d4 by blast
    then show ?thesis using led lcd2 lcd3 seg3 assms(7) by (simp add: same_view_def)
  qed
  with keys show ?thesis by blast
qed

text \<open>The screen after power-on, and room for the keys.\<close>

lemma fresh_screen:
  "drv_inv (fresh\<lparr>lcd := Initial_LCD lcdtxt_bss\<rparr>)"
  "displays (lcd (fresh\<lparr>lcd := Initial_LCD lcdtxt_bss\<rparr>)) t_clear"
  by (simp_all add: drv_inv_lcd [OF fresh_inv] sized_Initial_LCD displays_Initial_LCD [OF panel_reset_idle])

theorem calculator_on_driver_witness:
  "\<exists>s' rs. lab3_keys (map key_for (typed (pairs_of ((2, []), [(True, (3, [(True, 4)]))]))))
      \<lparr>c_typed = replicate 20 0, c_new = replicate 20 0, index_c = 0\<rparr> = Inr (s', rs) \<and>
    (\<forall>d'. served (board (\<lambda>_. 0xffff)) rs (fresh\<lparr>lcd := Initial_LCD lcdtxt_bss\<rparr>) d' \<longrightarrow>
      displays (lcd d') (t_puts (typed (pairs_of ((2, []), [(True, (3, [(True, 4)]))])) @ dec 14) t_clear) \<and>
      (\<forall>j<4. seven_seg_buf (seg d') ! (3 - j) = LED_tbl ! (nat 14 div 10 ^ j mod 10)) \<and>
      lamps (scan_led d') = {i. i < 8 \<and> bit (nat 14) (7 - i)})"
proof (rule calculator_on_driver [OF fresh_screen])
  let ?e = "((2, []), [(True, (3, [(True, 4)]))]) :: calc_expr"
  show "numbers_fit (pairs_of ?e)" by (simp add: pairs_of_def)
  show "length (typed (pairs_of ?e)) \<le> 20" by code_simp
  show "eval_expr ?e = Some 14" by code_simp
qed (simp_all add: lab3_room_def)

end
