(* ===== verification/Irq.thy ===== *)
theory Irq
  imports Board
begin

text \<open>
  The board interrupts of \<open>arch/arm/mach-pxa/creator-pxa270-irq.c\<close>: acknowledging, masking and
  unmasking the two groups behind the CPLD, the two demultiplexers, the timer interrupts 4 to 11, and
  the set-up of the interrupt table.

  Register accesses are recorded as in \<open>Board\<close>. The kernel's \<open>desc_handle_irq\<close> is a parameter
  \<open>handle\<close>: what handling an interrupt does to the record of accesses. An expression that reads two
  registers reads them from left to right.
\<close>

section \<open>Interrupt numbers\<close>

definition IRQ_GPIO0 :: nat where "IRQ_GPIO0 = 8"
definition PXA_INTERNAL_IRQS :: nat where "PXA_INTERNAL_IRQS = 34"
definition PXA_LAST_GPIO :: nat where "PXA_LAST_GPIO = 127"

definition IRQ_GPIO :: "nat \<Rightarrow> nat" where
  "IRQ_GPIO x = (if x < 2 then IRQ_GPIO0 + x else x - 2 + PXA_INTERNAL_IRQS)"

definition IRQ_BOARD_START :: nat where "IRQ_BOARD_START = IRQ_GPIO PXA_LAST_GPIO + 1"
definition CREATOR_IRQ :: "nat \<Rightarrow> nat" where "CREATOR_IRQ x = IRQ_BOARD_START + x"

definition CREATOR_TOUCH_IRQ :: nat where "CREATOR_TOUCH_IRQ = CREATOR_IRQ 1"
definition CREATOR_CF_IRQ :: nat where "CREATOR_CF_IRQ = CREATOR_IRQ 2"
definition CREATOR_IO_XIRQ2_IRQ :: nat where "CREATOR_IO_XIRQ2_IRQ = CREATOR_IRQ 6"
definition CREATOR_IO_XIRQ3_IRQ :: nat where "CREATOR_IO_XIRQ3_IRQ = CREATOR_IRQ 7"
definition CREATOR_CFI_IRQ :: nat where "CREATOR_CFI_IRQ = CREATOR_IRQ 8"
definition CREATOR_CFO_IRQ :: nat where "CREATOR_CFO_IRQ = CREATOR_IRQ 9"
definition CREATOR_MMCI_IRQ :: nat where "CREATOR_MMCI_IRQ = CREATOR_IRQ 10"
definition CREATOR_MMCO_IRQ :: nat where "CREATOR_MMCO_IRQ = CREATOR_IRQ 11"
definition CREATOR_OST_4_IRQ :: nat where "CREATOR_OST_4_IRQ = CREATOR_IRQ 16"
definition CREATOR_OST_11_IRQ :: nat where "CREATOR_OST_11_IRQ = CREATOR_IRQ 23"
definition EXT_CF_IRQ :: nat where "EXT_CF_IRQ = CREATOR_IRQ 24"
definition EXT_SLAVE_IRQ :: nat where "EXT_SLAVE_IRQ = CREATOR_IRQ 25"
definition EXT_CCD_IRQ :: nat where "EXT_CCD_IRQ = CREATOR_IRQ 27"

lemmas irq_numbers = IRQ_GPIO0_def PXA_INTERNAL_IRQS_def PXA_LAST_GPIO_def IRQ_GPIO_def
  IRQ_BOARD_START_def CREATOR_IRQ_def CREATOR_TOUCH_IRQ_def CREATOR_CF_IRQ_def
  CREATOR_IO_XIRQ2_IRQ_def CREATOR_IO_XIRQ3_IRQ_def CREATOR_CFI_IRQ_def CREATOR_CFO_IRQ_def
  CREATOR_MMCI_IRQ_def CREATOR_MMCO_IRQ_def CREATOR_OST_4_IRQ_def CREATOR_OST_11_IRQ_def
  EXT_CF_IRQ_def EXT_SLAVE_IRQ_def EXT_CCD_IRQ_def

section \<open>The external interrupt group\<close>

definition creator_get_irq_extirq3 :: "device \<Rightarrow> nat \<Rightarrow> board \<Rightarrow> nat \<times> board" where
  "creator_get_irq_extirq3 hw extirq3_subid s =
     (let (v, s1) = creator_GetCreatorCPLDVersion hw s
      in if 0x14 \<le> unat v then (extirq3_subid, s1)
         else let s2 = s1\<lparr>cpld_ctrl := cpld_ctrl s1 OR 0x40\<rparr>
              in (CREATOR_IO_XIRQ3_IRQ, put_reg CPLD_CTRL (cpld_ctrl s2) s2))"

definition creator_ack_extirq3 :: "nat \<Rightarrow> access list \<Rightarrow> access list" where
  "creator_ack_extirq3 irqno l = wr IRQ3_PEND (push_bit (irqno - EXT_CF_IRQ) 1) l"

definition creator_mask_extirq3 :: "device \<Rightarrow> nat \<Rightarrow> access list \<Rightarrow> access list" where
  "creator_mask_extirq3 hw irqno l =
     (let (m, l1) = rd hw IRQ3_MASK l in wr IRQ3_MASK (m OR push_bit (irqno - EXT_CF_IRQ) 1) l1)"

section \<open>The group behind GPIO 1\<close>

definition creator_ack_irq_gpio1 :: "nat \<Rightarrow> access list \<Rightarrow> access list" where
  "creator_ack_irq_gpio1 irqno l =
     (if irqno < CREATOR_CFI_IRQ then wr MASTER_INTPEND1 (push_bit (irqno - CREATOR_IRQ 0) 1) l
      else wr MASTER_INTPEND2 (push_bit (irqno - CREATOR_IRQ 8) 1) l)"

definition creator_mask_irq_gpio1 :: "device \<Rightarrow> nat \<Rightarrow> access list \<Rightarrow> access list" where
  "creator_mask_irq_gpio1 hw irqno l =
     (if irqno < CREATOR_CFI_IRQ
      then let (m, l1) = rd hw MASTER_INTMASK1 l
           in wr MASTER_INTMASK1 (m OR push_bit (irqno - CREATOR_IRQ 0) 1) l1
      else let (m, l1) = rd hw MASTER_INTMASK2 l
           in wr MASTER_INTMASK2 (m OR push_bit (irqno - CREATOR_IRQ 8) 1) l1)"

definition creator_unmask_irq_gpio1 :: "device \<Rightarrow> nat \<Rightarrow> access list \<Rightarrow> access list" where
  "creator_unmask_irq_gpio1 hw irqno l =
     (if irqno < CREATOR_CFI_IRQ
      then let (m, l1) = rd hw MASTER_INTMASK1 l
           in wr MASTER_INTMASK1 (m AND NOT (push_bit (irqno - CREATOR_IRQ 0) 1)) l1
      else let (m, l1) = rd hw MASTER_INTMASK2 l
           in wr MASTER_INTMASK2 (m AND NOT (push_bit (irqno - CREATOR_IRQ 8) 1)) l1)"

definition creator_unmask_extirq3 :: "device \<Rightarrow> nat \<Rightarrow> access list \<Rightarrow> access list" where
  "creator_unmask_extirq3 hw irqno l =
     (let (m, l1) = rd hw IRQ3_MASK l
      in creator_unmask_irq_gpio1 hw CREATOR_IO_XIRQ3_IRQ
           (wr IRQ3_MASK (m AND NOT (push_bit (irqno - EXT_CF_IRQ) 1)) l1))"

section \<open>Demultiplexing\<close>

text \<open>The inner \<open>do ... while (pending)\<close>: one handler call for each bit, lowest first.\<close>

function handle_bits :: "(nat \<Rightarrow> access list \<Rightarrow> access list) \<Rightarrow> nat \<Rightarrow> u32 \<Rightarrow> access list \<Rightarrow> access list" where
  "handle_bits handle irqno pending l =
     (let l1 = (if pending AND 1 \<noteq> 0 then handle irqno l else l);
          pending1 = drop_bit 1 pending
      in if pending1 \<noteq> 0 then handle_bits handle (irqno + 1) pending1 l1 else l1)"
  by pat_completeness auto

lemma drop_bit_less: "drop_bit 1 p \<noteq> 0 \<Longrightarrow> unat (drop_bit 1 (p :: u32)) < unat p"
  by (cases "p = 0") (auto simp: unat_drop_bit_eq drop_bit_nat_def unat_gt_0)

termination handle_bits
  by (relation "measure (\<lambda>(h, i, p, l). unat p)") (auto simp: drop_bit_less [simplified])

declare handle_bits.simps [simp del]

definition ext_pending :: "device \<Rightarrow> access list \<Rightarrow> u32 \<times> access list" where
  "ext_pending hw l =
     (let (p, l1) = rd hw IRQ3_PEND l; (m, l2) = rd hw IRQ3_MASK l1
      in (ucast (ucast (p AND NOT m) :: u8), l2))"

text \<open>
  The outer loops run until a round finds nothing pending, which nothing in the code bounds: they
  are options, and \<open>None\<close> is a demultiplexer that never returns.
\<close>

partial_function (option) ext_rounds ::
  "device \<Rightarrow> (nat \<Rightarrow> access list \<Rightarrow> access list) \<Rightarrow> u32 \<Rightarrow> access list \<Rightarrow> access list option" where
  "ext_rounds hw handle pending l =
     (let l1 = wr MASTER_INTPEND1 (push_bit (CREATOR_IO_XIRQ3_IRQ - CREATOR_IRQ 0) 1) l
      in if pending = 0 then Some l1
         else let (pending', l2) = ext_pending hw (handle_bits handle EXT_CF_IRQ pending l1)
              in if pending' = 0 then Some l2 else ext_rounds hw handle pending' l2)"

definition creator_ExtIRQ3_demux ::
  "device \<Rightarrow> (nat \<Rightarrow> access list \<Rightarrow> access list) \<Rightarrow> access list \<Rightarrow> access list option" where
  "creator_ExtIRQ3_demux hw handle l =
     (let (pending, l1) = ext_pending hw l in ext_rounds hw handle pending l1)"

definition gpio1_pending :: "device \<Rightarrow> access list \<Rightarrow> u32 \<times> access list" where
  "gpio1_pending hw l =
     (let (p2, l1) = rd hw MASTER_INTPEND2 l; (m2, l2) = rd hw MASTER_INTMASK2 l1;
          (p1, l3) = rd hw MASTER_INTPEND1 l2; (m1, l4) = rd hw MASTER_INTMASK1 l3
      in (push_bit 8 (ucast ((p2 AND NOT m2) AND 0xff)) + ucast ((p1 AND NOT m1) AND 0xff), l4))"

partial_function (option) gpio1_rounds ::
  "device \<Rightarrow> (nat \<Rightarrow> access list \<Rightarrow> access list) \<Rightarrow> u32 \<Rightarrow> access list \<Rightarrow> access list option" where
  "gpio1_rounds hw handle pending l =
     (let l1 = wr GEDR0 2 l
      in if pending = 0 then Some l1
         else let (pending', l2) = gpio1_pending hw (handle_bits handle (CREATOR_IRQ 0) pending l1)
              in if pending' = 0 then Some l2 else gpio1_rounds hw handle pending' l2)"

definition creator_gpio1_demux ::
  "device \<Rightarrow> (nat \<Rightarrow> access list \<Rightarrow> access list) \<Rightarrow> access list \<Rightarrow> access list option" where
  "creator_gpio1_demux hw handle l =
     (let (pending, l1) = gpio1_pending hw l in gpio1_rounds hw handle pending l1)"

section \<open>Operating system timers 4 to 11\<close>

text \<open>\<open>OIER\<close> is read back as written; the second result of unmasking is the word written to \<open>OSSR\<close>.\<close>

definition ost_bit :: "nat \<Rightarrow> nat" where "ost_bit irqno = irqno - CREATOR_OST_4_IRQ + 4"

definition creator_mask_OST_4_11_irq :: "nat \<Rightarrow> u32 \<Rightarrow> u32" where
  "creator_mask_OST_4_11_irq irqno oier = oier AND NOT (push_bit (ost_bit irqno) 1)"

definition creator_unmask_OST_4_11_irq :: "nat \<Rightarrow> u32 \<Rightarrow> u32 \<times> u32" where
  "creator_unmask_OST_4_11_irq irqno oier =
     (oier OR push_bit (ost_bit irqno) 1, push_bit (ost_bit irqno) 1)"

fun ffs :: "nat \<Rightarrow> nat \<Rightarrow> u32 \<Rightarrow> nat" where
  "ffs 0 i p = i"
| "ffs (Suc n) i p = (if bit p i then i else ffs n (i + 1) p)"

text \<open>
  \<open>ossr k\<close> is the \<open>k\<close>-th read of \<open>OSSR\<close>. The loop looks at most twice: it returns with the first
  pending timer, and leaves when the second read shows none.
\<close>

definition ost_pending :: "u32 \<Rightarrow> u32" where "ost_pending v = drop_bit 4 (v AND 0xFFF)"

definition creator_OST_4_11_irq_handler :: "(nat \<Rightarrow> u32) \<Rightarrow> nat option" where
  "creator_OST_4_11_irq_handler ossr =
     (let p0 = ost_pending (ossr 0)
      in if p0 \<noteq> 0 then Some (CREATOR_OST_4_IRQ + ffs 32 0 p0)
         else let p1 = ost_pending (ossr 1)
              in if p1 \<noteq> 0 then Some (CREATOR_OST_4_IRQ + ffs 32 0 p1) else None)"

section \<open>The interrupt table\<close>

datatype irq_chip = bad_chip | creator_ExtIRQ3_edge_chip | creator_irq_edge_chip | creator_OST_4_11_chip
  | pxa_chip

datatype irq_flow = do_bad_IRQ | do_edge_IRQ | do_level_IRQ | ExtIRQ3_demux | gpio1_demux | OST_4_11_handler

record irqdesc =
  chip :: irq_chip
  flow :: irq_flow
  valid :: bool
  probe_ok :: bool
  noautoenable :: bool
  disable_depth :: nat

type_synonym irq_table = "nat \<Rightarrow> irqdesc"

text \<open>
  The four calls of \<open>arch/arm/kernel/irq.c\<close> the set-up uses; \<open>unmask\<close> is the chip's. The flags are
  \<open>IRQF_VALID\<close> and \<open>IRQF_PROBE\<close>; no caller passes \<open>IRQF_NOAUTOEN\<close>.
\<close>

definition set_irq_chip :: "nat \<Rightarrow> irq_chip \<Rightarrow> irq_table \<Rightarrow> irq_table" where
  "set_irq_chip irq c t = t(irq := (t irq)\<lparr>chip := c\<rparr>)"

definition set_irq_handler :: "nat \<Rightarrow> irq_flow \<Rightarrow> irq_table \<Rightarrow> irq_table" where
  "set_irq_handler irq h t = t(irq := (t irq)\<lparr>flow := h\<rparr>)"

definition set_irq_flags :: "nat \<Rightarrow> bool \<Rightarrow> bool \<Rightarrow> irq_table \<Rightarrow> irq_table" where
  "set_irq_flags irq v p t = t(irq := (t irq)\<lparr>valid := v, probe_ok := p, noautoenable := False\<rparr>)"

definition chip_unmask :: "device \<Rightarrow> irq_chip \<Rightarrow> nat \<Rightarrow> access list \<Rightarrow> access list" where
  "chip_unmask hw c irq l =
     (case c of creator_irq_edge_chip \<Rightarrow> creator_unmask_irq_gpio1 hw irq l
      | creator_ExtIRQ3_edge_chip \<Rightarrow> creator_unmask_extirq3 hw irq l
      | _ \<Rightarrow> l)"

definition set_irq_chained_handler ::
  "device \<Rightarrow> nat \<Rightarrow> irq_flow \<Rightarrow> irq_table \<times> access list \<Rightarrow> irq_table \<times> access list" where
  "set_irq_chained_handler hw irq h =
     (\<lambda>(t, l). (t(irq := (t irq)\<lparr>flow := h, valid := False, probe_ok := False, disable_depth := 0\<rparr>),
                chip_unmask hw (chip (t irq)) irq l))"

definition setup_group :: "nat list \<Rightarrow> irq_chip \<Rightarrow> irq_flow \<Rightarrow> bool \<Rightarrow> irq_table \<Rightarrow> irq_table" where
  "setup_group irqs c h v t =
     fold (\<lambda>irq t. set_irq_flags irq v False (set_irq_handler irq h (set_irq_chip irq c t))) irqs t"

definition IRQ_SELECT_V12 :: u16 where
  "IRQ_SELECT_V12 = push_bit 15 1 + push_bit 13 1 + push_bit 12 0 + push_bit 6 2 + push_bit 3 1 + 0"

definition creator_pxa270_init_irq :: "device \<Rightarrow> irq_table \<Rightarrow> board \<Rightarrow> irq_table \<times> board" where
  "creator_pxa270_init_irq hw t0 s =
     (let (v, s1) = creator_GetCreatorCPLDVersion hw s;
          present = (v \<noteq> CREATOR_BOARD_NOT_EXIST);
          ext = (present \<and> 0x14 \<le> unat v);
          (t1, l1) =
            (if ext
             then (set_irq_flags EXT_SLAVE_IRQ True False (set_irq_flags EXT_CF_IRQ True False
                     (setup_group [EXT_CF_IRQ..<EXT_CCD_IRQ + 1] creator_ExtIRQ3_edge_chip do_edge_IRQ False t0)),
                   wr IRQ_SELECT IRQ_SELECT_V12 (accesses s1))
             else (t0, accesses s1));
          t2 = setup_group [CREATOR_IRQ 0..<CREATOR_IRQ 16] creator_irq_edge_chip do_edge_IRQ False t1;
          t3 = set_irq_flags CREATOR_TOUCH_IRQ True True t2;
          t4 = fold (\<lambda>irq. set_irq_flags irq True False)
                 [CREATOR_MMCI_IRQ, CREATOR_MMCO_IRQ, CREATOR_CFI_IRQ, CREATOR_CFO_IRQ, CREATOR_CF_IRQ] t3;
          t5 = (if present then set_irq_flags CREATOR_IO_XIRQ3_IRQ True False
                     (set_irq_flags CREATOR_IO_XIRQ2_IRQ True False t4) else t4);
          l2 = wr IRQ3_MASK (NOT 0) l1;
          l3 = wr MASTER_INTMASK1 (if present then NOT 0 else 0x0F) l2;
          l4 = wr MASTER_INTMASK2 (NOT 0) l3;
          l5 = wr MASTER_INTPEND2 (NOT 0) (wr MASTER_INTPEND1 (NOT 0) (wr IRQ3_PEND (NOT 0) l4));
          (t6, l6) = (if ext then set_irq_chained_handler hw CREATOR_IO_XIRQ3_IRQ ExtIRQ3_demux (t5, l5)
                      else (t5, l5));
          (t7, l7) = set_irq_chained_handler hw (IRQ_GPIO 1) gpio1_demux (t6, l6);
          t8 = setup_group [CREATOR_OST_4_IRQ..<CREATOR_OST_11_IRQ + 1] creator_OST_4_11_chip do_level_IRQ True t7;
          (t9, l9) = set_irq_chained_handler hw 7 OST_4_11_handler (t8, l7)
      in (t9, s1\<lparr>accesses := l9\<rparr>))"

section \<open>Masks\<close>

lemma bit_one_at: "n < 16 \<Longrightarrow> bit (push_bit k (1 :: u16)) n \<longleftrightarrow> n = k"
  unfolding bit_push_bit_iff by (auto simp: bit_1_iff)

text \<open>The register and the bit of an interrupt of the GPIO 1 group.\<close>

definition gpio1_mask_reg :: "nat \<Rightarrow> reg" where
  "gpio1_mask_reg irqno = (if irqno < CREATOR_CFI_IRQ then MASTER_INTMASK1 else MASTER_INTMASK2)"

definition gpio1_bit :: "nat \<Rightarrow> nat" where
  "gpio1_bit irqno = (irqno - CREATOR_IRQ 0) mod 8"

lemma gpio1_bit_cases:
  assumes "CREATOR_IRQ 0 \<le> irqno" "irqno < CREATOR_IRQ 16"
  shows "gpio1_bit irqno = (if irqno < CREATOR_CFI_IRQ then irqno - CREATOR_IRQ 0 else irqno - CREATOR_IRQ 8)"
proof (cases "irqno < CREATOR_CFI_IRQ")
  case True
  then show ?thesis using assms by (simp add: gpio1_bit_def irq_numbers)
next
  case False
  then have "irqno - 160 = (irqno - 168) + 8" "irqno - 168 < 8"
    using assms by (simp_all add: irq_numbers)
  then have "(irqno - 160) mod 8 = irqno - 168" by (metis mod_add_self2 mod_less)
  then show ?thesis using False by (simp add: gpio1_bit_def irq_numbers)
qed

lemma mask_unmask_written:
  assumes "CREATOR_IRQ 0 \<le> irqno" "irqno < CREATOR_IRQ 16"
  shows "creator_mask_irq_gpio1 hw irqno l =
      rmw hw (gpio1_mask_reg irqno) (\<lambda>m. m OR push_bit (gpio1_bit irqno) 1) l"
    and "creator_unmask_irq_gpio1 hw irqno l =
      rmw hw (gpio1_mask_reg irqno) (\<lambda>m. m AND NOT (push_bit (gpio1_bit irqno) 1)) l"
  unfolding gpio1_bit_cases [OF assms]
  by (simp_all add: creator_mask_irq_gpio1_def creator_unmask_irq_gpio1_def rmw_def gpio1_mask_reg_def)

lemma rmw_reads_back:
  "reads_back hw r \<Longrightarrow> hw (rmw hw r f l) r = f (hw l r)"
  unfolding reads_back_def using rmw_written [of r hw r f l] by simp

section \<open>The bits of a demultiplexer\<close>

text \<open>The inner loop calls the handlers of the set bits, each once, from the lowest up.\<close>

definition pending_irqs :: "nat \<Rightarrow> u32 \<Rightarrow> nat list" where
  "pending_irqs base p = map ((+) base) (filter (bit p) [0..<32])"

lemma filter_bit_shift:
  "filter (bit (p :: u32)) [0..<32] =
     (if bit p 0 then [0] else []) @ map Suc (filter (bit (drop_bit 1 p)) [0..<32])"
proof -
  have shift: "bit (drop_bit 1 p) = bit p \<circ> Suc" by (auto simp: bit_simps)
  have upt: "[0..<32] = [0..<31] @ [31 :: nat]" by code_simp
  have F: "filter (bit (drop_bit 1 p)) [0..<32] = filter (bit (drop_bit 1 p)) [0..<31]"
    unfolding upt using bit_imp_le_length [of p 32] by (auto simp del: One_nat_def simp: shift)
  have "map Suc (filter (bit (drop_bit 1 p)) [0..<32]) = filter (bit p) (map Suc [0..<31])"
    unfolding F unfolding shift filter_map ..
  moreover have "[0..<32] = 0 # map Suc [0..<31]" by code_simp
  ultimately show ?thesis by simp
qed

lemma pending_irqs_shift:
  "pending_irqs base p = (if bit p 0 then [base] else []) @ pending_irqs (base + 1) (drop_bit 1 p)"
  unfolding pending_irqs_def by (subst filter_bit_shift) (simp add: o_def)

lemma pending_irqs_0: "pending_irqs base 0 = []"
  by (simp add: pending_irqs_def)

lemma handle_bits_pending: "handle_bits handle base p l = fold handle (pending_irqs base p) l"
proof (induction handle base p l rule: handle_bits.induct)
  case (1 handle base p l)
  show ?case
    using 1 by (subst handle_bits.simps, subst pending_irqs_shift)
      (simp add: and_one_bit Let_def pending_irqs_0)
qed

text \<open>When the first look back finds nothing more, the demultiplexer returns after one round.\<close>

lemma gpio1_demux_one_round:
  fixes hw handle l
  defines "p \<equiv> fst (gpio1_pending hw l)" and "l1 \<equiv> wr GEDR0 2 (snd (gpio1_pending hw l))"
  assumes "fst (gpio1_pending hw (fold handle (pending_irqs (CREATOR_IRQ 0) p) l1)) = 0"
  shows "creator_gpio1_demux hw handle l =
    Some (if p = 0 then l1 else snd (gpio1_pending hw (fold handle (pending_irqs (CREATOR_IRQ 0) p) l1)))"
  using assms(3) unfolding creator_gpio1_demux_def p_def l1_def Let_def case_prod_beta
  by (subst gpio1_rounds.simps) (simp add: Let_def case_prod_beta handle_bits_pending)

section \<open>Timers\<close>

lemma ffs_spec: "bit p k \<Longrightarrow> i \<le> k \<Longrightarrow> k < i + n \<Longrightarrow> bit p (ffs n i p) \<and> (\<forall>j. i \<le> j \<and> j < ffs n i p \<longrightarrow> \<not> bit p j)"
proof (induction n i p rule: ffs.induct)
  case (1 i p)
  then show ?case by simp
next
  case (2 n i p)
  show ?case
  proof (cases "bit p i")
    case False
    then have "i \<noteq> k" using 2(2) by blast
    then have k: "i + 1 \<le> k" "k < i + 1 + n" using 2(3,4) by simp_all
    from 2(1) [OF False 2(2) k]
    have IH: "bit p (ffs n (i + 1) p)" "\<And>j. i + 1 \<le> j \<Longrightarrow> j < ffs n (i + 1) p \<Longrightarrow> \<not> bit p j" by blast+
    have "\<not> bit p j" if "i \<le> j" "j < ffs n (i + 1) p" for j
      using that IH(2) False by (cases "j = i") simp_all
    with IH(1) False show ?thesis by simp
  next
    case True
    then show ?thesis by auto
  qed
qed

section \<open>Properties\<close>

lemma ost_unmask_mask:
  "ost_bit irqno < 32 \<Longrightarrow> \<not> bit v (ost_bit irqno) \<Longrightarrow>
     creator_mask_OST_4_11_irq irqno (fst (creator_unmask_OST_4_11_irq irqno v)) = v"
  unfolding creator_mask_OST_4_11_irq_def creator_unmask_OST_4_11_irq_def
  by (rule bit_word_eqI) (auto simp: bit_simps bit_1_iff simp del: push_bit_of_1)

text \<open>
  Masking and unmasking a board interrupt is a round trip on the register of its group: masking
  sets the interrupt's bit and no other, and unmasking after it restores the register, provided the
  bit was clear before and the register reads back.
\<close>

theorem mask_unmask_roundtrip:
  assumes "CREATOR_IRQ 0 \<le> irqno" "irqno < CREATOR_IRQ 16" "reads_back hw (gpio1_mask_reg irqno)"
    and "\<not> bit (hw l (gpio1_mask_reg irqno)) (gpio1_bit irqno)"
  shows "(\<forall>n<16. bit (hw (creator_mask_irq_gpio1 hw irqno l) (gpio1_mask_reg irqno)) n =
      (bit (hw l (gpio1_mask_reg irqno)) n \<or> n = gpio1_bit irqno)) \<and>
    hw (creator_unmask_irq_gpio1 hw irqno (creator_mask_irq_gpio1 hw irqno l)) (gpio1_mask_reg irqno) =
      hw l (gpio1_mask_reg irqno)"
proof -
  let ?r = "gpio1_mask_reg irqno" and ?b = "gpio1_bit irqno"
  have m: "hw (creator_mask_irq_gpio1 hw irqno l) ?r = hw l ?r OR push_bit ?b 1"
    unfolding mask_unmask_written(1) [OF assms(1,2)] by (rule rmw_reads_back [OF assms(3)])
  have "hw (creator_unmask_irq_gpio1 hw irqno (creator_mask_irq_gpio1 hw irqno l)) ?r =
      (hw l ?r OR push_bit ?b 1) AND NOT (push_bit ?b 1)"
    unfolding mask_unmask_written(2) [OF assms(1,2)] rmw_reads_back [OF assms(3)] m ..
  moreover have "(v OR push_bit ?b 1) AND NOT (push_bit ?b 1) = v" if "\<not> bit v ?b" for v :: u16
  proof (rule bit_word_eqI)
    fix n assume "n < LENGTH(16)"
    then have n: "n < 16" by simp
    show "bit ((v OR push_bit ?b 1) AND NOT (push_bit ?b 1)) n = bit v n"
      using that n by (auto simp: bit_or_iff bit_and_iff bit_not_iff bit_one_at simp del: push_bit_of_1)
  qed
  ultimately show ?thesis
    using assms(4) by (auto simp: m bit_or_iff bit_one_at simp del: push_bit_of_1)
qed

theorem mask_unmask_roundtrip_witness:
  "memory_board (creator_unmask_irq_gpio1 memory_board (CREATOR_IRQ 9) (creator_mask_irq_gpio1 memory_board (CREATOR_IRQ 9) []))
      (gpio1_mask_reg (CREATOR_IRQ 9)) = memory_board [] (gpio1_mask_reg (CREATOR_IRQ 9))"
proof (rule mask_unmask_roundtrip [THEN conjunct2])
  show "reads_back memory_board (gpio1_mask_reg (CREATOR_IRQ 9))"
    by (simp add: reads_back_def memory_board_def)
  show "\<not> bit (memory_board [] (gpio1_mask_reg (CREATOR_IRQ 9))) (gpio1_bit (CREATOR_IRQ 9))"
    by (simp add: memory_board_def written_def)
qed (simp_all add: irq_numbers)

text \<open>
  C26: the demultiplexer of GPIO 1 calls the handler of every pending, unmasked interrupt once, the
  lowest number first, and returns when the look back finds nothing new.
\<close>

theorem gpio1_demux_in_order:
  assumes "p = fst (gpio1_pending hw l)" "p \<noteq> 0"
    and "l' = fold handle (map (\<lambda>i. CREATOR_IRQ i) (filter (bit p) [0..<32])) (wr GEDR0 2 (snd (gpio1_pending hw l)))"
    and "fst (gpio1_pending hw l') = 0"
  shows "creator_gpio1_demux hw handle l = Some (snd (gpio1_pending hw l'))"
proof -
  have "map (\<lambda>i. CREATOR_IRQ i) (filter (bit p) [0..<32]) = pending_irqs (CREATOR_IRQ 0) p"
    by (simp add: pending_irqs_def CREATOR_IRQ_def)
  with gpio1_demux_one_round [of hw handle l] assms show ?thesis by (simp del: set_upt)
qed

text \<open>A device with the two lowest interrupts pending until their handlers write the acknowledge.\<close>

definition two_pending :: device where
  "two_pending l r = (if r = MASTER_INTPEND1 \<and> written MASTER_INTPEND1 l = [] then 3 else 0)"

theorem gpio1_demux_in_order_witness:
  "creator_gpio1_demux two_pending creator_ack_irq_gpio1 [] = Some (snd (gpio1_pending two_pending
     (fold creator_ack_irq_gpio1 (map (\<lambda>i. CREATOR_IRQ i) (filter (bit (3 :: u32)) [0..<32]))
       (wr GEDR0 2 (snd (gpio1_pending two_pending []))))))"
proof (rule gpio1_demux_in_order [of 3, OF _ _ refl])
  have three: "(0xff :: u16) AND 3 = 3" "(3 :: u16) AND 0xff = 3" by code_simp+
  show "3 = fst (gpio1_pending two_pending [])"
    by (simp add: gpio1_pending_def two_pending_def rd_def written_def three)
  have "filter (bit (3 :: u32)) [0..<32] = [0, 1]" by code_simp
  then show "fst (gpio1_pending two_pending (fold creator_ack_irq_gpio1
      (map (\<lambda>i. CREATOR_IRQ i) (filter (bit (3 :: u32)) [0..<32])) (wr GEDR0 2 (snd (gpio1_pending two_pending []))))) = 0"
    by (simp add: gpio1_pending_def two_pending_def creator_ack_irq_gpio1_def irq_numbers case_prod_beta Let_def
        del: set_upt)
qed simp

text \<open>
  The shared handler of the timers 4 to 11 serves one interrupt a call: the lowest pending timer,
  found on the first or the second read of \<open>OSSR\<close>; the others wait for the next interrupt.
\<close>

theorem ost_handler_lowest:
  assumes "bit (ossr 0) (4 + k)" "k < 8" "\<forall>j<k. \<not> bit (ossr 0) (4 + j)"
  shows "creator_OST_4_11_irq_handler ossr = Some (CREATOR_OST_4_IRQ + k)"
proof -
  have p: "bit (ost_pending (ossr 0)) j \<longleftrightarrow> j < 8 \<and> bit (ossr 0) (4 + j)" for j
  proof -
    have "(0xFFF :: u32) = mask 12" by (simp add: mask_eq_exp_minus_1)
    then have "ost_pending (ossr 0) = drop_bit 4 (take_bit 12 (ossr 0))"
      by (simp only: ost_pending_def take_bit_eq_mask)
    then show ?thesis by (auto simp: bit_drop_bit_eq bit_take_bit_iff)
  qed
  then have k: "bit (ost_pending (ossr 0)) k" using assms by simp
  from ffs_spec [OF k, of 0 32] assms(2)
  have f: "bit (ost_pending (ossr 0)) (ffs 32 0 (ost_pending (ossr 0)))"
    "\<And>j. j < ffs 32 0 (ost_pending (ossr 0)) \<Longrightarrow> \<not> bit (ost_pending (ossr 0)) j" by simp_all
  then have "ffs 32 0 (ost_pending (ossr 0)) = k"
    using k p assms(3) by (metis linorder_neqE_nat)
  moreover have "ost_pending (ossr 0) \<noteq> 0" using k by auto
  ultimately show ?thesis by (simp add: creator_OST_4_11_irq_handler_def Let_def)
qed

theorem ost_handler_lowest_witness:
  "creator_OST_4_11_irq_handler (\<lambda>_. 0x60) = Some (CREATOR_OST_4_IRQ + 1)"
proof (rule ost_handler_lowest)
  have "bit (0x60 :: u32) n \<longleftrightarrow> n = 5 \<or> n = 6" for n
  proof -
    have "(0x60 :: u32) = push_bit 5 1 OR push_bit 6 1" by simp
    then show ?thesis by (simp only: bit_or_iff bit_push_bit_iff bit_1_iff possible_bit_word) auto
  qed
  then show "bit (0x60 :: u32) (4 + 1)" "\<forall>j<1. \<not> bit (0x60 :: u32) (4 + j)" by simp_all
qed simp

end
