(* ===== verification/MyDev.thy ===== *)
theory MyDev
  imports Ioctl SegLed
begin

text \<open>
  The character device of \<open>0851084_eos_lab4/mydev.c\<close>: a program writes one character, and a read
  returns the seven segments of that digit, a to g, one byte each.
\<close>

section \<open>The device\<close>

definition rbuf_0 :: "u8 list" where "rbuf_0 = [1, 1, 1, 1, 1, 1, 0, 0]"
definition rbuf_1 :: "u8 list" where "rbuf_1 = [0, 1, 1, 0, 0, 0, 0, 0]"
definition rbuf_2 :: "u8 list" where "rbuf_2 = [1, 1, 0, 1, 1, 0, 1, 0]"
definition rbuf_3 :: "u8 list" where "rbuf_3 = [1, 1, 1, 1, 0, 0, 1, 0]"
definition rbuf_4 :: "u8 list" where "rbuf_4 = [0, 1, 1, 0, 0, 1, 1, 0]"
definition rbuf_5 :: "u8 list" where "rbuf_5 = [1, 0, 1, 1, 0, 1, 1, 0]"
definition rbuf_6 :: "u8 list" where "rbuf_6 = [1, 0, 1, 1, 1, 1, 1, 0]"
definition rbuf_7 :: "u8 list" where "rbuf_7 = [1, 1, 1, 0, 0, 0, 0, 0]"
definition rbuf_8 :: "u8 list" where "rbuf_8 = [1, 1, 1, 1, 1, 1, 1, 0]"
definition rbuf_9 :: "u8 list" where "rbuf_9 = [1, 1, 1, 1, 0, 1, 1, 0]"

text \<open>The \<open>switch\<close> on \<open>kbuf - '0'\<close> and its loops, over the zeroed \<open>rbuf[7]\<close>.\<close>

definition rbuf_of :: "u8 \<Rightarrow> u8 list" where
  "rbuf_of kbuf =
     (let k = uint kbuf - 48;
          copy7 = (\<lambda>src. fold (\<lambda>i b. b[i := src ! i]) [0..<7] (replicate 7 0))
      in if k = 0 then copy7 rbuf_0 else if k = 1 then copy7 rbuf_1
         else if k = 2 then copy7 rbuf_2 else if k = 3 then copy7 rbuf_3
         else if k = 4 then copy7 rbuf_4 else if k = 5 then copy7 rbuf_5
         else if k = 6 then copy7 rbuf_6 else if k = 7 then copy7 rbuf_7
         else if k = 8 then copy7 rbuf_8 else if k = 9 then copy7 rbuf_9
         else replicate 7 0)"

text \<open>\<open>copy_to_user\<close> returns the number of bytes not copied.\<close>

fun uncopied :: "umem \<Rightarrow> u32 \<Rightarrow> nat \<Rightarrow> nat" where
  "uncopied m a 0 = 0"
| "uncopied m a (Suc n) = (if m a = None then Suc n else uncopied m (a + 1) n)"

definition my_read :: "u32 \<Rightarrow> u32 \<Rightarrow> u8 \<Rightarrow> umem \<Rightarrow> int \<times> umem" where
  "my_read buf count kbuf m =
     (let rbuf = rbuf_of kbuf
      in (int (uncopied m buf (length rbuf)), snd (copy_to_user m buf rbuf)))"

text \<open>A copy that faults leaves the kernel's byte zeroed.\<close>

definition my_write :: "u32 \<Rightarrow> u32 \<Rightarrow> u8 \<Rightarrow> umem \<Rightarrow> int \<times> u8" where
  "my_write buf count kbuf m = (case m buf of None \<Rightarrow> (1, 0) | Some b \<Rightarrow> (0, b))"

definition my_open :: int where "my_open = 0"

definition my_init :: "int \<Rightarrow> int" where
  "my_init register_chrdev = (if register_chrdev < 0 then - EBUSY else 0)"

section \<open>The digits\<close>

lemma length_rbuf_of: "length (rbuf_of k) = 7"
  by (simp add: rbuf_of_def Let_def) (simp add: eval_nat_numeral)

lemma uncopied_mapped: "mapped m a n \<Longrightarrow> uncopied m a n = 0"
  by (induction n arbitrary: a) (auto simp: mapped_tail)

text \<open>
  The table agrees with \<open>LED_tbl\<close> of the board driver: byte \<open>g\<close> is 1 exactly when segment \<open>g\<close> of
  the digit is lit there.
\<close>

lemma rbuf_of_LED_tbl:
  assumes "k < 10"
  shows "rbuf_of (of_nat (48 + k)) = map (\<lambda>g. if g \<in> segments (LED_tbl ! k) then 1 else 0) [0..<7]"
proof -
  have "\<forall>k<10. rbuf_of (of_nat (48 + k)) = map (\<lambda>g. if \<not> bit (LED_tbl ! k) g then 1 else 0) [0..<7]"
    by code_simp
  with assms have "rbuf_of (of_nat (48 + k)) = map (\<lambda>g. if \<not> bit (LED_tbl ! k) g then 1 else 0) [0..<7]"
    by blast
  then show ?thesis by (simp add: segments_def)
qed

lemma rbuf_of_other:
  assumes "uint k < 48 \<or> 57 < uint k"
  shows "rbuf_of k = replicate 7 0"
  using assms by (auto simp: rbuf_of_def Let_def)

lemma my_read_mapped:
  assumes "mapped m buf 7"
  shows "fst (my_read buf count k m) = 0" "copy_from_user (snd (my_read buf count k m)) buf 7 = Some (rbuf_of k)"
  using assms copy_to_user_mapped [of m buf "rbuf_of k"]
  by (simp_all add: my_read_def Let_def length_rbuf_of uncopied_mapped)

section \<open>Properties\<close>

text \<open>
  The device translates: after a program has written a digit, a read of seven bytes returns, byte
  by byte, which of the segments a to g the board driver's own table lights for that digit.
\<close>

theorem mydev_translates:
  assumes "m buf = Some (of_nat (48 + k))" "k < 10" "mapped m' buf' 7"
  shows "fst (my_write buf count kbuf m) = 0 \<and>
    fst (my_read buf' count' (snd (my_write buf count kbuf m)) m') = 0 \<and>
    copy_from_user (snd (my_read buf' count' (snd (my_write buf count kbuf m)) m')) buf' 7 =
      Some (map (\<lambda>g. if g \<in> segments (LED_tbl ! k) then 1 else 0) [0..<7])"
  using my_read_mapped [OF assms(3), of count' "of_nat (48 + k)"] assms(1)
  unfolding rbuf_of_LED_tbl [OF assms(2)] by (simp add: my_write_def)

theorem mydev_translates_witness:
  "copy_from_user (snd (my_read 0 0 (snd (my_write 9 5 0 [9 \<mapsto> of_nat (48 + 7)])) (\<lambda>_. Some 0))) 0 7 =
     Some (map (\<lambda>g. if g \<in> segments (LED_tbl ! 7) then 1 else 0) [0..<7])"
  by (rule mydev_translates [of "[9 \<mapsto> of_nat (48 + 7)]" 9 7 "\<lambda>_. Some 0" 0, THEN conjunct2, THEN conjunct2])
    (simp_all add: mapped_def)

end
