(* ===== verification/Inventory.thy ===== *)
theory Inventory
  imports Lab3
begin

text \<open>
  The mask inventory of \<open>0851084_eos_hw1/hw1.c\<close>: the table of shops, reading it from
  \<open>inventory.txt\<close> and writing it back.

  A file is the list of its characters. Of the C library the source uses \<open>fgets\<close> with room for 99
  characters, which leaves the buffer alone at the end of the file, and the conversions \<open>%d\<close>,
  \<open>%s\<close> and \<open>%c\<close> of \<open>sscanf\<close>, which stops at the first one that does not match. Indexing past the five
  by one hundred entries, or past the fifty characters of \<open>city\<close>, is \<open>OutOfRange\<close>.
\<close>

section \<open>The library calls\<close>

definition is_space :: "u8 \<Rightarrow> bool" where
  "is_space ch \<longleftrightarrow> ch = 0x20 \<or> (9 \<le> unat ch \<and> unat ch \<le> 13)"

definition is_digit :: "u8 \<Rightarrow> bool" where
  "is_digit ch \<longleftrightarrow> 48 \<le> unat ch \<and> unat ch \<le> 57"

fun take_line :: "nat \<Rightarrow> u8 list \<Rightarrow> u8 list \<times> u8 list" where
  "take_line 0 file = ([], file)"
| "take_line (Suc n) [] = ([], [])"
| "take_line (Suc n) (ch # file) =
     (if ch = 0x0a then ([ch], file) else let (l, rest) = take_line n file in (ch # l, rest))"

definition fgets :: "u8 list \<Rightarrow> u8 list \<Rightarrow> u8 list \<times> u8 list" where
  "fgets s file = (if file = [] then (s, []) else take_line 99 file)"

definition scan_int :: "u8 list \<Rightarrow> (int \<times> u8 list) option" where
  "scan_int s =
     (let s1 = dropWhile is_space s;
          neg = (s1 \<noteq> [] \<and> hd s1 = 0x2d);
          s2 = (if s1 \<noteq> [] \<and> (hd s1 = 0x2d \<or> hd s1 = 0x2b) then tl s1 else s1);
          ds = takeWhile is_digit s2
      in if ds = [] then None
         else Some (s32 (if neg then - int (value_in 10 ds) else int (value_in 10 ds)), dropWhile is_digit s2))"

definition scan_word :: "u8 list \<Rightarrow> (u8 list \<times> u8 list) option" where
  "scan_word s =
     (let s1 = dropWhile is_space s; w = takeWhile (\<lambda>ch. \<not> is_space ch) s1
      in if w = [] then None else Some (w, dropWhile (\<lambda>ch. \<not> is_space ch) s1))"

section \<open>The table\<close>

record inv =
  line :: int
  city :: "u8 list"
  stock_a :: int
  stock_b :: int
  stock_c :: int

record inventory =
  num :: int
  in_num :: "int list"
  shops :: "inv list list"
  line_buf :: "u8 list"

definition no_inv :: inv where
  "no_inv = \<lparr>line = 0, city = [], stock_a = 0, stock_b = 0, stock_c = 0\<rparr>"

definition inventory_bss :: inventory where
  "inventory_bss = \<lparr>num = 0, in_num = replicate 5 0, shops = replicate 5 (replicate 100 no_inv), line_buf = []\<rparr>"

definition nl :: "u8 list" where "nl = [0x0a]"
definition sp :: "u8 list" where "sp = [0x20]"

section \<open>Reading\<close>

text \<open>The five conversions of a row, each stored before the next is tried.\<close>

definition scan_row :: "u8 list \<Rightarrow> inv \<Rightarrow> inv" where
  "scan_row s v =
     (case scan_int s of None \<Rightarrow> v
      | Some (l, s1) \<Rightarrow> let v1 = v\<lparr>line := l\<rparr> in
       (case scan_word s1 of None \<Rightarrow> v1
        | Some (w, s2) \<Rightarrow> let v2 = v1\<lparr>city := w\<rparr> in
         (case scan_int s2 of None \<Rightarrow> v2
          | Some (a, s3) \<Rightarrow> let v3 = v2\<lparr>stock_a := a\<rparr> in
           (case scan_int s3 of None \<Rightarrow> v3
            | Some (b, s4) \<Rightarrow> let v4 = v3\<lparr>stock_b := b\<rparr> in
             (case scan_int s4 of None \<Rightarrow> v4
              | Some (x, s5) \<Rightarrow> v4\<lparr>stock_c := x\<rparr>)))))"

definition row_text :: "int \<Rightarrow> inv \<Rightarrow> u8 list" where
  "row_text n v = dec n @ sp @ city v @ sp @ dec (stock_a v) @ sp @ dec (stock_b v) @ sp @ dec (stock_c v) @ nl"

text \<open>The loop over the rows of one type: \<open>k\<close> rows to go, the next is \<open>j\<close>.\<close>

fun read_rows :: "nat \<Rightarrow> nat \<Rightarrow> u8 list \<Rightarrow> u8 list \<Rightarrow> inv list \<Rightarrow>
    calc_error + (u8 list \<times> u8 list \<times> inv list \<times> u8 list list)" where
  "read_rows 0 j s file rows = Inr (s, file, rows, [])"
| "read_rows (Suc k) j s file rows =
     (let (s1, file1) = fgets s file
      in if length rows \<le> j then Inl OutOfRange
         else let v = scan_row s1 (rows ! j)
              in if 50 \<le> length (city v) then Inl OutOfRange
                 else case read_rows k (j + 1) s1 file1 (rows[j := v]) of
                        Inl e \<Rightarrow> Inl e
                      | Inr (s2, file2, rows2, out) \<Rightarrow> Inr (s2, file2, rows2, row_text (line v) v # out))"

text \<open>The loop over the types: the local \<open>type\<close> keeps the first character of its line.\<close>

fun read_types :: "nat \<Rightarrow> nat \<Rightarrow> u8 list \<Rightarrow> u8 list \<Rightarrow> int list \<Rightarrow> inv list list \<Rightarrow>
    calc_error + (u8 list \<times> int list \<times> inv list list \<times> u8 list list)" where
  "read_types 0 i s file counts table = Inr (s, counts, table, [])"
| "read_types (Suc k) i s file counts table =
     (let (s1, file1) = fgets s file;
          (s2, file2) = fgets s1 file1
      in if length counts \<le> i \<or> length table \<le> i then Inl OutOfRange
         else let counts1 = (case scan_int s2 of None \<Rightarrow> counts | Some (n, r) \<Rightarrow> counts[i := n])
              in case read_rows (nat (counts1 ! i)) 0 s2 file2 (table ! i) of
                   Inl e \<Rightarrow> Inl e
                 | Inr (s3, file3, rows, out) \<Rightarrow>
                     (case read_types k (i + 1) s3 file3 counts1 (table[i := rows]) of
                        Inl e \<Rightarrow> Inl e
                      | Inr (s4, counts2, table2, out2) \<Rightarrow>
                          Inr (s4, counts2, table2,
                               (take 1 s1 @ nl) # (dec (counts1 ! i) @ nl) # out @ out2)))"

text \<open>The result: the table, and the texts written to the display after the screen was cleared.\<close>

definition readInventory :: "u8 list \<Rightarrow> inventory \<Rightarrow> calc_error + (inventory \<times> request list)" where
  "readInventory file t =
     (let (s1, file1) = fgets (line_buf t) file;
          n = (case scan_int s1 of None \<Rightarrow> num t | Some (n, r) \<Rightarrow> n)
      in case read_types (nat n) 0 s1 file1 (in_num t) (shops t) of
           Inl e \<Rightarrow> Inl e
         | Inr (s2, counts, table, out) \<Rightarrow>
             Inr (\<lparr>num = n, in_num = counts, shops = table, line_buf = s2\<rparr>,
                  LcdClear # LcdWrite (dec n @ nl) # map LcdWrite out))"

section \<open>Writing\<close>

definition rows_text :: "nat \<Rightarrow> inv list \<Rightarrow> u8 list" where
  "rows_text k rows = concat (map (\<lambda>j. row_text (int j + 1) (rows ! j)) [0..<k])"

definition type_text :: "inventory \<Rightarrow> nat \<Rightarrow> u8 list" where
  "type_text t i = [of_nat (i + 65)] @ nl @ dec (in_num t ! i) @ nl @ rows_text (nat (in_num t ! i)) (shops t ! i)"

text \<open>The new contents of the file; reading an entry outside the table is \<open>None\<close>.\<close>

definition rewriteInv :: "inventory \<Rightarrow> u8 list option" where
  "rewriteInv t =
     (if nat (num t) \<le> length (in_num t) \<and> nat (num t) \<le> length (shops t) \<and>
         (\<forall>i<nat (num t). nat (in_num t ! i) \<le> length (shops t ! i))
      then Some (dec (num t) @ nl @ concat (map (type_text t) [0..<nat (num t)]))
      else None)"

section \<open>What is written is read back\<close>

lemma digit_char_facts:
  assumes "d < 10"
  shows "is_digit (digit_char d)" "\<not> is_space (digit_char d)" "digit_char d \<noteq> 0x2d" "digit_char d \<noteq> 0x2b"
    "digit_char d \<noteq> 0x0a"
proof -
  have "\<forall>d<10. is_digit (digit_char d) \<and> \<not> is_space (digit_char d) \<and> digit_char d \<noteq> 0x2d \<and>
      digit_char d \<noteq> 0x2b \<and> digit_char d \<noteq> 0x0a" by code_simp
  with assms show "is_digit (digit_char d)" "\<not> is_space (digit_char d)" "digit_char d \<noteq> 0x2d"
    "digit_char d \<noteq> 0x2b" "digit_char d \<noteq> 0x0a" by blast+
qed

lemma dec_nat_chars:
  assumes "ch \<in> set (dec_nat n)"
  shows "is_digit ch" "\<not> is_space ch" "ch \<noteq> 0x2d" "ch \<noteq> 0x2b" "ch \<noteq> 0x0a"
  using dec_nat_digits [OF assms] digit_char_facts by auto

definition no_digit_first :: "u8 list \<Rightarrow> bool" where
  "no_digit_first r \<longleftrightarrow> r = [] \<or> \<not> is_digit (hd r)"

lemma takeWhile_dec_nat:
  assumes "no_digit_first r"
  shows "takeWhile is_digit (dec_nat n @ r) = dec_nat n" "dropWhile is_digit (dec_nat n @ r) = r"
proof -
  have d: "\<forall>ch \<in> set (dec_nat n). is_digit ch" using dec_nat_chars by blast
  have "takeWhile is_digit r = []" "dropWhile is_digit r = r"
    using assms by (cases r; simp add: no_digit_first_def)+
  with d show "takeWhile is_digit (dec_nat n @ r) = dec_nat n" "dropWhile is_digit (dec_nat n @ r) = r"
    by (auto simp: takeWhile_append2 dropWhile_append2)
qed

lemma dec_nat_hd: "hd (dec_nat n @ r) \<in> set (dec_nat n)"
  using dec_nat_not_Nil [of n] by (cases "dec_nat n") simp_all

lemma scan_int_dec_nat:
  assumes "no_digit_first r" "int n < 2 ^ 31"
  shows "scan_int (dec_nat n @ r) = Some (int n, r)"
proof -
  have hd: "\<not> is_space (hd (dec_nat n @ r))" "hd (dec_nat n @ r) \<noteq> 0x2d" "hd (dec_nat n @ r) \<noteq> 0x2b"
    using dec_nat_chars [OF dec_nat_hd] by blast+
  have ne: "dec_nat n @ r \<noteq> []" using dec_nat_not_Nil by simp
  have "dropWhile is_space (dec_nat n @ r) = dec_nat n @ r"
    using hd(1) ne by (cases "dec_nat n @ r") auto
  then show ?thesis
    using hd ne takeWhile_dec_nat [OF assms(1)] assms(2) dec_nat_not_Nil
    by (simp add: scan_int_def Let_def value_dec_nat s32_id)
qed

definition int32 :: "int \<Rightarrow> bool" where "int32 x \<longleftrightarrow> - (2 ^ 31) \<le> x \<and> x < 2 ^ 31"

lemma scan_int_dec:
  assumes "no_digit_first r" "int32 x"
  shows "scan_int (dec x @ r) = Some (x, r)"
proof (cases "x < 0")
  case True
  have "\<not> is_space 0x2d" by (simp add: is_space_def)
  then show ?thesis
    using True assms takeWhile_dec_nat [OF assms(1)] dec_nat_not_Nil
    by (simp add: scan_int_def dec_def Let_def value_dec_nat s32_id int32_def)
next
  case False
  then show ?thesis using scan_int_dec_nat [OF assms(1), of "nat x"] assms(2) by (simp add: dec_def int32_def)
qed

lemma scan_int_sp: "scan_int (sp @ s) = scan_int s"
  by (simp add: scan_int_def sp_def is_space_def)

lemma no_digit_sp [simp]: "no_digit_first (sp @ r)" "no_digit_first (nl @ r)" "no_digit_first nl"
  by (simp_all add: no_digit_first_def sp_def nl_def is_digit_def)

lemma scan_word_city:
  assumes "w \<noteq> []" "\<forall>ch \<in> set w. \<not> is_space ch"
  shows "scan_word (sp @ w @ sp @ r) = Some (w, sp @ r)"
proof -
  have s: "is_space 0x20" by (simp add: is_space_def)
  have "dropWhile is_space (w @ sp @ r) = w @ sp @ r" using assms by (cases w) auto
  then show ?thesis
    using assms s by (simp add: scan_word_def sp_def Let_def takeWhile_append2 dropWhile_append2)
qed

definition row_ok :: "inv \<Rightarrow> bool" where
  "row_ok v \<longleftrightarrow> city v \<noteq> [] \<and> length (city v) < 50 \<and> (\<forall>ch \<in> set (city v). \<not> is_space ch) \<and>
     int32 (stock_a v) \<and> int32 (stock_b v) \<and> int32 (stock_c v)"

lemma scan_row_text:
  assumes "row_ok v" "int32 n"
  shows "scan_row (row_text n v) v0 = v\<lparr>line := n\<rparr>"
  using assms
  by (simp add: scan_row_def row_text_def row_ok_def scan_int_dec scan_int_sp scan_word_city Let_def)

lemma take_line_nl: "0x0a \<notin> set l \<Longrightarrow> length l < n \<Longrightarrow> take_line n (l @ nl @ rest) = (l @ nl, rest)"
proof (induction l arbitrary: n)
  case Nil
  then show ?case by (cases n) (simp_all add: nl_def)
next
  case (Cons ch l)
  then show ?case by (cases n) auto
qed

lemma fgets_nl: "0x0a \<notin> set l \<Longrightarrow> length l < 99 \<Longrightarrow> fgets s (l @ nl @ rest) = (l @ nl, rest)"
  by (simp add: fgets_def take_line_nl nl_def [symmetric]) (simp add: nl_def)

lemma dec_chars: "0x0a \<notin> set (dec x)"
  using dec_nat_chars(5) by (auto simp: dec_def)

lemma length_dec: "int32 x \<Longrightarrow> length (dec x) \<le> 11"
proof -
  assume x: "int32 x"
  have "length (dec_nat (nat \<bar>x\<bar>)) \<le> 10"
    by (rule length_dec_nat) (use x in \<open>auto simp: int32_def\<close>)
  then show ?thesis by (auto simp: dec_def abs_if split: if_splits)
qed

lemma fgets_row:
  assumes "row_ok v" "int32 n"
  shows "fgets s (row_text n v @ rest) = (row_text n v, rest)"
proof -
  let ?l = "dec n @ sp @ city v @ sp @ dec (stock_a v) @ sp @ dec (stock_b v) @ sp @ dec (stock_c v)"
  have "is_space 0x0a" by (simp add: is_space_def)
  then have "0x0a \<notin> set ?l" using assms dec_chars by (auto simp: row_ok_def sp_def)
  moreover have "length ?l < 99"
    using assms length_dec [of n] length_dec [of "stock_a v"] length_dec [of "stock_b v"]
      length_dec [of "stock_c v"] by (simp add: row_ok_def sp_def)
  ultimately show ?thesis using fgets_nl [of ?l s rest] by (simp add: row_text_def)
qed

lemma read_rows_text:
  assumes "\<And>i. j \<le> i \<Longrightarrow> i < j + k \<Longrightarrow> row_ok (rs ! i)" "j + k \<le> length rows" "int (j + k) < 2 ^ 31"
  shows "\<exists>s' out rows'. read_rows k j s (concat (map (\<lambda>i. row_text (int i + 1) (rs ! i)) [j..<j + k]) @ rest) rows =
    Inr (s', rest, rows', out) \<and> length rows' = length rows \<and>
    (\<forall>i<length rows. rows' ! i = (if j \<le> i \<and> i < j + k then (rs ! i)\<lparr>line := int i + 1\<rparr> else rows ! i))"
  using assms
proof (induction k arbitrary: j s rows)
  case 0
  then show ?case by (auto intro!: exI [of _ rows])
next
  case (Suc k)
  let ?v = "(rs ! j)\<lparr>line := int j + 1\<rparr>"
  have n: "int32 (int j + 1)" using Suc.prems(3) by (simp add: int32_def)
  have ok: "row_ok (rs ! j)" using Suc.prems(1) [of j] by simp
  have upt: "[j..<j + Suc k] = j # [Suc j..<Suc j + k]" by (simp add: upt_conv_Cons)
  have "length (city (rs ! j)) < 50" using ok by (simp add: row_ok_def)
  moreover obtain s' out rows' where
    "read_rows k (Suc j) (row_text (int j + 1) (rs ! j))
       (concat (map (\<lambda>i. row_text (int i + 1) (rs ! i)) [Suc j..<Suc j + k]) @ rest) (rows[j := ?v]) =
       Inr (s', rest, rows', out)" "length rows' = length rows"
    "\<forall>i<length rows. rows' ! i =
       (if Suc j \<le> i \<and> i < Suc j + k then (rs ! i)\<lparr>line := int i + 1\<rparr> else rows[j := ?v] ! i)"
    using Suc.IH [of "Suc j" "rows[j := ?v]" "row_text (int j + 1) (rs ! j)"] Suc.prems by auto
  ultimately show ?case
    using Suc.prems(2) unfolding upt
    by (auto simp: fgets_row [OF ok n] scan_row_text [OF ok n] nth_list_update Let_def)
qed

definition table_ok :: "inventory \<Rightarrow> bool" where
  "table_ok t \<longleftrightarrow> 0 \<le> num t \<and> num t \<le> 5 \<and> length (in_num t) = 5 \<and> length (shops t) = 5 \<and>
     (\<forall>i<nat (num t). length (shops t ! i) = 100 \<and> 0 \<le> in_num t ! i \<and> in_num t ! i \<le> 100 \<and>
        (\<forall>j<nat (in_num t ! i). row_ok (shops t ! i ! j)))"

definition table_shape :: "inventory \<Rightarrow> bool" where
  "table_shape t \<longleftrightarrow> length (in_num t) = 5 \<and> length (shops t) = 5 \<and> (\<forall>rows \<in> set (shops t). length rows = 100)"

lemma fgets_dec: "int32 x \<Longrightarrow> fgets s (dec x @ nl @ rest) = (dec x @ nl, rest)"
  using fgets_nl [OF dec_chars, of x s rest] length_dec [of x] by simp

lemma fgets_type: "i < 5 \<Longrightarrow> fgets s (of_nat (i + 65) # nl @ rest) = (of_nat (i + 65) # nl, rest)"
proof -
  assume "i < 5"
  moreover have "\<forall>i<5. (of_nat (i + 65) :: u8) \<noteq> 0x0a" by code_simp
  ultimately have "0x0a \<notin> set [of_nat (i + 65) :: u8]" by auto
  from fgets_nl [OF this, of s rest] show ?thesis by simp
qed

lemma read_types_text:
  assumes "table_ok t" "i + k = nat (num t)" "length counts = 5" "length table = 5"
    "\<forall>rows \<in> set table. length rows = 100"
  shows "\<exists>s' counts' table' out. read_types k i s (concat (map (type_text t) [i..<i + k])) counts table =
    Inr (s', counts', table', out) \<and>
    (\<forall>h. i \<le> h \<and> h < i + k \<longrightarrow> counts' ! h = in_num t ! h \<and>
      (\<forall>j<nat (in_num t ! h). table' ! h ! j = (shops t ! h ! j)\<lparr>line := int j + 1\<rparr>)) \<and>
    (\<forall>h<i. counts' ! h = counts ! h \<and> table' ! h = table ! h)"
  using assms(2-5)
proof (induction k arbitrary: i s counts table)
  case 0
  then show ?case by simp
next
  case (Suc k)
  let ?n = "in_num t ! i"
  define rest where "rest = concat (map (type_text t) [Suc i..<Suc i + k])"
  have i: "i < 5" "i < nat (num t)" using Suc.prems(1) assms(1) by (auto simp: table_ok_def)
  then have n: "0 \<le> ?n" "?n \<le> 100" "int32 ?n" and rows: "\<And>j. j < nat ?n \<Longrightarrow> row_ok (shops t ! i ! j)"
    using assms(1) by (auto simp: table_ok_def int32_def)
  have upt: "[i..<i + Suc k] = i # [Suc i..<Suc i + k]" by (simp add: upt_conv_Cons)
  have len: "length (table ! i) = 100" using Suc.prems(3,4) i(1) by simp
  obtain s3 out3 rows3 where r: "read_rows (nat ?n) 0 (dec ?n @ nl)
      (rows_text (nat ?n) (shops t ! i) @ rest) (table ! i) = Inr (s3, rest, rows3, out3)"
    "length rows3 = 100" "\<forall>j<nat ?n. rows3 ! j = (shops t ! i ! j)\<lparr>line := int j + 1\<rparr>"
  proof -
    have "nat ?n \<le> 100" using n by simp
    then have "\<exists>s' out rows'. read_rows (nat ?n) 0 (dec ?n @ nl) (concat (map (\<lambda>j. row_text (int j + 1) (shops t ! i ! j))
        [0..<0 + nat ?n]) @ rest) (table ! i) = Inr (s', rest, rows', out) \<and> length rows' = length (table ! i) \<and>
      (\<forall>j<length (table ! i). rows' ! j = (if 0 \<le> j \<and> j < 0 + nat ?n then (shops t ! i ! j)\<lparr>line := int j + 1\<rparr>
        else table ! i ! j))"
      using rows len n by (intro read_rows_text) simp_all
    then show ?thesis using that len \<open>nat ?n \<le> 100\<close> unfolding rows_text_def by force
  qed
  have shape: "\<forall>rows \<in> set (table[i := rows3]). length rows = 100"
    using Suc.prems(4) r(2) set_update_subset_insert [of table i rows3] by auto
  obtain s4 counts4 table4 out4 where q:
    "read_types k (Suc i) s3 rest (counts[i := ?n]) (table[i := rows3]) = Inr (s4, counts4, table4, out4)"
    "\<forall>h. Suc i \<le> h \<and> h < Suc i + k \<longrightarrow> counts4 ! h = in_num t ! h \<and>
      (\<forall>j<nat (in_num t ! h). table4 ! h ! j = (shops t ! h ! j)\<lparr>line := int j + 1\<rparr>)"
    "\<forall>h<Suc i. counts4 ! h = counts[i := ?n] ! h \<and> table4 ! h = table[i := rows3] ! h"
    using Suc.IH [of "Suc i" "counts[i := ?n]" "table[i := rows3]" s3, folded rest_def] Suc.prems(1-3) shape by (auto simp del: upt_Suc)
  have step: "read_types (Suc k) i s (concat (map (type_text t) [i..<i + Suc k])) counts table =
    Inr (s4, counts4, table4, (take 1 (of_nat (i + 65) # nl) @ nl) # (dec ?n @ nl) # out3 @ out4)"
  proof -
    have sc: "scan_int (dec ?n @ nl) = Some (?n, nl)" by (rule scan_int_dec [OF _ n(3)]) simp
    have whole: "concat (map (type_text t) [i..<i + Suc k]) =
        of_nat (i + 65) # nl @ dec ?n @ nl @ rows_text (nat ?n) (shops t ! i) @ rest"
      unfolding upt rest_def by (simp add: type_text_def del: upt_Suc of_nat_add)
    show ?thesis unfolding whole
      using Suc.prems(2,3) i(1) r(1) q(1)
      by (simp add: fgets_type fgets_dec [OF n(3)] sc Let_def del: of_nat_add)
  qed
  have "counts4 ! h = in_num t ! h \<and> (\<forall>j<nat (in_num t ! h). table4 ! h ! j = (shops t ! h ! j)\<lparr>line := int j + 1\<rparr>)"
    if "i \<le> h" "h < i + Suc k" for h
  proof (cases "h = i")
    case True
    then show ?thesis using q(3) r(3) i(1) Suc.prems(2,3) by simp
  next
    case False
    then show ?thesis using that q(2) by simp
  qed
  moreover have "\<forall>h<i. counts4 ! h = counts ! h \<and> table4 ! h = table ! h" using q(3) by simp
  ultimately show ?case using step by blast
qed

lemma rewrite_read:
  assumes "table_ok t" "table_shape t0"
  shows "\<exists>file t1 out. rewriteInv t = Some file \<and> readInventory file t0 = Inr (t1, out) \<and> num t1 = num t \<and>
    (\<forall>i<nat (num t). in_num t1 ! i = in_num t ! i \<and>
      (\<forall>j<nat (in_num t ! i). shops t1 ! i ! j = (shops t ! i ! j)\<lparr>line := int j + 1\<rparr>))"
proof -
  have w: "rewriteInv t = Some (dec (num t) @ nl @ concat (map (type_text t) [0..<nat (num t)]))"
    using assms(1) by (auto simp: rewriteInv_def table_ok_def)
  have n: "int32 (num t)" using assms(1) by (simp add: table_ok_def int32_def)
  show ?thesis
    using read_types_text [OF assms(1), of 0 "nat (num t)" "in_num t0" "shops t0" "dec (num t) @ nl"] assms(2)
    by (auto simp: w readInventory_def fgets_dec [OF n] scan_int_dec [OF _ n] table_shape_def Let_def)
qed

section \<open>Properties\<close>

text \<open>A table with one type, one shop.\<close>

definition one_shop :: inventory where
  "one_shop = inventory_bss\<lparr>num := 1, in_num := [1, 0, 0, 0, 0],
     shops := replicate 5 (replicate 100 \<lparr>line = 1, city = [0x54], stock_a = 9, stock_b = 8, stock_c = 7\<rparr>)\<rparr>"

lemma one_shop_ok: "table_ok one_shop" "table_shape one_shop" "table_shape inventory_bss"
  by (auto simp: one_shop_def table_ok_def table_shape_def inventory_bss_def row_ok_def int32_def is_space_def)

text \<open>
  C8: the inventory file is a round trip: what \<open>rewriteInv\<close> writes for a table in range,
  \<open>readInventory\<close> reads back into any table, every count, city and stock the same and every row
  renumbered from 1.
\<close>

theorem inventory_roundtrip:
  assumes "table_ok t" "table_shape t0"
  shows "\<exists>f t1 out. rewriteInv t = Some f \<and> readInventory f t0 = Inr (t1, out) \<and> num t1 = num t \<and>
    (\<forall>i<nat (num t). in_num t1 ! i = in_num t ! i \<and>
      (\<forall>j<nat (in_num t ! i). shops t1 ! i ! j = (shops t ! i ! j)\<lparr>line := int j + 1\<rparr>))"
  by (rule rewrite_read [OF assms])

theorem inventory_roundtrip_witness:
  "\<exists>f t1 out. rewriteInv one_shop = Some f \<and> readInventory f inventory_bss = Inr (t1, out) \<and> num t1 = num one_shop \<and>
    (\<forall>i<nat (num one_shop). in_num t1 ! i = in_num one_shop ! i \<and>
      (\<forall>j<nat (in_num one_shop ! i). shops t1 ! i ! j = (shops one_shop ! i ! j)\<lparr>line := int j + 1\<rparr>))"
  by (rule inventory_roundtrip [OF one_shop_ok(1,3)])

end
