(* ===== verification/Hw1.thy ===== *)
theory Hw1
  imports Inventory
begin

text \<open>
  The mask shop of \<open>0851084_eos_hw1/hw1.c\<close>: logging in with an identity number, buying, and the
  menu. The program waits for keys in three nested loops; the state says in which one, and a step is
  one key that \<open>KEY_IOCTL_GET_CHAR\<close> delivered. Its output is the requests it makes of the driver.

  Counters are unbounded integers; \<open>inventory.txt\<close> is part of the state, \<open>None\<close> when there is no such
  file. Indexing outside an array is the error \<open>OutOfRange\<close>, a missing file \<open>MissingFile\<close>.
\<close>

section \<open>State\<close>

datatype hw1_error = HwOutOfRange | MissingFile

datatype hw1_mode = Menu | LoginKeys nat | BuyKeys nat | Exited

record hw1 =
  mode :: hw1_mode
  table :: inventory
  inventory_txt :: "u8 list option"
  inOut :: bool
  ID_number :: "u8 list"
  i_ID :: nat
  day_of_week :: int
  allowlog :: bool
  bought :: bool
  buy_n :: int
  bought_n :: int
  login_n :: int
  check :: "u8 list list"
  buyinfo :: "u8 list"
  alcohol :: int
  seg_arg :: seg_info

definition msg :: "string \<Rightarrow> request" where "msg cs = LcdWrite (ascii cs @ nl)"

section \<open>Identity numbers\<close>

definition id_digit :: "hw1 \<Rightarrow> nat \<Rightarrow> int" where
  "id_digit s i = uint (ID_number s ! i) - 48"

definition id_letter :: "u8 \<Rightarrow> int" where
  "id_letter ch = (if ch = 0x41 then 1 else if ch = 0x42 then 10 else if ch = 0x43 then 19
     else if ch = 0x44 then 28 else 0)"

definition checkIDnumber :: "hw1 \<Rightarrow> hw1" where
  "checkIDnumber s =
     (let ID = id_digit s;
          y = id_letter (ID_number s ! 0);
          z = 10 - (y + ID 1 * 8 + ID 2 * 7 + ID 3 * 6 + ID 4 * 5 + ID 5 * 4 + ID 6 * 3 + ID 7 * 2 + ID 8 * 1) smod 10;
          A = (z = ID 9);
          B = (if day_of_week s = 7 then True else day_of_week s smod 2 = ID 9 smod 2)
      in s\<lparr>allowlog := A \<and> B\<rparr>)"

definition strtol16_signed :: "int \<Rightarrow> int" where
  "strtol16_signed n = (if n < 0 then - int (value_in 16 (dec_nat (nat (- n)))) else int (value_in 16 (dec_nat (nat n))))"

definition print_7seg :: "hw1 \<Rightarrow> hw1 \<times> request list" where
  "print_7seg s =
     (let n = 1000 * id_digit s 6 + 100 * id_digit s 7 + 10 * id_digit s 8 + id_digit s 9;
          info = \<lparr>Mode = SEG_MODE_HEX_VALUE, Which = SEG_ALL, Value = word_of_int (strtol16_signed n)\<rparr>
      in (s\<lparr>seg_arg := info\<rparr>, [SegSet info]))"

text \<open>\<open>print_led\<close> is the function of \<open>lab3.c\<close>, copied.\<close>

definition hw1_print_led :: "int \<Rightarrow> request list" where
  "hw1_print_led n =
     (let arr = led_array 8 (binary_digits (nat \<bar>n\<bar>) 1 0)
      in map (\<lambda>i. if arr ! i = 1 then LedBitSet (of_nat i) else LedBitClear (of_nat i)) [0..<8])"

section \<open>Logging in\<close>

definition login_key :: "u8 \<Rightarrow> nat \<Rightarrow> hw1 \<Rightarrow> hw1_error + (hw1 \<times> request list)" where
  "login_key key i_login s =
     (if key = 0x23
      then let s1 = checkIDnumber s
           in if allowlog s1
              then (if length (check s1) \<le> i_ID s1 then Inl HwOutOfRange
                    else let s2 = s1\<lparr>check := (check s1)[i_ID s1 := take 10 (ID_number s1)], i_ID := i_ID s1 + 1\<rparr>;
                             s3 = (if 10 \<le> i_ID s2 then s2\<lparr>i_ID := 0\<rparr> else s2);
                             (s4, shown) = print_7seg (s3\<lparr>login_n := login_n s3 + 1, mode := Menu\<rparr>)
                         in Inr (s4, shown @ [LcdClear,
                              LcdWrite (nl @ ascii ''Login successfully.'' @ nl),
                              msg ''Press 3 to buy the mask.'']))
              else Inr (s1\<lparr>mode := Menu\<rparr>,
                     (if bought s1 then [LcdClear, LcdWrite (nl @ ascii ''You have already bought masks.'' @ nl)] else []) @
                     [LcdClear, LcdWrite (nl @ ascii ''You are not allowed to login.'' @ nl),
                      msg ''Press 2 to login again.''])
      else if length (ID_number s) \<le> i_login then Inl HwOutOfRange
      else Inr (s\<lparr>ID_number := (ID_number s)[i_login := key], mode := LoginKeys (i_login + 1)\<rparr>,
                [LcdWrite [key]]))"

section \<open>Buying\<close>

definition buy_number :: "hw1 \<Rightarrow> nat \<Rightarrow> int" where
  "buy_number s i = uint (buyinfo s ! i) - 48"

text \<open>The three subtractions and the three clamps; the third clamp of the source is on \<open>b\<close> again.\<close>

definition take_masks :: "int \<Rightarrow> int \<Rightarrow> int \<Rightarrow> inv \<Rightarrow> inv" where
  "take_masks carbon medical N95 v =
     (let v1 = v\<lparr>stock_a := stock_a v - carbon, stock_b := stock_b v - medical, stock_c := stock_c v - N95\<rparr>;
          v2 = (if stock_a v1 \<le> 0 then v1\<lparr>stock_a := 0\<rparr> else v1);
          v3 = (if stock_b v2 \<le> 0 then v2\<lparr>stock_b := 0\<rparr> else v2)
      in if stock_b v3 \<le> 0 then v3\<lparr>stock_b := 0\<rparr> else v3)"

definition menu_text :: "string \<Rightarrow> request" where
  "menu_text second = LcdWrite (ascii ''1. show'' @ nl @ ascii second @ nl @ ascii ''3. buy'' @ nl @ ascii ''4. statistics'' @ nl)"

definition buy_key :: "int \<Rightarrow> u8 \<Rightarrow> nat \<Rightarrow> hw1 \<Rightarrow> hw1_error + (hw1 \<times> request list)" where
  "buy_key refill key i_buy s =
     (if key = 0x23
      then let ty = uint (buyinfo s ! 0) - 65; type_n = buy_number s 2;
               carbon = buy_number s 4; medical = buy_number s 6; N95 = buy_number s 8
           in if i_buy \<noteq> 9 \<or> carbon + medical + N95 > 3
              then Inr (s\<lparr>mode := Menu\<rparr>,
                     [LcdWrite (nl @ ascii ''You are buying too much masks.'' @ nl @ ascii ''Press 3 to key in again.'' @ nl)])
              else if 1 \<le> buy_n s
              then Inr (s\<lparr>mode := Menu, buy_n := 0\<rparr>,
                     [LcdWrite (nl @ ascii ''You have bought masks.'' @ nl @ ascii ''Press 2 to logout'' @ nl)])
              else if ty < 0 \<or> int (length (shops (table s))) \<le> ty \<or> type_n - 1 < 0 \<or>
                      int (length (shops (table s) ! nat ty)) \<le> type_n - 1
              then Inl HwOutOfRange
              else
                let i = nat ty; j = nat (type_n - 1);
                    rows = shops (table s) ! i;
                    t = (table s)\<lparr>shops := (shops (table s))[i := rows[j := take_masks carbon medical N95 (rows ! j)]]\<rparr>;
                    s1 = s\<lparr>mode := Menu, bought_n := bought_n s + 1, buy_n := buy_n s + 1, table := t\<rparr>;
                    wait = alcohol s1 \<le> refill;
                    s2 = s1\<lparr>alcohol := (if wait then 5 else alcohol s1) - 1\<rparr>
                in (case rewriteInv t of
                      None \<Rightarrow> Inl HwOutOfRange
                    | Some file \<Rightarrow>
                        Inr (s2\<lparr>inventory_txt := Some file\<rparr>,
                          [LcdWrite (nl @ ascii ''Disinfecting hands with alcohol.'' @ nl)] @
                          (if wait then [msg ''Wait 5 secs for alcohol supplement.''] else []) @
                          [msg ''Putting masks into envelope.'', msg ''Thank you for your purchase.'',
                           LcdClear, menu_text ''2. logout'']))
      else if length (buyinfo s) \<le> i_buy then Inl HwOutOfRange
      else Inr (s\<lparr>buyinfo := (buyinfo s)[i_buy := key], mode := BuyKeys (i_buy + 1)\<rparr>,
                [LcdWrite (if key = 0x2a then [0x20] else [key])]))"

text \<open>\<open>None\<close> is a read past the ten entries of \<open>check\<close>.\<close>

definition ifboughtfn :: "hw1 \<Rightarrow> bool option" where
  "ifboughtfn s =
     (if int (length (check s)) < login_n s - 1 then None
      else Some (0 < length (filter (\<lambda>i. \<forall>j<10. check s ! i ! j = ID_number s ! j) [0..<nat (login_n s - 1)])))"

section \<open>The menu\<close>

definition start_buy :: "hw1 \<Rightarrow> hw1 \<times> request list" where
  "start_buy s = (s\<lparr>mode := BuyKeys 0\<rparr>, [LcdClear, msg ''Key in your buying info:'', KeyClear])"

definition menu_key :: "u8 \<Rightarrow> hw1 \<Rightarrow> hw1_error + (hw1 \<times> request list)" where
  "menu_key key s =
     (if key = 0x31
      then (case inventory_txt s of
              None \<Rightarrow> Inl MissingFile
            | Some file \<Rightarrow>
                (case readInventory file (table s) of
                   Inl e \<Rightarrow> Inl HwOutOfRange
                 | Inr (t, out) \<Rightarrow> Inr (s\<lparr>table := t\<rparr>, out)))
      else if key = 0x32
      then (if \<not> inOut s
            then Inr (s\<lparr>inOut := True, mode := LoginKeys 0\<rparr>,
                   [LcdClear, LcdWrite (ascii ''login'' @ nl @ ascii ''Key in your ID number:'' @ nl), KeyClear])
            else let info = (seg_arg s)\<lparr>Which := SEG_ALL, Value := 0\<rparr>
                 in Inr (s\<lparr>buy_n := 0, inOut := False, seg_arg := info\<rparr>,
                      [SegSet info, LcdClear, menu_text ''2. login'']))
      else if key = 0x33
      then (if \<not> inOut s then Inr (s, [LcdClear, msg ''Press 2 to login.''])
            else if 1 \<le> bought_n s
            then (case ifboughtfn s of
                    None \<Rightarrow> Inl HwOutOfRange
                  | Some True \<Rightarrow> Inr (s, [LcdClear, LcdWrite (ascii ''You have already bought mask.'' @ nl @
                      ascii ''Come and buy next week.'' @ nl @ ascii ''Press 2 to logout.'' @ nl)])
                  | Some False \<Rightarrow> Inr (start_buy s))
            else Inr (start_buy s))
      else if key = 0x34
      then Inr (s, [LcdClear, LcdWrite (ascii ''Alcohol : '' @ dec (alcohol s) @ nl)])
      else if key = 0x23 then Inr (s\<lparr>mode := Exited\<rparr>, [])
      else Inr (s, []))"

definition hw1_step :: "int \<Rightarrow> u8 \<Rightarrow> hw1 \<Rightarrow> hw1_error + (hw1 \<times> request list)" where
  "hw1_step refill key s =
     (case mode s of
        Menu \<Rightarrow> menu_key key s
      | LoginKeys i \<Rightarrow> login_key key i s
      | BuyKeys i \<Rightarrow> buy_key refill key i s
      | Exited \<Rightarrow> Inr (s, []))"

text \<open>
  The start: \<open>None\<close> is the usage message. The static \<open>seg\<close> has \<open>Mode\<close> 0 until \<open>print_7seg\<close> sets it.
\<close>

definition hw1_start :: "int \<Rightarrow> u8 list option \<Rightarrow> (hw1 \<times> request list) option" where
  "hw1_start day file =
     (let info = \<lparr>Mode = 0, Which = SEG_ALL, Value = 0\<rparr>
      in if day < 1 \<or> 7 < day then None
      else Some (\<lparr>mode = Menu, table = inventory_bss, inventory_txt = file, inOut = False,
                  ID_number = replicate 10 0, i_ID = 0, day_of_week = day, allowlog = False, bought = False,
                  buy_n = 0, bought_n = 0, login_n = 0, check = replicate 10 (replicate 10 0),
                  buyinfo = replicate 10 0, alcohol = 5, seg_arg = info\<rparr>,
                 [LcdClear, KeyClear, SegSet info, menu_text ''2. login''] @
                 hw1_print_led day))"

fun hw1_run :: "int \<Rightarrow> u8 list \<Rightarrow> hw1 \<Rightarrow> hw1_error + (hw1 \<times> request list)" where
  "hw1_run refill [] s = Inr (s, [])"
| "hw1_run refill (k # ks) s =
     (case hw1_step refill k s of
        Inl e \<Rightarrow> Inl e
      | Inr (s1, out1) \<Rightarrow>
          (case hw1_run refill ks s1 of Inl e \<Rightarrow> Inl e | Inr (s2, out2) \<Rightarrow> Inr (s2, out1 @ out2)))"

section \<open>The check digit\<close>

definition id_char :: "u8 \<Rightarrow> bool" where "id_char ch \<longleftrightarrow> 48 \<le> uint ch \<and> uint ch \<le> 57"

definition well_formed_id :: "hw1 \<Rightarrow> bool" where
  "well_formed_id s \<longleftrightarrow> (\<forall>i. 1 \<le> i \<and> i \<le> 9 \<longrightarrow> id_char (ID_number s ! i))"

text \<open>The weighted sum of the rule for identity numbers, check digit included.\<close>

definition id_sum :: "hw1 \<Rightarrow> int" where
  "id_sum s = id_letter (ID_number s ! 0) + (\<Sum>i = 1..8. id_digit s i * (9 - int i)) + id_digit s 9"

lemma id_letter_bounds: "0 \<le> id_letter ch" by (simp add: id_letter_def)

lemma checkIDnumber_fields [simp]:
  "mode (checkIDnumber s) = mode s" "table (checkIDnumber s) = table s" "check (checkIDnumber s) = check s"
  "ID_number (checkIDnumber s) = ID_number s" "i_ID (checkIDnumber s) = i_ID s"
  "login_n (checkIDnumber s) = login_n s" "inOut (checkIDnumber s) = inOut s"
  "inventory_txt (checkIDnumber s) = inventory_txt s" "buyinfo (checkIDnumber s) = buyinfo s"
  "bought (checkIDnumber s) = bought s" "bought_n (checkIDnumber s) = bought_n s"
  "buy_n (checkIDnumber s) = buy_n s" "alcohol (checkIDnumber s) = alcohol s"
  "day_of_week (checkIDnumber s) = day_of_week s"
  by (simp_all add: checkIDnumber_def Let_def)

lemma smod_10: "0 \<le> x \<Longrightarrow> x smod 10 = x mod (10 :: int)"
  by (simp add: signed_modulo_int_def signed_divide_int_def sgn_if mod_div_trivial minus_div_mult_eq_mod [symmetric])

lemma smod_2: "0 \<le> x \<Longrightarrow> x smod 2 = x mod (2 :: int)"
  by (simp add: signed_modulo_int_def signed_divide_int_def sgn_if minus_div_mult_eq_mod [symmetric])

lemma check_digit_arith:
  fixes x d :: int
  assumes "0 \<le> d" "d \<le> 9"
  shows "10 - x mod 10 = d \<longleftrightarrow> (x + d) mod 10 = 0 \<and> d \<noteq> 0"
  using assms by presburger

lemma checkIDnumber_accepts:
  assumes "well_formed_id s" "1 \<le> day_of_week s" "day_of_week s \<le> 7"
  shows "allowlog (checkIDnumber s) \<longleftrightarrow>
    id_sum s mod 10 = 0 \<and> id_digit s 9 \<noteq> 0 \<and> (day_of_week s = 7 \<or> day_of_week s mod 2 = id_digit s 9 mod 2)"
proof -
  have d: "0 \<le> id_digit s i \<and> id_digit s i \<le> 9" if "1 \<le> i" "i \<le> 9" for i
    using assms(1) that by (simp add: well_formed_id_def id_char_def id_digit_def)
  let ?x = "id_letter (ID_number s ! 0) + id_digit s 1 * 8 + id_digit s 2 * 7 + id_digit s 3 * 6 + id_digit s 4 * 5 +
    id_digit s 5 * 4 + id_digit s 6 * 3 + id_digit s 7 * 2 + id_digit s 8 * 1"
  have x: "0 \<le> ?x"
    using d [of 1] d [of 2] d [of 3] d [of 4] d [of 5] d [of 6] d [of 7] d [of 8]
      id_letter_bounds [of "ID_number s ! 0"] by simp
  have "{1..8} = {1,2,3,4,5,6,7,8::nat}" by auto
  then have "id_sum s = ?x + id_digit s 9" unfolding id_sum_def by simp
  moreover have "10 - ?x smod 10 = id_digit s 9 \<longleftrightarrow> (?x + id_digit s 9) mod 10 = 0 \<and> id_digit s 9 \<noteq> 0"
    unfolding smod_10 [OF x] by (rule check_digit_arith) (use d [of 9] in simp_all)
  moreover have "day_of_week s smod 2 = day_of_week s mod 2" "id_digit s 9 smod 2 = id_digit s 9 mod 2"
    by (rule smod_2; use assms d [of 9] in simp)+
  ultimately show ?thesis unfolding checkIDnumber_def Let_def by simp
qed


section \<open>The state stays well formed\<close>

lemma length_read_rows:
  "read_rows k j s f rows = Inr (s', f', rows', out) \<Longrightarrow> length rows' = length rows"
proof (induction k j s f rows arbitrary: s' f' rows' out rule: read_rows.induct)
  case (1 j s f rows)
  then show ?case by simp
next
  case (2 k j s f rows)
  obtain s1 file1 where fg: "fgets s f = (s1, file1)" by fastforce
  let ?v = "scan_row s1 (rows ! j)"
  from 2(2) obtain s2 file2 rows2 out2 where
    "read_rows k (j + 1) s1 file1 (rows[j := ?v]) = Inr (s2, file2, rows2, out2)" "rows' = rows2"
    and c: "\<not> length rows \<le> j" "\<not> 50 \<le> length (city ?v)"
    by (auto simp: fg Let_def split: if_splits sum.splits)
  from 2(1) [OF fg [symmetric] refl c(1) refl c(2) this(1)] this(2) show ?case by simp
qed

lemma read_types_shape:
  "read_types k i s f counts tab = Inr (s', counts', tab', out) \<Longrightarrow>
     \<forall>rows \<in> set tab. length rows = 100 \<Longrightarrow>
     length counts' = length counts \<and> length tab' = length tab \<and> (\<forall>rows \<in> set tab'. length rows = 100)"
proof (induction k arbitrary: i s f counts tab s' counts' tab' out)
  case 0
  then show ?case by simp
next
  case (Suc k)
  from Suc.prems(1) obtain n s2 file2 counts1 s3 file3 rows out1 out2 where
    c: "length counts1 = length counts" "i < length tab"
      "read_rows n 0 s2 file2 (tab ! i) = Inr (s3, file3, rows, out1)"
      "read_types k (i + 1) s3 file3 counts1 (tab[i := rows]) = Inr (s', counts', tab', out2)"
    by (auto simp: Let_def not_le split: prod.splits if_splits sum.splits option.splits)
      (metis length_list_update)
  have "length rows = 100" using length_read_rows [OF c(3)] c(2) Suc.prems(2) by simp
  then have "\<forall>rows \<in> set (tab[i := rows]). length rows = 100"
    using Suc.prems(2) set_update_subset_insert [of tab i rows] by auto
  from Suc.IH [OF c(4) this] c(1) show ?case by simp
qed

lemma readInventory_shape: "readInventory f t = Inr (t', out) \<Longrightarrow> table_shape t \<Longrightarrow> table_shape t'"
  by (auto simp: readInventory_def table_shape_def Let_def split: prod.splits sum.splits
      dest!: read_types_shape)

definition hw1_wf :: "hw1 \<Rightarrow> bool" where
  "hw1_wf s \<longleftrightarrow> length (ID_number s) = 10 \<and> length (buyinfo s) = 10 \<and> length (check s) = 10 \<and>
     (\<forall>row \<in> set (check s). length row = 10) \<and> table_shape (table s) \<and> 1 \<le> day_of_week s \<and> day_of_week s \<le> 7"

definition sell :: "hw1 \<Rightarrow> inventory" where
  "sell s =
     (let i = nat (uint (buyinfo s ! 0) - 65); j = nat (buy_number s 2 - 1); rows = shops (table s) ! i
      in (table s)\<lparr>shops := (shops (table s))[i := rows[j := take_masks (buy_number s 4) (buy_number s 6) (buy_number s 8) (rows ! j)]]\<rparr>)"

lemma sell_shape: "table_shape (table s) \<Longrightarrow> nat (uint (buyinfo s ! 0) - 65) < 5 \<Longrightarrow> table_shape (sell s)"
  unfolding table_shape_def sell_def Let_def
  by (auto dest!: subsetD [OF set_update_subset_insert])

text \<open>What a key can do to the login records: nothing, or one more login.\<close>

definition logged_in :: "hw1 \<Rightarrow> hw1 \<Rightarrow> bool" where
  "logged_in s s' \<longleftrightarrow> login_n s' = login_n s + 1 \<and> i_ID s < 10 \<and>
     check s' = (check s)[i_ID s := ID_number s'] \<and> i_ID s' = (if 10 \<le> i_ID s + 1 then 0 else i_ID s + 1)"

definition same_logins :: "hw1 \<Rightarrow> hw1 \<Rightarrow> bool" where
  "same_logins s s' \<longleftrightarrow> login_n s' = login_n s \<and> check s' = check s \<and> i_ID s' = i_ID s"

lemma menu_key_keeps:
  assumes "menu_key key s = Inr (s', out)" "hw1_wf s"
  shows "hw1_wf s' \<and> same_logins s s' \<and> ID_number s' = ID_number s"
  using assms
  by (auto simp: menu_key_def start_buy_def hw1_wf_def same_logins_def Let_def
      split: if_splits option.splits sum.splits bool.splits dest: readInventory_shape)

lemma buy_key_keeps:
  assumes "buy_key refill key i s = Inr (s', out)" "hw1_wf s"
  shows "hw1_wf s' \<and> same_logins s s' \<and> ID_number s' = ID_number s"
  using assms sell_shape [of s, unfolded sell_def Let_def]
  by (auto simp: buy_key_def hw1_wf_def same_logins_def Let_def table_shape_def
      split: if_splits option.splits)

lemma login_key_keeps:
  assumes "login_key key i s = Inr (s', out)" "hw1_wf s"
  shows "hw1_wf s' \<and> (same_logins s s' \<or> logged_in s s')"
proof (cases "key = 0x23 \<and> allowlog (checkIDnumber s)")
  case True
  have "\<forall>row \<in> set ((check s)[i_ID s := ID_number s]). length row = 10"
    using assms(2) by (auto simp: hw1_wf_def dest!: subsetD [OF set_update_subset_insert])
  with True assms show ?thesis
    by (auto simp: login_key_def print_7seg_def hw1_wf_def logged_in_def Let_def split: if_splits)
next
  case False
  with assms show ?thesis
    by (auto simp: login_key_def hw1_wf_def same_logins_def Let_def split: if_splits)
qed

lemma hw1_step_keeps:
  assumes "hw1_step refill key s = Inr (s', out)" "hw1_wf s"
  shows "hw1_wf s'" "same_logins s s' \<or> logged_in s s'"
proof -
  have "hw1_wf s' \<and> (same_logins s s' \<or> logged_in s s')"
    using assms menu_key_keeps [of key s s' out] buy_key_keeps [of refill key _ s s' out]
      login_key_keeps [of key _ s s' out]
    by (auto simp: hw1_step_def same_logins_def split: hw1_mode.splits)
  then show "hw1_wf s'" "same_logins s s' \<or> logged_in s s'" by simp_all
qed


section \<open>Who has logged in\<close>

text \<open>The runs of the program, with the identity numbers of the successful logins, oldest first.\<close>

inductive hw1_reach :: "int \<Rightarrow> int \<Rightarrow> u8 list option \<Rightarrow> u8 list list \<Rightarrow> hw1 \<Rightarrow> bool" for refill day f0 where
  start: "hw1_start day f0 = Some (s, out) \<Longrightarrow> hw1_reach refill day f0 [] s"
| key: "hw1_reach refill day f0 ids s \<Longrightarrow> hw1_step refill key s = Inr (s', out) \<Longrightarrow>
    hw1_reach refill day f0 (if login_n s < login_n s' then ids @ [ID_number s'] else ids) s'"

lemma start_wf: "hw1_start day f0 = Some (s, out) \<Longrightarrow> hw1_wf s"
  by (auto simp: hw1_start_def hw1_wf_def table_shape_def inventory_bss_def Let_def split: if_splits)

definition records :: "u8 list list \<Rightarrow> hw1 \<Rightarrow> bool" where
  "records ids s \<longleftrightarrow> login_n s = int (length ids) \<and> i_ID s = length ids mod 10 \<and>
     (\<forall>k<length ids. length ids \<le> k + 10 \<longrightarrow> check s ! (k mod 10) = ids ! k)"

lemma start_records: "hw1_start day f0 = Some (s, out) \<Longrightarrow> records [] s"
  by (auto simp: hw1_start_def records_def Let_def split: if_splits)

lemma records_snoc:
  assumes "records ids s" "logged_in s s'" "length (check s) = 10"
  shows "records (ids @ [ID_number s']) s'"
proof -
  let ?n = "length ids"
  have l: "login_n s' = int ?n + 1" "check s' = (check s)[?n mod 10 := ID_number s']"
    "i_ID s' = (if 10 \<le> ?n mod 10 + 1 then 0 else ?n mod 10 + 1)"
    using assms(1,2) by (simp_all add: records_def logged_in_def)
  have "i_ID s' = Suc ?n mod 10" using mod_less_divisor [of 10 ?n] unfolding l(3) by (simp add: mod_Suc del: mod_less_divisor)
  moreover have "check s' ! (k mod 10) = (ids @ [ID_number s']) ! k"
    if k: "k < Suc ?n" "Suc ?n \<le> k + 10" for k
  proof (cases "k = ?n")
    case True
    then show ?thesis using assms(3) l(2) by simp
  next
    case False
    then have "k < ?n" "?n - k < 10" using k by simp_all
    then have "k mod 10 \<noteq> ?n mod 10" by (metis mod_eq_dvd_iff_nat less_imp_le nat_dvd_not_less zero_less_diff)
    then show ?thesis using \<open>k < ?n\<close> k assms(1) l(2) by (simp add: records_def nth_append)
  qed
  ultimately show ?thesis by (simp add: records_def l(1))
qed

lemma keeps_records:
  assumes "records ids s" "length (check s) = 10" "same_logins s s' \<or> logged_in s s'"
  shows "records (if login_n s < login_n s' then ids @ [ID_number s'] else ids) s'"
proof (cases "logged_in s s'")
  case True
  then have "login_n s < login_n s'" by (simp add: logged_in_def)
  with records_snoc [OF assms(1) True assms(2)] show ?thesis by simp
next
  case False
  then show ?thesis using assms(1,3) by (simp add: same_logins_def records_def)
qed

lemma reach_records: "hw1_reach refill day f0 ids s \<Longrightarrow> hw1_wf s \<and> records ids s"
proof (induction rule: hw1_reach.induct)
  case (start s out)
  then show ?case by (simp add: start_wf start_records)
next
  case (key ids s k s' out)
  have w: "hw1_wf s" "records ids s" using key.IH by simp_all
  note step = hw1_step_keeps [OF key.hyps(2) w(1)]
  show ?case using step(1) keeps_records [OF w(2) _ step(2)] w(1) by (simp add: hw1_wf_def)
qed

lemma same_id: "length a = 10 \<Longrightarrow> length b = 10 \<Longrightarrow> (\<forall>j<10. a ! j = b ! j) = (a = b)"
  by (auto intro: nth_equalityI)

text \<open>\<open>ifboughtfn\<close> looks for the number among all earlier logins, as long as there are at most ten.\<close>

lemma ifboughtfn_earlier:
  assumes "hw1_reach refill day f0 ids s" "length ids \<le> 10"
  shows "ifboughtfn s = Some (ID_number s \<in> set (butlast ids))"
proof -
  let ?n = "length ids"
  have w: "hw1_wf s" "records ids s" using reach_records [OF assms(1)] by simp_all
  then have n: "login_n s = int ?n" "nat (login_n s - 1) = ?n - 1" by (simp_all add: records_def nat_diff_distrib')
  have c: "check s ! k = ids ! k" if "k < ?n" for k
    using w(2) that assms(2) by (auto simp: records_def)
  have "length (check s ! k) = 10" if "k < 10" for k using w(1) that by (simp add: hw1_wf_def)
  then have eq: "(\<forall>j<10. check s ! k ! j = ID_number s ! j) \<longleftrightarrow> ids ! k = ID_number s" if "k < ?n - 1" for k
  proof -
    have k: "k < ?n" "k < 10" using that assms(2) by simp_all
    from w(1) k(2) have "length (check s ! k) = 10" "length (ID_number s) = 10" by (simp_all add: hw1_wf_def)
    from same_id [OF this] show ?thesis by (simp only: c [OF k(1)])
  qed
  have "0 < length (filter (\<lambda>i. \<forall>j<10. check s ! i ! j = ID_number s ! j) [0..<?n - 1]) \<longleftrightarrow>
      (\<exists>k<?n - 1. ids ! k = ID_number s)"
    using eq by (auto simp: filter_empty_conv)
  also have "\<dots> \<longleftrightarrow> ID_number s \<in> set (butlast ids)"
    by (auto simp: in_set_conv_nth nth_butlast)
  finally show ?thesis using w n assms(2) by (simp add: ifboughtfn_def hw1_wf_def)
qed

text \<open>At the eleventh login the first record is overwritten by the number just typed.\<close>

lemma ifboughtfn_eleventh:
  assumes "hw1_reach refill day f0 ids s" "length ids = 11" "ID_number s = last ids"
  shows "ifboughtfn s = Some True"
proof -
  have w: "hw1_wf s" "records ids s" using reach_records [OF assms(1)] by simp_all
  have "\<forall>k<11. 11 \<le> k + 10 \<longrightarrow> check s ! (k mod 10) = ids ! k" using w(2) assms(2) by (simp add: records_def)
  from this [rule_format, of 10] have "check s ! 0 = ids ! 10" by simp
  moreover have "last ids = ids ! 10" using assms(2) by (subst last_conv_nth) auto
  ultimately have "0 \<in> set (filter (\<lambda>i. \<forall>j<10. check s ! i ! j = ID_number s ! j) [0..<10])"
    using assms(3) by simp
  then have "filter (\<lambda>i. \<forall>j<10. check s ! i ! j = ID_number s ! j) [0..<10] \<noteq> []" by force
  then show ?thesis using w assms(2) by (simp add: ifboughtfn_def hw1_wf_def records_def del: upt_Suc)
qed


section \<open>Selling\<close>

text \<open>Stocks of the first two kinds never go below zero; the third is not clamped.\<close>

lemma take_masks_stocks:
  "stock_a (take_masks x y z v) = max 0 (stock_a v - x)" "stock_b (take_masks x y z v) = max 0 (stock_b v - y)"
  "stock_c (take_masks x y z v) = stock_c v - z" "city (take_masks x y z v) = city v"
  "line (take_masks x y z v) = line v"
  by (simp_all add: take_masks_def Let_def max_def)

text \<open>An order the code accepts: nine characters, at most three masks, a shop that is in the table.\<close>

definition order_ok :: "hw1 \<Rightarrow> bool" where
  "order_ok s \<longleftrightarrow> 65 \<le> uint (buyinfo s ! 0) \<and> uint (buyinfo s ! 0) - 65 < num (table s) \<and>
     1 \<le> buy_number s 2 \<and> buy_number s 2 \<le> in_num (table s) ! nat (uint (buyinfo s ! 0) - 65) \<and>
     0 \<le> buy_number s 4 \<and> 0 \<le> buy_number s 6 \<and> 0 \<le> buy_number s 8 \<and>
     buy_number s 4 + buy_number s 6 + buy_number s 8 \<le> 3"

lemma sell_table_ok:
  assumes "table_ok (table s)" "order_ok s"
    "0 \<le> stock_c (shops (table s) ! nat (uint (buyinfo s ! 0) - 65) ! nat (buy_number s 2 - 1))"
  shows "table_ok (sell s)"
proof -
  let ?i = "nat (uint (buyinfo s ! 0) - 65)" and ?j = "nat (buy_number s 2 - 1)"
  let ?r = "shops (table s) ! ?i ! ?j"
  let ?r' = "take_masks (buy_number s 4) (buy_number s 6) (buy_number s 8) ?r"
  have i: "?i < nat (num (table s))" using assms(2) by (auto simp: order_ok_def)
  have j: "?j < nat (in_num (table s) ! ?i)" using assms(2) by (auto simp: order_ok_def)
  have r: "row_ok ?r" using assms(1) i j by (simp add: table_ok_def)
  have "row_ok ?r'"
    using r assms(2,3) by (auto simp: row_ok_def take_masks_stocks int32_def order_ok_def max_def)
  moreover have "?i < 5" using i assms(1) by (auto simp: table_ok_def)
  moreover have "?j < 100"
  proof -
    have "in_num (table s) ! ?i \<le> 100" using assms(1) i by (simp add: table_ok_def)
    then have "nat (in_num (table s) ! ?i) \<le> 100" by simp
    with j show ?thesis by (rule less_le_trans)
  qed
  ultimately show ?thesis
    using assms(1) unfolding table_ok_def sell_def Let_def by (auto simp: nth_list_update)
qed

lemma buy_key_sells:
  assumes "hw1_wf s" "table_ok (table s)" "order_ok s" "buy_n s \<le> 0"
    "0 \<le> stock_c (shops (table s) ! nat (uint (buyinfo s ! 0) - 65) ! nat (buy_number s 2 - 1))"
  shows "\<exists>s' f out. buy_key refill 0x23 9 s = Inr (s', out) \<and> table s' = sell s \<and> mode s' = Menu \<and>
    rewriteInv (sell s) = Some f \<and> inventory_txt s' = Some f \<and> bought_n s' = bought_n s + 1"
proof -
  have ok: "table_ok (sell s)" by (rule sell_table_ok [OF assms(2,3,5)])
  then obtain f where f: "rewriteInv (sell s) = Some f"
    using rewrite_read [OF ok, of inventory_bss] by (auto simp: table_shape_def inventory_bss_def)
  have i: "nat (uint (buyinfo s ! 0) - 65) < nat (num (table s))" using assms(3) by (auto simp: order_ok_def)
  then have "in_num (table s) ! nat (uint (buyinfo s ! 0) - 65) \<le> 100"
    "length (shops (table s) ! nat (uint (buyinfo s ! 0) - 65)) = 100"
    "length (shops (table s)) = 5" "num (table s) \<le> 5"
    using assms(2) by (simp_all add: table_ok_def)
  with f assms(3,4) show ?thesis
    by (auto simp: buy_key_def Let_def order_ok_def sell_def)
qed

text \<open>What the next visitor of the menu sees: the file that was written, read back.\<close>

lemma buy_then_show:
  assumes "hw1_wf s" "table_ok (table s)" "order_ok s" "buy_n s \<le> 0"
    "0 \<le> stock_c (shops (table s) ! nat (uint (buyinfo s ! 0) - 65) ! nat (buy_number s 2 - 1))"
  shows "\<exists>s1 s2 out1 out2. buy_key refill 0x23 9 s = Inr (s1, out1) \<and> hw1_step refill 0x31 s1 = Inr (s2, out2) \<and>
    num (table s2) = num (table s) \<and>
    (\<forall>i<nat (num (table s)). \<forall>j<nat (in_num (table s) ! i).
       shops (table s2) ! i ! j = (shops (sell s) ! i ! j)\<lparr>line := int j + 1\<rparr>)"
proof -
  obtain s1 f out1 where b: "buy_key refill 0x23 9 s = Inr (s1, out1)" "table s1 = sell s" "mode s1 = Menu"
    "rewriteInv (sell s) = Some f" "inventory_txt s1 = Some f"
    using buy_key_sells [OF assms] by blast
  have ok: "table_ok (sell s)" by (rule sell_table_ok [OF assms(2,3,5)])
  have "table_shape (sell s)" using buy_key_keeps [OF b(1) assms(1)] b(2) by (simp add: hw1_wf_def)
  from rewrite_read [OF ok this] b(4) obtain t1 out where
    "readInventory f (sell s) = Inr (t1, out)" "num t1 = num (sell s)"
    "\<forall>i<nat (num (sell s)). in_num t1 ! i = in_num (sell s) ! i \<and>
      (\<forall>j<nat (in_num (sell s) ! i). shops t1 ! i ! j = (shops (sell s) ! i ! j)\<lparr>line := int j + 1\<rparr>)"
    by auto
  moreover have "num (sell s) = num (table s)" "in_num (sell s) = in_num (table s)"
    by (simp_all add: sell_def Let_def)
  ultimately show ?thesis using b by (auto simp: hw1_step_def menu_key_def)
qed

section \<open>Whole visits\<close>

lemma hw1_run_append:
  "hw1_run r (ks @ ks') s =
     (case hw1_run r ks s of Inl e \<Rightarrow> Inl e
      | Inr (s1, out1) \<Rightarrow> (case hw1_run r ks' s1 of Inl e \<Rightarrow> Inl e | Inr (s2, out2) \<Rightarrow> Inr (s2, out1 @ out2)))"
  by (induction ks arbitrary: s) (auto split: sum.splits)

lemma hw1_run_then:
  "hw1_run r ks s = Inr (s1, out1) \<Longrightarrow> hw1_run r ks' s1 = Inr (s2, out2) \<Longrightarrow>
     hw1_run r (ks @ ks') s = Inr (s2, out1 @ out2)"
  by (simp add: hw1_run_append)

definition overwrite :: "nat \<Rightarrow> u8 list \<Rightarrow> u8 list \<Rightarrow> u8 list" where
  "overwrite i ks buf = take i buf @ ks @ drop (i + length ks) buf"

lemma overwrite_Nil [simp]: "overwrite i [] buf = buf"
  by (simp add: overwrite_def)

lemma overwrite_Cons: "i < length buf \<Longrightarrow> overwrite i (k # ks) buf = overwrite (i + 1) ks (buf[i := k])"
  by (simp add: overwrite_def take_Suc_conv_app_nth)

lemma overwrite_whole [simp]: "length ks = length buf \<Longrightarrow> overwrite 0 ks buf = ks"
  by (simp add: overwrite_def)

text \<open>Keys other than \<open>#\<close> go into the buffer and are echoed.\<close>

lemma login_types:
  "mode s = LoginKeys i \<Longrightarrow> 0x23 \<notin> set ks \<Longrightarrow> i + length ks \<le> length (ID_number s) \<Longrightarrow>
     hw1_run r ks s = Inr (s\<lparr>ID_number := overwrite i ks (ID_number s), mode := LoginKeys (i + length ks)\<rparr>,
       map (\<lambda>k. LcdWrite [k]) ks)"
proof (induction ks arbitrary: s i)
  case Nil
  then show ?case by simp
next
  case (Cons k ks)
  then show ?case
    using Cons.IH [of "s\<lparr>ID_number := (ID_number s)[i := k], mode := LoginKeys (i + 1)\<rparr>" "i + 1"]
    by (simp add: hw1_step_def login_key_def overwrite_Cons)
qed

lemma buy_types:
  "mode s = BuyKeys i \<Longrightarrow> 0x23 \<notin> set ks \<Longrightarrow> i + length ks \<le> length (buyinfo s) \<Longrightarrow>
     hw1_run r ks s = Inr (s\<lparr>buyinfo := overwrite i ks (buyinfo s), mode := BuyKeys (i + length ks)\<rparr>,
       map (\<lambda>k. LcdWrite (if k = 0x2a then [0x20] else [k])) ks)"
proof (induction ks arbitrary: s i)
  case Nil
  then show ?case by simp
next
  case (Cons k ks)
  then show ?case
    using Cons.IH [of "s\<lparr>buyinfo := (buyinfo s)[i := k], mode := BuyKeys (i + 1)\<rparr>" "i + 1"]
    by (simp add: hw1_step_def buy_key_def overwrite_Cons)
qed

lemma login_too_long:
  assumes "hw1_wf s" "mode s = LoginKeys 0" "0x23 \<notin> set ks" "length ks = 11"
  shows "hw1_run r ks s = Inl HwOutOfRange"
proof -
  obtain ks1 k where k: "ks = ks1 @ [k]" "length ks1 = 10" using assms(4) by (cases ks rule: rev_cases) auto
  have "hw1_run r ks1 s = Inr (s\<lparr>ID_number := overwrite 0 ks1 (ID_number s), mode := LoginKeys 10\<rparr>,
      map (\<lambda>k. LcdWrite [k]) ks1)"
    using login_types [OF assms(2), of ks1] assms(1,3) k by (simp add: hw1_wf_def)
  then show ?thesis using assms(1,3) k by (simp add: hw1_run_append hw1_step_def login_key_def hw1_wf_def)
qed

text \<open>A visit: the key 2, ten characters, \<open>#\<close>.\<close>

lemma login_visit:
  assumes "hw1_wf s" "mode s = Menu" "\<not> inOut s" "i_ID s < 10" "length ident = 10" "0x23 \<notin> set ident"
    and s1: "s1 = s\<lparr>ID_number := ident\<rparr>"
  shows "\<exists>s' out. hw1_run r ([0x32] @ ident @ [0x23]) s = Inr (s', out) \<and> mode s' = Menu \<and> inOut s' \<and>
    ID_number s' = ident \<and> table s' = table s \<and>
    login_n s' = login_n s + (if allowlog (checkIDnumber s1) then 1 else 0)"
proof -
  let ?s2 = "s\<lparr>inOut := True, mode := LoginKeys 10, ID_number := ident\<rparr>"
  have "hw1_run r ident (s\<lparr>inOut := True, mode := LoginKeys 0\<rparr>) = Inr (?s2, map (\<lambda>k. LcdWrite [k]) ident)"
    using login_types [of "s\<lparr>inOut := True, mode := LoginKeys 0\<rparr>" 0 ident r] assms by (simp add: hw1_wf_def)
  moreover have "allowlog (checkIDnumber ?s2) = allowlog (checkIDnumber s1)"
    by (simp add: checkIDnumber_def s1 id_digit_def Let_def)
  ultimately show ?thesis using assms(1-4)
    by (simp add: hw1_run_append hw1_step_def menu_key_def login_key_def print_7seg_def hw1_wf_def Let_def)
qed

section \<open>Two ways around the rules\<close>

text \<open>
  A refused login still counts as logged in, and an order placed before the inventory was shown
  writes the empty table over the file: the keys are 2, #, 3, an order of one mask at shop A1, #.
\<close>

definition hasty_keys :: "u8 list" where
  "hasty_keys = ascii ''2#3A*1*1*0*0#''"

lemma hasty_sale:
  assumes "1 \<le> day" "day \<le> 7"
  shows "\<exists>s out0 s' out. hw1_start day (Some f) = Some (s, out0) \<and> hw1_run 0 hasty_keys s = Inr (s', out) \<and>
    login_n s' = 0 \<and> allowlog s' = False \<and> bought_n s' = 1 \<and> inventory_txt s' = Some ([0x30, 0x0a])"
proof -
  let ?info = "\<lparr>Mode = 0, Which = SEG_ALL, Value = 0\<rparr> :: seg_info"
  obtain s out0 where s: "hw1_start day (Some f) = Some (s, out0)" "s = \<lparr>mode = Menu, table = inventory_bss,
      inventory_txt = Some f, inOut = False,
      ID_number = replicate 10 0, i_ID = 0, day_of_week = day, allowlog = False, bought = False,
      buy_n = 0, bought_n = 0, login_n = 0, check = replicate 10 (replicate 10 0),
      buyinfo = replicate 10 0, alcohol = 5, seg_arg = ?info\<rparr>"
    using assms by (simp add: hw1_start_def Let_def)
  have k: "hasty_keys = [0x32, 0x23, 0x33] @ [0x41, 0x2a, 0x31, 0x2a, 0x31, 0x2a, 0x30, 0x2a, 0x30] @ [0x23]"
    by code_simp
  have z: "replicate 10 (0 :: u8) = [0,0,0,0,0,0,0,0,0,0]" by code_simp
  have smod: "(- 1728 :: int) smod 10 = - 8" by code_simp
  have ref: "checkIDnumber (s\<lparr>inOut := True, mode := LoginKeys 0\<rparr>) =
      s\<lparr>inOut := True, mode := LoginKeys 0, allowlog := False\<rparr>"
    unfolding s(2) z by (simp add: checkIDnumber_def id_digit_def id_letter_def Let_def smod)
  have d: "dec 0 = [0x30]" by code_simp
  let ?s1 = "s\<lparr>inOut := True, mode := BuyKeys 0, allowlog := False\<rparr>"
  let ?order = "[0x41, 0x2a, 0x31, 0x2a, 0x31, 0x2a, 0x30, 0x2a, 0x30] :: u8 list"
  let ?s2 = "s\<lparr>inOut := True, mode := BuyKeys 9, allowlog := False, buyinfo := ?order @ [0]\<rparr>"
  have 1: "\<exists>out. hw1_run 0 [0x32, 0x23, 0x33] s = Inr (?s1, out)"
    using ref s(2) by (simp add: hw1_step_def menu_key_def login_key_def start_buy_def)
  have 2: "\<exists>out. hw1_run 0 ?order ?s1 = Inr (?s2, out)"
    using buy_types [of ?s1 0 ?order 0] s(2) by (simp add: overwrite_def)
  have 3: "\<exists>s' out. hw1_run 0 [0x23] ?s2 = Inr (s', out) \<and> login_n s' = 0 \<and> allowlog s' = False \<and> bought_n s' = 1 \<and>
      inventory_txt s' = Some [0x30, 0x0a]"
    by (simp add: s(2) hw1_step_def buy_key_def Let_def buy_number_def inventory_bss_def rewriteInv_def d nl_def)
  from 2 3 have "\<exists>s' out. hw1_run 0 (?order @ [0x23]) ?s1 = Inr (s', out) \<and> login_n s' = 0 \<and> allowlog s' = False \<and>
      bought_n s' = 1 \<and> inventory_txt s' = Some [0x30, 0x0a]" by (blast intro: hw1_run_then)
  with 1 s(1) show ?thesis unfolding k by (blast intro: hw1_run_then)
qed

section \<open>Visits and the login records\<close>

lemma hw1_step_mono: "hw1_step r k s = Inr (s', out) \<Longrightarrow> hw1_wf s \<Longrightarrow> login_n s \<le> login_n s'"
  using hw1_step_keeps(2) [of r k s s' out] by (auto simp: same_logins_def logged_in_def)

lemma hw1_run_mono: "hw1_run r ks s = Inr (s', out) \<Longrightarrow> hw1_wf s \<Longrightarrow> login_n s \<le> login_n s'"
proof (induction ks arbitrary: s out)
  case Nil
  then show ?case by simp
next
  case (Cons k ks)
  from Cons.prems(1) obtain s1 out1 out2 where "hw1_step r k s = Inr (s1, out1)" "hw1_run r ks s1 = Inr (s', out2)"
    by (auto split: sum.splits)
  with Cons.IH [of s1 out2] hw1_step_mono [of r k s s1 out1] hw1_step_keeps(1) [of r k s s1 out1] Cons.prems(2)
  show ?case by simp
qed

text \<open>A run without a login leaves the list of logins alone.\<close>

lemma reach_quiet:
  "hw1_run r ks s = Inr (s', out) \<Longrightarrow> hw1_reach r day f0 ids s \<Longrightarrow> login_n s' = login_n s \<Longrightarrow> hw1_reach r day f0 ids s'"
proof (induction ks arbitrary: s out)
  case Nil
  then show ?case by simp
next
  case (Cons k ks)
  from Cons.prems(1) obtain s1 out1 out2 where
    step: "hw1_step r k s = Inr (s1, out1)" and run: "hw1_run r ks s1 = Inr (s', out2)"
    by (auto split: sum.splits)
  have wf: "hw1_wf s" using reach_records [OF Cons.prems(2)] by blast
  have "login_n s1 = login_n s"
    using hw1_step_mono [OF step wf] hw1_run_mono [OF run hw1_step_keeps(1) [OF step wf]] Cons.prems(3) by simp
  with hw1_reach.key [OF Cons.prems(2) step] Cons.IH [OF run] Cons.prems(3) show ?case by simp
qed

text \<open>The rule a number must satisfy on a day, whoever asks.\<close>

definition admits :: "int \<Rightarrow> u8 list \<Rightarrow> bool" where
  "admits day ident \<longleftrightarrow> length ident = 10 \<and> 0x23 \<notin> set ident \<and>
     (\<forall>s. day_of_week s = day \<and> ID_number s = ident \<longrightarrow> allowlog (checkIDnumber s))"

definition at_menu :: "int \<Rightarrow> bool \<Rightarrow> hw1 \<Rightarrow> bool" where
  "at_menu day inside s \<longleftrightarrow> mode s = Menu \<and> inOut s = inside \<and> day_of_week s = day"

lemma reach_visit:
  assumes "hw1_reach r day f0 ids s" "at_menu d False s" "admits d ident"
  shows "\<exists>s'. hw1_reach r day f0 (ids @ [ident]) s' \<and> at_menu d True s' \<and> ID_number s' = ident"
proof -
  have w: "hw1_wf s" "i_ID s < 10"
    using reach_records [OF assms(1)] by (simp_all add: records_def)
  let ?s1 = "s\<lparr>inOut := True, mode := LoginKeys 0\<rparr>"
  let ?s2 = "s\<lparr>inOut := True, mode := LoginKeys 10, ID_number := ident\<rparr>"
  have "hw1_run r ident ?s1 = Inr (?s2, map (\<lambda>k. LcdWrite [k]) ident)"
    using login_types [of ?s1 0 ident r] assms(3) w by (simp add: hw1_wf_def admits_def)
  then have "\<exists>out. hw1_run r (0x32 # ident) s = Inr (?s2, out)"
    using assms(2) by (simp add: at_menu_def hw1_step_def menu_key_def)
  with reach_quiet [OF _ assms(1)] have reach: "hw1_reach r day f0 ids ?s2" by fastforce
  have "allowlog (checkIDnumber ?s2)" using assms(2,3) by (simp add: admits_def at_menu_def)
  then obtain s' out where s': "hw1_step r 0x23 ?s2 = Inr (s', out)" "login_n s' = login_n s + 1"
    "at_menu d True s'" "ID_number s' = ident"
    using w assms(2) by (simp add: hw1_step_def login_key_def print_7seg_def hw1_wf_def at_menu_def Let_def)
  with hw1_reach.key [OF reach s'(1)] show ?thesis by auto
qed

lemma reach_logout:
  assumes "hw1_reach r day f0 ids s" "at_menu d True s"
  shows "\<exists>s'. hw1_reach r day f0 ids s' \<and> at_menu d False s'"
proof -
  obtain s' out where "hw1_step r 0x32 s = Inr (s', out)" "login_n s' = login_n s" "at_menu d False s'"
    using assms(2) by (simp add: hw1_step_def menu_key_def at_menu_def Let_def)
  with hw1_reach.key [OF assms(1)] show ?thesis by fastforce
qed

lemma replicate_snoc: "replicate (Suc n) x = replicate n x @ [x]"
  by (simp add: replicate_append_same)

lemma reach_visits:
  assumes "admits d ident" "\<exists>s. hw1_reach r day f0 [] s \<and> at_menu d False s"
  shows "\<exists>s. hw1_reach r day f0 (replicate n ident) s \<and> at_menu d False s"
proof (induction n)
  case 0
  then show ?case using assms(2) by simp
next
  case (Suc n)
  then show ?case
    using reach_visit [OF _ _ assms(1)] reach_logout unfolding replicate_snoc by metis
qed

section \<open>A visitor\<close>

definition visitor :: "u8 list" where "visitor = ascii ''A123456789''"

lemma visitor_admitted: "admits 7 visitor"
proof -
  have v: "visitor = [0x41, 0x31, 0x32, 0x33, 0x34, 0x35, 0x36, 0x37, 0x38, 0x39]" by code_simp
  have "(121 :: int) smod 10 = 1" by code_simp
  then show ?thesis
    by (auto simp: admits_def v checkIDnumber_def id_digit_def id_letter_def Let_def)
qed

definition hw1_start_state :: hw1 where
  "hw1_start_state = fst (the (hw1_start 7 None))"

lemma hw1_start_state_reach: "hw1_reach 0 7 None [] hw1_start_state" "at_menu 7 False hw1_start_state"
  by (rule hw1_reach.start) (simp_all add: hw1_start_state_def hw1_start_def Let_def at_menu_def)

lemma visitor_again: "\<exists>s. hw1_reach 0 7 None (replicate (Suc n) visitor) s \<and> ID_number s = visitor"
  using reach_visits [OF visitor_admitted] hw1_start_state_reach reach_visit [OF _ _ visitor_admitted]
  unfolding replicate_snoc by metis

section \<open>Properties\<close>

text \<open>
  The rule for identity numbers: on ten characters of which the last nine are digits, a login is
  allowed exactly if the weighted sum with the check digit is a multiple of ten, the check digit is
  not 0 and, except on day 7, has the parity of the day. A valid number with check digit 0 is refused.
\<close>

theorem identity_rule:
  assumes "well_formed_id s" "1 \<le> day_of_week s" "day_of_week s \<le> 7"
  shows "allowlog (checkIDnumber s) =
    (id_sum s mod 10 = 0 \<and> id_digit s 9 \<noteq> 0 \<and> (day_of_week s = 7 \<or> day_of_week s mod 2 = id_digit s 9 mod 2))"
  by (rule checkIDnumber_accepts [OF assms])

theorem identity_rule_witness:
  "allowlog (checkIDnumber (hw1_start_state\<lparr>ID_number := ascii ''A123456789''\<rparr>)) =
    (id_sum (hw1_start_state\<lparr>ID_number := ascii ''A123456789''\<rparr>) mod 10 = 0 \<and>
     id_digit (hw1_start_state\<lparr>ID_number := ascii ''A123456789''\<rparr>) 9 \<noteq> 0 \<and>
     (day_of_week (hw1_start_state\<lparr>ID_number := ascii ''A123456789''\<rparr>) = 7 \<or>
      day_of_week (hw1_start_state\<lparr>ID_number := ascii ''A123456789''\<rparr>) mod 2 =
        id_digit (hw1_start_state\<lparr>ID_number := ascii ''A123456789''\<rparr>) 9 mod 2))"
proof (rule identity_rule)
  have "\<forall>i<10. 1 \<le> i \<longrightarrow> id_char (ascii ''A123456789'' ! i)" by code_simp
  then show "well_formed_id (hw1_start_state\<lparr>ID_number := ascii ''A123456789''\<rparr>)"
    by (simp add: well_formed_id_def)
qed (simp_all add: hw1_start_state_def hw1_start_def Let_def)

text \<open>
  C27: who has been here is known: in every reachable state with at most ten logins, the test before a
  purchase holds exactly if the current number is that of an earlier login, whatever was typed in
  between.
\<close>

theorem earlier_visitor_known:
  assumes "hw1_reach refill day f0 ids s" "length ids \<le> 10"
  shows "ifboughtfn s = Some (ID_number s \<in> set (butlast ids))"
  by (rule ifboughtfn_earlier [OF assms])

theorem earlier_visitor_known_witness:
  "\<exists>s. ifboughtfn s = Some True \<and> ID_number s = visitor"
proof -
  obtain s where s: "hw1_reach 0 7 None [visitor, visitor] s" "ID_number s = visitor"
    using visitor_again [of 1] by auto
  from earlier_visitor_known [OF s(1)] s(2) show ?thesis by auto
qed

text \<open>
  The eleventh visitor is taken for a known one, whoever it is: the ring of ten records puts the
  new number where the search for earlier ones finds it.
\<close>

theorem eleventh_visitor_refused:
  assumes "hw1_reach refill day f0 ids s" "length ids = 11" "ID_number s = last ids"
  shows "ifboughtfn s = Some True"
  by (rule ifboughtfn_eleventh [OF assms])

theorem eleventh_visitor_refused_witness:
  "\<exists>s. ifboughtfn s = Some True \<and> ID_number s = visitor \<and> login_n s = 11"
proof -
  obtain s where s: "hw1_reach 0 7 None (replicate 11 visitor) s" "ID_number s = visitor"
    using visitor_again [of 10] by auto
  moreover have "last (replicate 11 visitor) = visitor" by simp
  moreover have "login_n s = 11" using reach_records [OF s(1)] by (simp add: records_def)
  ultimately show ?thesis using eleventh_visitor_refused [OF s(1)] by auto
qed

text \<open>
  C16: a purchase is on record: an accepted order takes its masks from the chosen shop and no other,
  rewrites the file, and the next \<open>show\<close> reads back exactly that. The stocks of the first two kinds
  stop at zero; the third does not, its clamp in the source names the second kind again.
\<close>

theorem purchase_recorded:
  assumes "hw1_wf s" "table_ok (table s)" "order_ok s" "buy_n s \<le> 0"
    and "bi = nat (uint (buyinfo s ! 0) - 65)" "bj = nat (buy_number s 2 - 1)" "0 \<le> stock_c (shops (table s) ! bi ! bj)"
  shows "\<exists>s1 s2 out1 out2. buy_key refill 0x23 9 s = Inr (s1, out1) \<and> hw1_step refill 0x31 s1 = Inr (s2, out2) \<and>
    num (table s2) = num (table s) \<and>
    (\<forall>i<nat (num (table s)). \<forall>j<nat (in_num (table s) ! i).
       let v = shops (table s) ! i ! j; v2 = shops (table s2) ! i ! j
       in v2 = (if i = bi \<and> j = bj
           then v\<lparr>stock_a := max 0 (stock_a v - buy_number s 4), stock_b := max 0 (stock_b v - buy_number s 6),
                  stock_c := stock_c v - buy_number s 8\<rparr>
           else v)\<lparr>line := int j + 1\<rparr>)"
proof -
  have len: "i < length (shops (table s)) \<and> j < length (shops (table s) ! i)"
    if "i < nat (num (table s))" "j < nat (in_num (table s) ! i)" for i j
  proof -
    from that(1) assms(2) have "i < 5" "length (shops (table s)) = 5" "length (shops (table s) ! i) = 100"
      "in_num (table s) ! i \<le> 100" by (auto simp: table_ok_def)
    with that(2) show ?thesis by simp
  qed
  have row: "take_masks x y z v = v\<lparr>stock_a := max 0 (stock_a v - x), stock_b := max 0 (stock_b v - y),
      stock_c := stock_c v - z\<rparr>" for x y z v
    by (rule inv.equality) (simp_all add: take_masks_stocks)
  have "shops (sell s) ! i ! j = (if i = bi \<and> j = bj
      then take_masks (buy_number s 4) (buy_number s 6) (buy_number s 8) (shops (table s) ! i ! j)
      else shops (table s) ! i ! j)" if "i < nat (num (table s))" "j < nat (in_num (table s) ! i)" for i j
    using len [OF that] by (cases "i = bi"; cases "j = bj") (simp_all add: sell_def Let_def assms(5,6) nth_list_update)
  then show ?thesis
    using buy_then_show [OF assms(1-4) assms(7) [unfolded assms(5,6)], of refill] unfolding row Let_def
    by (auto simp: Ball_def)
qed

text \<open>The order A*1*1*1*1 at the table of one shop.\<close>

definition buyer :: hw1 where
  "buyer = hw1_start_state\<lparr>table := one_shop, buyinfo := ascii ''A*1*1*1*1'' @ [0], mode := BuyKeys 9\<rparr>"

theorem purchase_recorded_witness:
  "\<exists>s1 s2 out1 out2. buy_key 0 0x23 9 buyer = Inr (s1, out1) \<and> hw1_step 0 0x31 s1 = Inr (s2, out2) \<and>
    num (table s2) = num (table buyer)"
proof -
  have o: "order_ok buyer" "buy_n buyer \<le> 0" by code_simp+
  have w: "hw1_wf buyer" using start_wf [of 7 None hw1_start_state] one_shop_ok
    by (auto simp: buyer_def hw1_start_state_def hw1_start_def Let_def hw1_wf_def ascii_def)
  have t: "table_ok (table buyer)" using one_shop_ok by (simp add: buyer_def)
  have c: "0 \<le> stock_c (shops (table buyer) ! nat (uint (buyinfo buyer ! 0) - 65) ! nat (buy_number buyer 2 - 1))"
    by code_simp
  from purchase_recorded [OF w t o refl refl c, of 0] show ?thesis by blast
qed

text \<open>
  Two ways around the rules at once: a refused login leaves the visitor inside, and an order placed
  before the inventory was shown sells from the empty table and writes it over the file, which is
  lost: two characters remain of it.
\<close>

theorem hasty_order_destroys_inventory:
  assumes "1 \<le> day" "day \<le> 7"
  shows "\<exists>s out0 s' out. hw1_start day (Some f) = Some (s, out0) \<and>
    hw1_run 0 (ascii ''2#3A*1*1*0*0#'') s = Inr (s', out) \<and>
    login_n s' = 0 \<and> allowlog s' = False \<and> bought_n s' = 1 \<and> inventory_txt s' = Some ([0x30, 0x0a])"
  using hasty_sale [OF assms] unfolding hasty_keys_def .

theorem hasty_order_destroys_inventory_witness:
  "\<exists>s out0 s' out. hw1_start 3 (Some [0x31]) = Some (s, out0) \<and>
    hw1_run 0 (ascii ''2#3A*1*1*0*0#'') s = Inr (s', out) \<and>
    login_n s' = 0 \<and> allowlog s' = False \<and> bought_n s' = 1 \<and> inventory_txt s' = Some ([0x30, 0x0a])"
  by (rule hasty_order_destroys_inventory) simp_all

end
