(* ===== verification/MaskShop.thy ===== *)
theory MaskShop
  imports Hw1
begin

text \<open>
  The earlier version of the mask shop, \<open>LAB_3/IO_subsystem/src/mask.c\<close>. It differs from \<open>hw1.c\<close> in
  the login records, which carry a counter \<open>ifbought\<close>, in the echo of an order and in \<open>ifboughtfn\<close>;
  what is the same in both files is taken from \<open>Hw1\<close>.
\<close>

section \<open>State and operations\<close>

record mask_shop =
  base :: hw1
  ifbought :: "int list"

definition mask_login_key :: "u8 \<Rightarrow> nat \<Rightarrow> mask_shop \<Rightarrow> hw1_error + (mask_shop \<times> request list)" where
  "mask_login_key key i m =
     (case login_key key i (base m) of
        Inl e \<Rightarrow> Inl e
      | Inr (s, out) \<Rightarrow>
          let k = i_ID (base m);
              counts = (if key = 0x23 \<and> allowlog s then (ifbought m)[k := ifbought m ! k + 10] else ifbought m)
          in Inr (m\<lparr>base := s, ifbought := counts\<rparr>, out))"

definition mask_buy_key :: "u8 \<Rightarrow> nat \<Rightarrow> mask_shop \<Rightarrow> hw1_error + (mask_shop \<times> request list)" where
  "mask_buy_key key i m =
     (case buy_key 0 key i (base m) of
        Inl e \<Rightarrow> Inl e
      | Inr (s, out) \<Rightarrow> Inr (m\<lparr>base := s\<rparr>, if key = 0x23 then out else [LcdWrite [key]]))"

text \<open>
  The loop returns in its first turn, whatever it found there; with no login at all the function
  ends without a value, \<open>None\<close>.
\<close>

definition mask_ifboughtfn :: "mask_shop \<Rightarrow> (bool \<times> mask_shop) option" where
  "mask_ifboughtfn m =
     (let s = base m; num_of_same = length (filter (\<lambda>j. check s ! 0 ! j = ID_number s ! j) [0..<10])
      in if login_n s \<le> 0 then None
         else if 10 \<le> num_of_same then Some (True, m\<lparr>ifbought := (ifbought m)[0 := ifbought m ! 0 + 1]\<rparr>)
         else Some (False, m))"

definition mask_start_buy :: "mask_shop \<Rightarrow> mask_shop \<times> request list" where
  "mask_start_buy m = (let (s, out) = start_buy (base m) in (m\<lparr>base := s\<rparr>, out))"

definition mask_menu_key :: "u8 \<Rightarrow> mask_shop \<Rightarrow> hw1_error + (mask_shop \<times> request list)" where
  "mask_menu_key key m =
     (if key = 0x33 \<and> inOut (base m) \<and> 1 \<le> bought_n (base m)
      then (case mask_ifboughtfn m of
              None \<Rightarrow> Inl HwOutOfRange
            | Some (True, m1) \<Rightarrow> Inr (m1, [LcdClear, LcdWrite (ascii ''You have already bought mask.'' @ nl @
                ascii ''Come and buy next week.'' @ nl)])
            | Some (False, m1) \<Rightarrow> Inr (mask_start_buy m1))
      else if key = 0x33 \<and> inOut (base m) then Inr (mask_start_buy m)
      else (case menu_key key (base m) of
              Inl e \<Rightarrow> Inl e
            | Inr (s, out) \<Rightarrow> Inr (m\<lparr>base := s\<rparr>, out)))"

definition mask_step :: "u8 \<Rightarrow> mask_shop \<Rightarrow> hw1_error + (mask_shop \<times> request list)" where
  "mask_step key m =
     (case mode (base m) of
        Menu \<Rightarrow> mask_menu_key key m
      | LoginKeys i \<Rightarrow> mask_login_key key i m
      | BuyKeys i \<Rightarrow> mask_buy_key key i m
      | Exited \<Rightarrow> Inr (m, []))"

definition mask_start :: "int \<Rightarrow> u8 list option \<Rightarrow> (mask_shop \<times> request list) option" where
  "mask_start day f =
     map_option (\<lambda>(s, out). (\<lparr>base = s, ifbought = replicate 10 0\<rparr>, out)) (hw1_start day f)"

section \<open>Whom it refuses\<close>

inductive mask_reach :: "int \<Rightarrow> u8 list option \<Rightarrow> u8 list list \<Rightarrow> mask_shop \<Rightarrow> bool" for day f where
  start: "mask_start day f = Some (m, out) \<Longrightarrow> mask_reach day f [] m"
| key: "mask_reach day f ids m \<Longrightarrow> mask_step key m = Inr (m', out) \<Longrightarrow>
    mask_reach day f (if login_n (base m) < login_n (base m') then ids @ [ID_number (base m')] else ids) m'"

lemma mask_ifboughtfn_base: "mask_ifboughtfn m = Some (b, m') \<Longrightarrow> base m' = base m"
  by (auto simp: mask_ifboughtfn_def Let_def split: if_splits)

text \<open>Every step of this version is, for the state the two have in common, one the other can make.\<close>

lemma mask_step_keeps:
  assumes "mask_step key m = Inr (m', out)" "hw1_wf (base m)"
  shows "hw1_wf (base m') \<and> (same_logins (base m) (base m') \<or> logged_in (base m) (base m'))"
proof (cases "mode (base m)")
  case Menu
  have b: "hw1_wf (fst (start_buy s)) = hw1_wf s" "same_logins s (fst (start_buy s))" "same_logins s s" for s
    by (simp_all add: start_buy_def hw1_wf_def same_logins_def)
  have "base m' = base m \<or> base m' = fst (start_buy (base m)) \<or> (\<exists>out. menu_key key (base m) = Inr (base m', out))"
  proof (cases "key = 0x33 \<and> inOut (base m)")
    case True
    with assms(1) Menu show ?thesis
      by (auto simp: mask_step_def mask_menu_key_def mask_start_buy_def case_prod_beta
          dest: mask_ifboughtfn_base split: if_splits option.splits bool.splits)
  next
    case False
    with assms(1) Menu show ?thesis
      by (auto simp: mask_step_def mask_menu_key_def split: if_splits sum.splits)
  qed
  then show ?thesis using assms(2) b menu_key_keeps [of key "base m" "base m'"] by metis
next
  case (LoginKeys i)
  with assms show ?thesis using login_key_keeps [of key i "base m"]
    by (auto simp: mask_step_def mask_login_key_def Let_def split: sum.splits)
next
  case (BuyKeys i)
  with assms show ?thesis using buy_key_keeps [of 0 key i "base m"]
    by (auto simp: mask_step_def mask_buy_key_def split: sum.splits)
next
  case Exited
  with assms show ?thesis by (simp add: mask_step_def same_logins_def)
qed

lemma mask_reach_records: "mask_reach day f ids m \<Longrightarrow> hw1_wf (base m) \<and> records ids (base m)"
proof (induction rule: mask_reach.induct)
  case (start m out)
  then obtain s where s: "hw1_start day f = Some (s, out)" "base m = s" by (auto simp: mask_start_def)
  then show ?case by (simp add: start_wf start_records)
next
  case (key ids m k m' out)
  have w: "hw1_wf (base m)" "records ids (base m)" using key.IH by simp_all
  from mask_step_keeps [OF key.hyps(2) w(1)] show ?case
    using keeps_records [OF w(2), of "base m'"] w(1) by (simp add: hw1_wf_def)
qed

lemma mask_ifboughtfn_first:
  assumes "mask_reach day f ids m" "ids \<noteq> []" "length ids \<le> 10"
  shows "map_option fst (mask_ifboughtfn m) = Some (ID_number (base m) = hd ids)"
proof -
  let ?s = "base m"
  have w: "hw1_wf ?s" "records ids ?s" using mask_reach_records [OF assms(1)] by simp_all
  have n: "0 < length ids" using assms(2) by simp
  then have c: "check ?s ! 0 = hd ids" "0 < login_n ?s"
    using w(2) assms(2,3) by (auto simp: records_def hd_conv_nth)
  have l: "length (check ?s ! 0) = 10" "length (ID_number ?s) = 10" using w(1) by (simp_all add: hw1_wf_def)
  have "10 \<le> length (filter P [0..<10]) \<longleftrightarrow> (\<forall>j<10. P j)" for P :: "nat \<Rightarrow> bool"
  proof -
    have "length (filter P [0..<10]) < 10" if "\<not> P j" "j < 10" for j
      using length_filter_less [of j "[0..<10]" P] that by simp
    moreover have "filter P [0..<10] = [0..<10]" if "\<forall>j<10. P j"
      using that by (intro filter_True) simp
    ultimately show ?thesis by (metis length_upt diff_zero linorder_not_le order_refl)
  qed
  then show ?thesis using c(2) same_id [OF l] unfolding mask_ifboughtfn_def Let_def c(1) by auto
qed

section \<open>A visit\<close>

lemma mask_types:
  "mask_reach day f ids m \<Longrightarrow> mode (base m) = LoginKeys i \<Longrightarrow> 0x23 \<notin> set ks \<Longrightarrow> i + length ks \<le> 10 \<Longrightarrow>
     \<exists>m'. mask_reach day f ids m' \<and> ifbought m' = ifbought m \<and>
       base m' = (base m)\<lparr>ID_number := overwrite i ks (ID_number (base m)), mode := LoginKeys (i + length ks)\<rparr>"
proof (induction ks arbitrary: m i)
  case Nil
  then show ?case by (intro exI [of _ m]) simp
next
  case (Cons k ks)
  let ?s = "(base m)\<lparr>ID_number := (ID_number (base m))[i := k], mode := LoginKeys (i + 1)\<rparr>"
  have len: "length (ID_number (base m)) = 10"
    using mask_reach_records [OF Cons.prems(1)] by (simp add: hw1_wf_def)
  then have step: "mask_step k m = Inr (m\<lparr>base := ?s\<rparr>, [LcdWrite [k]])"
    using Cons.prems by (simp add: mask_step_def mask_login_key_def login_key_def Let_def)
  have "mask_reach day f ids (m\<lparr>base := ?s\<rparr>)"
    using mask_reach.key [OF Cons.prems(1) step] by simp
  with Cons.IH [of "m\<lparr>base := ?s\<rparr>" "i + 1"] Cons.prems len show ?case by (simp add: overwrite_Cons)
qed

lemma mask_visit:
  assumes "mask_reach day f ids m" "at_menu d False (base m)" "admits d ident"
  shows "\<exists>m'. mask_reach day f (ids @ [ident]) m' \<and> at_menu d True (base m') \<and> ID_number (base m') = ident"
proof -
  have w: "hw1_wf (base m)" "i_ID (base m) < 10"
    using mask_reach_records [OF assms(1)] by (simp_all add: records_def)
  let ?m1 = "m\<lparr>base := (base m)\<lparr>inOut := True, mode := LoginKeys 0\<rparr>\<rparr>"
  have "\<exists>out. mask_step 0x32 m = Inr (?m1, out)"
    using assms(2) by (simp add: mask_step_def mask_menu_key_def menu_key_def at_menu_def)
  with mask_reach.key [OF assms(1)] have "mask_reach day f ids ?m1" by fastforce
  from mask_types [OF this, of 0 ident] assms(3) w obtain m2 where m2: "mask_reach day f ids m2"
    "base m2 = (base m)\<lparr>inOut := True, mode := LoginKeys 10, ID_number := ident\<rparr>"
    by (auto simp: admits_def hw1_wf_def)
  have "allowlog (checkIDnumber (base m2))" using assms(2,3) m2(2) by (simp add: admits_def at_menu_def)
  then obtain m' out where "mask_step 0x23 m2 = Inr (m', out)" "login_n (base m') = login_n (base m2) + 1"
    "at_menu d True (base m')" "ID_number (base m') = ident"
    using w assms(2) m2(2)
    by (simp add: mask_step_def mask_login_key_def login_key_def print_7seg_def hw1_wf_def at_menu_def Let_def)
  with mask_reach.key [OF m2(1)] show ?thesis by fastforce
qed

section \<open>Properties\<close>

text \<open>
  The earlier version compares with the first visitor only: with one to ten logins, the test
  before a purchase holds exactly if the current number is that of the first login, and everyone
  else may buy as often as they come.
\<close>

theorem only_first_visitor_known:
  assumes "mask_reach day f ids m" "ids \<noteq> []" "length ids \<le> 10"
  shows "map_option fst (mask_ifboughtfn m) = Some (ID_number (base m) = hd ids)"
  by (rule mask_ifboughtfn_first [OF assms])

theorem only_first_visitor_known_witness:
  "\<exists>m. map_option fst (mask_ifboughtfn m) = Some True \<and> ID_number (base m) = visitor"
proof -
  have "mask_reach 7 None [] (fst (the (mask_start 7 None)))"
    by (rule mask_reach.start) (simp add: mask_start_def hw1_start_def Let_def)
  moreover have "at_menu 7 False (base (fst (the (mask_start 7 None))))"
    by (simp add: mask_start_def hw1_start_def Let_def at_menu_def)
  ultimately obtain m where "mask_reach 7 None [visitor] m" "ID_number (base m) = visitor"
    using mask_visit [OF _ _ visitor_admitted] by fastforce
  with only_first_visitor_known [of 7 None "[visitor]" m] show ?thesis by auto
qed

end
