(* ===== verification/IoApps.thy ===== *)
theory IoApps
  imports AppsOnDriver
begin

text \<open>
  The four exercises of \<open>LAB_3/IO_subsystem/src\<close> that try one device each: \<open>keypad.c\<close>,
  \<open>7_seg.c\<close>, \<open>led.c\<close> and \<open>LCD_control.c\<close>. Three of them are fixed runs of requests; the pauses
  between them and the messages on the console are left out.
\<close>

section \<open>The keypad\<close>

definition keypad_output :: "u8 \<Rightarrow> u8" where
  "keypad_output key =
     (if key = 0x41 then 0x2b else if key = 0x42 then 0x2d else if key = 0x43 then 0x2a
      else if key = 0x44 then 0x2f else if key = 0x2a then 0x43 else if key = 0x23 then 0x3d else key)"

text \<open>The characters of the lines \<open>I got ...\<close>, up to the key that ends the loop.\<close>

fun keypad_main :: "u8 list \<Rightarrow> u8 list" where
  "keypad_main [] = []"
| "keypad_main (key # keys) = keypad_output key # (if key AND 0xff = 0x23 then [] else keypad_main keys)"

lemma keypad_main_until:
  "0x23 \<notin> set ks \<Longrightarrow> keypad_main (ks @ 0x23 # rest) = map keypad_output ks @ [0x3d]"
  by (induction ks) (auto simp: keypad_output_def and_255 take_bit_word_eq_self)

text \<open>The sixteen characters of the keypad come out as sixteen different characters.\<close>

lemma keypad_output_inj: "inj_on keypad_output (set KeyASCIICode)"
  unfolding inj_on_def by code_simp

section \<open>The lamps\<close>

definition LED_ALL_ON :: u16 where "LED_ALL_ON = 0xff"
definition LED_ALL_OFF :: u16 where "LED_ALL_OFF = 0"
definition LED_D9_INDEX :: u16 where "LED_D9_INDEX = 0"
definition LED_D10_INDEX :: u16 where "LED_D10_INDEX = 1"

definition led_main :: "request list" where
  "led_main =
     (let arr = led_array 8 (binary_digits 118 1 0)
      in [LedSet LED_ALL_ON, LedSet LED_ALL_OFF, LedBitSet LED_D9_INDEX, LedBitSet LED_D10_INDEX] @
         map (\<lambda>i. if arr ! i = 1 then LedBitSet (of_nat i) else LedBitClear (of_nat i)) [0..<8])"

lemma led_main_prefix:
  "lamps (scan_led (fold (request_effect env) (take 1 led_main) d)) = {0..<8}"
  "lamps (scan_led (fold (request_effect env) (take 2 led_main) d)) = {}"
  "lamps (scan_led (fold (request_effect env) (take 4 led_main) d)) = {0, 1}"
proof -
  have z: "push_bit 8 (NOT (ucast (0xff :: u8))) = (0 :: u16)" "push_bit 8 (NOT (ucast (0 :: u8))) = (0xff00 :: u16)"
    by code_simp+
  have "\<forall>i<8. bit (0xff00 :: u16) (8 + i)" by code_simp
  then have l: "lamps (push_bit 8 (NOT (ucast (0xff :: u8)))) = {0..<8}"
    "lamps (push_bit 8 (NOT (ucast (0 :: u8)))) = {}"
    unfolding lamps_def z by force+
  have one: "lamps (scan_led (led_effect LED_SET 0xff d)) = {0..<8}" for d
    using l(1) by (simp add: led_effect_def Creator_pxa270_led_cmd_def Let_def)
  have two: "lamps (scan_led (led_effect LED_SET 0 d)) = {}" for d
    using l(2) by (simp add: led_effect_def Creator_pxa270_led_cmd_def Let_def)
  note on = led_effect_bit(1) [of 0, simplified] led_effect_bit(1) [of 1, simplified]
  show "lamps (scan_led (fold (request_effect env) (take 1 led_main) d)) = {0..<8}"
    "lamps (scan_led (fold (request_effect env) (take 2 led_main) d)) = {}"
    "lamps (scan_led (fold (request_effect env) (take 4 led_main) d)) = {0, 1}"
    by (auto simp: led_main_def Let_def LED_ALL_ON_def LED_ALL_OFF_def LED_D9_INDEX_def LED_D10_INDEX_def
        one two on)
qed

lemma led_main_shows:
  "lamps (scan_led (fold (request_effect env) led_main d)) = {1, 2, 3, 5, 6}"
proof -
  let ?d = "fold (request_effect env) [LedSet LED_ALL_ON, LedSet LED_ALL_OFF, LedBitSet LED_D9_INDEX,
    LedBitSet LED_D10_INDEX] d"
  have "fold (request_effect env) led_main d = fold (request_effect env) (print_led 118) ?d"
    unfolding led_main_def print_led_def Let_def by simp
  from print_led_effect(1) [OF _ this] have
    "lamps (scan_led (fold (request_effect env) led_main d)) = {i. i < 8 \<and> bit (118 :: nat) (7 - i)}" by simp
  also have "\<dots> = {1, 2, 3, 5, 6}"
  proof -
    have "{i. i < 8 \<and> bit (118 :: nat) (7 - i)} = set (filter (\<lambda>i. bit (118 :: nat) (7 - i)) [0..<8])" by auto
    also have "\<dots> = {1, 2, 3, 5, 6}" by (simp add: upt_rec bit_0) auto
    finally show ?thesis .
  qed
  finally show ?thesis .
qed

section \<open>The segments\<close>

definition seg7_main :: "request list" where
  "seg7_main =
     [SegOn, seg_pattern SEG_D5 0x40, seg_hex SEG_D6 3, seg_hex SEG_D7 2, seg_hex SEG_D8 1,
      seg_hex SEG_ALL (strtol16 (dec 200)), seg_hex SEG_ALL 0x1234, seg_pattern (SEG_D5 OR SEG_D8) 0x6d7f, SegOff]"

definition digits_after :: "lcd_env \<Rightarrow> nat \<Rightarrow> lcd_drv \<Rightarrow> u8 list" where
  "digits_after env n d = seven_seg_buf (seg (fold (request_effect env) (take n seg7_main) d))"

lemma seg7_main_shows:
  assumes "length (seven_seg_buf (seg d)) = 4"
  shows "digits_after env 5 d = [NOT 0x40, LED_tbl ! 3, LED_tbl ! 2, LED_tbl ! 1]"
    "digits_after env 6 d = [LED_tbl ! 0, LED_tbl ! 2, LED_tbl ! 0, LED_tbl ! 0]"
    "digits_after env 7 d = [LED_tbl ! 1, LED_tbl ! 2, LED_tbl ! 3, LED_tbl ! 4]"
    "digits_after env 9 d = [NOT 0x6d, LED_tbl ! 2, LED_tbl ! 3, NOT 0x7f]"
proof -
  obtain a b c e where buf: "seven_seg_buf (seg d) = [a, b, c, e]"
    using assms by (auto simp: length_Suc_conv numeral_eq_Suc)
  have four: "put_digits enc st 4 w v xs = put_digits enc st (Suc (Suc (Suc (Suc 0)))) w v xs" for enc st w v xs
    by (simp add: numeral_eq_Suc)
  have 200: "strtol16 (dec 200) = 0x200" by code_simp
  note ev = digits_after_def seg7_main_def seg_effect_def Creator_pxa270_7Segment_cmd_def SEG7_put_led_def seg_hex_def
    seg_pattern_def SEG_MODE_HEX_VALUE_def SEG_MODE_PATTERN_def SEG_ALL_15 SEG_D5_def SEG_D6_def SEG_D7_def
    SEG_D8_def four hex_digit_def pattern_digit_def seg7_timer_operation_def 200 buf
  show "digits_after env 5 d = [NOT 0x40, LED_tbl ! 3, LED_tbl ! 2, LED_tbl ! 1]"
    "digits_after env 6 d = [LED_tbl ! 0, LED_tbl ! 2, LED_tbl ! 0, LED_tbl ! 0]"
    "digits_after env 7 d = [LED_tbl ! 1, LED_tbl ! 2, LED_tbl ! 3, LED_tbl ! 4]"
    "digits_after env 9 d = [NOT 0x6d, LED_tbl ! 2, LED_tbl ! 3, NOT 0x7f]"
    by (simp_all add: ev)
qed

section \<open>The text display\<close>

text \<open>Its two calls of \<open>LCD_IOCTL_CUR_GET\<close> print the cursor; the requests before each are one part.\<close>

definition lcd_main :: "request list list" where
  "lcd_main =
     [[LcdClear, LcdWrite (ascii ''Hello world'' @ [0x0a])],
      [LcdWrite (ascii ''1+4=5'' @ [0x0a]), LcdWrite (dec 123 @ [0x0a])]]"

fun cursor_reports :: "lcd_env \<Rightarrow> request list list \<Rightarrow> lcd_drv \<Rightarrow> (u8 \<times> u8) list" where
  "cursor_reports env [] d = []"
| "cursor_reports env (rs # rss) d =
     (let d1 = fold (request_effect env) rs d in LCD_GetCursor (lcd d1) # cursor_reports env rss d1)"

lemma lcd_main_reports:
  assumes "displays (lcd d) t"
  shows "cursor_reports env lcd_main d = [(0, 1), (0, 3)]"
proof -
  define d1 where "d1 = fold (request_effect env) (lcd_main ! 0) d"
  define d2 where "d2 = fold (request_effect env) (lcd_main ! 1) d1"
  have "bus_ready (lcd d)"
    using assms by (simp add: displays_def wf_txt_def txt_panel_def bus_ready_def sized_def)
  then have c: "displays (lcd (request_effect env LcdClear d)) t_clear" by (simp add: displays_cleared)
  have 1: "displays (lcd d1) (t_puts (ascii ''Hello world'' @ [0x0a]) t_clear)"
    using write_effect(1) [OF c] unfolding d1_def lcd_main_def by simp
  have 2: "displays (lcd d2) (t_puts (dec 123 @ [0x0a]) (t_puts (ascii ''1+4=5'' @ [0x0a])
      (t_puts (ascii ''Hello world'' @ [0x0a]) t_clear)))"
    using write_effect(1) [OF write_effect(1) [OF 1]] unfolding d2_def lcd_main_def by simp
  have p: "LCD_GetCursor s = (of_nat (ccol t), of_nat (crow t))" if "displays s t" for s t
  proof -
    have "ccol t = unat (Xpos s)" "crow t = unat (Ypos s)" using that by (simp_all add: displays_def)
    then show ?thesis by (simp add: LCD_GetCursor_def)
  qed
  have "ccol (t_puts (ascii ''Hello world'' @ [0x0a]) t_clear) = 0"
    "crow (t_puts (ascii ''Hello world'' @ [0x0a]) t_clear) = 1" by code_simp+
  moreover have "ccol (t_puts (dec 123 @ [0x0a]) (t_puts (ascii ''1+4=5'' @ [0x0a])
      (t_puts (ascii ''Hello world'' @ [0x0a]) t_clear))) = 0"
    "crow (t_puts (dec 123 @ [0x0a]) (t_puts (ascii ''1+4=5'' @ [0x0a])
      (t_puts (ascii ''Hello world'' @ [0x0a]) t_clear))) = 3" by code_simp+
  ultimately have "LCD_GetCursor (lcd d1) = (0, 1)" "LCD_GetCursor (lcd d2) = (0, 3)"
    using p [OF 1] p [OF 2] by simp_all
  then show ?thesis by (simp add: d1_def d2_def lcd_main_def)
qed

section \<open>Properties\<close>

text \<open>
  The three display exercises do what their comments say: the lamps end on the binary digits of 118,
  the segments show \<open>-321\<close>, 200, 1234 and at last a pattern on the outer two digits, and the cursor is
  reported at the start of the second and of the fourth line.
\<close>

theorem exercises_show:
  assumes "displays (lcd d) t" "length (seven_seg_buf (seg d)) = 4"
  shows "lamps (scan_led (fold (request_effect env) led_main d)) = {1, 2, 3, 5, 6} \<and>
    digits_after env 5 d = [NOT 0x40, LED_tbl ! 3, LED_tbl ! 2, LED_tbl ! 1] \<and>
    digits_after env 6 d = [LED_tbl ! 0, LED_tbl ! 2, LED_tbl ! 0, LED_tbl ! 0] \<and>
    digits_after env 7 d = [LED_tbl ! 1, LED_tbl ! 2, LED_tbl ! 3, LED_tbl ! 4] \<and>
    digits_after env 9 d = [NOT 0x6d, LED_tbl ! 2, LED_tbl ! 3, NOT 0x7f] \<and>
    cursor_reports env lcd_main d = [(0, 1), (0, 3)]"
  using led_main_shows seg7_main_shows [OF assms(2)] lcd_main_reports [OF assms(1)] by blast

theorem exercises_show_witness:
  "cursor_reports \<lparr>io_reg1 = \<lambda>_. 0xffff, cpld_status = \<lambda>_. 0, request_irq = \<lambda>oier. (0, oier), stack_pad = 0\<rparr> lcd_main (lcd_drv_loaded 0\<lparr>lcd := Initial_LCD lcdtxt_bss\<rparr>) = [(0, 1), (0, 3)]"
  using exercises_show [of "lcd_drv_loaded 0\<lparr>lcd := Initial_LCD lcdtxt_bss\<rparr>" t_clear]
  by (simp add: displays_Initial_LCD [OF panel_reset_idle] lcd_drv_loaded_def seg7_bss_def)

end
