(* ===== verification/Gpio.thy ===== *)
theory Gpio
  imports Prelude
begin

text \<open>
  The pins of the PXA270 and \<open>pxa_gpio_mode\<close> (\<open>linux/arch/arm/mach-pxa/generic.c\<close>), with which the
  board code routes them. A pin has two bits in a \<open>GAFR\<close> register (16 pins each), one in a \<open>GPDR\<close>
  register and one in the output latch (32 pins each); a write to \<open>GPSR\<close> or \<open>GPCR\<close> sets or clears the
  latch of the pins whose bits are 1. The abstract side is a table of pins; the locale
  \<open>pin_controller\<close> is what the board code relies on.
\<close>

section \<open>Registers\<close>

record gpio =
  gpdr :: "nat \<Rightarrow> u32"
  gafr :: "nat \<Rightarrow> u32"
  latch :: "nat \<Rightarrow> u32"

definition GPIO_bit :: "nat \<Rightarrow> u32" where "GPIO_bit g = push_bit (g mod 32) 1"

definition write_GPSR :: "nat \<Rightarrow> u32 \<Rightarrow> 'a gpio_scheme \<Rightarrow> 'a gpio_scheme" where
  "write_GPSR b w s = s\<lparr>latch := (latch s)(b := latch s b OR w)\<rparr>"

definition write_GPCR :: "nat \<Rightarrow> u32 \<Rightarrow> 'a gpio_scheme \<Rightarrow> 'a gpio_scheme" where
  "write_GPCR b w s = s\<lparr>latch := (latch s)(b := latch s b AND NOT w)\<rparr>"

text \<open>\<open>GPDR(x)\<close> is register \<open>x div 32\<close>, \<open>GAFR(x)\<close> register \<open>x div 16\<close>.\<close>

definition mode_pin :: "u32 \<Rightarrow> nat" where "mode_pin m = unat (m AND 0x7f)"

definition mode_fn :: "u32 \<Rightarrow> u32" where "mode_fn m = drop_bit 8 (m AND 0x300)"

definition put_fn :: "nat \<Rightarrow> u32 \<Rightarrow> u32 \<Rightarrow> u32" where
  "put_fn k fn w = w AND NOT (push_bit (k * 2) 3) OR push_bit (k * 2) fn"

definition pxa_gpio_mode :: "u32 \<Rightarrow> 'a gpio_scheme \<Rightarrow> 'a gpio_scheme" where
  "pxa_gpio_mode m s =
    (let g = mode_pin m;
         s1 = (if m AND 0x400 \<noteq> 0 then write_GPCR (g div 32) (GPIO_bit g) s
               else if m AND 0x800 \<noteq> 0 then write_GPSR (g div 32) (GPIO_bit g) s else s);
         s2 = s1\<lparr>gpdr := (gpdr s1)(g div 32 :=
                (if m AND 0x80 \<noteq> 0 then gpdr s1 (g div 32) OR GPIO_bit g
                 else gpdr s1 (g div 32) AND NOT (GPIO_bit g)))\<rparr>
     in s2\<lparr>gafr := (gafr s2)(g div 16 := put_fn (g mod 16) (mode_fn m) (gafr s2 (g div 16)))\<rparr>)"

section \<open>The table of pins\<close>

text \<open>The function of a pin (0 is plain input or output), its direction and the level it drives.\<close>

definition fn_at :: "nat \<Rightarrow> u32 \<Rightarrow> u32" where "fn_at k w = take_bit 2 (drop_bit (k * 2) w)"

record pin =
  alt :: u32
  drives :: bool
  level :: bool

definition pins :: "'a gpio_scheme \<Rightarrow> nat \<Rightarrow> pin" where
  "pins s g = \<lparr>alt = fn_at (g mod 16) (gafr s (g div 16)),
               drives = bit (gpdr s (g div 32)) (g mod 32),
               level = bit (latch s (g div 32)) (g mod 32)\<rparr>"

definition mode_setting :: "u32 \<Rightarrow> pin \<Rightarrow> pin" where
  "mode_setting m p = \<lparr>alt = mode_fn m, drives = bit m 7,
                       level = (if bit m 10 then False else if bit m 11 then True else level p)\<rparr>"

lemma and_bit_iff: "m AND (push_bit n 1 :: 'a::len word) \<noteq> 0 \<longleftrightarrow> bit m n"
  by (simp add: bit_iff_and_push_bit_not_eq_0)

lemma mode_bits:
  "m AND 0x400 \<noteq> (0 :: u32) \<longleftrightarrow> bit m 10" "m AND 0x800 \<noteq> 0 \<longleftrightarrow> bit m 11" "m AND 0x80 \<noteq> 0 \<longleftrightarrow> bit m 7"
  using and_bit_iff [of m 10] and_bit_iff [of m 11] and_bit_iff [of m 7] by (simp_all add: push_bit_eq_mult)

lemma three_mask: "(3 :: u32) = mask 2"
  by (simp add: mask_eq_exp_minus_1)

lemma bit_mode_fn: "bit (mode_fn m) n \<longleftrightarrow> n < 2 \<and> bit m (8 + n)"
proof -
  have c: "(0x300 :: u32) = push_bit 8 (mask 2)" by (simp add: mask_eq_exp_minus_1 push_bit_eq_mult)
  show ?thesis unfolding mode_fn_def c by (auto simp: bit_simps)
qed

text \<open>One two-bit field of a register written, another one read.\<close>

lemma bit_fn_at: "k < 16 \<Longrightarrow> bit (fn_at k w) n \<longleftrightarrow> n < 2 \<and> bit w (k * 2 + n)"
  by (auto simp: fn_at_def bit_simps)

lemma bit_put_fn:
  "bit (put_fn k (mode_fn m) w) n \<longleftrightarrow> n < 32 \<and>
    (if k * 2 \<le> n \<and> n < k * 2 + 2 then bit m (8 + (n - k * 2)) else bit w n)"
  unfolding put_fn_def three_mask by (auto simp: bit_simps bit_mode_fn)

lemma fn_at_put_fn:
  assumes "a < 16"
  shows "fn_at a (put_fn b (mode_fn m) w) = (if a = b then mode_fn m else fn_at a w)"
proof (rule bit_word_eqI)
  fix n
  show "bit (fn_at a (put_fn b (mode_fn m) w)) n = bit (if a = b then mode_fn m else fn_at a w) n"
    using assms by (cases "n < 2"; cases a b rule: linorder_cases) (auto simp: bit_fn_at bit_put_fn bit_mode_fn)
qed

lemma bit_GPIO_bit: "g mod 32 = k \<Longrightarrow> bit (GPIO_bit g) k" "g mod 32 \<noteq> k \<Longrightarrow> \<not> bit (GPIO_bit g) k"
  by (auto simp: GPIO_bit_def bit_simps simp del: push_bit_of_1)

lemma div_mod_ne:
  fixes g h n :: nat
  shows "g \<noteq> h \<Longrightarrow> g div n = h div n \<Longrightarrow> g mod n \<noteq> h mod n"
  by (metis div_mod_decomp)

lemma pins_gpio_mode: "pins (pxa_gpio_mode m s) = (pins s)(mode_pin m := mode_setting m (pins s (mode_pin m)))"
proof
  fix g
  show "pins (pxa_gpio_mode m s) g = ((pins s)(mode_pin m := mode_setting m (pins s (mode_pin m)))) g"
  proof (cases "g = mode_pin m")
    case True
    then show ?thesis
      by (simp add: pins_def pxa_gpio_mode_def Let_def mode_setting_def mode_bits fn_at_put_fn
          write_GPCR_def write_GPSR_def bit_simps bit_GPIO_bit)
  next
    case False
    with div_mod_ne [OF False, of 32] div_mod_ne [OF False, of 16] show ?thesis
      by (auto simp: pins_def pxa_gpio_mode_def Let_def mode_bits fn_at_put_fn write_GPCR_def write_GPSR_def
          bit_simps bit_GPIO_bit)
  qed
qed

lemma pins_write_GPSR:
  "pins (write_GPSR b w s) g = (pins s g)\<lparr>level := level (pins s g) \<or> (g div 32 = b \<and> bit w (g mod 32))\<rparr>"
  by (auto simp: pins_def write_GPSR_def bit_simps)

lemma pins_write_GPCR:
  "pins (write_GPCR b w s) g = (pins s g)\<lparr>level := level (pins s g) \<and> \<not> (g div 32 = b \<and> bit w (g mod 32))\<rparr>"
  by (auto simp: pins_def write_GPCR_def bit_simps)

lemma mode_setting_idem [simp]: "mode_setting m (mode_setting m p) = mode_setting m p"
  by (simp add: mode_setting_def)

section \<open>Routing many pins\<close>

text \<open>The contract between the pins and the board code: one call sets up one pin and no other.\<close>

locale pin_controller =
  fixes mode :: "u32 \<Rightarrow> 's \<Rightarrow> 's" and tab :: "'s \<Rightarrow> nat \<Rightarrow> pin"
  assumes tab_mode: "tab (mode m s) = (tab s)(mode_pin m := mode_setting m (tab s (mode_pin m)))"
begin

lemma routed:
  "tab (fold mode ms s) g = fold (\<lambda>m p. if mode_pin m = g then mode_setting m p else p) ms (tab s g)"
  by (induction ms arbitrary: s) (auto simp: tab_mode)

lemma untouched: "g \<notin> mode_pin ` set ms \<Longrightarrow> tab (fold mode ms s) g = tab s g"
  by (induction ms arbitrary: s) (auto simp: tab_mode)

lemma set_up:
  "distinct (map mode_pin ms) \<Longrightarrow> m \<in> set ms \<Longrightarrow> tab (fold mode ms s) (mode_pin m) = mode_setting m (tab s (mode_pin m))"
proof (induction ms arbitrary: s)
  case (Cons a ms)
  show ?case
  proof (cases "m = a")
    case True
    with Cons.prems have "mode_pin m \<notin> mode_pin ` set ms" by auto
    with True show ?thesis by (simp add: untouched tab_mode)
  next
    case False
    with Cons.prems have "m \<in> set ms" "mode_pin m \<noteq> mode_pin a" by (auto intro: rev_image_eqI)
    with Cons show ?thesis by (simp add: tab_mode)
  qed
qed simp

end

interpretation pxa: pin_controller pxa_gpio_mode pins
  by unfold_locales (rule pins_gpio_mode)

text \<open>
  C36: \<open>pxa_gpio_mode\<close> refines a table of pins. After any sequence of calls each pin has the function, the
  direction and, where a call asked for one, the level of the last calls that named it, and every pin that no call named
  is as before; which register and which bits of it hold a pin is invisible. Calls on different pins
  commute.
\<close>

theorem gpio_mode_refines:
  "pins (fold pxa_gpio_mode ms s) g = fold (\<lambda>m p. if mode_pin m = g then mode_setting m p else p) ms (pins s g)
   \<and> (g \<notin> mode_pin ` set ms \<longrightarrow> pins (fold pxa_gpio_mode ms s) g = pins s g)
   \<and> (mode_pin m \<noteq> mode_pin n \<longrightarrow>
      pins (pxa_gpio_mode m (pxa_gpio_mode n s)) = pins (pxa_gpio_mode n (pxa_gpio_mode m s)))"
  using pxa.untouched [of g ms s]
  by (auto simp: pxa.routed pins_gpio_mode fun_upd_twist)

definition gpio_reset :: gpio where
  "gpio_reset = \<lparr>gpdr = (\<lambda>_. 0), gafr = (\<lambda>_. 0), latch = (\<lambda>_. 0)\<rparr>"

text \<open>Pin 78 as chip select 2, driven high, and pin 83 as a serial line; pin 0 is left alone.\<close>

theorem gpio_mode_refines_witness:
  "pins (fold pxa_gpio_mode [0xace, 0x3d3] gpio_reset) 0 = \<lparr>alt = 0, drives = False, level = False\<rparr>
   \<and> pins (pxa_gpio_mode 0xace (pxa_gpio_mode 0x3d3 gpio_reset)) =
      pins (pxa_gpio_mode 0x3d3 (pxa_gpio_mode 0xace gpio_reset))"
  using gpio_mode_refines [of "[0xace, 0x3d3]" gpio_reset 0 "0xace" "0x3d3"]
  by (simp add: mode_pin_def pins_def gpio_reset_def fn_at_def)

section \<open>Function and direction\<close>

definition route :: "'a gpio_scheme \<Rightarrow> nat \<Rightarrow> u32 \<times> bool" where
  "route s g = (alt (pins s g), drives (pins s g))"

lemma route_mode: "route (pxa_gpio_mode m s) = (route s)(mode_pin m := (mode_fn m, bit m 7))"
  by (auto simp: route_def fun_eq_iff pins_gpio_mode mode_setting_def)

lemma route_write [simp]: "route (write_GPSR b w s) = route s" "route (write_GPCR b w s) = route s"
  by (simp_all add: route_def fun_eq_iff pins_write_GPSR pins_write_GPCR)

lemma mode_fn_of_bits: "mode_fn m = (if bit m 8 then 1 else 0) + (if bit m 9 then 2 else 0)"
proof (rule bit_word_eqI)
  fix n :: nat
  have "n < 2 \<Longrightarrow> n = 0 \<or> n = 1" by auto
  then show "bit (mode_fn m) n = bit ((if bit m 8 then 1 else 0) + (if bit m 9 then 2 else 0) :: u32) n"
    by (cases "n < 2") (auto simp: bit_mode_fn bit_numeral_rec bit_1_iff gr0_conv_Suc less_Suc_eq not_less split: nat.splits)
qed

end
