(* ===== verification/Pcmcia.thy ===== *)
theory Pcmcia
  imports Gpio Irq
begin

text \<open>
  The compact-flash socket: \<open>linux/drivers/pcmcia/pxa2xx-creator-pxa270.c\<close> and the part of
  \<open>linux/drivers/pcmcia/soc_common.c\<close> that drives it. The state extends the pins by the control register of
  the CPLD (read and written, with the values written so far), the processor's interrupt flag and the
  interrupt lines taken. The answers of \<open>request_irq\<close>, the values \<open>GPSR\<close> and \<open>GPCR\<close> read as, and the readings of
  the status register are parameters.
\<close>

section \<open>State\<close>

datatype trigger = IRQT_NOEDGE | IRQT_FALLING

record pcc = gpio +
  ctrl1 :: u16
  ctrl1_log :: "u16 list"
  irqs_on :: bool
  taken :: "nat set"
  irq_type :: "nat \<Rightarrow> trigger option"

record socket_state =
  flags :: u32
  csc_mask :: u32
  Vcc :: u8
  Vpp :: u8
  io_irq :: u8

record soc_socket =
  sock_nr :: int
  sock_irq :: nat
  irq_state :: int
  cs_state :: socket_state
  sock_status :: u32

definition put_ctrl1 :: "u16 \<Rightarrow> pcc \<Rightarrow> pcc" where
  "put_ctrl1 v s = s\<lparr>ctrl1 := v, ctrl1_log := ctrl1_log s @ [v]\<rparr>"

definition PCC_RESET_ASSERT :: "pcc \<Rightarrow> pcc" where
  "PCC_RESET_ASSERT s = put_ctrl1 (ctrl1 s OR 0x08) s"

definition PCC_RESET_DEASSERT :: "pcc \<Rightarrow> pcc" where
  "PCC_RESET_DEASSERT s = put_ctrl1 (ctrl1 s AND 0xF7) s"

definition PCC_PWR_ON :: "pcc \<Rightarrow> pcc" where
  "PCC_PWR_ON s = put_ctrl1 (ctrl1 s OR 4) s"

definition PCC_PWR_OFF :: "pcc \<Rightarrow> pcc" where
  "PCC_PWR_OFF s = put_ctrl1 (ctrl1 s AND NOT 4) s"

section \<open>Interrupt lines\<close>

definition free_irq :: "nat \<Rightarrow> pcc \<Rightarrow> pcc" where
  "free_irq n s = s\<lparr>taken := taken s - {n}\<rparr>"

definition set_irq_type :: "nat \<Rightarrow> trigger \<Rightarrow> pcc \<Rightarrow> pcc" where
  "set_irq_type n t s = s\<lparr>irq_type := (irq_type s)(n \<mapsto> t)\<rparr>"

text \<open>\<open>req\<close> answers \<open>request_irq\<close> from the lines already taken; \<open>got\<close> are those of this call, latest first.\<close>

fun soc_pcmcia_request_irqs ::
  "(nat set \<Rightarrow> nat \<Rightarrow> int) \<Rightarrow> int \<Rightarrow> (int \<times> nat) list \<Rightarrow> nat list \<Rightarrow> pcc \<Rightarrow> int \<times> pcc" where
  "soc_pcmcia_request_irqs req nr [] got s = (0, s)"
| "soc_pcmcia_request_irqs req nr ((sock, n) # ns) got s =
    (if sock \<noteq> nr then soc_pcmcia_request_irqs req nr ns got s
     else let res = req (taken s) n in
          if res \<noteq> 0 then (res, fold free_irq got s)
          else soc_pcmcia_request_irqs req nr ns (n # got)
                 (set_irq_type n IRQT_NOEDGE (s\<lparr>taken := insert n (taken s)\<rparr>)))"

fun soc_pcmcia_free_irqs :: "int \<Rightarrow> (int \<times> nat) list \<Rightarrow> pcc \<Rightarrow> pcc" where
  "soc_pcmcia_free_irqs nr [] s = s"
| "soc_pcmcia_free_irqs nr ((sock, n) # ns) s =
    soc_pcmcia_free_irqs nr ns (if sock = nr then free_irq n s else s)"

definition pcmcia_irqs :: "(int \<times> nat) list" where "pcmcia_irqs = [(0, CREATOR_CFI_IRQ)]"

section \<open>The board's operations\<close>

text \<open>\<open>GPSR(x) |= GPIO_bit(x)\<close> and the same for \<open>GPCR\<close>; \<open>rv\<close> is what the register reads as.\<close>

definition set_pin :: "(nat \<Rightarrow> u32) \<Rightarrow> nat \<Rightarrow> pcc \<Rightarrow> pcc" where
  "set_pin rv g s = write_GPSR (g div 32) (rv (g div 32) OR GPIO_bit g) s"

definition clear_pin :: "(nat \<Rightarrow> u32) \<Rightarrow> nat \<Rightarrow> pcc \<Rightarrow> pcc" where
  "clear_pin rv g s = write_GPCR (g div 32) (rv (g div 32) OR GPIO_bit g) s"

definition pcmcia_pins :: "(nat \<Rightarrow> u32) \<Rightarrow> (nat \<Rightarrow> u32) \<Rightarrow> pcc \<Rightarrow> pcc" where
  "pcmcia_pins rds rdc s0 =
    (let s1 = pxa_gpio_mode (48 OR 0x280) (set_pin rds 48 s0);
         s2 = pxa_gpio_mode (50 OR 0x280) (set_pin rds 50 s1);
         s3 = pxa_gpio_mode (51 OR 0x280) (set_pin rds 51 s2);
         s4 = pxa_gpio_mode (85 OR 0x180) (set_pin rds 85 s3);
         s5 = pxa_gpio_mode (54 OR 0x280) (clear_pin rdc 54 s4);
         s6 = pxa_gpio_mode (55 OR 0x280) (set_pin rds 55 s5);
         s7 = pxa_gpio_mode (56 OR 0x100) s6;
         s8 = pxa_gpio_mode (57 OR 0x100) s7
     in pxa_gpio_mode (79 OR 0x180) (set_pin rds 79 s8))"

definition creator_pxa270_pcmcia_init_dev ::
  "(nat \<Rightarrow> u32) \<Rightarrow> (nat \<Rightarrow> u32) \<Rightarrow> (nat set \<Rightarrow> nat \<Rightarrow> int) \<Rightarrow> soc_socket \<Rightarrow> pcc \<Rightarrow> int \<times> soc_socket \<times> pcc" where
  "creator_pxa270_pcmcia_init_dev rds rdc req k s0 =
    (let s1 = PCC_PWR_ON (pcmcia_pins rds rdc s0);
         s2 = PCC_RESET_DEASSERT (PCC_RESET_ASSERT s1);
         k1 = k\<lparr>sock_irq := CREATOR_CF_IRQ\<rparr>;
         (r, s3) = soc_pcmcia_request_irqs req (sock_nr k1) pcmcia_irqs [] s2
     in (r, k1, s3))"

definition creator_pxa270_pcmcia_shutdown :: "soc_socket \<Rightarrow> pcc \<Rightarrow> pcc" where
  "creator_pxa270_pcmcia_shutdown k s = PCC_PWR_OFF (soc_pcmcia_free_irqs (sock_nr k) pcmcia_irqs s)"

text \<open>The status register is read four times; reading \<open>i\<close> of the machine is \<open>st i\<close>.\<close>

record pcmcia_state =
  detect :: bool
  ready :: bool
  bvd1 :: bool
  bvd2 :: bool
  wrprot :: bool
  vs_3v :: bool
  vs_Xv :: bool

definition creator_pxa270_pcmcia_socket_state :: "(nat \<Rightarrow> u16) \<Rightarrow> nat \<Rightarrow> pcmcia_state \<times> nat" where
  "creator_pxa270_pcmcia_socket_state st n =
    (\<lparr>detect = (st n AND 0x04 = 0), ready = (st (n + 1) AND 0x08 \<noteq> 0),
      bvd1 = (st (n + 2) AND 0x10 \<noteq> 0), bvd2 = (st (n + 3) AND 0x20 \<noteq> 0),
      wrprot = False, vs_3v = True, vs_Xv = False\<rparr>, n + 4)"

definition SS_RESET :: u32 where "SS_RESET = 0x40"

definition creator_pxa270_pcmcia_configure_socket :: "socket_state \<Rightarrow> pcc \<Rightarrow> int \<times> pcc" where
  "creator_pxa270_pcmcia_configure_socket state s =
    (let saved = irqs_on s; s0 = s\<lparr>irqs_on := False\<rparr> in
     case (if Vcc state = 0 \<and> Vpp state = 0 then Some (PCC_PWR_OFF s0)
           else if Vcc state = 33 \<and> Vpp state < 50 then Some (PCC_PWR_ON s0)
           else None) of
       None \<Rightarrow> (- 1, s0)
     | Some s1 \<Rightarrow>
        (let s2 = (if flags state AND SS_RESET \<noteq> 0 then PCC_RESET_ASSERT s1 else PCC_RESET_DEASSERT s1)
         in (0, s2\<lparr>irqs_on := saved\<rparr>)))"

section \<open>The socket layer\<close>

definition soc_common_pcmcia_skt_state :: "(nat \<Rightarrow> u16) \<Rightarrow> nat \<Rightarrow> soc_socket \<Rightarrow> u32 \<times> nat" where
  "soc_common_pcmcia_skt_state st n k =
    (let (state, n1) = creator_pxa270_pcmcia_socket_state st n;
         stat = (if detect state then 0x80 else 0);
         stat = stat OR (if ready state then 0x40 else 0);
         stat = stat OR (if wrprot state then 0x01 else 0);
         stat = stat OR (if vs_3v state then 0x1000 else 0);
         stat = stat OR (if vs_Xv state then 0x2000 else 0);
         stat = stat OR (if Vcc (cs_state k) \<noteq> 0 then 0x100 else 0);
         stat = (if flags (cs_state k) AND 0x20 \<noteq> 0 then stat OR (if bvd1 state then 0x400 else 0)
                 else if \<not> bvd1 state then stat OR 0x10
                 else if \<not> bvd2 state then stat OR 0x20 else stat)
     in (stat, n1))"

definition soc_common_pcmcia_config_skt :: "socket_state \<Rightarrow> soc_socket \<Rightarrow> pcc \<Rightarrow> int \<times> soc_socket \<times> pcc" where
  "soc_common_pcmcia_config_skt state k s =
    (let (ret, s1) = creator_pxa270_pcmcia_configure_socket state s in
     if ret = 0
     then let (k1, s2) =
            (if irq_state k \<noteq> 1 \<and> io_irq state \<noteq> 0
             then (k\<lparr>irq_state := 1\<rparr>, set_irq_type (sock_irq k) IRQT_FALLING s1)
             else if irq_state k = 1 \<and> io_irq state = 0
             then (k\<lparr>irq_state := 0\<rparr>, set_irq_type (sock_irq k) IRQT_NOEDGE s1)
             else (k, s1))
          in (ret, k1\<lparr>cs_state := state\<rparr>, s2)
     else (ret, k, s1))"

definition soc_common_pcmcia_get_status :: "(nat \<Rightarrow> u16) \<Rightarrow> nat \<Rightarrow> soc_socket \<Rightarrow> u32 \<times> soc_socket \<times> nat" where
  "soc_common_pcmcia_get_status st n k =
    (let (v, n1) = soc_common_pcmcia_skt_state st n k in (v, k\<lparr>sock_status := v\<rparr>, n1))"

text \<open>
  The event loop; the words given to \<open>pcmcia_parse_events\<close> are listed. It ends when a reading shows no
  change in the bits of the mask, so it is a partial function.
\<close>

partial_function (option) soc_common_check_status ::
  "(nat \<Rightarrow> u16) \<Rightarrow> nat \<Rightarrow> soc_socket \<Rightarrow> u32 list \<Rightarrow> (soc_socket \<times> u32 list \<times> nat) option" where
  "soc_common_check_status st n k evs =
    (let status = fst (soc_common_pcmcia_skt_state st n k);
         n1 = snd (soc_common_pcmcia_skt_state st n k);
         events = (status XOR sock_status k) AND csc_mask (cs_state k);
         k1 = k\<lparr>sock_status := status\<rparr>
     in if events \<noteq> 0 then soc_common_check_status st n1 k1 (evs @ [events]) else Some (k1, evs, n1))"

section \<open>Setting the socket up\<close>

lemma gpio_fields_ctrl1 [simp]:
  "pins (put_ctrl1 v s) = pins s" "pins (s\<lparr>taken := t\<rparr>) = pins s" "pins (s\<lparr>irqs_on := b\<rparr>) = pins s"
  "pins (set_irq_type n ty s) = pins s" "pins (free_irq n s) = pins s"
  by (simp_all add: fun_eq_iff pins_def put_ctrl1_def set_irq_type_def free_irq_def)

lemma route_pins: "pins s = pins s' \<Longrightarrow> route s = route s'"
  by (simp add: route_def fun_eq_iff)

lemma route_set_pin [simp]: "route (set_pin rv g s) = route s" "route (clear_pin rv g s) = route s"
  by (simp_all add: set_pin_def clear_pin_def)

lemma route_pcmcia_pins:
  "route (pcmcia_pins rds rdc s) =
    (route s)(48 := (2, True), 50 := (2, True), 51 := (2, True), 85 := (1, True), 54 := (2, True),
              55 := (2, True), 56 := (1, False), 57 := (1, False), 79 := (1, True))"
  by (simp add: pcmcia_pins_def Let_def route_mode mode_pin_def mode_fn_of_bits)

lemma gpio_mode_frame [simp]:
  "ctrl1 (pxa_gpio_mode m s) = ctrl1 s" "ctrl1_log (pxa_gpio_mode m s) = ctrl1_log s"
  "taken (pxa_gpio_mode m s) = taken s"
  by (simp_all add: pxa_gpio_mode_def Let_def write_GPSR_def write_GPCR_def)

lemma set_pin_frame [simp]:
  "ctrl1 (set_pin rv g s) = ctrl1 s" "ctrl1_log (set_pin rv g s) = ctrl1_log s" "taken (set_pin rv g s) = taken s"
  "ctrl1 (clear_pin rv g s) = ctrl1 s" "ctrl1_log (clear_pin rv g s) = ctrl1_log s" "taken (clear_pin rv g s) = taken s"
  by (simp_all add: set_pin_def clear_pin_def write_GPSR_def write_GPCR_def)

lemma pcmcia_pins_frame:
  "ctrl1 (pcmcia_pins rds rdc s) = ctrl1 s" "ctrl1_log (pcmcia_pins rds rdc s) = ctrl1_log s"
  "taken (pcmcia_pins rds rdc s) = taken s"
  by (simp_all add: pcmcia_pins_def Let_def)

text \<open>All lines of a socket or none: a request that fails gives back what it took.\<close>

lemma fold_free_irq: "fold free_irq got s = s\<lparr>taken := taken s - set got\<rparr>"
  by (induction got arbitrary: s) (simp_all add: free_irq_def flip: Diff_insert2)

lemma set_irq_type_frame [simp]:
  "taken (set_irq_type n t s) = taken s" "ctrl1 (set_irq_type n t s) = ctrl1 s"
  "ctrl1_log (set_irq_type n t s) = ctrl1_log s" "irqs_on (set_irq_type n t s) = irqs_on s"
  by (simp_all add: set_irq_type_def)

lemma request_all_or_none:
  assumes "soc_pcmcia_request_irqs req nr ns got s = (r, s')" "snd ` set ns \<inter> taken s = {}" "distinct (map snd ns)"
    "set got \<subseteq> taken s"
  shows "taken s' = (if r = 0 then taken s \<union> {n. (nr, n) \<in> set ns} else taken s - set got)
    \<and> ctrl1 s' = ctrl1 s \<and> ctrl1_log s' = ctrl1_log s \<and> pins s' = pins s"
  using assms
proof (induction req nr ns got s rule: soc_pcmcia_request_irqs.induct)
  case (1 req nr got s)
  then show ?case by auto
next
  case (2 req nr sock n ns got s)
  show ?case
  proof (cases "sock = nr \<and> req (taken s) n = 0")
    case True
    have "set got \<subseteq> insert n (taken s)" using 2(6) by blast
    with True 2(2) [of 0] 2(3-6) show ?thesis by (simp split: if_splits) blast+
  next
    case False
    with 2(1) 2(3-6) show ?thesis
      by (auto simp: fold_free_irq Let_def pins_def fun_eq_iff split: if_splits)
  qed
qed

lemma free_irqs: "soc_pcmcia_free_irqs nr ns s = s\<lparr>taken := taken s - {n. (nr, n) \<in> set ns}\<rparr>"
  by (induction nr ns s rule: soc_pcmcia_free_irqs.induct) (auto simp: free_irq_def set_diff_eq)

lemma route_put_ctrl1 [simp]: "route (put_ctrl1 v s) = route s"
  by (rule route_pins) simp

lemma init_dev_result:
  assumes "creator_pxa270_pcmcia_init_dev rds rdc req k s = (r, k', s')" "sock_nr k = 0" "CREATOR_CFI_IRQ \<notin> taken s"
  shows "k' = k\<lparr>sock_irq := CREATOR_CF_IRQ\<rparr>
    \<and> route s' = (route s)(48 := (2, True), 50 := (2, True), 51 := (2, True), 85 := (1, True), 54 := (2, True),
                          55 := (2, True), 56 := (1, False), 57 := (1, False), 79 := (1, True))
    \<and> ctrl1_log s' = ctrl1_log s @ [ctrl1 s OR 4, (ctrl1 s OR 4) OR 8, ((ctrl1 s OR 4) OR 8) AND 0xF7]
    \<and> taken s' = (if r = 0 then insert CREATOR_CFI_IRQ (taken s) else taken s)"
proof -
  define s2 where "s2 = PCC_RESET_DEASSERT (PCC_RESET_ASSERT (PCC_PWR_ON (pcmcia_pins rds rdc s)))"
  have q: "soc_pcmcia_request_irqs req 0 pcmcia_irqs [] s2 = (r, s')"
    and k: "k' = k\<lparr>sock_irq := CREATOR_CF_IRQ\<rparr>"
    using assms(1,2) by (auto simp: creator_pxa270_pcmcia_init_dev_def s2_def Let_def split: prod.splits)
  have t: "taken s2 = taken s"
    by (simp add: s2_def PCC_RESET_DEASSERT_def PCC_RESET_ASSERT_def PCC_PWR_ON_def put_ctrl1_def pcmcia_pins_frame)
  have rt: "route s2 = route (pcmcia_pins rds rdc s)"
    by (simp add: s2_def PCC_RESET_DEASSERT_def PCC_RESET_ASSERT_def PCC_PWR_ON_def)
  have l: "ctrl1_log s2 = ctrl1_log s @ [ctrl1 s OR 4, (ctrl1 s OR 4) OR 8, ((ctrl1 s OR 4) OR 8) AND 0xF7]"
    by (simp add: s2_def PCC_RESET_DEASSERT_def PCC_RESET_ASSERT_def PCC_PWR_ON_def put_ctrl1_def pcmcia_pins_frame)
  have "taken s' = (if r = 0 then taken s2 \<union> {n. (0, n) \<in> set pcmcia_irqs} else taken s2)
      \<and> ctrl1_log s' = ctrl1_log s2 \<and> pins s' = pins s2"
    using request_all_or_none [OF q] assms(3) by (simp add: t pcmcia_irqs_def)
  then show ?thesis
    using k rt route_pins [of s' s2] by (simp add: t l route_pcmcia_pins pcmcia_irqs_def)
qed

lemma shutdown_result:
  "\<not> bit (ctrl1 (creator_pxa270_pcmcia_shutdown k s)) 2"
  "sock_nr k = 0 \<Longrightarrow> taken (creator_pxa270_pcmcia_shutdown k s) = taken s - {CREATOR_CFI_IRQ}"
  by (simp_all add: creator_pxa270_pcmcia_shutdown_def PCC_PWR_OFF_def put_ctrl1_def free_irqs pcmcia_irqs_def
      bit_simps bit_numeral_rec)

text \<open>
  Setting up the socket routes its nine pins to the card interface, in the direction the card needs, and
  no other pin; it powers the card, then asserts and releases its reset, in this order, and takes the
  card-detect interrupt if and only if it returns 0. Shutting down switches the power off and gives
  the interrupt back, so that init and shutdown leave the interrupt lines as they were.
\<close>

theorem pcmcia_init:
  assumes "creator_pxa270_pcmcia_init_dev rds rdc req k s = (r, k', s')" "sock_nr k = 0" "CREATOR_CFI_IRQ \<notin> taken s"
  shows "sock_irq k' = CREATOR_CF_IRQ
    \<and> route s' = (route s)(48 := (2, True), 50 := (2, True), 51 := (2, True), 85 := (1, True), 54 := (2, True),
                          55 := (2, True), 56 := (1, False), 57 := (1, False), 79 := (1, True))
    \<and> ctrl1_log s' = ctrl1_log s @ [ctrl1 s OR 4, (ctrl1 s OR 4) OR 8, ((ctrl1 s OR 4) OR 8) AND 0xF7]
    \<and> taken s' = (if r = 0 then insert CREATOR_CFI_IRQ (taken s) else taken s)
    \<and> \<not> bit (ctrl1 (creator_pxa270_pcmcia_shutdown k' s')) 2
    \<and> taken (creator_pxa270_pcmcia_shutdown k' s') = taken s"
  using init_dev_result [OF assms] assms(2,3) shutdown_result [of k' s'] by auto

definition slot :: pcc where
  "slot = \<lparr>gpdr = (\<lambda>_. 0), gafr = (\<lambda>_. 0), latch = (\<lambda>_. 0), ctrl1 = 0x12, ctrl1_log = [], irqs_on = True,
     taken = {}, irq_type = Map.empty\<rparr>"

definition socket0 :: soc_socket where
  "socket0 = \<lparr>sock_nr = 0, sock_irq = 0, irq_state = 0,
     cs_state = \<lparr>flags = 0, csc_mask = 0x80, Vcc = 0, Vpp = 0, io_irq = 0\<rparr>, sock_status = 0\<rparr>"

theorem pcmcia_init_witness:
  "ctrl1_log (snd (snd (creator_pxa270_pcmcia_init_dev (\<lambda>_. 0) (\<lambda>_. 0) (\<lambda>_ _. 0) socket0 slot))) = [0x16, 0x1e, 0x16]
   \<and> route (snd (snd (creator_pxa270_pcmcia_init_dev (\<lambda>_. 0) (\<lambda>_. 0) (\<lambda>_ _. 0) socket0 slot))) 85 = (1, True)"
proof -
  obtain r k' s' where e: "creator_pxa270_pcmcia_init_dev (\<lambda>_. 0) (\<lambda>_. 0) (\<lambda>_ _. 0) socket0 slot = (r, k', s')"
    by (metis prod_cases3)
  show ?thesis
    using pcmcia_init [OF e] e by (simp add: slot_def socket0_def)
qed

section \<open>Configuring the socket\<close>

definition voltage_ok :: "socket_state \<Rightarrow> bool" where
  "voltage_ok state \<longleftrightarrow> (Vcc state = 0 \<and> Vpp state = 0) \<or> (Vcc state = 33 \<and> Vpp state < 50)"

lemma and_SS_RESET: "v AND SS_RESET \<noteq> 0 \<longleftrightarrow> bit v 6"
  using and_bit_iff [of v 6] by (simp add: SS_RESET_def push_bit_eq_mult)

lemma bits_ctrl1:
  "bit ((w :: u16) OR 0x08) n \<longleftrightarrow> bit w n \<or> n = 3"
  "n < 8 \<Longrightarrow> bit (w AND 0xF7) n \<longleftrightarrow> bit w n \<and> n \<noteq> 3"
  "bit (w OR 4) n \<longleftrightarrow> bit w n \<or> n = 2"
  "bit (w AND - 5) n \<longleftrightarrow> bit w n \<and> n \<noteq> 2"
proof -
  have c: "(0x08 :: u16) = push_bit 3 1" "(4 :: u16) = push_bit 2 1" "(0xF7 :: u16) = NOT (push_bit 3 1) AND mask 8"
    "(- 5 :: u16) = NOT (push_bit 2 1)"
    by (simp_all add: push_bit_eq_mult mask_eq_exp_minus_1)
  show "bit (w OR 0x08) n \<longleftrightarrow> bit w n \<or> n = 3" "bit (w OR 4) n \<longleftrightarrow> bit w n \<or> n = 2"
    "bit (w AND - 5) n \<longleftrightarrow> bit w n \<and> n \<noteq> 2" "n < 8 \<Longrightarrow> bit (w AND 0xF7) n \<longleftrightarrow> bit w n \<and> n \<noteq> 3"
    unfolding c by (auto simp: bit_simps bit_1_iff dest: bit_imp_le_length simp del: push_bit_of_1)
qed

lemma configure_ctrl1:
  assumes "voltage_ok state" "n < 8"
  shows "bit (ctrl1 (snd (creator_pxa270_pcmcia_configure_socket state s))) n =
    (if n = 2 then Vcc state = 33 else if n = 3 then bit (flags state) 6 else bit (ctrl1 s) n)"
  using assms
  by (auto simp: creator_pxa270_pcmcia_configure_socket_def voltage_ok_def Let_def PCC_PWR_OFF_def PCC_PWR_ON_def
      PCC_RESET_ASSERT_def PCC_RESET_DEASSERT_def put_ctrl1_def and_SS_RESET bits_ctrl1)

lemma configure_result:
  "fst (creator_pxa270_pcmcia_configure_socket state s) = (if voltage_ok state then 0 else - 1)"
  "irqs_on (snd (creator_pxa270_pcmcia_configure_socket state s)) = (voltage_ok state \<and> irqs_on s)"
  "\<not> voltage_ok state \<Longrightarrow> ctrl1_log (snd (creator_pxa270_pcmcia_configure_socket state s)) = ctrl1_log s"
  by (auto simp: creator_pxa270_pcmcia_configure_socket_def voltage_ok_def Let_def PCC_PWR_OFF_def PCC_PWR_ON_def
      PCC_RESET_ASSERT_def PCC_RESET_DEASSERT_def put_ctrl1_def)

lemma config_skt_result:
  assumes "soc_common_pcmcia_config_skt state k s = (r, k', s')"
  shows "if voltage_ok state then cs_state k' = state else k' = k"
    "r = (if voltage_ok state then 0 else - 1)"
    "ctrl1 s' = ctrl1 (snd (creator_pxa270_pcmcia_configure_socket state s))"
    "ctrl1_log s' = ctrl1_log (snd (creator_pxa270_pcmcia_configure_socket state s))"
    "irqs_on s' = irqs_on (snd (creator_pxa270_pcmcia_configure_socket state s))"
  using assms configure_result(1) [of state s]
  by (auto simp: soc_common_pcmcia_config_skt_def Let_def split: prod.splits if_splits)

text \<open>
  Configuring the socket. It accepts exactly power off (Vcc and Vpp 0) and 3.3 V with Vpp below 5 V.
  Then it returns 0, the socket layer remembers the state, the power bit says whether there is
  voltage, the reset bit is the \<open>SS_RESET\<close> flag, the other bits of the control register and the interrupt flag are
  as before. Any other voltage is refused with -1 and changes neither the card nor what the socket layer remembers
  -- but \<open>configure_socket\<close> returns without restoring the interrupt flag, and leaves the processor with its
  interrupts disabled.
\<close>

theorem pcmcia_configure:
  assumes "soc_common_pcmcia_config_skt state k s = (r, k', s')"
  shows "r = (if (Vcc state = 0 \<and> Vpp state = 0) \<or> (Vcc state = 33 \<and> Vpp state < 50) then 0 else - 1)
    \<and> (if r = 0 then cs_state k' = state \<and> irqs_on s' = irqs_on s
         \<and> (\<forall>n \<in> {..<8}. bit (ctrl1 s') n =
              (if n = 2 then Vcc state = 33 else if n = 3 then bit (flags state) 6 else bit (ctrl1 s) n))
       else k' = k \<and> ctrl1_log s' = ctrl1_log s \<and> \<not> irqs_on s')"
  using config_skt_result [OF assms] configure_ctrl1 [of state _ s] configure_result [of state s]
  by (simp add: voltage_ok_def split: if_splits)

theorem pcmcia_configure_witness:
  "fst (soc_common_pcmcia_config_skt \<lparr>flags = 0x40, csc_mask = 0, Vcc = 33, Vpp = 0, io_irq = 1\<rparr> socket0 slot) = 0
   \<and> (let r = soc_common_pcmcia_config_skt \<lparr>flags = 0, csc_mask = 0, Vcc = 50, Vpp = 50, io_irq = 0\<rparr> socket0 slot
      in fst r = - 1 \<and> \<not> irqs_on (snd (snd r)))"
proof -
  let ?c = "\<lambda>st. soc_common_pcmcia_config_skt st socket0 slot"
  have "?c st = (fst (?c st), fst (snd (?c st)), snd (snd (?c st)))" for st by simp
  note p = pcmcia_configure [OF this]
  show ?thesis
    using p [of "\<lparr>flags = 0x40, csc_mask = 0, Vcc = 33, Vpp = 0, io_irq = 1\<rparr>"]
      p [of "\<lparr>flags = 0, csc_mask = 0, Vcc = 50, Vpp = 50, io_irq = 0\<rparr>"]
    by (simp add: Let_def)
qed

section \<open>The event loop\<close>

lemma check_status_unfold:
  "soc_common_check_status st n k evs =
    (let (status, n1) = soc_common_pcmcia_skt_state st n k;
         events = (status XOR sock_status k) AND csc_mask (cs_state k);
         k1 = k\<lparr>sock_status := status\<rparr>
     in if events \<noteq> 0 then soc_common_check_status st n1 k1 (evs @ [events]) else Some (k1, evs, n1))"
  by (subst soc_common_check_status.simps) (simp add: Let_def case_prod_beta)

text \<open>The status word depends on the configuration of the socket and the readings, not on the last status.\<close>

lemma skt_state_status [simp]:
  "soc_common_pcmcia_skt_state st n (k\<lparr>sock_status := v\<rparr>) = soc_common_pcmcia_skt_state st n k"
  by (simp add: soc_common_pcmcia_skt_state_def)

lemma skt_state_steady:
  "(\<And>i. n \<le> i \<Longrightarrow> st i = v) \<Longrightarrow> n \<le> m \<Longrightarrow>
   soc_common_pcmcia_skt_state st m k = (fst (soc_common_pcmcia_skt_state (\<lambda>_. v) 0 k), m + 4)"
  by (simp add: soc_common_pcmcia_skt_state_def creator_pxa270_pcmcia_socket_state_def Let_def)

lemma check_status_steady:
  fixes k :: soc_socket
  assumes "\<And>i. n \<le> i \<Longrightarrow> st i = v"
  defines "w \<equiv> fst (soc_common_pcmcia_skt_state (\<lambda>_. v) 0 k)"
  defines "e \<equiv> (w XOR sock_status k) AND csc_mask (cs_state k)"
  shows "soc_common_check_status st n k evs =
    Some (k\<lparr>sock_status := w\<rparr>, evs @ (if e = 0 then [] else [e]), if e = 0 then n + 4 else n + 8)"
proof (cases "e = 0")
  case True
  then show ?thesis
    using skt_state_steady [OF assms(1), where m = n and k = k] by (subst check_status_unfold) (simp add: w_def e_def)
next
  case False
  have "soc_common_check_status st n k evs = soc_common_check_status st (n + 4) (k\<lparr>sock_status := w\<rparr>) (evs @ [e])"
    using False skt_state_steady [OF assms(1), where m = n and k = k] by (subst check_status_unfold) (simp add: w_def e_def)
  also have "\<dots> = Some (k\<lparr>sock_status := w\<rparr>, evs @ [e], n + 8)"
    using skt_state_steady [OF assms(1), where m = "n + 4" and k = k] by (subst check_status_unfold) (simp add: w_def)
  finally show ?thesis using False by simp
qed

text \<open>Every change of a bit the core listens to is reported: the events add up to it.\<close>

definition sum_events :: "u32 list \<Rightarrow> u32" where "sum_events evs = foldr (XOR) evs 0"

lemma sum_events_append [simp]: "sum_events (a @ b) = sum_events a XOR sum_events b"
  by (induction a) (simp_all add: sum_events_def xor.assoc)

lemma sum_events_single [simp]: "sum_events [] = 0" "sum_events [e] = e"
  by (simp_all add: sum_events_def)

lemma xor_and_telescope: "((a XOR b) AND m) XOR ((b XOR c) AND m) = (a XOR c) AND (m :: u32)"
  by (rule bit_word_eqI) (auto simp: bit_simps)

lemma check_status_accounts:
  assumes "soc_common_check_status st n k evs = Some y"
  shows "\<exists>new. fst (snd y) = evs @ new \<and> 0 \<notin> set new \<and> cs_state (fst y) = cs_state k
    \<and> sum_events new = (sock_status k XOR sock_status (fst y)) AND csc_mask (cs_state k)"
proof (rule soc_common_check_status.raw_induct [OF _ assms], goal_cases)
  case (1 f st n k evs y)
  define w where "w = fst (soc_common_pcmcia_skt_state st n k)"
  define e where "e = (w XOR sock_status k) AND csc_mask (cs_state k)"
  show ?case
  proof (cases "e = 0")
    case True
    with 1(2) have "y = (k\<lparr>sock_status := w\<rparr>, evs, snd (soc_common_pcmcia_skt_state st n k))"
      by (simp add: Let_def w_def e_def)
    with True show ?thesis by (auto simp: e_def xor.commute)
  next
    case False
    with 1(2) have "f st (snd (soc_common_pcmcia_skt_state st n k)) (k\<lparr>sock_status := w\<rparr>) (evs @ [e]) = Some y"
      by (simp add: Let_def w_def e_def)
    from 1(1) [OF this] obtain new where new: "fst (snd y) = (evs @ [e]) @ new" "0 \<notin> set new"
      "cs_state (fst y) = cs_state k"
      "sum_events new = (w XOR sock_status (fst y)) AND csc_mask (cs_state k)"
      by auto
    have "sum_events (e # new) = (sock_status k XOR sock_status (fst y)) AND csc_mask (cs_state k)"
      using new(4) sum_events_append [of "[e]" new]
        xor_and_telescope [of "sock_status k" w "csc_mask (cs_state k)" "sock_status (fst y)"]
      by (simp add: e_def xor.commute)
    with new False show ?thesis by (intro exI [of _ "e # new"]) simp
  qed
qed

text \<open>
  C37: the event loop of the socket. Once the status register holds still, \<open>soc_common_check_status\<close>
  returns after one reading, or after two if something the core listens to had changed, and reports just that
  change. Whenever it returns, every word it reported is not 0, and the words add up (bit by bit) to the difference
  between the status remembered before and after, within the mask: no change is lost and none is
  made up. A card that keeps changing keeps it in the loop.
\<close>

theorem check_status_reports:
  "((\<forall>i \<ge> n. st i = v) \<longrightarrow>
      (let w = fst (soc_common_pcmcia_skt_state (\<lambda>_. v) 0 k); e = (w XOR sock_status k) AND csc_mask (cs_state k)
       in soc_common_check_status st n k evs =
          Some (k\<lparr>sock_status := w\<rparr>, evs @ (if e = 0 then [] else [e]), if e = 0 then n + 4 else n + 8)))
   \<and> (soc_common_check_status st n k [] = Some (k', evs', n') \<longrightarrow>
      0 \<notin> set evs' \<and> cs_state k' = cs_state k
      \<and> sum_events evs' = (sock_status k XOR sock_status k') AND csc_mask (cs_state k))"
  using check_status_steady [of n st v k evs] check_status_accounts [of st n k "[]" "(k', evs', n')"]
  by (simp_all add: Let_def)

text \<open>A card pulled out (detect high) while the core listens to detection.\<close>

theorem check_status_reports_witness:
  "soc_common_check_status (\<lambda>_. 0x3c) 0 (socket0\<lparr>sock_status := 0x80\<rparr>) [] =
     Some (socket0\<lparr>sock_status := 0x1040\<rparr>, [0x80], 8)
   \<and> sum_events [0x80] = 0x80"
  using check_status_reports [where n = 0 and st = "\<lambda>_. 0x3c" and v = "0x3c" and evs = "[]"
      and k = "socket0\<lparr>sock_status := 0x80\<rparr>"]
  by (simp add: soc_common_pcmcia_skt_state_def creator_pxa270_pcmcia_socket_state_def socket0_def Let_def)

end
