(* ===== verification/Mach.thy ===== *)
theory Mach
  imports Gpio Irq
begin

text \<open>
  The machine description, \<open>linux/arch/arm/mach-pxa/mach-creator-pxa270.c\<close>, with the memory map of
  \<open>creator-pxa270.h\<close>: the tables of panels, partitions, resources and static mappings, and the functions that set
  the machine up. The state extends the pins by the registers these functions write and the interrupt lines they take.
\<close>

section \<open>State\<close>

record mach = gpio +
  master_ctrl1 :: u16
  cken :: u32
  pwer :: u32
  pfer :: u32
  prer :: u32
  pgsr :: "nat \<Rightarrow> u32"
  pcfr :: u32
  irq_held :: "nat set"
  stores :: "(u32 \<times> u32) list"    \<comment> \<open>words written to the audio codec\<close>
  iotable :: "(u32 \<times> u32 \<times> u32) list"

section \<open>Audio and panels\<close>

definition creator_pxa270_mst_audio_startup :: "mach \<Rightarrow> int \<times> mach" where
  "creator_pxa270_mst_audio_startup s =
    (0, s\<lparr>stores := stores s @ [(0xf2500200 + push_bit 1 2, 0x0808), (0xf2500200 + push_bit 1 0x6a, 0x40)]\<rparr>)"

definition create_pxa270_TFTLCD_power :: "bool \<Rightarrow> mach \<Rightarrow> mach" where
  "create_pxa270_TFTLCD_power b s =
    (if b then s\<lparr>master_ctrl1 := master_ctrl1 s OR 0x20\<rparr> else s\<lparr>master_ctrl1 := master_ctrl1 s AND 0xdf\<rparr>)"

text \<open>
  All five panels are active matrices (\<open>LCCR0_Act\<close>) switched by \<open>create_pxa270_TFTLCD_power\<close>, without a
  backlight function; of \<open>lccr3\<close> only the clock polarity differs. The pixel clock is a period in picoseconds.
\<close>

record pxafb_mach_info =
  pixclock :: u32
  xres :: u16
  yres :: u16
  bpp :: u8
  hsync_len :: u8
  left_margin :: u8
  right_margin :: u8
  vsync_len :: u8
  upper_margin :: u8
  lower_margin :: u8
  sync :: u8
  lccr3_pcp :: bool

definition LTS280Q1 :: pxafb_mach_info where
  "LTS280Q1 = \<lparr>pixclock = 156250, xres = 240, yres = 320, bpp = 16, hsync_len = 60, left_margin = 10,
     right_margin = 10, vsync_len = 13, upper_margin = 0, lower_margin = 0, sync = 0, lccr3_pcp = True\<rparr>"

definition TD035STEB1 :: pxafb_mach_info where
  "TD035STEB1 = \<lparr>pixclock = 156250, xres = 240, yres = 320, bpp = 16, hsync_len = 60, left_margin = 12,
     right_margin = 12, vsync_len = 13, upper_margin = 0, lower_margin = 0, sync = 0, lccr3_pcp = True\<rparr>"

definition HX8218A :: pxafb_mach_info where
  "HX8218A = \<lparr>pixclock = 156250, xres = 320, yres = 240, bpp = 16, hsync_len = 30, left_margin = 2,
     right_margin = 2, vsync_len = 3, upper_margin = 1, lower_margin = 1, sync = 0, lccr3_pcp = False\<rparr>"

definition NL6448BC33 :: pxafb_mach_info where
  "NL6448BC33 = \<lparr>pixclock = 39682, xres = 640, yres = 480, bpp = 16, hsync_len = 60, left_margin = 10,
     right_margin = 10, vsync_len = 13, upper_margin = 0, lower_margin = 0, sync = 0, lccr3_pcp = True\<rparr>"

definition GATW70SN9F3E0 :: pxafb_mach_info where
  "GATW70SN9F3E0 = \<lparr>pixclock = 33330, xres = 800, yres = 480, bpp = 16, hsync_len = 48, left_margin = 40,
     right_margin = 40, vsync_len = 3, upper_margin = 29, lower_margin = 29, sync = 0, lccr3_pcp = False\<rparr>"

section \<open>Memory card\<close>

definition request_irq :: "(nat set \<Rightarrow> nat \<Rightarrow> int) \<Rightarrow> nat \<Rightarrow> mach \<Rightarrow> int \<times> mach" where
  "request_irq req n s = (let r = req (irq_held s) n in (r, if r = 0 then s\<lparr>irq_held := insert n (irq_held s)\<rparr> else s))"

definition creator_pxa270_mci_init :: "(nat set \<Rightarrow> nat \<Rightarrow> int) \<Rightarrow> mach \<Rightarrow> int \<times> mach" where
  "creator_pxa270_mci_init req s0 =
    (let s1 = pxa_gpio_mode (32 OR 0x280) s0;
         s2 = pxa_gpio_mode (112 OR 0x100) s1;
         s3 = pxa_gpio_mode (92 OR 0x100) s2;
         s4 = pxa_gpio_mode (109 OR 0x100) s3;
         s5 = pxa_gpio_mode (110 OR 0x100) s4;
         s6 = pxa_gpio_mode (111 OR 0x100) s5;
         (err, s7) = request_irq req CREATOR_MMCI_IRQ s6
     in if err \<noteq> 0 then (- 1, s7)
        else let (err, s8) = request_irq req CREATOR_MMCO_IRQ s7
             in if err \<noteq> 0 then (- 1, s8) else (0, s8))"

definition creator_pxa270_mci_exit :: "mach \<Rightarrow> mach" where
  "creator_pxa270_mci_exit s = s\<lparr>irq_held := irq_held s - {CREATOR_MMCI_IRQ}\<rparr>"

section \<open>Flash and memory map\<close>

text \<open>Name, offset and size of a partition; all are read-only.\<close>

definition creator_pxa270_partitions :: "(string \<times> u32 \<times> u32) list" where
  "creator_pxa270_partitions =
    [(''Bootloader'', 0, 0x00040000), (''Diag'', 0x00040000, 0x000C0000),
     (''Kernel'', 0x00100000, 0x00380000), (''Filesystem'', 0x00480000, 0x001200000)]"

definition PXA_CS0_PHYS :: u32 where "PXA_CS0_PHYS = 0x00000000"
definition PXA_CS1_PHYS :: u32 where "PXA_CS1_PHYS = 0x04000000"
definition PXA_CS2_PHYS :: u32 where "PXA_CS2_PHYS = 0x08000000"
definition PXA_CS4_PHYS :: u32 where "PXA_CS4_PHYS = 0x10000000"

definition creator_pxa270_flash_resource :: "u32 \<times> u32" where
  "creator_pxa270_flash_resource = (PXA_CS0_PHYS, PXA_CS0_PHYS + 0x02000000 - 1)"

definition CREATOR_ETH_PHYS :: u32 where "CREATOR_ETH_PHYS = PXA_CS1_PHYS"
definition CREATOR_ETH_VIRT :: u32 where "CREATOR_ETH_VIRT = 0xF0000000"
definition CREATOR_ETH_SIZE :: u32 where "CREATOR_ETH_SIZE = 0x00100000"
definition CREATOR_MASTER_PHYS :: u32 where "CREATOR_MASTER_PHYS = PXA_CS2_PHYS"
definition CREATOR_MASTER_VIRT :: u32 where "CREATOR_MASTER_VIRT = CREATOR_ETH_VIRT + CREATOR_ETH_SIZE"
definition MASTER_ECS0_PHYS :: u32 where "MASTER_ECS0_PHYS = CREATOR_MASTER_PHYS + 0x00000000"
definition MASTER_ECS0_VIRT :: u32 where "MASTER_ECS0_VIRT = CREATOR_MASTER_VIRT"
definition MASTER_ECS0_SIZE :: u32 where "MASTER_ECS0_SIZE = 0x00100000"
definition MASTER_RCS0_PHYS :: u32 where "MASTER_RCS0_PHYS = CREATOR_MASTER_PHYS + 0x01000000"
definition MASTER_RCS0_VIRT :: u32 where "MASTER_RCS0_VIRT = MASTER_ECS0_VIRT + MASTER_ECS0_SIZE"
definition MASTER_RCS0_SIZE :: u32 where "MASTER_RCS0_SIZE = 0x00200000"
definition MASTER_ECS3_PHYS :: u32 where "MASTER_ECS3_PHYS = CREATOR_MASTER_PHYS + 0x02000000"
definition MASTER_ECS3_VIRT :: u32 where "MASTER_ECS3_VIRT = MASTER_RCS0_VIRT + MASTER_RCS0_SIZE"
definition MASTER_ECS3_SIZE :: u32 where "MASTER_ECS3_SIZE = 0x00100000"
definition MASTER_RCS3_PHYS :: u32 where "MASTER_RCS3_PHYS = CREATOR_MASTER_PHYS + 0x03000000"
definition MASTER_RCS3_VIRT :: u32 where "MASTER_RCS3_VIRT = MASTER_ECS3_VIRT + MASTER_ECS3_SIZE"
definition MASTER_RCS3_SIZE :: u32 where "MASTER_RCS3_SIZE = 0x00100000"
definition CREATOR_MASTER_SIZE :: u32 where
  "CREATOR_MASTER_SIZE = MASTER_ECS0_SIZE + MASTER_RCS0_SIZE + MASTER_ECS3_SIZE + MASTER_RCS3_SIZE"
definition CREATOR_CPLD_PHYS :: u32 where "CREATOR_CPLD_PHYS = PXA_CS4_PHYS"
definition CREATOR_CPLD_VIRT :: u32 where "CREATOR_CPLD_VIRT = CREATOR_MASTER_VIRT + CREATOR_MASTER_SIZE"
definition CPLD_1_SIZE :: u32 where "CPLD_1_SIZE = 0x00100000"
definition CPLD_2_SIZE :: u32 where "CPLD_2_SIZE = 0x00100000"
definition CREATOR_CPLD_SIZE :: u32 where "CREATOR_CPLD_SIZE = CPLD_1_SIZE + CPLD_2_SIZE"

text \<open>Start and end (inclusive) of the network chip's memory.\<close>

definition creator_pxa270_smc91x_resources :: "u32 \<times> u32" where
  "creator_pxa270_smc91x_resources = (CREATOR_ETH_PHYS + 0x300, CREATOR_ETH_PHYS + CREATOR_ETH_SIZE)"

text \<open>Virtual address, physical address, length.\<close>

definition creator_pxa270_io_desc :: "(u32 \<times> u32 \<times> u32) list" where
  "creator_pxa270_io_desc =
    [(CREATOR_ETH_VIRT, CREATOR_ETH_PHYS, CREATOR_ETH_SIZE),
     (MASTER_ECS0_VIRT, MASTER_ECS0_PHYS, MASTER_ECS0_SIZE),
     (MASTER_RCS0_VIRT, MASTER_RCS0_PHYS, MASTER_RCS0_SIZE),
     (MASTER_ECS3_VIRT, MASTER_ECS3_PHYS, MASTER_ECS3_SIZE),
     (MASTER_RCS3_VIRT, MASTER_RCS3_PHYS, MASTER_RCS3_SIZE),
     (CREATOR_CPLD_VIRT, CREATOR_CPLD_PHYS, CREATOR_CPLD_SIZE)]"

section \<open>Start-up\<close>

datatype panel_config = MTLCD_0283224 | MTLCD_0353224 | MTLCD_0353224A | MTLCD_0708048 | MTLCD_1046448

text \<open>
  \<open>rv\<close> is what \<open>GPSR3\<close> reads as; the list is the panels given to \<open>set_pxa_fb_info\<close>, in this order, for the set of
  configured panels.
\<close>

definition creator_pxa270_init :: "u32 \<Rightarrow> panel_config set \<Rightarrow> mach \<Rightarrow> pxafb_mach_info list \<times> mach" where
  "creator_pxa270_init rv cfg s0 =
    (let s1 = write_GPSR 3 (rv AND NOT (push_bit (113 - 96) 1)) s0;
         s2 = pxa_gpio_mode (113 OR 0x280) s1
     in ((if MTLCD_0283224 \<in> cfg then [LTS280Q1] else []) @
         (if MTLCD_0353224 \<in> cfg then [TD035STEB1] else []) @
         (if MTLCD_0353224A \<in> cfg then [HX8218A] else []) @
         (if MTLCD_0708048 \<in> cfg then [GATW70SN9F3E0] else []) @
         (if MTLCD_1046448 \<in> cfg then [NL6448BC33] else []), s2))"

record boot =
  banks :: "nat \<Rightarrow> u32 \<times> u32"
  nr_banks :: int
  root_is_ram :: bool
  initrd_start :: u32
  initrd_end :: u32

definition RAMDISK_DN_ADDR :: u32 where "RAMDISK_DN_ADDR = 0xA0800000"

definition phys_to_virt :: "u32 \<Rightarrow> u32" where "phys_to_virt x = x - 0xa0000000 + 0xc0000000"

text \<open>\<open>ram_size\<close> is \<open>CONFIG_BLK_DEV_RAM_SIZE\<close>; without \<open>CONFIG_BLK_DEV_INITRD\<close> it is \<open>None\<close>.\<close>

definition fixup_creator_pxa270 :: "u32 option \<Rightarrow> boot \<Rightarrow> boot" where
  "fixup_creator_pxa270 ram_size m =
    (let m1 = m\<lparr>banks := (banks m)(0 := (0xa0000000, 64 * 1024 * 1024)), nr_banks := 1\<rparr>
     in case ram_size of None \<Rightarrow> m1
        | Some n \<Rightarrow>
           (let m2 = (if initrd_start m1 \<noteq> 0 then m1\<lparr>root_is_ram := True\<rparr> else m1);
                start = phys_to_virt RAMDISK_DN_ADDR
            in m2\<lparr>initrd_start := start, initrd_end := start + n\<rparr>))"

definition uart_pins :: "u32 list" where
  "uart_pins = [41 OR 0x100, 35 OR 0x100, 36 OR 0x100, 37 OR 0x100, 38 OR 0x100, 39 OR 0x280, 40 OR 0x280, 83 OR 0x380]"

definition bt_pins :: "u32 list" where
  "bt_pins = [42 OR 0x100, 43 OR 0x280, 44 OR 0x100, 45 OR 0x280]"

text \<open>\<open>std\<close> is the table \<open>pxa_map_io\<close> enters before.\<close>

definition creator_pxa270_map_io :: "(u32 \<times> u32 \<times> u32) list \<Rightarrow> mach \<Rightarrow> mach" where
  "creator_pxa270_map_io std s0 =
    (let s1 = s0\<lparr>iotable := iotable s0 @ std @ creator_pxa270_io_desc\<rparr>;
         s2 = fold pxa_gpio_mode uart_pins (s1\<lparr>cken := cken s1 OR push_bit 6 1\<rparr>);
         s3 = fold pxa_gpio_mode bt_pins (s2\<lparr>cken := cken s2 OR push_bit 7 1\<rparr>);
         s4 = pxa_gpio_mode (78 OR 0x280 OR 0x800) s3
     in s4\<lparr>pwer := 0x00000002, pfer := 0x00000000, prer := 0x00000002,
           pgsr := (pgsr s4)(0 := 0x00008000, 1 := 0x003F0202, 2 := 0x0001C000),
           pcfr := pcfr s4 OR push_bit 0 1\<rparr>)"

section \<open>Panels\<close>

definition htotal :: "pxafb_mach_info \<Rightarrow> nat" where
  "htotal p = unat (xres p) + unat (hsync_len p) + unat (left_margin p) + unat (right_margin p)"

definition vtotal :: "pxafb_mach_info \<Rightarrow> nat" where
  "vtotal p = unat (yres p) + unat (vsync_len p) + unat (upper_margin p) + unat (lower_margin p)"

text \<open>Frames a second, rounded down, and the pixel clock in Hertz.\<close>

definition refresh :: "pxafb_mach_info \<Rightarrow> nat" where
  "refresh p = 10 ^ 12 div (unat (pixclock p) * htotal p * vtotal p)"

definition clock_Hz :: "pxafb_mach_info \<Rightarrow> nat" where "clock_Hz p = 10 ^ 12 div unat (pixclock p)"

lemma panel_timing:
  "map refresh [LTS280Q1, TD035STEB1, HX8218A, NL6448BC33, GATW70SN9F3E0] = [60, 59, 73, 70, 59]"
  "map clock_Hz [LTS280Q1, TD035STEB1, HX8218A, NL6448BC33, GATW70SN9F3E0] = [6400000, 6400000, 6400000, 25200342, 30003000]"
  by (simp_all add: refresh_def clock_Hz_def htotal_def vtotal_def LTS280Q1_def TD035STEB1_def HX8218A_def
      NL6448BC33_def GATW70SN9F3E0_def)

section \<open>The memory map\<close>

definition virt_window :: "u32 \<times> u32 \<times> u32 \<Rightarrow> nat set" where
  "virt_window d = (case d of (v, p, l) \<Rightarrow> {unat v..<unat v + unat l})"

definition phys_window :: "u32 \<times> u32 \<times> u32 \<Rightarrow> nat set" where
  "phys_window d = (case d of (v, p, l) \<Rightarrow> {unat p..<unat p + unat l})"

lemmas address_defs = CREATOR_ETH_VIRT_def CREATOR_ETH_PHYS_def CREATOR_ETH_SIZE_def CREATOR_MASTER_PHYS_def
  CREATOR_MASTER_VIRT_def MASTER_ECS0_PHYS_def MASTER_ECS0_VIRT_def MASTER_ECS0_SIZE_def MASTER_RCS0_PHYS_def
  MASTER_RCS0_VIRT_def MASTER_RCS0_SIZE_def MASTER_ECS3_PHYS_def MASTER_ECS3_VIRT_def MASTER_ECS3_SIZE_def
  MASTER_RCS3_PHYS_def MASTER_RCS3_VIRT_def MASTER_RCS3_SIZE_def CREATOR_MASTER_SIZE_def CREATOR_CPLD_PHYS_def
  CREATOR_CPLD_VIRT_def CPLD_1_SIZE_def CPLD_2_SIZE_def CREATOR_CPLD_SIZE_def PXA_CS0_PHYS_def PXA_CS1_PHYS_def
  PXA_CS2_PHYS_def PXA_CS4_PHYS_def

lemma io_desc_words:
  "creator_pxa270_io_desc =
    [(0xF0000000, 0x04000000, 0x00100000), (0xF0100000, 0x08000000, 0x00100000), (0xF0200000, 0x09000000, 0x00200000),
     (0xF0400000, 0x0A000000, 0x00100000), (0xF0500000, 0x0B000000, 0x00100000), (0xF0600000, 0x10000000, 0x00200000)]"
  by (simp add: creator_pxa270_io_desc_def address_defs)

text \<open>Windows that follow each other do not overlap.\<close>

lemma sorted_windows_disjoint:
  fixes ws :: "(nat \<times> nat) list"
  assumes "sorted_wrt (\<lambda>a b. snd a \<le> fst b) ws"
  shows "pairwise disjnt ((\<lambda>(a, b). {a..<b}) ` set ws)"
  using assms by (induction ws) (fastforce simp: pairwise_insert disjnt_iff)+

lemma io_desc_disjoint:
  "pairwise disjnt (virt_window ` set creator_pxa270_io_desc)" "pairwise disjnt (phys_window ` set creator_pxa270_io_desc)"
  using sorted_windows_disjoint [of "map (\<lambda>(v, p, l). (unat v, unat v + unat l)) creator_pxa270_io_desc"]
    sorted_windows_disjoint [of "map (\<lambda>(v, p, l). (unat p, unat p + unat l)) creator_pxa270_io_desc"]
  by (simp_all add: io_desc_words virt_window_def phys_window_def)

definition partition_ends :: "nat list" where
  "partition_ends = map (\<lambda>(n, a, l). unat a + unat l) creator_pxa270_partitions"

text \<open>
  The memory map of the machine. The six static mappings have disjoint virtual windows and disjoint physical
  windows. The four partitions of the boot flash start at 0 and each starts where the one before ends, and the last
  one ends inside the 32 MB of the flash's resource. The memory resource of the network chip, however, ends
  one byte beyond the mapping of its chip select.
\<close>

theorem memory_map:
  "pairwise disjnt (virt_window ` set creator_pxa270_io_desc)
   \<and> pairwise disjnt (phys_window ` set creator_pxa270_io_desc)
   \<and> map (\<lambda>(n, a, l). unat a) creator_pxa270_partitions = 0 # butlast partition_ends
   \<and> last partition_ends \<le> unat (snd creator_pxa270_flash_resource) + 1
   \<and> {unat (fst creator_pxa270_smc91x_resources)..unat (snd creator_pxa270_smc91x_resources)}
       - phys_window (hd creator_pxa270_io_desc) = {unat (CREATOR_ETH_PHYS + CREATOR_ETH_SIZE)}"
proof -
  have p: "map (\<lambda>(n, a, l). unat a) creator_pxa270_partitions = 0 # butlast partition_ends"
    "last partition_ends \<le> unat (snd creator_pxa270_flash_resource) + 1"
    by (simp_all add: partition_ends_def creator_pxa270_partitions_def creator_pxa270_flash_resource_def PXA_CS0_PHYS_def)
  have "{unat (fst creator_pxa270_smc91x_resources)..unat (snd creator_pxa270_smc91x_resources)}
       - phys_window (hd creator_pxa270_io_desc) = {unat (CREATOR_ETH_PHYS + CREATOR_ETH_SIZE)}"
    by (auto simp: creator_pxa270_smc91x_resources_def io_desc_words phys_window_def CREATOR_ETH_PHYS_def
        CREATOR_ETH_SIZE_def PXA_CS1_PHYS_def)
  with p io_desc_disjoint show ?thesis by blast
qed

section \<open>The memory card's interrupts\<close>

lemma gpio_mode_mach [simp]:
  "irq_held (pxa_gpio_mode m s) = irq_held s" "iotable (pxa_gpio_mode m s) = iotable s" "cken (pxa_gpio_mode m s) = cken s"
  by (simp_all add: pxa_gpio_mode_def Let_def write_GPSR_def write_GPCR_def)

lemma fold_gpio_mode_mach [simp]:
  "irq_held (fold pxa_gpio_mode ms s) = irq_held s" "iotable (fold pxa_gpio_mode ms s) = iotable s"
  "cken (fold pxa_gpio_mode ms s) = cken s"
  by (induction ms arbitrary: s) simp_all

lemma mmc_irqs_differ [simp]: "CREATOR_MMCI_IRQ \<noteq> CREATOR_MMCO_IRQ" "CREATOR_MMCO_IRQ \<noteq> CREATOR_MMCI_IRQ"
  by (simp_all add: CREATOR_MMCI_IRQ_def CREATOR_MMCO_IRQ_def CREATOR_IRQ_def)

lemma mci_init_result:
  "fst (creator_pxa270_mci_init req s) =
     (if req (irq_held s) CREATOR_MMCI_IRQ = 0 \<and> req (insert CREATOR_MMCI_IRQ (irq_held s)) CREATOR_MMCO_IRQ = 0 then 0 else - 1)"
  "irq_held (snd (creator_pxa270_mci_init req s)) =
     (if req (irq_held s) CREATOR_MMCI_IRQ \<noteq> 0 then irq_held s
      else if req (insert CREATOR_MMCI_IRQ (irq_held s)) CREATOR_MMCO_IRQ \<noteq> 0 then insert CREATOR_MMCI_IRQ (irq_held s)
      else insert CREATOR_MMCO_IRQ (insert CREATOR_MMCI_IRQ (irq_held s)))"
  by (simp_all add: creator_pxa270_mci_init_def request_irq_def Let_def)

text \<open>
  The memory card's interrupts leak. If a line can be requested exactly while nobody holds it, the first
  \<open>creator_pxa270_mci_init\<close> on free lines succeeds and takes the insert and the remove line; \<open>creator_pxa270_mci_exit\<close>
  gives back the insert line only. Every later init then fails with -1, and takes the insert line all the same:
  from then on both lines stay taken with no driver bound, and one more init fails at the first.
\<close>

theorem mci_irqs_leak:
  assumes "\<And>t n. req t n = 0 \<longleftrightarrow> n \<notin> t" "CREATOR_MMCI_IRQ \<notin> irq_held s" "CREATOR_MMCO_IRQ \<notin> irq_held s"
  shows "let first = creator_pxa270_mci_init req s;
             after = creator_pxa270_mci_exit (snd first);
             second = creator_pxa270_mci_init req after
    in fst first = 0 \<and> irq_held (snd first) = irq_held s \<union> {CREATOR_MMCI_IRQ, CREATOR_MMCO_IRQ}
     \<and> irq_held after = irq_held s \<union> {CREATOR_MMCO_IRQ}
     \<and> fst second = - 1 \<and> irq_held (snd second) = irq_held s \<union> {CREATOR_MMCI_IRQ, CREATOR_MMCO_IRQ}
     \<and> fst (creator_pxa270_mci_init req (snd second)) = - 1"
  using assms by (auto simp: mci_init_result creator_pxa270_mci_exit_def Let_def)

definition mach0 :: mach where
  "mach0 = \<lparr>gpdr = (\<lambda>_. 0), gafr = (\<lambda>_. 0), latch = (\<lambda>_. 0), master_ctrl1 = 0, cken = 0, pwer = 0, pfer = 0, prer = 0,
     pgsr = (\<lambda>_. 0), pcfr = 0, irq_held = {}, stores = [], iotable = []\<rparr>"

theorem mci_irqs_leak_witness:
  "let first = creator_pxa270_mci_init (\<lambda>t n. if n \<in> t then - 16 else 0) mach0
   in fst first = 0
    \<and> fst (creator_pxa270_mci_init (\<lambda>t n. if n \<in> t then - 16 else 0) (creator_pxa270_mci_exit (snd first))) = - 1"
  using mci_irqs_leak [of "\<lambda>t n. if n \<in> t then - 16 else 0" mach0] by (simp add: Let_def mach0_def)

section \<open>Start-up\<close>

lemma route_fields [simp]:
  "route (s\<lparr>iotable := t\<rparr>) = route s" "route (s\<lparr>cken := c\<rparr>) = route s"
  "route (s\<lparr>pwer := a, pfer := b, prer := c, pgsr := d, pcfr := e\<rparr>) = route s"
  by (simp_all add: route_def pins_def fun_eq_iff)

lemma pins_fields [simp]:
  "pins (s\<lparr>iotable := t\<rparr>) = pins s" "pins (s\<lparr>cken := c\<rparr>) = pins s"
  "pins (s\<lparr>pwer := a, pfer := b, prer := c, pgsr := d, pcfr := e\<rparr>) = pins s"
  by (simp_all add: pins_def fun_eq_iff)

lemma route_map_io:
  "route (creator_pxa270_map_io std s) =
    (route s)(41 := (1, False), 35 := (1, False), 36 := (1, False), 37 := (1, False), 38 := (1, False),
      39 := (2, True), 40 := (2, True), 83 := (3, True),
      42 := (1, False), 43 := (2, True), 44 := (1, False), 45 := (2, True), 78 := (2, True))"
  by (simp add: creator_pxa270_map_io_def uart_pins_def bt_pins_def Let_def route_mode mode_pin_def mode_fn_of_bits)

lemma map_io_level: "level (pins (creator_pxa270_map_io std s) 78)"
  by (simp add: creator_pxa270_map_io_def Let_def pins_gpio_mode mode_pin_def mode_setting_def)

lemma map_io_tables:
  "iotable (creator_pxa270_map_io std s) = iotable s @ std @ creator_pxa270_io_desc"
  "cken (creator_pxa270_map_io std s) = cken s OR push_bit 6 1 OR push_bit 7 1"
  by (simp_all add: creator_pxa270_map_io_def Let_def or.assoc del: push_bit_of_1)

lemma init_reset_pin:
  "pins (snd (creator_pxa270_init rv cfg s)) 113 = \<lparr>alt = 2, drives = True, level = level (pins s 113)\<rparr>"
proof -
  have "\<not> bit (rv AND NOT (push_bit 17 1) :: u32) 17" by (simp add: bit_simps del: push_bit_of_1)
  then show ?thesis
    by (simp add: creator_pxa270_init_def Let_def pins_gpio_mode mode_pin_def mode_setting_def mode_fn_of_bits
        pins_write_GPSR del: push_bit_of_1)
qed

lemma fixup_result:
  "banks (fixup_creator_pxa270 c m) 0 = (0xa0000000, 0x4000000)" "nr_banks (fixup_creator_pxa270 c m) = 1"
  "initrd_end (fixup_creator_pxa270 (Some n) m) = initrd_start (fixup_creator_pxa270 (Some n) m) + n"
  "initrd_start (fixup_creator_pxa270 (Some n) m) = 0xc0800000"
  by (simp_all add: fixup_creator_pxa270_def Let_def phys_to_virt_def RAMDISK_DN_ADDR_def split: option.split)

text \<open>
  Starting the machine. \<open>creator_pxa270_map_io\<close> routes the eight pins of the full-function serial line, the four of
  the Bluetooth line and chip select 2, which it drives high, and no other pin; it switches on the clocks of the two lines and enters the
  static mappings after those of the processor. There is one bank of 64 MB, and the initial RAM disk starts
  8 MB into it -- but \<open>CONFIG_BLK_DEV_RAM_SIZE\<close>, a number of kilobytes, is added as bytes. \<open>creator_pxa270_init\<close> is meant to
  reset the audio codec, and hands pin 113 to the AC97 unit with the level it had: whatever \<open>GPSR3\<close> reads as, writing
  a 0 to it drives nothing low.
\<close>

theorem machine_startup:
  "route (creator_pxa270_map_io std s) =
    (route s)(41 := (1, False), 35 := (1, False), 36 := (1, False), 37 := (1, False), 38 := (1, False),
      39 := (2, True), 40 := (2, True), 83 := (3, True),
      42 := (1, False), 43 := (2, True), 44 := (1, False), 45 := (2, True), 78 := (2, True))
   \<and> level (pins (creator_pxa270_map_io std s) 78)
   \<and> iotable (creator_pxa270_map_io std s) = iotable s @ std @ creator_pxa270_io_desc
   \<and> cken (creator_pxa270_map_io std s) = cken s OR push_bit 6 1 OR push_bit 7 1
   \<and> banks (fixup_creator_pxa270 c m) 0 = (0xa0000000, 0x4000000) \<and> nr_banks (fixup_creator_pxa270 c m) = 1
   \<and> initrd_end (fixup_creator_pxa270 (Some n) m) = initrd_start (fixup_creator_pxa270 (Some n) m) + n
   \<and> pins (snd (creator_pxa270_init rv cfg s)) 113 = \<lparr>alt = 2, drives = True, level = level (pins s 113)\<rparr>"
  using route_map_io map_io_level map_io_tables init_reset_pin fixup_result(1-3) by blast

end
