(* ===== verification/FlashMap.thy ===== *)
theory FlashMap
  imports Prelude
begin

text \<open>
  The map driver of the boot flash, \<open>linux/drivers/mtd/maps/creator-pxa270-flash.c\<close>: probe, remove and the
  release of what probe acquired. Every call into the kernel or the MTD core is an \<open>fev\<close> in the log; what they
  answer is the record \<open>flash_env\<close>. Following a null pointer is the outcome \<open>Oops\<close>. The kernel is
  configured with \<open>CONFIG_MTD_PARTITIONS\<close>, as in the board's configuration files.
\<close>

section \<open>Data\<close>

record partition =
  part_name :: string
  offset :: u32
  part_size :: u32
  read_only :: bool

text \<open>\<open>init\<close> is \<open>None\<close> where the platform has no such function, otherwise its result.\<close>

record flash_plat =
  map_name :: string
  width :: u32
  init :: "int option"
  has_exit :: bool
  has_vpp :: bool
  parts :: "partition list"

record erase_region =
  reg_offset :: u32
  erasesize :: u32
  numblocks :: u32

text \<open>The flag of \<open>MapProbe\<close> tells whether a chip was found.\<close>

datatype fev =
    Kmalloc | Kfree                      \<comment> \<open>the driver's record\<close>
  | PlatInit | PlatExit | PlatVpp bool
  | RequestRegion u32 u32 | ReleaseRegion | KfreeRes
  | Ioremap u32 u32 | Iounmap
  | MapProbe string bool | MapDestroy
  | Unlock u32 u32
  | ParseParts | KfreeParts
  | AddDevice | AddPartitions "partition list" | DelDevice | DelPartitions

text \<open>
  \<open>region\<close> answers \<open>request_mem_region\<close>, \<open>remap\<close> \<open>ioremap\<close>; \<open>chip\<close> is the erase regions of what
  \<open>do_map_probe\<close> found, if anything (such a chip can be unlocked); \<open>parsed\<close> are the result and the partitions of \<open>parse_mtd_partitions\<close>.
\<close>

record flash_env =
  kmalloc :: bool
  region :: "u32 \<Rightarrow> u32 \<Rightarrow> bool"
  remap :: "u32 \<Rightarrow> u32 \<Rightarrow> bool"
  chip :: "string \<Rightarrow> erase_region list option"
  parsed :: "int \<times> partition list"

text \<open>The driver's record: which of its pointers are set, and the number of partitions.\<close>

record flash_info =
  plat :: "flash_plat option"
  res :: bool
  own_parts :: bool
  mtd :: bool
  virt :: bool
  nr_parts :: nat

datatype outcome = Ret int "flash_info option" | Oops

section \<open>Operations\<close>

definition creator_pxa270_flash_set_vpp :: "flash_info \<Rightarrow> bool \<Rightarrow> fev list" where
  "creator_pxa270_flash_set_vpp info b =
    (case plat info of None \<Rightarrow> [] | Some p \<Rightarrow> if has_vpp p then [PlatVpp b] else [])"

text \<open>
  \<open>kfree\<close> and \<open>iounmap\<close> accept a null pointer; \<open>release_resource\<close> reads the parent of its argument.
\<close>

definition creator_pxa270_flash_destroy :: "flash_info \<Rightarrow> (fev list) + (fev list)" where
  "creator_pxa270_flash_destroy info =
    (let h1 = (if mtd info then (if nr_parts info = 0 then [DelDevice] else [DelPartitions]) else []);
         h2 = h1 @ (if own_parts info then [KfreeParts] else []);
         h3 = h2 @ (if virt info then [Iounmap] else [])
     in if \<not> res info then Inl h3
        else let h4 = h3 @ [ReleaseRegion, KfreeRes];
                 h5 = h4 @ (case plat info of None \<Rightarrow> [] | Some p \<Rightarrow> if has_exit p then [PlatExit] else [])
             in Inr (h5 @ [Kfree]))"

definition fail :: "int \<Rightarrow> flash_info \<Rightarrow> fev list \<Rightarrow> outcome \<times> fev list" where
  "fail ret info h = (case creator_pxa270_flash_destroy info of
      Inl g \<Rightarrow> (Oops, h @ g) | Inr g \<Rightarrow> (Ret (- ret) None, h @ g))"

definition unlocks :: "erase_region list \<Rightarrow> fev list" where
  "unlocks rs = concat (map (\<lambda>r. map (\<lambda>j. Unlock (reg_offset r + of_nat j * erasesize r) (erasesize r))
     [0..<unat (numblocks r)]) rs)"

definition flash_partitions :: "int \<times> partition list \<Rightarrow> flash_plat \<Rightarrow> bool \<times> partition list" where
  "flash_partitions p pl = (if fst p > 0 then (True, take (nat (fst p)) (snd p)) else (False, parts pl))"

abbreviation (input) ENOMEM :: int where "ENOMEM \<equiv> 12"
abbreviation (input) ENXIO :: int where "ENXIO \<equiv> 6"

text \<open>The second half of the probe, from \<open>do_map_probe\<close> on.\<close>

definition flash_attach :: "flash_env \<Rightarrow> flash_plat \<Rightarrow> flash_info \<Rightarrow> fev list \<Rightarrow> outcome \<times> fev list" where
  "flash_attach env p info h =
    (case chip env (map_name p) of
      None \<Rightarrow> fail ENXIO info (h @ [MapProbe (map_name p) False])
    | Some rs \<Rightarrow>
        (let h1 = h @ [MapProbe (map_name p) True] @ unlocks rs @ [ParseParts];
             (own, ps) = flash_partitions (parsed env) p;
             info1 = info\<lparr>mtd := True, own_parts := own, nr_parts := length ps\<rparr>
         in (Ret 0 (Some info1), h1 @ (if ps = [] then [AddDevice] else [AddPartitions ps]))))"

definition creator_pxa270_flash_probe :: "flash_env \<Rightarrow> flash_plat option \<Rightarrow> u32 \<Rightarrow> u32 \<Rightarrow> outcome \<times> fev list" where
  "creator_pxa270_flash_probe env pl start stop =
    (let phys = start; size = stop - phys + 1 in
     if \<not> kmalloc env then (Ret (- ENOMEM) None, [])
     else let info = \<lparr>plat = pl, res = False, own_parts = False, mtd = False, virt = False, nr_parts = 0\<rparr>;
              r = (case pl of None \<Rightarrow> None | Some p \<Rightarrow> init p);
              h1 = [Kmalloc] @ (if r = None then [] else [PlatInit])
     in if r \<noteq> None \<and> r \<noteq> Some 0 then fail (- the r) info h1
     else if \<not> region env phys size then fail EBUSY info h1
     else let info = info\<lparr>res := True\<rparr>; h2 = h1 @ [RequestRegion phys size]
     in if \<not> remap env phys size then fail ENOMEM info h2
     else let info = info\<lparr>virt := True\<rparr>; h3 = h2 @ [Ioremap phys size]
     in case pl of None \<Rightarrow> (Oops, h3) | Some p \<Rightarrow> flash_attach env p info h3)"

definition creator_pxa270_flash_remove :: "flash_info \<Rightarrow> outcome \<times> fev list" where
  "creator_pxa270_flash_remove info = (case creator_pxa270_flash_destroy info of
      Inl g \<Rightarrow> (Oops, g) | Inr g \<Rightarrow> (Ret 0 None, g))"

section \<open>Books of the driver\<close>

text \<open>What is held after a log, by kind of resource.\<close>

definition count_ev :: "(fev \<Rightarrow> bool) \<Rightarrow> fev list \<Rightarrow> int" where
  "count_ev P h = int (length (filter P h))"

lemma count_ev_simps [simp]:
  "count_ev P [] = 0" "count_ev P (e # h) = (if P e then 1 else 0) + count_ev P h"
  "count_ev P (g @ h) = count_ev P g + count_ev P h"
  by (simp_all add: count_ev_def)

definition held_info :: "fev list \<Rightarrow> int" where
  "held_info h = count_ev (\<lambda>e. e = Kmalloc) h - count_ev (\<lambda>e. e = Kfree) h"

definition held_region :: "fev list \<Rightarrow> int" where
  "held_region h = count_ev (\<lambda>e. case e of RequestRegion _ _ \<Rightarrow> True | _ \<Rightarrow> False) h - count_ev (\<lambda>e. e = ReleaseRegion) h"

definition held_mapping :: "fev list \<Rightarrow> int" where
  "held_mapping h = count_ev (\<lambda>e. case e of Ioremap _ _ \<Rightarrow> True | _ \<Rightarrow> False) h - count_ev (\<lambda>e. e = Iounmap) h"

definition held_devices :: "fev list \<Rightarrow> int" where
  "held_devices h = count_ev (\<lambda>e. case e of AddDevice \<Rightarrow> True | AddPartitions _ \<Rightarrow> True | _ \<Rightarrow> False) h
     - count_ev (\<lambda>e. e = DelDevice \<or> e = DelPartitions) h"

definition held_chip :: "fev list \<Rightarrow> int" where
  "held_chip h = count_ev (\<lambda>e. case e of MapProbe _ b \<Rightarrow> b | _ \<Rightarrow> False) h - count_ev (\<lambda>e. e = MapDestroy) h"

lemmas held_defs = held_info_def held_region_def held_mapping_def held_devices_def held_chip_def

lemma count_unlocks: "(\<And>a b. \<not> P (Unlock a b)) \<Longrightarrow> count_ev P (unlocks rs) = 0"
  by (auto simp: count_ev_def unlocks_def filter_concat filter_empty_conv)

lemma held_unlocks [simp]:
  "held_info (unlocks rs) = 0" "held_region (unlocks rs) = 0" "held_mapping (unlocks rs) = 0"
  "held_devices (unlocks rs) = 0" "held_chip (unlocks rs) = 0"
  by (simp_all add: held_defs count_unlocks)

lemma held_append [simp]:
  "held_info (g @ h) = held_info g + held_info h" "held_region (g @ h) = held_region g + held_region h"
  "held_mapping (g @ h) = held_mapping g + held_mapping h" "held_devices (g @ h) = held_devices g + held_devices h"
  "held_chip (g @ h) = held_chip g + held_chip h"
  by (simp_all add: held_defs)

lemma held_Cons [simp]:
  "held_info (e # h) = (case e of Kmalloc \<Rightarrow> 1 | Kfree \<Rightarrow> - 1 | _ \<Rightarrow> 0) + held_info h"
  "held_region (e # h) = (case e of RequestRegion _ _ \<Rightarrow> 1 | ReleaseRegion \<Rightarrow> - 1 | _ \<Rightarrow> 0) + held_region h"
  "held_mapping (e # h) = (case e of Ioremap _ _ \<Rightarrow> 1 | Iounmap \<Rightarrow> - 1 | _ \<Rightarrow> 0) + held_mapping h"
  "held_devices (e # h) = (case e of AddDevice \<Rightarrow> 1 | AddPartitions _ \<Rightarrow> 1 | DelDevice \<Rightarrow> - 1 | DelPartitions \<Rightarrow> - 1 | _ \<Rightarrow> 0)
     + held_devices h"
  "held_chip (e # h) = (case e of MapProbe _ b \<Rightarrow> if b then 1 else 0 | MapDestroy \<Rightarrow> - 1 | _ \<Rightarrow> 0) + held_chip h"
  by (cases e; simp add: held_defs)+

lemma held_Nil [simp]:
  "held_info [] = 0" "held_region [] = 0" "held_mapping [] = 0" "held_devices [] = 0" "held_chip [] = 0"
  by (simp_all add: held_defs)

definition held_all :: "fev list \<Rightarrow> int \<times> int \<times> int \<times> int \<times> int" where
  "held_all h = (held_info h, held_region h, held_mapping h, held_devices h, held_chip h)"

section \<open>Probe\<close>

text \<open>What decides the course of a probe.\<close>

definition init_fails :: "flash_plat option \<Rightarrow> bool" where
  "init_fails pl = (case pl of None \<Rightarrow> False | Some p \<Rightarrow> init p \<noteq> None \<and> init p \<noteq> Some 0)"

lemma probe_early:
  "\<not> kmalloc env \<Longrightarrow> creator_pxa270_flash_probe env pl a b = (Ret (- 12) None, [])"
  "kmalloc env \<Longrightarrow> init_fails pl \<or> \<not> region env a (b - a + 1) \<Longrightarrow> fst (creator_pxa270_flash_probe env pl a b) = Oops"
  by (auto simp: creator_pxa270_flash_probe_def fail_def creator_pxa270_flash_destroy_def init_fails_def Let_def
      split: option.splits)

lemma probe_late:
  assumes "kmalloc env" "\<not> init_fails (Some p)" "region env a (b - a + 1)"
  shows "fst (creator_pxa270_flash_probe env (Some p) a b) =
      (if \<not> remap env a (b - a + 1) then Ret (- 12) None
       else if chip env (map_name p) = None then Ret (- 6) None
       else Ret 0 (Some \<lparr>plat = Some p, res = True, own_parts = fst (flash_partitions (parsed env) p), mtd = True,
                         virt = True, nr_parts = length (snd (flash_partitions (parsed env) p))\<rparr>))"
    and "held_all (snd (creator_pxa270_flash_probe env (Some p) a b)) =
      (if \<not> remap env a (b - a + 1) then (0, 0, 0, 0, 0)
       else if chip env (map_name p) = None then (0, 0, 0, 0, 0)
       else (1, 1, 1, 1, 1))"
  using assms
  by (auto simp: creator_pxa270_flash_probe_def fail_def creator_pxa270_flash_destroy_def flash_attach_def
      init_fails_def held_all_def Let_def split: option.splits prod.splits)

lemma error_returns_empty:
  assumes "fst (creator_pxa270_flash_probe env (Some p) a b) = Ret r None"
  shows "held_all (snd (creator_pxa270_flash_probe env (Some p) a b)) = (0, 0, 0, 0, 0)"
proof (cases "kmalloc env \<and> \<not> init_fails (Some p) \<and> region env a (b - a + 1)")
  case True
  with assms probe_late [of env p a b] show ?thesis by (simp split: if_splits)
next
  case False
  with assms probe_early [of env "Some p" a b] have "creator_pxa270_flash_probe env (Some p) a b = (Ret (- 12) None, [])"
    by auto
  then show ?thesis by (simp add: held_all_def)
qed

text \<open>
  Every way out of the flash probe. Without memory for its record it returns \<open>-ENOMEM\<close>. If the
  platform's \<open>init\<close> fails, or the memory region is taken, the error path releases a region that was never
  requested and follows a null pointer. After that, a failing \<open>ioremap\<close> gives \<open>-ENOMEM\<close>, a missing chip \<open>-ENXIO\<close>,
  and otherwise the driver is bound. Whenever the probe returns an error, it holds nothing: no record, region, mapping,
  chip or device.
\<close>

theorem flash_probe_outcome:
  "fst (creator_pxa270_flash_probe env (Some p) a b) =
     (if \<not> kmalloc env then Ret (- 12) None
      else if init_fails (Some p) \<or> \<not> region env a (b - a + 1) then Oops
      else if \<not> remap env a (b - a + 1) then Ret (- 12) None
      else if chip env (map_name p) = None then Ret (- 6) None
      else Ret 0 (Some \<lparr>plat = Some p, res = True, own_parts = fst (flash_partitions (parsed env) p), mtd = True,
                        virt = True, nr_parts = length (snd (flash_partitions (parsed env) p))\<rparr>))
   \<and> (fst (creator_pxa270_flash_probe env (Some p) a b) = Ret r None \<longrightarrow>
      held_all (snd (creator_pxa270_flash_probe env (Some p) a b)) = (0, 0, 0, 0, 0))"
  using probe_early [of env "Some p" a b] probe_late(1) [of env p a b] error_returns_empty [of env p a b r]
  by auto

definition flash_plat0 :: flash_plat where
  "flash_plat0 = \<lparr>map_name = ''cfi_probe'', width = 2, init = None, has_exit = False, has_vpp = False, parts = []\<rparr>"

definition flash_env0 :: "erase_region list option \<Rightarrow> flash_env" where
  "flash_env0 c = \<lparr>kmalloc = True, region = (\<lambda>_ _. True), remap = (\<lambda>_ _. True), chip = (\<lambda>_. c), parsed = (0, [])\<rparr>"

theorem flash_probe_outcome_witness:
  "fst (creator_pxa270_flash_probe (flash_env0 None) (Some flash_plat0) 0 0x1ffffff) = Ret (- 6) None
   \<and> held_all (snd (creator_pxa270_flash_probe (flash_env0 None) (Some flash_plat0) 0 0x1ffffff)) = (0, 0, 0, 0, 0)"
  using flash_probe_outcome [of "flash_env0 None" flash_plat0 0 "0x1ffffff" "- 6"]
  by (simp add: flash_env0_def flash_plat0_def init_fails_def)

section \<open>Remove\<close>

lemma probe_bound:
  assumes "creator_pxa270_flash_probe env (Some p) a b = (Ret r (Some info), h)"
  shows "r = 0" "plat info = Some p" "res info" "mtd info" "virt info" "held_all h = (1, 1, 1, 1, 1)"
proof -
  have e: "fst (creator_pxa270_flash_probe env (Some p) a b) = Ret r (Some info)"
    "snd (creator_pxa270_flash_probe env (Some p) a b) = h" using assms by simp_all
  have k: "kmalloc env" using e(1) probe_early(1) [of env "Some p" a b] by (cases "kmalloc env") auto
  with e(1) probe_early(2) [of env "Some p" a b] have g: "\<not> init_fails (Some p)" "region env a (b - a + 1)" by auto
  from probe_late [OF k g] e show "r = 0" "plat info = Some p" "res info" "mtd info" "virt info" "held_all h = (1, 1, 1, 1, 1)"
    by (auto split: if_splits)
qed

lemma remove_bound:
  assumes "plat info = Some p" "res info" "mtd info" "virt info"
  shows "fst (creator_pxa270_flash_remove info) = Ret 0 None"
    "held_all (snd (creator_pxa270_flash_remove info)) = (- 1, - 1, - 1, - 1, 0)"
    "PlatExit \<in> set (snd (creator_pxa270_flash_remove info)) \<longleftrightarrow> has_exit p"
  using assms
  by (auto simp: creator_pxa270_flash_remove_def creator_pxa270_flash_destroy_def held_all_def Let_def)

text \<open>
  Probe and remove. A driver bound by the probe holds one of each resource, and removing it gives back its
  record, region, mapping and devices and calls the platform's \<open>exit\<close> if there is one; only the chip that
  \<open>do_map_probe\<close> returned is not given back, since nothing calls \<open>map_destroy\<close>. Binding and removing
  the driver \<open>n\<close> times leaves \<open>n\<close> of them.
\<close>

theorem flash_probe_remove:
  assumes "creator_pxa270_flash_probe env (Some p) a b = (Ret r (Some info), h)"
  shows "fst (creator_pxa270_flash_remove info) = Ret 0 None
    \<and> held_all h = (1, 1, 1, 1, 1)
    \<and> (PlatExit \<in> set (snd (creator_pxa270_flash_remove info)) \<longleftrightarrow> has_exit p)
    \<and> held_all (concat (replicate n (h @ snd (creator_pxa270_flash_remove info)))) = (0, 0, 0, 0, int n)"
proof -
  note b = probe_bound [OF assms]
  note rm = remove_bound [OF b(2-5)]
  have "held_all (concat (replicate n (h @ snd (creator_pxa270_flash_remove info)))) = (0, 0, 0, 0, int n)"
    using b(6) rm(2) by (induction n) (simp_all add: held_all_def)
  with b rm show ?thesis by simp
qed

theorem flash_probe_remove_witness:
  "\<exists>info h. creator_pxa270_flash_probe (flash_env0 (Some [])) (Some flash_plat0) 0 0x1ffffff = (Ret 0 (Some info), h)
     \<and> held_all (concat (replicate 3 (h @ snd (creator_pxa270_flash_remove info)))) = (0, 0, 0, 0, 3)"
proof -
  obtain info h where e: "creator_pxa270_flash_probe (flash_env0 (Some [])) (Some flash_plat0) 0 0x1ffffff = (Ret 0 (Some info), h)"
    by (auto simp: creator_pxa270_flash_probe_def flash_attach_def flash_env0_def flash_plat0_def flash_partitions_def Let_def)
  show ?thesis
    using flash_probe_remove [OF e, where n = 3] e by auto
qed

section \<open>Unlocking\<close>

text \<open>The addresses unlocked are those of the erase regions, if these lie within 32 bits.\<close>

definition unlocked :: "fev list \<Rightarrow> nat set" where
  "unlocked h = (\<Union>e \<in> set h. case e of Unlock a l \<Rightarrow> {unat a..<unat a + unat l} | _ \<Rightarrow> {})"

lemma blocks_union: "(\<Union>j \<in> {..<n}. {a + j * k..<a + j * k + k}) = {a..<a + n * (k :: nat)}"
  by (induction n) (auto simp: lessThan_Suc)

lemma unlocked_region:
  assumes "unat (reg_offset r) + unat (numblocks r) * unat (erasesize r) < 2 ^ 32"
  shows "unlocked (unlocks [r]) = {unat (reg_offset r)..<unat (reg_offset r) + unat (numblocks r) * unat (erasesize r)}"
proof -
  have a: "unat (reg_offset r + of_nat j * erasesize r) = unat (reg_offset r) + j * unat (erasesize r)"
    if "j < unat (numblocks r)" for j
  proof -
    have "j * unat (erasesize r) \<le> unat (numblocks r) * unat (erasesize r)" using that by simp
    with assms have "unat (reg_offset r) + j * unat (erasesize r) < 2 ^ 32" by linarith
    moreover have "reg_offset r + of_nat j * erasesize r = of_nat (unat (reg_offset r) + j * unat (erasesize r))"
      by simp
    ultimately show ?thesis by (simp only: unat_of_nat) (simp add: take_bit_nat_eq_self)
  qed
  have "unlocked (unlocks [r]) = (\<Union>j \<in> {..<unat (numblocks r)}.
      {unat (reg_offset r) + j * unat (erasesize r)..<unat (reg_offset r) + j * unat (erasesize r) + unat (erasesize r)})"
    by (auto simp: unlocked_def unlocks_def a atLeast0LessThan)
  then show ?thesis by (simp add: blocks_union)
qed

lemma unlocked_Cons: "unlocked (unlocks (r # rs)) = unlocked (unlocks [r]) \<union> unlocked (unlocks rs)"
  by (auto simp: unlocked_def unlocks_def)

lemma unlocked_regions:
  assumes "\<And>r. r \<in> set rs \<Longrightarrow> unat (reg_offset r) + unat (numblocks r) * unat (erasesize r) < 2 ^ 32"
  shows "unlocked (unlocks rs) =
    (\<Union>r \<in> set rs. {unat (reg_offset r)..<unat (reg_offset r) + unat (numblocks r) * unat (erasesize r)})"
  using assms
proof (induction rs)
  case Nil
  then show ?case by (simp add: unlocked_def unlocks_def)
next
  case (Cons r rs)
  then show ?case using unlocked_region [of r] by (simp add: unlocked_Cons [of r rs])
qed

end
