(* ===== verification/I2c.thy ===== *)
theory I2c
  imports Prelude
begin

text \<open>
  The I2C bus as its drivers see it: the messages of a transfer, what an adapter answers (the record
  \<open>adapter\<close>), and the two functions of \<open>linux/drivers/i2c/i2c-core.c\<close> that look for a chip. The bus, the
  allocator and the registration of a client are parameters; each may answer by everything that
  happened before, the list of \<open>event\<close>s, latest last.
\<close>

section \<open>The bus\<close>

datatype i2c_msg = MsgWr u16 "u8 list" | MsgRd u16 nat

datatype event =
    Transfer "i2c_msg list" | Quick int
  | Kzalloc | Kfree
  | AttachClient u16 u16    \<comment> \<open>a call of \<open>i2c_attach_client\<close>: address and control word of the record\<close>
  | DetachClient

text \<open>
  \<open>xfer\<close> is \<open>i2c_transfer\<close>: its result and the bytes a read message received. \<open>addr_used\<close> is
  \<open>i2c_check_addr\<close>, \<open>quick\<close> the result of the \<open>SMBUS_QUICK\<close> transfer and \<open>quick_ok\<close> whether the
  adapter has it; \<open>kzalloc\<close> tells whether there is memory, \<open>client_attach\<close> is the result of
  \<open>i2c_attach_client\<close>.
\<close>

record adapter =
  adap_nr :: int
  quick_ok :: bool
  addr_used :: "int \<Rightarrow> bool"
  quick :: "event list \<Rightarrow> int \<Rightarrow> int"
  xfer :: "event list \<Rightarrow> i2c_msg list \<Rightarrow> int \<times> u8 list"
  kzalloc :: "event list \<Rightarrow> bool"
  client_attach :: "event list \<Rightarrow> int"

abbreviation (input) ENOMEM :: int where "ENOMEM \<equiv> 12"
abbreviation (input) ENODEV :: int where "ENODEV \<equiv> 19"

text \<open>A driver may keep more state than the log: it extends this record.\<close>

record i2c_bus =
  events :: "event list"

definition log_ev :: "event list \<Rightarrow> 'a i2c_bus_scheme \<Rightarrow> 'a i2c_bus_scheme" where
  "log_ev es s = s\<lparr>events := events s @ es\<rparr>"

type_synonym 's found_proc = "int \<Rightarrow> int \<Rightarrow> 's \<Rightarrow> int \<times> 's"

definition on_events :: "(int \<Rightarrow> int \<Rightarrow> event list \<Rightarrow> int \<times> event list) \<Rightarrow> i2c_bus found_proc" where
  "on_events f adr kind s = (let (r, h) = f adr kind (events s) in (r, s\<lparr>events := h\<rparr>))"

section \<open>Looking for the chip\<close>

definition i2c_probe_address :: "adapter \<Rightarrow> int \<Rightarrow> int \<Rightarrow> 'a i2c_bus_scheme found_proc \<Rightarrow> 'a i2c_bus_scheme \<Rightarrow> int \<times> 'a i2c_bus_scheme" where
  "i2c_probe_address a adr kind found s =
    (if adr < 0x03 \<or> adr > 0x77 then (- EINVAL, s)
     else if addr_used a adr then (0, s)
     else if kind < 0 \<and> quick a (events s) adr < 0 then (0, log_ev [Quick adr] s)
     else let s1 = (if kind < 0 then log_ev [Quick adr] s else s);
              s2 = (if kind < 0 \<and> adr div 16 = 5 then log_ev [Quick adr] s1 else s1);
              (err, s3) = found adr kind s2
          in (if err = - ENODEV then 0 else err, s3))"

text \<open>The address lists, each up to its \<open>I2C_CLIENT_END\<close>; pairs are a bus number and an address.\<close>

record address_data =
  normal_i2c :: "u16 list"
  probe_list :: "(u16 \<times> u16) list"
  ignore_list :: "(u16 \<times> u16) list"
  forces :: "(u16 \<times> u16) list list option"

definition ANY_I2C_BUS :: u16 where "ANY_I2C_BUS = 0xffff"

fun probe_pairs :: "adapter \<Rightarrow> 'a i2c_bus_scheme found_proc \<Rightarrow> int \<Rightarrow> (u16 \<times> u16) list \<Rightarrow> 'a i2c_bus_scheme \<Rightarrow> int \<times> 'a i2c_bus_scheme" where
  "probe_pairs a found kind [] s = (0, s)"
| "probe_pairs a found kind ((bus, adr) # ps) s =
    (if uint bus = adap_nr a \<or> bus = ANY_I2C_BUS
     then let (err, s1) = i2c_probe_address a (uint adr) kind found s in
          if err \<noteq> 0 then (err, s1) else probe_pairs a found kind ps s1
     else probe_pairs a found kind ps s)"

fun probe_forces :: "adapter \<Rightarrow> 'a i2c_bus_scheme found_proc \<Rightarrow> int \<Rightarrow> (u16 \<times> u16) list list \<Rightarrow> 'a i2c_bus_scheme \<Rightarrow> int \<times> 'a i2c_bus_scheme" where
  "probe_forces a found kind [] s = (0, s)"
| "probe_forces a found kind (ps # pss) s =
    (let (err, s1) = probe_pairs a found kind ps s in
     if err \<noteq> 0 then (err, s1) else probe_forces a found (kind + 1) pss s1)"

text \<open>
  The normal addresses. The flag \<open>ignore\<close> is set and the inner loop left at the first entry of the
  ignore list, whatever that entry says.
\<close>

fun probe_normal :: "adapter \<Rightarrow> 'a i2c_bus_scheme found_proc \<Rightarrow> (u16 \<times> u16) list \<Rightarrow> u16 list \<Rightarrow> 'a i2c_bus_scheme \<Rightarrow> int \<times> 'a i2c_bus_scheme" where
  "probe_normal a found ign [] s = (0, s)"
| "probe_normal a found ign (adr # adrs) s =
    (if ign \<noteq> [] then probe_normal a found ign adrs s
     else let (err, s1) = i2c_probe_address a (uint adr) (- 1) found s in
          if err \<noteq> 0 then (err, s1) else probe_normal a found ign adrs s1)"

definition i2c_probe :: "adapter \<Rightarrow> address_data \<Rightarrow> 'a i2c_bus_scheme found_proc \<Rightarrow> 'a i2c_bus_scheme \<Rightarrow> int \<times> 'a i2c_bus_scheme" where
  "i2c_probe a d found s =
    (let (err, s1) = (case forces d of None \<Rightarrow> (0, s) | Some pss \<Rightarrow> probe_forces a found 0 pss s) in
     if err \<noteq> 0 then (err, s1)
     else if \<not> quick_ok a
     then (if probe_list d = [] \<and> normal_i2c d = [] then 0 else - 1, s1)
     else let (err, s2) = probe_pairs a found (- 1) (probe_list d) s1 in
          if err \<noteq> 0 then (err, s2)
          else probe_normal a found (ignore_list d) (normal_i2c d) s2)"

section \<open>Books\<close>

text \<open>Records allocated and not freed.\<close>

definition held :: "event list \<Rightarrow> int" where
  "held h = int (length (filter (\<lambda>e. e = Kzalloc) h)) - int (length (filter (\<lambda>e. e = Kfree) h))"

lemma held_simps [simp]:
  "held [] = 0"
  "held (h @ g) = held h + held g"
  "held (e # h) = (if e = Kzalloc then 1 else if e = Kfree then - 1 else 0) + held h"
  by (auto simp: held_def)

text \<open>A probe for one address that may be used: the driver's function decides.\<close>

lemma probe_one_address:
  assumes "3 \<le> uint adr" "uint adr \<le> 0x77" "uint adr div 16 \<noteq> 5" "quick_ok a"
    "\<not> addr_used a (uint adr)" "0 \<le> quick a (events s) (uint adr)"
  shows "i2c_probe a \<lparr>normal_i2c = [adr], probe_list = [], ignore_list = [], forces = None\<rparr> found s =
    (let (r, s') = found (uint adr) (- 1) (log_ev [Quick (uint adr)] s) in (if r = - ENODEV then 0 else r, s'))"
  using assms by (simp add: i2c_probe_def i2c_probe_address_def Let_def split: prod.split)

section \<open>Commands to a chip driver\<close>

text \<open>\<open>struct mem\<close> of \<open>rtc8564.h\<close>.\<close>

record mem =
  loc :: u32
  nr :: u32
  bytes_at :: "(nat \<Rightarrow> u8) option"

text \<open>The command numbers of \<open>rtc8564.h\<close>.\<close>

definition RTC_GETDATETIME :: u32 where "RTC_GETDATETIME = 0"
definition RTC_SETTIME :: u32 where "RTC_SETTIME = 1"
definition RTC_SETDATETIME :: u32 where "RTC_SETDATETIME = 2"
definition RTC_GETCTRL :: u32 where "RTC_GETCTRL = 3"
definition RTC_SETCTRL :: u32 where "RTC_SETCTRL = 4"
definition MEM_READ :: u32 where "MEM_READ = 5"
definition MEM_WRITE :: u32 where "MEM_WRITE = 6"

lemma low_byte: "ucast (v AND 0xff :: u32) = (ucast v :: u8)"
  by (rule bit_word_eqI) (auto simp: bit_simps and_255)

lemma second_byte: "ucast (drop_bit 8 (v AND 0xff00 :: u32)) = (ucast (drop_bit 8 v) :: u8)"
proof (rule bit_word_eqI)
  fix n :: nat
  assume "n < LENGTH(8)"
  then have "n \<in> {0, 1, 2, 3, 4, 5, 6, 7}" by auto
  then show "bit (ucast (drop_bit 8 (v AND 0xff00)) :: u8) n = bit (ucast (drop_bit 8 v) :: u8) n"
    by (auto simp: bit_simps)
qed

lemma ucast_16_32: "ucast (ucast (v :: u32) :: u16) = v AND (0xffff :: u32)"
proof -
  have m: "(0xffff :: u32) = mask 16" by (simp add: mask_eq_exp_minus_1)
  show ?thesis unfolding m by (rule bit_word_eqI) (auto simp: bit_simps)
qed

end
