(* ===== verification/Codec.thy ===== *)
theory Codec
  imports I2c
begin

text \<open>
  The driver of the audio codec, \<open>linux/drivers/i2c/chips/creator-pxa270-tlv320aic12.c\<close>. A pointer that may be \<open>NULL\<close>
  is an option, the memory behind it a function.
\<close>

section \<open>The driver\<close>

definition SLAVE_ADDR :: u16 where "SLAVE_ADDR = 0x80"

definition addr_data :: address_data where
  "addr_data = \<lparr>normal_i2c = [SLAVE_ADDR], probe_list = [], ignore_list = [], forces = None\<rparr>"

text \<open>\<open>struct creator_tlv320aic12_data\<close>: the address of the client and the control word.\<close>

record codec =
  addr :: u16
  ctrl :: u16

definition creator_tlv320aic12_attach :: "adapter \<Rightarrow> int \<Rightarrow> int \<Rightarrow> event list \<Rightarrow> int \<times> event list" where
  "creator_tlv320aic12_attach a adr kind h =
    (if \<not> kzalloc a h then (- ENOMEM, h)
     else let h1 = h @ [Kzalloc]; ad = word_of_int adr;
              wr = [MsgWr ad [0, 0]]; r = fst (xfer a h1 wr); h2 = h1 @ [Transfer wr]
     in if r \<noteq> 1 then (- ENODEV, h2 @ [Kfree])
     else let rd = [MsgWr ad [0], MsgRd ad 2]; (r, bs) = xfer a h2 rd; h3 = h2 @ [Transfer rd]
     in if r \<noteq> 2 then (- ENODEV, h3 @ [Kfree])
     else let byte = (\<lambda>i. if i < length bs then bs ! i else 0);
              c = ucast (byte 0) OR push_bit 8 (ucast (byte 1)) :: u16;
              r = client_attach a h3; h4 = h3 @ [AttachClient ad c]
     in if r \<noteq> 0 then (r, h4 @ [Kfree]) else (0, h4))"

definition creator_tlv320aic12_probe :: "adapter \<Rightarrow> i2c_bus \<Rightarrow> int \<times> i2c_bus" where
  "creator_tlv320aic12_probe a s = i2c_probe a addr_data (on_events (creator_tlv320aic12_attach a)) s"

definition creator_tlv320aic12_detach :: "event list \<Rightarrow> int \<times> event list" where
  "creator_tlv320aic12_detach h = (0, h @ [DetachClient, Kfree])"

text \<open>The bytes a read puts into the caller's buffer are the second component.\<close>

definition creator_tlv320aic12_read ::
  "adapter \<Rightarrow> codec \<Rightarrow> u8 \<Rightarrow> bool \<Rightarrow> u8 \<Rightarrow> event list \<Rightarrow> int \<times> u8 list \<times> event list" where
  "creator_tlv320aic12_read a c adr buf len h =
    (if \<not> buf then (- EINVAL, [], h)
     else let ms = [MsgWr (addr c) [adr], MsgRd (addr c) (unat len)]; (r, bs) = xfer a h ms
          in (if r = 2 then 0 else r, take (unat len) bs, h @ [Transfer ms]))"

definition creator_tlv320aic12_write ::
  "adapter \<Rightarrow> codec \<Rightarrow> u8 \<Rightarrow> (nat \<Rightarrow> u8) option \<Rightarrow> u8 \<Rightarrow> event list \<Rightarrow> int \<times> event list" where
  "creator_tlv320aic12_write a c adr buf len h =
    (case buf of None \<Rightarrow> (- EINVAL, h)
     | Some b \<Rightarrow> if len > 15 then (- EINVAL, h)
         else let ms = [MsgWr (addr c) (adr # map b [0..<unat len])]; r = fst (xfer a h ms)
              in (if r = 1 then 0 else r, h @ [Transfer ms]))"

text \<open>What a command stores through its argument.\<close>

datatype stored = Nothing | StoredInt u32 | StoredBytes "u8 list"

definition creator_tlv320aic12_get_ctrl :: "codec \<Rightarrow> u32 option \<Rightarrow> int \<times> stored" where
  "creator_tlv320aic12_get_ctrl c p =
    (case p of None \<Rightarrow> (- 1, Nothing) | Some _ \<Rightarrow> (0, StoredInt (ucast (ctrl c))))"

definition creator_tlv320aic12_set_ctrl ::
  "adapter \<Rightarrow> codec \<Rightarrow> u32 option \<Rightarrow> event list \<Rightarrow> int \<times> codec \<times> event list" where
  "creator_tlv320aic12_set_ctrl a c p h =
    (case p of None \<Rightarrow> (- 1, c, h)
     | Some v \<Rightarrow>
        (let buf = (\<lambda>i::nat. if i = 0 then ucast (v AND 0xff) else ucast (drop_bit 8 (v AND 0xff00)));
             c1 = c\<lparr>ctrl := ucast v\<rparr>;
             (r, h1) = creator_tlv320aic12_write a c1 0 (Some buf) 2 h
         in (r, c1, h1)))"

definition creator_tlv320aic12_read_mem ::
  "adapter \<Rightarrow> codec \<Rightarrow> mem option \<Rightarrow> event list \<Rightarrow> int \<times> u8 list \<times> event list" where
  "creator_tlv320aic12_read_mem a c p h =
    (case p of None \<Rightarrow> (- EINVAL, [], h)
     | Some m \<Rightarrow> creator_tlv320aic12_read a c (ucast (loc m)) (bytes_at m \<noteq> None) (ucast (nr m)) h)"

definition creator_tlv320aic12_write_mem ::
  "adapter \<Rightarrow> codec \<Rightarrow> mem option \<Rightarrow> event list \<Rightarrow> int \<times> event list" where
  "creator_tlv320aic12_write_mem a c p h =
    (case p of None \<Rightarrow> (- EINVAL, h)
     | Some m \<Rightarrow> creator_tlv320aic12_write a c (ucast (loc m)) (bytes_at m) (ucast (nr m)) h)"

text \<open>
  The argument of a command points to an integer or to a \<open>struct mem\<close>. Nothing is known of a command
  given the other one: the result is \<open>None\<close>.
\<close>

datatype cmd_arg = NullArg | IntArg u32 | MemArg mem

definition int_arg :: "cmd_arg \<Rightarrow> u32 option option" where
  "int_arg g = (case g of NullArg \<Rightarrow> Some None | IntArg v \<Rightarrow> Some (Some v) | MemArg _ \<Rightarrow> None)"

definition mem_arg :: "cmd_arg \<Rightarrow> mem option option" where
  "mem_arg g = (case g of NullArg \<Rightarrow> Some None | IntArg _ \<Rightarrow> None | MemArg m \<Rightarrow> Some (Some m))"

definition creator_tlv320aic12_command ::
  "adapter \<Rightarrow> codec \<Rightarrow> u32 \<Rightarrow> cmd_arg \<Rightarrow> event list \<Rightarrow> (int \<times> codec \<times> stored \<times> event list) option" where
  "creator_tlv320aic12_command a c cmd arg h =
    (if cmd = RTC_GETCTRL
     then map_option (\<lambda>p. let (r, st) = creator_tlv320aic12_get_ctrl c p in (r, c, st, h)) (int_arg arg)
     else if cmd = RTC_SETCTRL
     then map_option (\<lambda>p. let (r, c1, h1) = creator_tlv320aic12_set_ctrl a c p h in (r, c1, Nothing, h1)) (int_arg arg)
     else if cmd = MEM_READ
     then map_option (\<lambda>p. let (r, bs, h1) = creator_tlv320aic12_read_mem a c p h in (r, c, StoredBytes bs, h1)) (mem_arg arg)
     else if cmd = MEM_WRITE
     then map_option (\<lambda>p. let (r, h1) = creator_tlv320aic12_write_mem a c p h in (r, c, Nothing, h1)) (mem_arg arg)
     else Some (- EINVAL, c, Nothing, h))"

section \<open>Probing\<close>

lemma probe_codec: "creator_tlv320aic12_probe a s = (if quick_ok a then - EINVAL else - 1, s)"
  by (simp add: creator_tlv320aic12_probe_def i2c_probe_def addr_data_def i2c_probe_address_def SLAVE_ADDR_def)

text \<open>
  The codec driver never binds to its chip. \<open>SLAVE_ADDR\<close> is 0x80, the 8-bit form of the chip's
  address, and \<open>i2c_probe_address\<close> refuses everything above 0x77: on an adapter with the quick command
  the probe returns \<open>-EINVAL\<close> with nothing sent and nothing attached, on any other \<open>-1\<close>, whatever hangs on the
  bus. With a valid 7-bit address (outside 0x50 to 0x5f) that answers and is not in use, the same probe runs the attach
  function on it, and a chip it does not know is no error.
\<close>

theorem codec_never_attaches:
  "creator_tlv320aic12_probe a s = (if quick_ok a then - EINVAL else - 1, s)
   \<and> (3 \<le> uint adr \<and> uint adr \<le> 0x77 \<and> uint adr div 16 \<noteq> 5 \<and> quick_ok a
        \<and> \<not> addr_used a (uint adr) \<and> 0 \<le> quick a (events s) (uint adr) \<longrightarrow>
      i2c_probe a (addr_data\<lparr>normal_i2c := [adr]\<rparr>) (on_events (creator_tlv320aic12_attach a)) s =
        (let (r, s') = on_events (creator_tlv320aic12_attach a) (uint adr) (- 1) (log_ev [Quick (uint adr)] s)
         in (if r = - ENODEV then 0 else r, s')))"
  by (simp add: probe_codec probe_one_address addr_data_def)

text \<open>An adapter with a chip at address 0x40 that answers everything, with 0x12 and 0x34 to a read.\<close>

definition chip_at_40 :: adapter where
  "chip_at_40 = \<lparr>adap_nr = 0, quick_ok = True, addr_used = (\<lambda>_. False), quick = (\<lambda>_ adr. if adr = 0x40 then 0 else - 1),
     xfer = (\<lambda>_ ms. (int (length ms), [0x12, 0x34])), kzalloc = (\<lambda>_. True), client_attach = (\<lambda>_. 0)\<rparr>"

lemma attach_chip_at_40:
  "creator_tlv320aic12_attach chip_at_40 0x40 k h =
    (0, h @ [Kzalloc, Transfer [MsgWr 0x40 [0, 0]], Transfer [MsgWr 0x40 [0], MsgRd 0x40 2], AttachClient 0x40 0x3412])"
  by (simp add: creator_tlv320aic12_attach_def chip_at_40_def Let_def push_bit_eq_mult)

theorem codec_never_attaches_witness:
  "creator_tlv320aic12_probe chip_at_40 \<lparr>events = []\<rparr> = (- 22, \<lparr>events = []\<rparr>)
   \<and> i2c_probe chip_at_40 (addr_data\<lparr>normal_i2c := [0x40]\<rparr>) (on_events (creator_tlv320aic12_attach chip_at_40)) \<lparr>events = []\<rparr> =
      (0, \<lparr>events = [Quick 0x40, Kzalloc, Transfer [MsgWr 0x40 [0, 0]], Transfer [MsgWr 0x40 [0], MsgRd 0x40 2], AttachClient 0x40 0x3412]\<rparr>)"
  using codec_never_attaches [of chip_at_40 "\<lparr>events = []\<rparr>" "0x40"] attach_chip_at_40
  by (simp add: chip_at_40_def on_events_def log_ev_def)

section \<open>Attaching\<close>

lemma attach_held:
  "held (snd (creator_tlv320aic12_attach a adr kind h)) =
   held h + (if fst (creator_tlv320aic12_attach a adr kind h) = 0 then 1 else 0)"
  by (simp add: creator_tlv320aic12_attach_def Let_def split: prod.split)

lemma attach_success:
  assumes "fst (creator_tlv320aic12_attach a adr kind h) = 0"
  shows "\<exists>c. last (snd (creator_tlv320aic12_attach a adr kind h)) = AttachClient (word_of_int adr) c"
  using assms
  by (auto simp: creator_tlv320aic12_attach_def Let_def split: prod.splits if_splits)

text \<open>
  Attaching keeps the books. Whatever the allocator, the bus and the i2c core answer,
  \<open>creator_tlv320aic12_attach\<close> holds one record more after it if and only if it returned 0, and then
  the last thing it did was to register that record, under the address it was given; every error path frees
  what was allocated. Detaching gives the record back.
\<close>

theorem attach_keeps_books:
  "held (snd (creator_tlv320aic12_attach a adr kind h)) =
     held h + (if fst (creator_tlv320aic12_attach a adr kind h) = 0 then 1 else 0)
   \<and> (fst (creator_tlv320aic12_attach a adr kind h) = 0 \<longrightarrow>
      (\<exists>c. last (snd (creator_tlv320aic12_attach a adr kind h)) = AttachClient (word_of_int adr) c)
      \<and> held (snd (creator_tlv320aic12_detach (snd (creator_tlv320aic12_attach a adr kind h)))) = held h)"
  using attach_held [of a adr kind h] attach_success [of a adr kind h]
  by (auto simp: creator_tlv320aic12_detach_def)

theorem attach_keeps_books_witness:
  "held (snd (creator_tlv320aic12_attach chip_at_40 0x40 0 [])) = 1
   \<and> held (snd (creator_tlv320aic12_detach (snd (creator_tlv320aic12_attach chip_at_40 0x40 0 [])))) = 0"
  using attach_keeps_books [of chip_at_40 "0x40" 0 "[]"] by (simp add: attach_chip_at_40)

section \<open>Commands\<close>

lemma set_ctrl_get_ctrl:
  "\<exists>r. creator_tlv320aic12_command a c RTC_SETCTRL (IntArg v) h =
     Some (r, c\<lparr>ctrl := ucast v\<rparr>, Nothing, h @ [Transfer [MsgWr (addr c) [0, ucast v, ucast (drop_bit 8 v)]]])"
  by (simp add: creator_tlv320aic12_command_def RTC_GETCTRL_def RTC_SETCTRL_def int_arg_def
      creator_tlv320aic12_set_ctrl_def creator_tlv320aic12_write_def Let_def low_byte second_byte
      upt_conv_Cons split: prod.split)

lemma get_ctrl_command:
  "creator_tlv320aic12_command a c RTC_GETCTRL (IntArg w) h = Some (0, c, StoredInt (ucast (ctrl c)), h)"
  by (simp add: creator_tlv320aic12_command_def int_arg_def creator_tlv320aic12_get_ctrl_def)

lemma mem_write_command:
  "creator_tlv320aic12_command a c MEM_WRITE (MemArg \<lparr>loc = l, nr = n, bytes_at = Some b\<rparr>) h =
    (let k = unat n mod 256; ms = [MsgWr (addr c) (ucast l # map b [0..<k])]
     in if k > 15 then Some (- EINVAL, c, Nothing, h)
        else Some (if fst (xfer a h ms) = 1 then 0 else fst (xfer a h ms), c, Nothing, h @ [Transfer ms]))"
proof -
  have k: "unat (ucast n :: u8) = unat n mod 256"
    by (simp add: unsigned_ucast_eq take_bit_eq_mod)
  have le: "(ucast n :: u8) > 15 \<longleftrightarrow> unat n mod 256 > 15"
    by (simp add: word_less_nat_alt k)
  show ?thesis
    by (simp add: creator_tlv320aic12_command_def MEM_WRITE_def MEM_READ_def RTC_GETCTRL_def RTC_SETCTRL_def
        mem_arg_def creator_tlv320aic12_write_mem_def creator_tlv320aic12_write_def Let_def k le)
qed

text \<open>
  The control word and the memory commands. \<open>RTC_SETCTRL\<close> sends register 0 and the two low
  bytes, low first, and \<open>RTC_GETCTRL\<close> afterwards returns the low 16 bits of the value set, whether or
  not the bus accepted it. \<open>MEM_WRITE\<close> cuts the caller's count to 8 bits before it is checked: it is
  refused exactly if the count modulo 256 exceeds 15, otherwise that many bytes follow the register
  number on the bus; a request for 257 bytes is answered like one for a single byte.
\<close>

theorem codec_commands:
  "(\<exists>r c' h'. creator_tlv320aic12_command a c RTC_SETCTRL (IntArg v) h = Some (r, c', Nothing, h')
      \<and> h' = h @ [Transfer [MsgWr (addr c) [0, ucast v, ucast (drop_bit 8 v)]]]
      \<and> creator_tlv320aic12_command a c' RTC_GETCTRL (IntArg w) h' = Some (0, c', StoredInt (v AND 0xffff), h'))
   \<and> creator_tlv320aic12_command a c MEM_WRITE (MemArg \<lparr>loc = l, nr = n, bytes_at = Some b\<rparr>) h =
      (let k = unat n mod 256; ms = [MsgWr (addr c) (ucast l # map b [0..<k])]
       in if k > 15 then Some (- EINVAL, c, Nothing, h)
          else Some (if fst (xfer a h ms) = 1 then 0 else fst (xfer a h ms), c, Nothing, h @ [Transfer ms]))"
proof -
  obtain r where "creator_tlv320aic12_command a c RTC_SETCTRL (IntArg v) h =
      Some (r, c\<lparr>ctrl := ucast v\<rparr>, Nothing, h @ [Transfer [MsgWr (addr c) [0, ucast v, ucast (drop_bit 8 v)]]])"
    using set_ctrl_get_ctrl by blast
  then show ?thesis by (simp add: get_ctrl_command ucast_16_32 mem_write_command)
qed

end
