(* ===== verification/Rtc.thy ===== *)
theory Rtc
  imports Codec Board "HOL-Library.Signed_Division"
begin

text \<open>
  The clock chip, \<open>linux/drivers/i2c/chips/rtc8564.c\<close>: the I2C driver, its BCD registers and the ioctl of
  \<open>/dev/rtc\<close>. The codec driver was made from it, and the record behind a client is the same (\<open>codec\<close> of
  \<open>Codec\<close>). The state extends the bus by the global pointer \<open>rtc8564_i2c_client\<close> and whether the record it points
  to has been freed. The C operators \<open>/\<close> and \<open>%\<close> truncate towards zero (\<open>sdiv\<close>, \<open>smod\<close>).
\<close>

section \<open>Registers\<close>

definition BCD_TO_BIN :: "int \<Rightarrow> int" where
  "BCD_TO_BIN v = (v AND 15) + drop_bit 4 v * 10"

definition BIN_TO_BCD :: "int \<Rightarrow> int" where
  "BIN_TO_BCD v = push_bit 4 (v sdiv 10) + v smod 10"

definition rtc8564_ctrl1 :: "codec \<Rightarrow> u8" where "rtc8564_ctrl1 c = ucast (ctrl c AND 0xff)"

definition rtc8564_ctrl2 :: "codec \<Rightarrow> u8" where "rtc8564_ctrl2 c = ucast (drop_bit 8 (ctrl c AND 0xff00))"

definition RTC8564_CTRL1_STOP :: u8 where "RTC8564_CTRL1_STOP = push_bit 5 1"

record rtc_time =
  tm_sec :: int
  tm_min :: int
  tm_hour :: int
  tm_mday :: int
  tm_mon :: int
  tm_year :: int
  tm_wday :: int
  tm_yday :: int
  tm_isdst :: int

section \<open>The I2C driver\<close>

definition rtc8564_addr_data :: address_data where
  "rtc8564_addr_data = \<lparr>normal_i2c = [0x51], probe_list = [], ignore_list = [], forces = None\<rparr>"

definition rtc8564_read ::
  "adapter \<Rightarrow> codec \<Rightarrow> u8 \<Rightarrow> bool \<Rightarrow> u8 \<Rightarrow> event list \<Rightarrow> int \<times> u8 list \<times> event list" where
  "rtc8564_read a c adr buf len h =
    (if \<not> buf then (- EINVAL, [], h)
     else let ms = [MsgWr (addr c) [adr], MsgRd (addr c) (unat len)]; (r, bs) = xfer a h ms
          in (if r = 2 then 0 else r, take (unat len) bs, h @ [Transfer ms]))"

definition rtc8564_write ::
  "adapter \<Rightarrow> codec \<Rightarrow> u8 \<Rightarrow> (nat \<Rightarrow> u8) option \<Rightarrow> u8 \<Rightarrow> event list \<Rightarrow> int \<times> event list" where
  "rtc8564_write a c adr buf len h =
    (case buf of None \<Rightarrow> (- EINVAL, h)
     | Some b \<Rightarrow> if len > 15 then (- EINVAL, h)
         else let ms = [MsgWr (addr c) (adr # map b [0..<unat len])]; r = fst (xfer a h ms)
              in (if r = 1 then 0 else r, h @ [Transfer ms]))"

text \<open>The global pointer, and whether what it points to was freed.\<close>

record rtc_dev = i2c_bus +
  rtc_client :: "codec option"
  client_freed :: bool

text \<open>
  The pointer is set before the client is registered, and stays set when that fails.
\<close>

definition rtc8564_attach :: "adapter \<Rightarrow> rtc_dev found_proc" where
  "rtc8564_attach a adr kind s =
    (if \<not> kzalloc a (events s) then (- ENOMEM, s)
     else let s1 = log_ev [Kzalloc] s; ad = word_of_int adr;
              wr = [MsgWr ad [0, 0]]; r = fst (xfer a (events s1) wr); s2 = log_ev [Transfer wr] s1
     in if r \<noteq> 1 then (- ENODEV, log_ev [Kfree] s2)
     else let rd = [MsgWr ad [0], MsgRd ad 2]; (r, bs) = xfer a (events s2) rd; s3 = log_ev [Transfer rd] s2
     in if r \<noteq> 2 then (- ENODEV, log_ev [Kfree] s3)
     else let byte = (\<lambda>i. if i < length bs then bs ! i else 0);
              c = ucast (byte 0) OR push_bit 8 (ucast (byte 1)) :: u16;
              s4 = s3\<lparr>rtc_client := Some \<lparr>addr = ad, ctrl = c\<rparr>, client_freed := False\<rparr>;
              r = client_attach a (events s4); s5 = log_ev [AttachClient ad c] s4
     in if r \<noteq> 0 then (r, log_ev [Kfree] (s5\<lparr>client_freed := True\<rparr>)) else (0, s5))"

definition rtc8564_probe :: "adapter \<Rightarrow> rtc_dev \<Rightarrow> int \<times> rtc_dev" where
  "rtc8564_probe a s = i2c_probe a rtc8564_addr_data (rtc8564_attach a) s"

text \<open>Detaching the client the pointer refers to.\<close>

definition rtc8564_detach :: "rtc_dev \<Rightarrow> int \<times> rtc_dev" where
  "rtc8564_detach s = (0, log_ev [DetachClient, Kfree] (s\<lparr>client_freed := True\<rparr>))"

definition rtc_of_regs :: "(nat \<Rightarrow> u8) \<Rightarrow> rtc_time \<Rightarrow> rtc_time" where
  "rtc_of_regs buf t =
    (let b = (\<lambda>i. uint (buf i)) in
     t\<lparr>tm_year := BCD_TO_BIN (b 8) + 100 * BCD_TO_BIN (b 9 AND 0x3f),
       tm_mday := BCD_TO_BIN (b 5 AND 0x3f),
       tm_wday := BCD_TO_BIN (b 6 AND 7),
       tm_mon := BCD_TO_BIN (b 7 AND 0x1f) - 1,
       tm_sec := BCD_TO_BIN (b 2 AND 0x7f),
       tm_isdst := (if b 2 AND 0x80 = 0x80 then 1 else 0),
       tm_min := BCD_TO_BIN (b 3 AND 0x7f),
       tm_hour := BCD_TO_BIN (b 4 AND 0x3f)\<rparr>)"

definition rtc8564_get_datetime ::
  "adapter \<Rightarrow> codec \<Rightarrow> rtc_time \<Rightarrow> event list \<Rightarrow> int \<times> rtc_time \<times> event list" where
  "rtc8564_get_datetime a c t h =
    (let (r, bs, h1) = rtc8564_read a c 0 True 15 h in
     if r \<noteq> 0 then (r, t, h1)
     else (0, rtc_of_regs (\<lambda>i. if i < length bs then bs ! i else 0) t, h1))"

definition regs_of_rtc :: "codec \<Rightarrow> rtc_time \<Rightarrow> bool \<Rightarrow> u8 list" where
  "regs_of_rtc c t datetoo =
    (let b = (\<lambda>v. word_of_int v :: u8) in
     [rtc8564_ctrl1 c OR RTC8564_CTRL1_STOP, rtc8564_ctrl2 c,
      b (BIN_TO_BCD (tm_sec t)), b (BIN_TO_BCD (tm_min t)), b (BIN_TO_BCD (tm_hour t))] @
     (if datetoo
      then [b (BIN_TO_BCD (tm_mday t)), b (BIN_TO_BCD (tm_wday t)), b (BIN_TO_BCD (tm_mon t + 1) AND 0x1f),
            b (BIN_TO_BCD (tm_year t smod 100)), b (BIN_TO_BCD (tm_year t sdiv 100))]
      else []))"

text \<open>The result of the first write is overwritten by that of the second.\<close>

definition rtc8564_set_datetime ::
  "adapter \<Rightarrow> codec \<Rightarrow> rtc_time \<Rightarrow> bool \<Rightarrow> event list \<Rightarrow> int \<times> event list" where
  "rtc8564_set_datetime a c t datetoo h =
    (let buf = regs_of_rtc c t datetoo;
         (r1, h1) = rtc8564_write a c 0 (Some (\<lambda>i. buf ! i)) (if datetoo then 10 else 5) h;
         buf1 = buf[0 := rtc8564_ctrl1 c]
     in rtc8564_write a c 0 (Some (\<lambda>i. buf1 ! i)) 1 h1)"

definition rtc8564_get_ctrl :: "codec \<Rightarrow> u32 option \<Rightarrow> int \<times> stored" where
  "rtc8564_get_ctrl c p = (case p of None \<Rightarrow> (- 1, Nothing) | Some _ \<Rightarrow> (0, StoredInt (ucast (ctrl c))))"

definition rtc8564_set_ctrl :: "adapter \<Rightarrow> codec \<Rightarrow> u32 option \<Rightarrow> event list \<Rightarrow> int \<times> codec \<times> event list" where
  "rtc8564_set_ctrl a c p h =
    (case p of None \<Rightarrow> (- 1, c, h)
     | Some v \<Rightarrow>
        (let buf = (\<lambda>i::nat. if i = 0 then ucast (v AND 0xff) else ucast (drop_bit 8 (v AND 0xff00)));
             c1 = c\<lparr>ctrl := ucast v\<rparr>;
             (r, h1) = rtc8564_write a c1 0 (Some buf) 2 h
         in (r, c1, h1)))"

definition rtc8564_read_mem :: "adapter \<Rightarrow> codec \<Rightarrow> mem option \<Rightarrow> event list \<Rightarrow> int \<times> u8 list \<times> event list" where
  "rtc8564_read_mem a c p h =
    (case p of None \<Rightarrow> (- EINVAL, [], h)
     | Some m \<Rightarrow> rtc8564_read a c (ucast (loc m)) (bytes_at m \<noteq> None) (ucast (nr m)) h)"

definition rtc8564_write_mem :: "adapter \<Rightarrow> codec \<Rightarrow> mem option \<Rightarrow> event list \<Rightarrow> int \<times> event list" where
  "rtc8564_write_mem a c p h =
    (case p of None \<Rightarrow> (- EINVAL, h)
     | Some m \<Rightarrow> rtc8564_write a c (ucast (loc m)) (bytes_at m) (ucast (nr m)) h)"

text \<open>The argument of a command; as in \<open>Codec\<close> nothing is known of a command given the wrong kind.\<close>

datatype rtc_arg = TimeArg "rtc_time option" | CodecArg cmd_arg

definition rtc_int_arg :: "rtc_arg \<Rightarrow> u32 option option" where
  "rtc_int_arg g = (case g of TimeArg _ \<Rightarrow> None | CodecArg x \<Rightarrow> int_arg x)"

definition rtc_mem_arg :: "rtc_arg \<Rightarrow> mem option option" where
  "rtc_mem_arg g = (case g of TimeArg _ \<Rightarrow> None | CodecArg x \<Rightarrow> mem_arg x)"

definition rtc_time_arg :: "rtc_arg \<Rightarrow> rtc_time option option" where
  "rtc_time_arg g = (case g of TimeArg t \<Rightarrow> Some t | CodecArg _ \<Rightarrow> None)"

datatype rtc_stored = RtcStored stored | RtcTime rtc_time

definition rtc8564_command ::
  "adapter \<Rightarrow> codec \<Rightarrow> u32 \<Rightarrow> rtc_arg \<Rightarrow> event list \<Rightarrow> (int \<times> codec \<times> rtc_stored \<times> event list) option" where
  "rtc8564_command a c cmd g h =
    (if cmd = RTC_GETDATETIME
     then map_option (\<lambda>p. case p of None \<Rightarrow> (- EINVAL, c, RtcStored Nothing, h)
        | Some t \<Rightarrow> let (r, t1, h1) = rtc8564_get_datetime a c t h in (r, c, RtcTime t1, h1)) (rtc_time_arg g)
     else if cmd = RTC_SETTIME \<or> cmd = RTC_SETDATETIME
     then map_option (\<lambda>p. case p of None \<Rightarrow> (- EINVAL, c, RtcStored Nothing, h)
        | Some t \<Rightarrow> let (r, h1) = rtc8564_set_datetime a c t (cmd = RTC_SETDATETIME) h in (r, c, RtcStored Nothing, h1))
        (rtc_time_arg g)
     else if cmd = RTC_GETCTRL
     then map_option (\<lambda>p. let (r, st) = rtc8564_get_ctrl c p in (r, c, RtcStored st, h)) (rtc_int_arg g)
     else if cmd = RTC_SETCTRL
     then map_option (\<lambda>p. let (r, c1, h1) = rtc8564_set_ctrl a c p h in (r, c1, RtcStored Nothing, h1)) (rtc_int_arg g)
     else if cmd = MEM_READ
     then map_option (\<lambda>p. let (r, bs, h1) = rtc8564_read_mem a c p h in (r, c, RtcStored (StoredBytes bs), h1)) (rtc_mem_arg g)
     else if cmd = MEM_WRITE
     then map_option (\<lambda>p. let (r, h1) = rtc8564_write_mem a c p h in (r, c, RtcStored Nothing, h1)) (rtc_mem_arg g)
     else Some (- EINVAL, c, RtcStored Nothing, h))"

section \<open>The character device\<close>

text \<open>
  A request to \<open>/dev/rtc\<close>: read the time, set it (\<open>None\<close>: the user's pointer faults), or any other.
  \<open>copies\<close> tells whether \<open>copy_to_user\<close> succeeds, \<open>capable\<close> whether the caller may set the time, and \<open>stack\<close> is what
  the uninitialised variable \<open>wtime\<close> holds.
\<close>

datatype rtc_request = RTC_RD_TIME | RTC_SET_TIME "rtc_time option" | OtherRequest

datatype rtc_answer =
    Answer int "rtc_time option"    \<comment> \<open>the status and what the user received\<close>
  | NullPointer | UseAfterFree

abbreviation (input) EACCES :: int where "EACCES \<equiv> 13"

definition epson8564_rtc_ioctl ::
  "adapter \<Rightarrow> bool \<Rightarrow> bool \<Rightarrow> rtc_time \<Rightarrow> rtc_request \<Rightarrow> rtc_dev \<Rightarrow> rtc_answer \<times> rtc_dev" where
  "epson8564_rtc_ioctl a copies capable stack req s =
    (let access = (\<lambda>f. case rtc_client s of None \<Rightarrow> (NullPointer, s)
                     | Some c \<Rightarrow> if client_freed s then (UseAfterFree, s) else f c)
     in case req of
       OtherRequest \<Rightarrow> (Answer (- EINVAL) None, s)
     | RTC_RD_TIME \<Rightarrow> access (\<lambda>c.
         let (r, t, h) = rtc8564_get_datetime a c stack (events s)
         in (if copies then Answer 0 (Some t) else Answer (- EFAULT) None, s\<lparr>events := h\<rparr>))
     | RTC_SET_TIME u \<Rightarrow>
         (if \<not> capable then (Answer (- EACCES) None, s)
          else case u of None \<Rightarrow> (Answer (- EFAULT) None, s)
          | Some t \<Rightarrow> access (\<lambda>c.
              let (r, h) = rtc8564_set_datetime a c t True (events s)
              in (Answer 0 None, s\<lparr>events := h\<rparr>))))"

text \<open>
  Module load: refused without the board; the device is registered whenever the driver is, chip or not. \<open>add\<close> is the
  result of \<open>i2c_add_driver\<close>; the flag of the result tells whether \<open>/dev/rtc\<close> exists.
\<close>

definition rtc8564_init :: "device \<Rightarrow> int \<Rightarrow> board \<Rightarrow> int \<times> bool \<times> board" where
  "rtc8564_init hw add b =
    (let (v, b1) = creator_GetCreatorCPLDVersion hw b in
     if v = CREATOR_BOARD_NOT_EXIST then (- 1, False, b1) else (add, add = 0, b1))"

section \<open>BCD\<close>

lemma and_mask_mod:
  "(v :: int) AND 15 = v mod 16" "v AND 0x3f = v mod 64" "v AND 7 = v mod 8" "v AND 0x1f = v mod 32" "v AND 0x7f = v mod 128"
proof -
  have m: "(15 :: int) = mask 4" "(0x3f :: int) = mask 6" "(7 :: int) = mask 3" "(0x1f :: int) = mask 5" "(0x7f :: int) = mask 7"
    by (simp_all add: mask_eq_exp_minus_1)
  show "v AND 15 = v mod 16" "v AND 0x3f = v mod 64" "v AND 7 = v mod 8" "v AND 0x1f = v mod 32" "v AND 0x7f = v mod 128"
    unfolding m by (simp_all flip: take_bit_eq_mask add: take_bit_eq_mod)
qed

lemma BCD_TO_BIN_mod: "BCD_TO_BIN v = v mod 16 + v div 16 * 10"
  by (simp add: BCD_TO_BIN_def and_mask_mod drop_bit_eq_div)

lemma sdiv_smod_pos: "0 \<le> (v :: int) \<Longrightarrow> 0 < d \<Longrightarrow> v sdiv d = v div d \<and> v smod d = v mod d"
  by (simp add: signed_divide_int_def signed_modulo_int_def sgn_if)

lemma BIN_TO_BCD_pos: "0 \<le> v \<Longrightarrow> BIN_TO_BCD v = v div 10 * 16 + v mod 10"
  by (simp add: BIN_TO_BCD_def sdiv_smod_pos push_bit_eq_mult)

text \<open>A register keeps two decimal digits, under any mask wide enough for them.\<close>

lemma bcd_roundtrip:
  assumes "0 \<le> v" "v < 100"
  shows "BCD_TO_BIN (uint (word_of_int (BIN_TO_BCD v) :: u8)) = v"
    "v < 40 \<Longrightarrow> BCD_TO_BIN (uint (word_of_int (BIN_TO_BCD v) :: u8) AND 0x3f) = v"
    "v < 80 \<Longrightarrow> BCD_TO_BIN (uint (word_of_int (BIN_TO_BCD v) :: u8) AND 0x7f) = v"
    "v < 8 \<Longrightarrow> BCD_TO_BIN (uint (word_of_int (BIN_TO_BCD v) :: u8) AND 7) = v"
    "v < 80 \<Longrightarrow> uint (word_of_int (BIN_TO_BCD v) :: u8) AND 0x80 = 0"
proof -
  have d: "v div 10 < 10" "0 \<le> v div 10" "0 \<le> v mod 10" "v mod 10 < 10" using assms by simp_all
  have b: "BIN_TO_BCD v = v div 10 * 16 + v mod 10" by (rule BIN_TO_BCD_pos [OF assms(1)])
  have w: "uint (word_of_int (BIN_TO_BCD v) :: u8) = v div 10 * 16 + v mod 10"
  proof -
    have "v div 10 * 16 + v mod 10 < 256" using d by linarith
    then show ?thesis using d by (simp only: b uint_word_of_int) (simp add: take_bit_int_eq_self)
  qed
  show "BCD_TO_BIN (uint (word_of_int (BIN_TO_BCD v) :: u8)) = v"
    using d unfolding w BCD_TO_BIN_mod by simp
  show "BCD_TO_BIN (uint (word_of_int (BIN_TO_BCD v) :: u8) AND 0x3f) = v" if "v < 40"
  proof -
    have "v div 10 < 4" using that by simp
    then show ?thesis using d unfolding w BCD_TO_BIN_mod and_mask_mod by simp
  qed
  show "BCD_TO_BIN (uint (word_of_int (BIN_TO_BCD v) :: u8) AND 0x7f) = v" if "v < 80"
  proof -
    have "v div 10 < 8" using that by simp
    then show ?thesis using d unfolding w BCD_TO_BIN_mod and_mask_mod by simp
  qed
  show "BCD_TO_BIN (uint (word_of_int (BIN_TO_BCD v) :: u8) AND 7) = v" if "v < 8"
  proof -
    have "v div 10 = 0" "v mod 10 = v" using that assms by simp_all
    then show ?thesis using that assms unfolding w BCD_TO_BIN_mod and_mask_mod by simp
  qed
  show "uint (word_of_int (BIN_TO_BCD v) :: u8) AND 0x80 = 0" if "v < 80"
  proof -
    have "v div 10 * 16 + v mod 10 < 128"
    proof -
      have "v div 10 < 8" using that by simp
      then show ?thesis using d by linarith
    qed
    then have "take_bit 7 (v div 10 * 16 + v mod 10) = v div 10 * 16 + v mod 10"
      using d by (intro take_bit_int_eq_self) simp_all
    then have "\<not> bit (v div 10 * 16 + v mod 10) 7" by (metis bit_take_bit_iff less_irrefl)
    then show ?thesis unfolding w by (simp add: and_exp_eq_0_iff_not_bit [where n = 7, simplified])
  qed
qed

section \<open>A chip that keeps its registers\<close>

text \<open>The registers of the chip at address \<open>ad\<close> after what happened on the bus: a write stores from the register on it names.\<close>

fun store_regs :: "nat \<Rightarrow> u8 list \<Rightarrow> (nat \<Rightarrow> u8) \<Rightarrow> nat \<Rightarrow> u8" where
  "store_regs r [] m = m"
| "store_regs r (b # bs) m = store_regs (r + 1) bs (m(r := b))"

fun reg_write :: "u16 \<Rightarrow> event \<Rightarrow> (nat \<Rightarrow> u8) \<Rightarrow> nat \<Rightarrow> u8" where
  "reg_write ad (Transfer [MsgWr a (r # bs)]) m = (if a = ad then store_regs (unat r) bs m else m)"
| "reg_write ad _ m = m"

definition chip_regs :: "u16 \<Rightarrow> event list \<Rightarrow> nat \<Rightarrow> u8" where
  "chip_regs ad h = fold (reg_write ad) h (\<lambda>_. 0)"

text \<open>The chip answers: it takes writes, and a read from register 0 returns what was written last.\<close>

definition register_file :: "adapter \<Rightarrow> u16 \<Rightarrow> bool" where
  "register_file a ad \<longleftrightarrow>
    (\<forall>h bs. fst (xfer a h [MsgWr ad bs]) = 1) \<and>
    (\<forall>h n. xfer a h [MsgWr ad [0], MsgRd ad n] = (2, map (chip_regs ad h) [0..<n]))"

lemma store_regs_nth: "store_regs r bs m i = (if r \<le> i \<and> i < r + length bs then bs ! (i - r) else m i)"
proof (induction r bs m rule: store_regs.induct)
  case (2 r b bs m)
  show ?case
  proof (cases "i = r")
    case False
    then have "r \<le> i \<and> i < r + length (b # bs) \<longleftrightarrow> r + 1 \<le> i \<and> i < r + 1 + length bs" by auto
    moreover have "r + 1 \<le> i \<Longrightarrow> (b # bs) ! (i - r) = bs ! (i - (r + 1))" by (simp add: nth_Cons')
    ultimately show ?thesis using 2 False by (auto simp del: fun_upd_apply simp: fun_upd_other)
  next
    case True
    then show ?thesis using 2 by (simp del: fun_upd_apply add: fun_upd_same)
  qed
qed auto

lemma map_upt_nth: "n \<le> length xs \<Longrightarrow> map (\<lambda>i. xs ! i) [0..<n] = take n xs"
  by (rule nth_equalityI) auto

definition valid_time :: "rtc_time \<Rightarrow> bool" where
  "valid_time t \<longleftrightarrow> 0 \<le> tm_sec t \<and> tm_sec t < 60 \<and> 0 \<le> tm_min t \<and> tm_min t < 60 \<and> 0 \<le> tm_hour t \<and> tm_hour t < 24
    \<and> 1 \<le> tm_mday t \<and> tm_mday t \<le> 31 \<and> 0 \<le> tm_mon t \<and> tm_mon t < 12 \<and> 0 \<le> tm_year t \<and> tm_year t < 4000
    \<and> 0 \<le> tm_wday t \<and> tm_wday t < 7"

lemma length_regs_of_rtc [simp]: "length (regs_of_rtc c t d) = (if d then 10 else 5)"
  by (simp add: regs_of_rtc_def Let_def)

lemma set_datetime_writes:
  assumes "register_file a (addr c)"
  shows "rtc8564_set_datetime a c t True h =
    (0, h @ [Transfer [MsgWr (addr c) (0 # regs_of_rtc c t True)], Transfer [MsgWr (addr c) [0, rtc8564_ctrl1 c]]])"
  using assms map_upt_nth [of 10 "regs_of_rtc c t True"]
  by (simp add: rtc8564_set_datetime_def rtc8564_write_def register_file_def Let_def upt_conv_Cons split: prod.split)

lemma regs_after_set:
  assumes "1 \<le> i" "i < 10"
  shows "chip_regs ad (h @ [Transfer [MsgWr ad (0 # regs_of_rtc c t True)], Transfer [MsgWr ad [0, b]]]) i
    = regs_of_rtc c t True ! i"
  using assms by (simp add: chip_regs_def store_regs_nth)

lemma month_reg: "0 \<le> m \<Longrightarrow> m < 12 \<Longrightarrow>
  BCD_TO_BIN (uint (word_of_int (BIN_TO_BCD (m + 1) AND 0x1f) :: u8) AND 0x1f) = m + 1"
proof -
  assume m: "0 \<le> m" "m < 12"
  have b: "BIN_TO_BCD (m + 1) = (m + 1) div 10 * 16 + (m + 1) mod 10" using m by (simp add: BIN_TO_BCD_pos)
  have d: "(m + 1) div 10 < 2" "0 \<le> (m + 1) div 10" "(m + 1) mod 10 < 10" "0 \<le> (m + 1) mod 10" using m by simp_all
  have s: "BIN_TO_BCD (m + 1) AND 0x1f = (m + 1) div 10 * 16 + (m + 1) mod 10"
    using d unfolding b and_mask_mod by simp
  have "uint (word_of_int (BIN_TO_BCD (m + 1) AND 0x1f) :: u8) = (m + 1) div 10 * 16 + (m + 1) mod 10"
  proof -
    have "(m + 1) div 10 * 16 + (m + 1) mod 10 < 256" using d by linarith
    then show ?thesis using d by (simp only: s uint_word_of_int) (simp add: take_bit_int_eq_self)
  qed
  then show ?thesis using d unfolding BCD_TO_BIN_mod and_mask_mod by simp
qed

lemma rtc_of_regs_of_rtc:
  assumes "valid_time t" and b: "\<And>i. 1 \<le> i \<Longrightarrow> i < 10 \<Longrightarrow> buf i = regs_of_rtc c t True ! i"
  shows "rtc_of_regs buf t0 = t\<lparr>tm_yday := tm_yday t0, tm_isdst := 0\<rparr>"
proof -
  have y: "0 \<le> tm_year t mod 100" "tm_year t mod 100 < 100" "0 \<le> tm_year t div 100" "tm_year t div 100 < 40"
    using assms(1) unfolding valid_time_def by (simp_all, presburger+)
  have n: "buf 2 = word_of_int (BIN_TO_BCD (tm_sec t))" "buf 3 = word_of_int (BIN_TO_BCD (tm_min t))"
    "buf 4 = word_of_int (BIN_TO_BCD (tm_hour t))" "buf 5 = word_of_int (BIN_TO_BCD (tm_mday t))"
    "buf 6 = word_of_int (BIN_TO_BCD (tm_wday t))" "buf 7 = word_of_int (BIN_TO_BCD (tm_mon t + 1) AND 0x1f)"
    "buf 8 = word_of_int (BIN_TO_BCD (tm_year t mod 100))" "buf 9 = word_of_int (BIN_TO_BCD (tm_year t div 100))"
    using assms(1) sdiv_smod_pos [of "tm_year t" 100]
    by (simp_all add: b regs_of_rtc_def Let_def valid_time_def)
  show ?thesis
    using assms(1) y month_reg [of "tm_mon t"]
    unfolding rtc_of_regs_def Let_def n valid_time_def
    by (cases t; simp add: bcd_roundtrip)
qed

text \<open>
  C39: the time set is the time read. With a chip that answers and keeps its registers, setting a valid time returns 0 and stops
  the clock only while the registers are written (the STOP bit is in the first write and not in the second); reading it back returns the same seconds, minutes,
  hours, day, weekday, month and year (1900 to 5899), with the flag for a low battery off; the fields
  the chip does not have keep the value of the caller's variable.
\<close>

theorem rtc_roundtrip:
  assumes "register_file a (addr c)" "valid_time t"
  shows "let (r, h1) = rtc8564_set_datetime a c t True h; (r', t', h2) = rtc8564_get_datetime a c t0 h1
    in r = 0 \<and> r' = 0 \<and> t' = t\<lparr>tm_yday := tm_yday t0, tm_isdst := 0\<rparr>
     \<and> h1 = h @ [Transfer [MsgWr (addr c) (0 # (rtc8564_ctrl1 c OR RTC8564_CTRL1_STOP) # tl (regs_of_rtc c t True))],
                 Transfer [MsgWr (addr c) [0, rtc8564_ctrl1 c]]]"
proof -
  define h1 where "h1 = h @ [Transfer [MsgWr (addr c) (0 # regs_of_rtc c t True)], Transfer [MsgWr (addr c) [0, rtc8564_ctrl1 c]]]"
  have s: "rtc8564_set_datetime a c t True h = (0, h1)"
    unfolding h1_def by (rule set_datetime_writes [OF assms(1)])
  have x: "xfer a h1 [MsgWr (addr c) [0], MsgRd (addr c) 15] = (2, map (chip_regs (addr c) h1) [0..<15])"
    using assms(1) by (simp add: register_file_def)
  have buf: "(if i < 15 then chip_regs (addr c) h1 i else 0) = regs_of_rtc c t True ! i" if "1 \<le> i" "i < 10" for i
    using that by (simp add: h1_def regs_after_set del: One_nat_def)
  have g: "rtc_of_regs (\<lambda>i. if i < 15 then chip_regs (addr c) h1 i else 0) t0 = t\<lparr>tm_yday := tm_yday t0, tm_isdst := 0\<rparr>"
    by (rule rtc_of_regs_of_rtc [OF assms(2) buf])
  have nth: "(\<lambda>i. if i < 15 then map (chip_regs (addr c) h1) [0..<15] ! i else 0) = (\<lambda>i. if i < 15 then chip_regs (addr c) h1 i else 0)"
    by (rule ext) simp
  have "rtc8564_get_datetime a c t0 h1 =
      (0, t\<lparr>tm_yday := tm_yday t0, tm_isdst := 0\<rparr>, h1 @ [Transfer [MsgWr (addr c) [0], MsgRd (addr c) 15]])"
    using g nth by (simp add: rtc8564_get_datetime_def rtc8564_read_def x Let_def del: upt_Suc)
  moreover have "regs_of_rtc c t True = (rtc8564_ctrl1 c OR RTC8564_CTRL1_STOP) # tl (regs_of_rtc c t True)"
    by (simp add: regs_of_rtc_def Let_def)
  ultimately show ?thesis by (simp add: s h1_def)
qed

text \<open>The reference chip at 0x51: it keeps what is written, and answers a read of register 0.\<close>

definition rtc_chip :: adapter where
  "rtc_chip = \<lparr>adap_nr = 0, quick_ok = True, addr_used = (\<lambda>_. False), quick = (\<lambda>_ adr. if adr = 0x51 then 0 else - 1),
     xfer = (\<lambda>h ms. case ms of [MsgWr ad [r], MsgRd ad' n] \<Rightarrow> (2, map (chip_regs 0x51 h) [0..<n]) | _ \<Rightarrow> (1, [])),
     kzalloc = (\<lambda>_. True), client_attach = (\<lambda>_. 0)\<rparr>"

definition some_time :: rtc_time where
  "some_time = \<lparr>tm_sec = 59, tm_min = 30, tm_hour = 23, tm_mday = 31, tm_mon = 11, tm_year = 120, tm_wday = 4,
     tm_yday = 365, tm_isdst = 1\<rparr>"

theorem rtc_roundtrip_witness:
  "fst (snd (rtc8564_get_datetime rtc_chip \<lparr>addr = 0x51, ctrl = 0\<rparr> some_time
     (snd (rtc8564_set_datetime rtc_chip \<lparr>addr = 0x51, ctrl = 0\<rparr> some_time True [])))) = some_time\<lparr>tm_isdst := 0\<rparr>"
proof -
  let ?c = "\<lparr>addr = 0x51, ctrl = 0\<rparr> :: codec"
  have r: "register_file rtc_chip (addr ?c)"
    by (auto simp: register_file_def rtc_chip_def split: list.splits)
  have v: "valid_time some_time" by (simp add: valid_time_def some_time_def)
  have e: "some_time\<lparr>tm_yday := tm_yday some_time, tm_isdst := 0\<rparr> = some_time\<lparr>tm_isdst := 0\<rparr>"
    by (simp add: some_time_def)
  have "fst (snd (rtc8564_get_datetime rtc_chip ?c some_time (snd (rtc8564_set_datetime rtc_chip ?c some_time True [])))) =
     some_time\<lparr>tm_yday := tm_yday some_time, tm_isdst := 0\<rparr>"
    using rtc_roundtrip [OF r v, of "[]" some_time] unfolding Let_def case_prod_beta by blast
  then show ?thesis by (simp only: e)
qed

section \<open>Errors of the bus\<close>

text \<open>
  \<open>/dev/rtc\<close> hides every error of the bus. With a chip bound, a request to read the time whose transfer
  fails returns 0 all the same, and gives the user what the kernel stack held; a request to set the time returns 0 whatever
  happens on the bus. Inside the driver, \<open>rtc8564_set_datetime\<close> already loses the result of the write that
  carries the time: it returns the result of the second one.
\<close>

theorem rtc_bus_errors_lost:
  assumes "rtc_client s = Some c" "\<not> client_freed s"
  shows "(fst (xfer a (events s) [MsgWr (addr c) [0], MsgRd (addr c) 15]) \<notin> {0, 2} \<longrightarrow>
      fst (epson8564_rtc_ioctl a True capable stack RTC_RD_TIME s) = Answer 0 (Some stack))
    \<and> fst (epson8564_rtc_ioctl a copies True stack (RTC_SET_TIME (Some t)) s) = Answer 0 None
    \<and> (let h1 = events s @ [Transfer [MsgWr (addr c) (0 # regs_of_rtc c t True)]];
           r2 = fst (xfer a h1 [MsgWr (addr c) [0, rtc8564_ctrl1 c]])
       in fst (rtc8564_set_datetime a c t True (events s)) = (if r2 = 1 then 0 else r2))"
  using assms map_upt_nth [of 10 "regs_of_rtc c t True"]
  by (auto simp: epson8564_rtc_ioctl_def rtc8564_get_datetime_def rtc8564_read_def rtc8564_set_datetime_def
      rtc8564_write_def Let_def upt_conv_Cons split: prod.splits)

theorem rtc_bus_errors_lost_witness:
  "let s = \<lparr>events = [], rtc_client = Some \<lparr>addr = 0x51, ctrl = 0\<rparr>, client_freed = False\<rparr>;
       dead = rtc_chip\<lparr>xfer := (\<lambda>_ _. (- 5, []))\<rparr>
   in fst (epson8564_rtc_ioctl dead True True some_time RTC_RD_TIME s) = Answer 0 (Some some_time)
    \<and> fst (epson8564_rtc_ioctl dead True True some_time (RTC_SET_TIME (Some some_time)) s) = Answer 0 None"
  using rtc_bus_errors_lost [of "\<lparr>events = [], rtc_client = Some \<lparr>addr = 0x51, ctrl = 0\<rparr>, client_freed = False\<rparr>"
      "\<lparr>addr = 0x51, ctrl = 0\<rparr>" "rtc_chip\<lparr>xfer := (\<lambda>_ _. (- 5, []))\<rparr>" True some_time True some_time]
  by (simp add: Let_def)

section \<open>The pointer\<close>

lemma attach_pointer:
  assumes "rtc8564_attach a adr kind s = (r, s')" "rtc_client s = None"
  shows "if r = 0 then \<exists>c. rtc_client s' = Some c \<and> addr c = word_of_int adr \<and> \<not> client_freed s'
    else rtc_client s' = None \<or> client_freed s'"
  using assms
  by (auto simp: rtc8564_attach_def log_ev_def Let_def split: if_splits prod.splits)

lemma rtc_probe_attach:
  assumes "quick_ok a" "\<not> addr_used a 0x51" "0 \<le> quick a (events s) 0x51"
  shows "rtc8564_probe a s = (let (r, s') = rtc8564_attach a 0x51 (- 1) (log_ev [Quick 0x51] (log_ev [Quick 0x51] s))
    in (if r = - ENODEV then 0 else r, s'))"
  using assms by (simp add: rtc8564_probe_def rtc8564_addr_data_def i2c_probe_def i2c_probe_address_def Let_def split: prod.split)

text \<open>
  The pointer behind \<open>/dev/rtc\<close>. On a bus with a free address 0x51 that answers, the probe runs the attach function (after
  reading the address twice). If it attaches, requests reach the chip; after a detach they use freed memory. If attaching
  fails, they follow a null pointer or, where only the registration failed, freed memory -- and when the chip did not take part (\<open>-ENODEV\<close>)
  the probe even returns 0, while loading the module has made the device available without looking.
\<close>

theorem rtc_pointer:
  assumes "quick_ok a" "\<not> addr_used a 0x51" "0 \<le> quick a (events s) 0x51" "rtc_client s = None"
    "rtc8564_probe a s = (r, s')"
  shows "\<exists>ra. ra = fst (rtc8564_attach a 0x51 (- 1) (log_ev [Quick 0x51, Quick 0x51] s))
    \<and> r = (if ra = - ENODEV then 0 else ra)
    \<and> (if ra = 0
       then (\<exists>v. fst (epson8564_rtc_ioctl a True capable stack RTC_RD_TIME s') = Answer 0 v)
         \<and> fst (epson8564_rtc_ioctl a True capable stack RTC_RD_TIME (snd (rtc8564_detach s'))) = UseAfterFree
       else fst (epson8564_rtc_ioctl a True capable stack RTC_RD_TIME s') \<in> {NullPointer, UseAfterFree})"
proof -
  have l: "log_ev [Quick 0x51] (log_ev [Quick 0x51] s) = log_ev [Quick 0x51, Quick 0x51] s" by (simp add: log_ev_def)
  obtain ra sa where at: "rtc8564_attach a 0x51 (- 1) (log_ev [Quick 0x51, Quick 0x51] s) = (ra, sa)" by force
  have r: "r = (if ra = - ENODEV then 0 else ra)" "s' = sa"
    using assms(5) rtc_probe_attach [OF assms(1-3)] at l by simp_all
  have "rtc_client (log_ev [Quick 0x51, Quick 0x51] s) = None" using assms(4) by (simp add: log_ev_def)
  note p = attach_pointer [OF at this]
  show ?thesis
  proof (cases "ra = 0")
    case True
    then obtain c where "rtc_client s' = Some c" "\<not> client_freed s'" using p r by auto
    then show ?thesis
      using True r at
      by (auto simp: epson8564_rtc_ioctl_def rtc8564_detach_def log_ev_def Let_def split: prod.split)
  next
    case False
    then show ?thesis
      using p r at by (auto simp: epson8564_rtc_ioctl_def Let_def split: option.split)
  qed
qed

definition no_device :: rtc_dev where
  "no_device = \<lparr>events = [], rtc_client = None, client_freed = False\<rparr>"

text \<open>With the reference chip the device works until it is detached.\<close>

theorem rtc_pointer_witness:
  "\<exists>v. fst (epson8564_rtc_ioctl rtc_chip True True some_time RTC_RD_TIME (snd (rtc8564_probe rtc_chip no_device))) = Answer 0 v"
proof -
  have at: "fst (rtc8564_attach rtc_chip 0x51 (- 1) (log_ev [Quick 0x51, Quick 0x51] no_device)) = 0"
    by (simp add: rtc8564_attach_def rtc_chip_def log_ev_def Let_def)
  show ?thesis
    using rtc_pointer [of rtc_chip no_device "fst (rtc8564_probe rtc_chip no_device)"
        "snd (rtc8564_probe rtc_chip no_device)" True some_time] at
    by (simp add: rtc_chip_def no_device_def)
qed

end
