(* ===== verification/Sbull.thy ===== *)
theory Sbull
  imports Prelude
begin

text \<open>
  The RAM disk \<open>linux/drivers/block/sbull.c\<close>: module init and exit over a log of the calls into the kernel, the transfer
  between a request's buffer and the disk, and the request function. A queue is a list of requests; a request has a
  current segment and those after it, and \<open>end_request\<close> of \<open>linux/block/ll_rw_blk.c\<close> moves on to the next one. Sector and byte counts are
  \<open>unsigned long\<close>, 32 bits, and wrap. A copy outside its memory is the outcome \<open>None\<close>.
\<close>

section \<open>Data\<close>

definition KERNEL_SECTOR_SIZE :: u32 where "KERNEL_SECTOR_SIZE = 512"
definition nsectors :: u32 where "nsectors = 20000"
definition hardsector_size :: u32 where "hardsector_size = 512"

record gendisk =
  major :: int
  first_minor :: nat
  disk_name :: string
  capacity :: u32

record sbull_dev =
  size :: u32
  data :: "u8 list option"
  gd :: "gendisk option"

record segment =
  current_nr_sectors :: u32
  buffer :: "u8 list"

record request =
  fs_request :: bool
  rq_data_dir :: bool
  sector :: u32
  segment_now :: segment
  later :: "segment list"

section \<open>Requests\<close>

definition memcpy :: "u8 list \<Rightarrow> nat \<Rightarrow> u8 list \<Rightarrow> nat \<Rightarrow> nat \<Rightarrow> u8 list option" where
  "memcpy dst i src j n =
    (if i + n \<le> length dst \<and> j + n \<le> length src
     then Some (take i dst @ take n (drop j src) @ drop (i + n) dst) else None)"

definition sbull_transfer ::
  "sbull_dev \<Rightarrow> u32 \<Rightarrow> u32 \<Rightarrow> u8 list \<Rightarrow> bool \<Rightarrow> (sbull_dev \<times> u8 list) option" where
  "sbull_transfer dev sect nsect buf wrt =
    (let offset = sect * KERNEL_SECTOR_SIZE; nbytes = nsect * KERNEL_SECTOR_SIZE
     in if offset + nbytes > size dev then Some (dev, buf)
     else case data dev of None \<Rightarrow> None
     | Some d \<Rightarrow>
       if wrt then map_option (\<lambda>d'. (dev\<lparr>data := Some d'\<rparr>, buf)) (memcpy d (unat offset) buf 0 (unat nbytes))
       else map_option (\<lambda>b. (dev, b)) (memcpy buf 0 d (unat offset) (unat nbytes)))"

text \<open>What is left of the queue when the current segment of its first request is done.\<close>

definition end_request :: "request \<Rightarrow> request list \<Rightarrow> request list" where
  "end_request r q =
    (case later r of [] \<Rightarrow> q
     | s # ss \<Rightarrow> r\<lparr>sector := (if fs_request r then sector r + current_nr_sectors (segment_now r) else sector r),
                   segment_now := s, later := ss\<rparr> # q)"

definition pending_segments :: "request list \<Rightarrow> nat" where
  "pending_segments q = (\<Sum>r\<leftarrow>q. Suc (length (later r)))"

lemma pending_end_request [simp]: "Suc (pending_segments (end_request r q)) = pending_segments (r # q)"
  by (simp add: end_request_def pending_segments_def split: list.split)

text \<open>The request function; its result lists how each segment ended and what is in its buffer then.\<close>

function sbull_request :: "sbull_dev \<Rightarrow> request list \<Rightarrow> (sbull_dev \<times> (bool \<times> u8 list) list) option" where
  "sbull_request dev [] = Some (dev, [])"
| "sbull_request dev (req # q) =
    (if \<not> fs_request req
     then map_option (\<lambda>(d, es). (d, (False, buffer (segment_now req)) # es)) (sbull_request dev (end_request req q))
     else case sbull_transfer dev (sector req) (current_nr_sectors (segment_now req)) (buffer (segment_now req)) (rq_data_dir req)
       of None \<Rightarrow> None
       | Some (d, b) \<Rightarrow> map_option (\<lambda>(d', es). (d', (True, b) # es)) (sbull_request d (end_request req q)))"
  by pat_completeness auto

termination
  by (relation "measure (\<lambda>(d, q). pending_segments q)") (auto simp: less_Suc_eq_le simp flip: pending_end_request)

section \<open>Loading and unloading\<close>

datatype sb_event =
    RegisterBlkdev | UnregisterBlkdev | Vmalloc u32 | Vfree | AllocDisk | AddDisk | DelGendisk | PutDisk

datatype sb_outcome = Returned int | Oops

text \<open>What the kernel answers.\<close>

record sb_env =
  register_blkdev :: int
  vmalloc :: "u32 \<Rightarrow> u8 list option"
  alloc_disk :: bool

record sbull_mod =
  dev_major_nr :: int
  Device :: sbull_dev
  log :: "sb_event list"

definition sbull_start :: sbull_mod where
  "sbull_start = \<lparr>dev_major_nr = 0, Device = \<lparr>size = 0, data = None, gd = None\<rparr>, log = []\<rparr>"

definition note_call :: "sb_event list \<Rightarrow> sbull_mod \<Rightarrow> sbull_mod" where
  "note_call es s = s\<lparr>log := log s @ es\<rparr>"

definition sbull_init :: "sb_env \<Rightarrow> sbull_mod \<Rightarrow> int \<times> sbull_mod" where
  "sbull_init e s =
    (let s1 = s\<lparr>dev_major_nr := register_blkdev e\<rparr>
     in if dev_major_nr s1 \<le> 0 then (0, s1)
     else let s2 = note_call [RegisterBlkdev] s1; n = nsectors * hardsector_size; m = vmalloc e n;
              s3 = s2\<lparr>Device := \<lparr>size = n, data = m, gd = None\<rparr>\<rparr>
     in if m = None then (0, s3)
     else let s4 = note_call [Vmalloc n] s3
     in if \<not> alloc_disk e then (0, s4)
     else let g = \<lparr>major = dev_major_nr s4, first_minor = 0, disk_name = ''sbulla'', capacity = nsectors\<rparr>
     in (0, note_call [AllocDisk, AddDisk] (s4\<lparr>Device := (Device s4)\<lparr>gd := Some g\<rparr>\<rparr>)))"

text \<open>The pointers of the global record stay set.\<close>

definition sbull_exit :: "sbull_mod \<Rightarrow> sb_outcome \<times> sbull_mod" where
  "sbull_exit s =
    (if gd (Device s) = None then (Oops, s)
     else (Returned 0, note_call [DelGendisk, PutDisk, UnregisterBlkdev, Vfree] s))"

section \<open>A disk of sectors\<close>

text \<open>The reference: a disk is a map from sector numbers to their contents, and a queue is served in its order.\<close>

type_synonym disk = "nat \<Rightarrow> u8 list"

definition sectors_of :: "u8 list \<Rightarrow> disk" where
  "sectors_of d s = take 512 (drop (512 * s) d)"

definition disk_segment :: "bool \<Rightarrow> nat \<Rightarrow> segment \<Rightarrow> disk \<Rightarrow> disk \<times> u8 list" where
  "disk_segment w s g m =
    (let n = unat (current_nr_sectors g); b = buffer g
     in if w then (\<lambda>t. if s \<le> t \<and> t < s + n then sectors_of b (t - s) else m t, b)
        else (m, concat (map m [s..<s + n]) @ drop (512 * n) b))"

fun disk_segments :: "bool \<Rightarrow> nat \<Rightarrow> segment list \<Rightarrow> disk \<Rightarrow> disk \<times> u8 list list" where
  "disk_segments w s [] m = (m, [])"
| "disk_segments w s (g # gs) m =
    (let (m1, b) = disk_segment w s g m; (m2, bs) = disk_segments w (s + unat (current_nr_sectors g)) gs m1
     in (m2, b # bs))"

fun disk_queue :: "request list \<Rightarrow> disk \<Rightarrow> disk \<times> u8 list list" where
  "disk_queue [] m = (m, [])"
| "disk_queue (r # q) m =
    (let (m1, bs) = disk_segments (rq_data_dir r) (unat (sector r)) (segment_now r # later r) m;
         (m2, cs) = disk_queue q m1
     in (m2, bs @ cs))"

text \<open>A request of the file system that lies on the disk, with buffers as large as its segments.\<close>

fun segments_fit :: "nat \<Rightarrow> segment list \<Rightarrow> bool" where
  "segments_fit s [] \<longleftrightarrow> True"
| "segments_fit s (g # gs) \<longleftrightarrow> s + unat (current_nr_sectors g) \<le> 20000
    \<and> 512 * unat (current_nr_sectors g) \<le> length (buffer g) \<and> segments_fit (s + unat (current_nr_sectors g)) gs"

definition fits :: "request \<Rightarrow> bool" where
  "fits r \<longleftrightarrow> fs_request r \<and> segments_fit (unat (sector r)) (segment_now r # later r)"

definition disk_ready :: "sbull_dev \<Rightarrow> u8 list \<Rightarrow> bool" where
  "disk_ready dev d \<longleftrightarrow> size dev = 10240000 \<and> data dev = Some d \<and> length d = 10240000"

section \<open>Bytes and sectors\<close>

lemma unat_bytes: "unat (s * KERNEL_SECTOR_SIZE) = 512 * (unat s mod 8388608)" for s :: u32
proof -
  have "unat (s * KERNEL_SECTOR_SIZE) = 512 * unat s mod (512 * 8388608)"
    unfolding unat_word_ariths by (simp add: KERNEL_SECTOR_SIZE_def mult.commute)
  then show ?thesis by (simp only: mult_mod_right)
qed

lemma unat_bytes_end:
  "unat (s * KERNEL_SECTOR_SIZE + n * KERNEL_SECTOR_SIZE) = 512 * ((unat s + unat n) mod 8388608)" for s n :: u32
proof -
  have "unat (s + n) mod 8388608 = (unat s + unat n) mod 8388608"
    unfolding unat_word_ariths using mod_mod_cancel [of 8388608 "4294967296 :: nat"] by simp
  moreover have "s * KERNEL_SECTOR_SIZE + n * KERNEL_SECTOR_SIZE = (s + n) * KERNEL_SECTOR_SIZE"
    by (rule distrib_right [symmetric])
  ultimately show ?thesis using unat_bytes [of "s + n"] by metis
qed

lemma beyond_end:
  "size dev = 10240000 \<Longrightarrow>
    s * KERNEL_SECTOR_SIZE + n * KERNEL_SECTOR_SIZE > size dev \<longleftrightarrow> 20000 < (unat s + unat n) mod 8388608"
  by (simp add: word_less_nat_alt unat_bytes_end)

text \<open>A window of a memory into which \<open>n\<close> bytes were copied at \<open>i\<close>: before, inside and after the copy.\<close>

lemma window_copied:
  assumes "i + n \<le> length d" "n \<le> length b"
  shows "j + k \<le> i \<Longrightarrow> take k (drop j (take i d @ take n b @ drop (i + n) d)) = take k (drop j d)"
    and "i \<le> j \<Longrightarrow> j + k \<le> i + n \<Longrightarrow>
      take k (drop j (take i d @ take n b @ drop (i + n) d)) = take k (drop (j - i) b)"
    and "i + n \<le> j \<Longrightarrow> take k (drop j (take i d @ take n b @ drop (i + n) d)) = take k (drop j d)"
proof -
  have l: "length (take i d) = i" "length (take n b) = n" using assms by simp_all
  show "take k (drop j (take i d @ take n b @ drop (i + n) d)) = take k (drop j d)" if "j + k \<le> i"
    using that l(1) by (simp add: drop_take)
  show "take k (drop j (take i d @ take n b @ drop (i + n) d)) = take k (drop (j - i) b)" if "i \<le> j" "j + k \<le> i + n"
    using that l by (simp add: drop_take le_diff_conv)
  show "take k (drop j (take i d @ take n b @ drop (i + n) d)) = take k (drop j d)" if "i + n \<le> j"
    using that l by (simp add: add.commute)
qed

lemma memcpy_sectors:
  assumes "s + n \<le> 20000" "length d = 10240000" "512 * n \<le> length b"
  shows "\<exists>d'. memcpy d (512 * s) b 0 (512 * n) = Some d' \<and> length d' = 10240000
    \<and> sectors_of d' = (\<lambda>t. if s \<le> t \<and> t < s + n then sectors_of b (t - s) else sectors_of d t)"
proof -
  let ?d = "take (512 * s) d @ take (512 * n) b @ drop (512 * s + 512 * n) d"
  have i: "512 * s + 512 * n \<le> length d" using assms by linarith
  have "sectors_of ?d t = (if s \<le> t \<and> t < s + n then sectors_of b (t - s) else sectors_of d t)" for t
  proof -
    note w = window_copied [OF i assms(3), where j = "512 * t" and k = 512]
    consider "t < s" | "s \<le> t" "t < s + n" | "s + n \<le> t" by linarith
    then show ?thesis
    proof cases
      case 1
      then have "512 * t + 512 \<le> 512 * s" by linarith
      then show ?thesis using 1 w(1) by (simp add: sectors_of_def)
    next
      case 2
      then have "512 * s \<le> 512 * t" "512 * t + 512 \<le> 512 * s + 512 * n" by linarith+
      then show ?thesis using 2 w(2) by (simp add: sectors_of_def diff_mult_distrib2)
    next
      case 3
      then have "512 * s + 512 * n \<le> 512 * t" by linarith
      then show ?thesis using 3 w(3) by (simp add: sectors_of_def)
    qed
  qed
  moreover have "length ?d = length d" using i assms(3) by simp
  moreover have "memcpy d (512 * s) b 0 (512 * n) = Some ?d" using i assms(3) by (simp add: memcpy_def)
  ultimately show ?thesis using assms(2) by auto
qed

lemma read_sectors: "take (512 * n) (drop (512 * s) d) = concat (map (sectors_of d) [s..<s + n])"
proof (induction n)
  case (Suc n)
  have "take (512 * Suc n) (drop (512 * s) d) = take (512 * n) (drop (512 * s) d) @ take 512 (drop (512 * n) (drop (512 * s) d))"
    by (metis add.commute mult_Suc_right take_add)
  then show ?case using Suc by (simp add: sectors_of_def add.commute distrib_left)
qed simp

section \<open>The request function serves the disk\<close>

lemma transfer_served:
  assumes "disk_ready dev d" "unat s + unat (current_nr_sectors g) \<le> 20000"
    "512 * unat (current_nr_sectors g) \<le> length (buffer g)"
  shows "\<exists>dev' d'. sbull_transfer dev s (current_nr_sectors g) (buffer g) w =
      Some (dev', snd (disk_segment w (unat s) g (sectors_of d)))
    \<and> disk_ready dev' d' \<and> sectors_of d' = fst (disk_segment w (unat s) g (sectors_of d))"
proof -
  let ?n = "current_nr_sectors g"
  have ready: "size dev = 10240000" "data dev = Some d" "length d = 10240000"
    using assms(1) by (simp_all add: disk_ready_def)
  have off: "unat (s * KERNEL_SECTOR_SIZE) = 512 * unat s" "unat (?n * KERNEL_SECTOR_SIZE) = 512 * unat ?n"
    "\<not> s * KERNEL_SECTOR_SIZE + ?n * KERNEL_SECTOR_SIZE > size dev"
    using assms(2) by (simp_all add: unat_bytes beyond_end [OF ready(1)])
  show ?thesis
  proof (cases w)
    case True
    obtain d' where d': "memcpy d (512 * unat s) (buffer g) 0 (512 * unat ?n) = Some d'" "length d' = 10240000"
      "sectors_of d' = (\<lambda>t. if unat s \<le> t \<and> t < unat s + unat ?n then sectors_of (buffer g) (t - unat s) else sectors_of d t)"
      using memcpy_sectors [OF assms(2) ready(3) assms(3)] by blast
    then show ?thesis
      using True off ready by (simp add: sbull_transfer_def disk_segment_def disk_ready_def Let_def)
  next
    case False
    have "memcpy (buffer g) 0 d (512 * unat s) (512 * unat ?n) =
        Some (take (512 * unat ?n) (drop (512 * unat s) d) @ drop (512 * unat ?n) (buffer g))"
      using assms(2,3) ready(3) by (simp add: memcpy_def)
    then show ?thesis
      using False off ready assms(1)
      by (intro exI [of _ dev] exI [of _ d]) (simp add: sbull_transfer_def disk_segment_def read_sectors Let_def)
  qed
qed

lemma fits_fs: "fits r \<Longrightarrow> fs_request r"
  by (simp add: fits_def)

lemma next_sector:
  assumes "fits r"
  shows "unat (sector r + current_nr_sectors (segment_now r)) = unat (sector r) + unat (current_nr_sectors (segment_now r))"
proof -
  have "unat (sector r) + unat (current_nr_sectors (segment_now r)) < 2 ^ LENGTH(32)"
    using assms by (simp add: fits_def)
  then show ?thesis by (simp add: unat_word_ariths)
qed

lemma disk_queue_end:
  assumes "fits r"
  shows "disk_queue (r # q) m =
    (let (m1, b) = disk_segment (rq_data_dir r) (unat (sector r)) (segment_now r) m;
         (m2, bs) = disk_queue (end_request r q) m1
     in (m2, b # bs))"
proof (cases "later r")
  case Nil
  then show ?thesis by (simp add: end_request_def Let_def split: prod.split)
next
  case (Cons s ss)
  then show ?thesis
    using next_sector [OF assms] fits_fs [OF assms] by (simp add: end_request_def Let_def split: prod.split)
qed

lemma fits_end:
  assumes "fits r" "list_all fits q"
  shows "list_all fits (end_request r q)"
proof (cases "later r")
  case (Cons s ss)
  then show ?thesis
    using next_sector [OF assms(1)] assms by (simp add: end_request_def fits_def)
qed (use assms in \<open>simp add: end_request_def\<close>)

lemma queue_served:
  assumes "disk_ready dev d" "list_all fits q"
  shows "\<exists>dev' d'. sbull_request dev q = Some (dev', map (Pair True) (snd (disk_queue q (sectors_of d))))
    \<and> disk_ready dev' d' \<and> sectors_of d' = fst (disk_queue q (sectors_of d))"
  using assms
proof (induction "pending_segments q" arbitrary: dev d q rule: less_induct)
  case less
  show ?case
  proof (cases q)
    case Nil
    then show ?thesis using less.prems by auto
  next
    case (Cons r rs)
    have f: "fits r" "list_all fits rs" using less.prems Cons by simp_all
    let ?g = "segment_now r" and ?s = "unat (sector r)"
    obtain dev1 d1 where t:
      "sbull_transfer dev (sector r) (current_nr_sectors ?g) (buffer ?g) (rq_data_dir r) =
         Some (dev1, snd (disk_segment (rq_data_dir r) ?s ?g (sectors_of d)))"
      "disk_ready dev1 d1" "sectors_of d1 = fst (disk_segment (rq_data_dir r) ?s ?g (sectors_of d))"
      using transfer_served [OF less.prems(1), of "sector r" ?g "rq_data_dir r"] f(1) by (auto simp: fits_def)
    have "pending_segments (end_request r rs) < pending_segments q"
      using pending_end_request [of r rs] unfolding Cons by linarith
    then obtain dev2 d2 where u:
      "sbull_request dev1 (end_request r rs) = Some (dev2, map (Pair True) (snd (disk_queue (end_request r rs) (sectors_of d1))))"
      "disk_ready dev2 d2" "sectors_of d2 = fst (disk_queue (end_request r rs) (sectors_of d1))"
      using less.hyps [OF _ t(2) fits_end [OF f]] by blast
    show ?thesis
      using t u fits_fs [OF f(1)] unfolding Cons disk_queue_end [OF f(1)]
      by (intro exI [of _ dev2] exI [of _ d2]) (simp add: Let_def split_beta)
  qed
qed

text \<open>
  C40: the RAM disk is a disk. For any queue of requests of the file system that lie on the disk, the request function returns, ends every
  segment successfully, and the sectors of the disk and the buffers of the requests are those of a map from sector numbers to
  contents served in the order of the queue: a sector read holds what was last written to it.
\<close>

theorem sbull_serves:
  assumes "disk_ready dev d" "list_all fits q"
  shows "\<exists>dev' d'. sbull_request dev q = Some (dev', map (Pair True) (snd (disk_queue q (sectors_of d))))
    \<and> disk_ready dev' d' \<and> sectors_of d' = fst (disk_queue q (sectors_of d))"
  by (rule queue_served [OF assms])

definition blank_disk :: sbull_dev where
  "blank_disk = \<lparr>size = 10240000, data = Some (replicate 10240000 0), gd = None\<rparr>"

definition one_request :: "bool \<Rightarrow> u32 \<Rightarrow> u8 list \<Rightarrow> request" where
  "one_request w s b = \<lparr>fs_request = True, rq_data_dir = w, sector = s,
     segment_now = \<lparr>current_nr_sectors = 1, buffer = b\<rparr>, later = []\<rparr>"

text \<open>Sector 7 is written and read back.\<close>

theorem sbull_serves_witness:
  "map_option (map snd \<circ> snd) (sbull_request blank_disk
     [one_request True 7 (replicate 512 0xab), one_request False 7 (replicate 512 0)]) =
   Some [replicate 512 0xab, replicate 512 0xab]"
proof -
  let ?q = "[one_request True 7 (replicate 512 0xab), one_request False 7 (replicate 512 0)]"
  have "disk_ready blank_disk (replicate 10240000 0)"
    unfolding disk_ready_def blank_disk_def by (simp only: sbull_dev.simps length_replicate simp_thms)
  moreover have "list_all fits ?q" by (simp add: one_request_def fits_def)
  moreover have "snd (disk_queue ?q (sectors_of (replicate 10240000 0))) = [replicate 512 0xab, replicate 512 0xab]"
    by (simp add: one_request_def disk_segment_def sectors_of_def Let_def)
  ultimately show ?thesis using sbull_serves [of blank_disk "replicate 10240000 0" ?q] by fastforce
qed

section \<open>Requests that do not lie on the disk\<close>

text \<open>
  The bounds test of the transfer. Byte counts wrap at 32 bits, so the test sees the end of the request modulo 2^23 sectors. A
  request it refuses is not carried out and yet ended as a success, its buffer as it was. A request whose end wraps below the
  size passes the test with a start or length beyond the disk, and is copied outside the memory. A request 2^23 sectors further on
  is the same transfer.
\<close>

theorem sbull_bounds:
  assumes "disk_ready dev d"
  shows "(20000 < (unat s + unat n) mod 8388608 \<longrightarrow>
      sbull_request dev [\<lparr>fs_request = True, rq_data_dir = w, sector = s,
        segment_now = \<lparr>current_nr_sectors = n, buffer = b\<rparr>, later = []\<rparr>] = Some (dev, [(True, b)]))
    \<and> ((unat s + unat n) mod 8388608 \<le> 20000 \<and> 20000 < unat s mod 8388608 + unat n mod 8388608 \<longrightarrow>
      sbull_transfer dev s n b w = None)
    \<and> sbull_transfer dev (s + 8388608) n b w = sbull_transfer dev s n b w"
proof -
  have ready: "size dev = 10240000" "data dev = Some d" "length d = 10240000"
    using assms by (simp_all add: disk_ready_def)
  have "20000 < (unat s + unat n) mod 8388608 \<Longrightarrow> sbull_transfer dev s n b w = Some (dev, b)" for b
    using beyond_end [OF ready(1), of s n] by (simp add: sbull_transfer_def Let_def)
  moreover have "sbull_transfer dev s n b w = None"
    if "(unat s + unat n) mod 8388608 \<le> 20000" "20000 < unat s mod 8388608 + unat n mod 8388608"
  proof -
    have "\<not> s * KERNEL_SECTOR_SIZE + n * KERNEL_SECTOR_SIZE > size dev"
      using beyond_end [OF ready(1), of s n] that(1) by simp
    moreover have "\<not> 512 * (unat s mod 8388608) + 512 * (unat n mod 8388608) \<le> 10240000" using that(2) by linarith
    ultimately show ?thesis
      using ready by (simp add: sbull_transfer_def memcpy_def unat_bytes Let_def)
  qed
  moreover have "(s + 8388608) * KERNEL_SECTOR_SIZE = s * KERNEL_SECTOR_SIZE"
    by (simp add: KERNEL_SECTOR_SIZE_def distrib_right)
  ultimately show ?thesis by (simp add: sbull_transfer_def end_request_def)
qed

text \<open>A write to sector 20000 is lost, one of two sectors from 2^23 - 1 is a copy outside the memory.\<close>

theorem sbull_bounds_witness:
  "sbull_request blank_disk [one_request True 20000 (replicate 512 0xab)] =
     Some (blank_disk, [(True, replicate 512 0xab)])
   \<and> sbull_transfer blank_disk 8388607 2 [] True = None"
proof -
  have r: "disk_ready blank_disk (replicate 10240000 0)"
    unfolding disk_ready_def blank_disk_def by (simp only: sbull_dev.simps length_replicate simp_thms)
  show ?thesis
    using sbull_bounds [OF r, of 20000 1 True "replicate 512 0xab"] sbull_bounds [OF r, of 8388607 2 True "[]"]
    by (simp add: one_request_def)
qed

section \<open>Loading and unloading\<close>

text \<open>
  Loading and unloading the RAM disk. Init returns 0 whatever happens. When every call into the kernel succeeds the disk is ready, with the
  capacity the transfer's test allows, and exit gives back all that was taken, in an order in which the disk is gone before its
  memory. When one fails, what was taken before stays taken, and exit, which the module loader runs as the load succeeded, follows
  a null pointer.
\<close>

theorem sbull_load_unload:
  assumes "\<And>n m. vmalloc e n = Some m \<Longrightarrow> length m = unat n"
  shows "let (r, s) = sbull_init e sbull_start in r = 0 \<and>
    (if register_blkdev e \<le> 0 then log s = [] \<and> sbull_exit s = (Oops, s)
     else if vmalloc e 10240000 = None then log s = [RegisterBlkdev] \<and> sbull_exit s = (Oops, s)
     else if \<not> alloc_disk e then log s = [RegisterBlkdev, Vmalloc 10240000] \<and> sbull_exit s = (Oops, s)
     else (\<exists>d. disk_ready (Device s) d) \<and> map_option capacity (gd (Device s)) = Some 20000
       \<and> log s = [RegisterBlkdev, Vmalloc 10240000, AllocDisk, AddDisk]
       \<and> fst (sbull_exit s) = Returned 0
       \<and> log (snd (sbull_exit s)) = log s @ [DelGendisk, PutDisk, UnregisterBlkdev, Vfree])"
  using assms [of 10240000]
  by (auto simp: sbull_init_def sbull_exit_def sbull_start_def note_call_def nsectors_def hardsector_size_def disk_ready_def Let_def)

theorem sbull_load_unload_witness:
  "let e = \<lparr>register_blkdev = 254, vmalloc = (\<lambda>n. Some (replicate (unat n) 0)), alloc_disk = False\<rparr>;
       s = snd (sbull_init e sbull_start)
   in fst (sbull_init e sbull_start) = 0 \<and> log s = [RegisterBlkdev, Vmalloc 10240000] \<and> fst (sbull_exit s) = Oops"
proof -
  let ?e = "\<lparr>register_blkdev = 254, vmalloc = (\<lambda>n. Some (replicate (unat n) 0)), alloc_disk = False\<rparr> :: sb_env"
  have "length m = unat n" if "vmalloc ?e n = Some m" for n m using that by auto
  from sbull_load_unload [of ?e, OF this] show ?thesis
    by (simp add: Let_def split_beta)
qed

end
