(* ===== verification/Ucb.thy ===== *)
theory Ucb
  imports Prelude
begin

text \<open>
  The touch and I/O chip UCB1400 on the AC97 link: the register access of \<open>linux/drivers/mfd/mcp-ac97.c\<close> and the core
  driver \<open>linux/drivers/mfd/ucb1x00-core.c\<close> with the constants and the record of \<open>ucb1x00.h\<close>. What happens on the link and in the
  kernel is a log (record \<open>ac97\<close>, latest last); what the codec answers, by what happened before, is the parameter
  \<open>chip\<close>. On this link enabling and disabling the clock (\<open>mcp_enable\<close>, \<open>mcp_disable\<close>) does nothing.
\<close>

section \<open>The link\<close>

datatype uev =
    AcRead u8 u16 | AcWrite u8 u16
  | Kmalloc | Kfree | ProbeIrqOn | ProbeIrqOff | RequestIrq u32 | FreeIrq u32
  | KthreadRun | KthreadStop | SetIrqType u32 | ClassRegister | ClassUnregister
  | SetDrvdata | ClearDrvdata | InputAllocate | InputRegister | InputUnregister

record ac97 =
  ac_log :: "uev list"

type_synonym ac_chip = "uev list \<Rightarrow> u8 \<Rightarrow> u16"

definition note_ev :: "uev list \<Rightarrow> 'a ac97_scheme \<Rightarrow> 'a ac97_scheme" where
  "note_ev es s = s\<lparr>ac_log := ac_log s @ es\<rparr>"

definition regmap :: "u8 list" where
  "regmap = [0x5a, 0x5C, 0x5E, 0x60, 0x62, 0, 0, 0, 0, 0x64, 0x66, 0x68, 0x7e, 0, 0x6a, 0x2, 0x6c]"

definition mcp_reg_read :: "ac_chip \<Rightarrow> u32 \<Rightarrow> 'a ac97_scheme \<Rightarrow> u32 \<times> 'a ac97_scheme" where
  "mcp_reg_read chip reg s =
    (if reg < of_nat (length regmap) \<and> regmap ! unat reg \<noteq> 0
     then let r = regmap ! unat reg; v = chip (ac_log s) r in (ucast v, note_ev [AcRead r v] s)
     else (- 1, s))"

definition mcp_reg_write :: "u32 \<Rightarrow> u32 \<Rightarrow> 'a ac97_scheme \<Rightarrow> 'a ac97_scheme" where
  "mcp_reg_write reg val s =
    (if reg < of_nat (length regmap) \<and> regmap ! unat reg \<noteq> 0
     then note_ev [AcWrite (regmap ! unat reg) (ucast val)] s else s)"

section \<open>Constants\<close>

definition UCB_IO_DATA :: u32 where "UCB_IO_DATA = 0x00"
definition UCB_IO_DIR :: u32 where "UCB_IO_DIR = 0x01"
definition UCB_IE_RIS :: u32 where "UCB_IE_RIS = 0x02"
definition UCB_IE_FAL :: u32 where "UCB_IE_FAL = 0x03"
definition UCB_IE_STATUS :: u32 where "UCB_IE_STATUS = 0x04"
definition UCB_IE_CLEAR :: u32 where "UCB_IE_CLEAR = 0x04"
definition UCB_IE_ADC :: u32 where "UCB_IE_ADC = push_bit 11 1"
definition UCB_ADC_CR :: u32 where "UCB_ADC_CR = 0x0a"
definition UCB_ADC_SYNC_ENA :: u32 where "UCB_ADC_SYNC_ENA = push_bit 0 1"
definition UCB_ADC_START :: u32 where "UCB_ADC_START = push_bit 7 1"
definition UCB_ADC_ENA :: u32 where "UCB_ADC_ENA = push_bit 15 1"
definition UCB_ADC_DATA :: u32 where "UCB_ADC_DATA = 0x0b"
definition UCB_ADC_DAT_VAL :: u32 where "UCB_ADC_DAT_VAL = push_bit 15 1"
definition UCB_ID :: u32 where "UCB_ID = 0x0c"
definition UCB_ID_1200 :: u32 where "UCB_ID_1200 = 0x1004"
definition UCB_ID_1300 :: u32 where "UCB_ID_1300 = 0x1005"
definition UCB_ID_1400 :: u32 where "UCB_ID_1400 = 0x4304"
definition UCB_RISING :: u32 where "UCB_RISING = push_bit 0 1"
definition UCB_FALLING :: u32 where "UCB_FALLING = push_bit 1 1"
definition NO_IRQ :: u32 where "NO_IRQ = - 1"

abbreviation (input) ENOENT :: int where "ENOENT \<equiv> 2"
abbreviation (input) ENOMEM :: int where "ENOMEM \<equiv> 12"
abbreviation (input) ENODEV :: int where "ENODEV \<equiv> 19"

definition UCB_IS_1400 :: "u32 \<Rightarrow> bool" where "UCB_IS_1400 i \<longleftrightarrow> i = UCB_ID_1400"

section \<open>The chip's record\<close>

text \<open>
  The core's global lists: the drivers registered (by number, newest first) and whether the one chip of the board is in the list of
  devices. A slot for each interrupt source: the handler, if any, and the pointer passed to it (0 is the null pointer). \<open>irq_off\<close> counts
  how often the line of the chip is disabled, \<open>irq_wait\<close> the completions not yet waited for, and \<open>devs\<close> the drivers bound.
\<close>

record irq_slot =
  fn :: "nat option"
  devid :: nat

record ucb_core = ac97 +
  ucb1x00_drivers :: "nat list"
  ucb1x00_devices :: bool

record ucb1x00 = ucb_core +
  irq :: u32
  irq_task :: bool
  irq_wait :: nat
  irq_off :: nat
  ucb_id :: u16
  io_dir :: u16
  io_out :: u16
  adc_cr :: u16
  irq_fal_enbl :: u16
  irq_ris_enbl :: u16
  irq_handler :: "irq_slot list"
  devs :: "nat list"

section \<open>Pins and converter\<close>

definition ucb1x00_io_set_dir :: "u32 \<Rightarrow> u32 \<Rightarrow> 'a ucb1x00_scheme \<Rightarrow> 'a ucb1x00_scheme" where
  "ucb1x00_io_set_dir inp out s =
    (let s1 = s\<lparr>io_dir := io_dir s OR ucast out\<rparr>; s2 = s1\<lparr>io_dir := io_dir s1 AND ucast (NOT inp)\<rparr>
     in mcp_reg_write UCB_IO_DIR (ucast (io_dir s2)) s2)"

definition ucb1x00_io_write :: "u32 \<Rightarrow> u32 \<Rightarrow> 'a ucb1x00_scheme \<Rightarrow> 'a ucb1x00_scheme" where
  "ucb1x00_io_write set_bits clear s =
    (let s1 = s\<lparr>io_out := io_out s OR ucast set_bits\<rparr>; s2 = s1\<lparr>io_out := io_out s1 AND ucast (NOT clear)\<rparr>
     in mcp_reg_write UCB_IO_DATA (ucast (io_out s2)) s2)"

definition ucb1x00_io_read :: "ac_chip \<Rightarrow> 'a ucb1x00_scheme \<Rightarrow> u32 \<times> 'a ucb1x00_scheme" where
  "ucb1x00_io_read chip s = mcp_reg_read chip UCB_IO_DATA s"

definition ucb1x00_adc_enable :: "'a ucb1x00_scheme \<Rightarrow> 'a ucb1x00_scheme" where
  "ucb1x00_adc_enable s =
    (let s1 = s\<lparr>adc_cr := adc_cr s OR ucast UCB_ADC_ENA\<rparr> in mcp_reg_write UCB_ADC_CR (ucast (adc_cr s1)) s1)"

text \<open>The loop that waits for the conversion; \<open>None\<close> is a conversion that never becomes valid.\<close>

partial_function (option) adc_wait :: "ac_chip \<Rightarrow> 'a ac97_scheme \<Rightarrow> (u32 \<times> 'a ac97_scheme) option" where
  "adc_wait chip s =
    (let (v, s1) = mcp_reg_read chip UCB_ADC_DATA s
     in if v AND UCB_ADC_DAT_VAL \<noteq> 0 then Some (v, s1) else adc_wait chip s1)"

definition ucb1x00_adc_read ::
  "ac_chip \<Rightarrow> u32 \<Rightarrow> bool \<Rightarrow> 'a ucb1x00_scheme \<Rightarrow> (u32 \<times> 'a ucb1x00_scheme) option" where
  "ucb1x00_adc_read chip adc_channel sync s =
    (let ch = (if sync then adc_channel OR UCB_ADC_SYNC_ENA else adc_channel);
         s1 = mcp_reg_write UCB_ADC_CR (ucast (adc_cr s) OR ch) s;
         s2 = mcp_reg_write UCB_ADC_CR (ucast (adc_cr s) OR ch OR UCB_ADC_START) s1
     in map_option (\<lambda>(v, s3). (if UCB_IS_1400 (ucast (ucb_id s)) then v AND 0x3ff else drop_bit 5 (v AND 0x7fe0), s3))
          (adc_wait chip s2))"

definition ucb1x00_adc_disable :: "'a ucb1x00_scheme \<Rightarrow> 'a ucb1x00_scheme" where
  "ucb1x00_adc_disable s =
    (let s1 = s\<lparr>adc_cr := adc_cr s AND ucast (NOT UCB_ADC_ENA)\<rparr> in mcp_reg_write UCB_ADC_CR (ucast (adc_cr s1)) s1)"

section \<open>Interrupts\<close>

text \<open>
  \<open>run f i d\<close> is the handler \<open>f\<close> called with index \<open>i\<close> and pointer \<open>d\<close>. The handler of a source is looked up when its turn
  comes.
\<close>

definition call_slot :: "(nat \<Rightarrow> nat \<Rightarrow> nat \<Rightarrow> 'a ucb1x00_scheme \<Rightarrow> 'a ucb1x00_scheme) \<Rightarrow> nat \<Rightarrow> 'a ucb1x00_scheme \<Rightarrow> 'a ucb1x00_scheme" where
  "call_slot run i s =
    (case fn (irq_handler s ! i) of None \<Rightarrow> s | Some f \<Rightarrow> run f i (devid (irq_handler s ! i)) s)"

primrec irq_loop :: "(nat \<Rightarrow> nat \<Rightarrow> nat \<Rightarrow> 'a ucb1x00_scheme \<Rightarrow> 'a ucb1x00_scheme) \<Rightarrow> nat \<Rightarrow> nat \<Rightarrow> u32 \<Rightarrow> 'a ucb1x00_scheme \<Rightarrow> 'a ucb1x00_scheme" where
  "irq_loop run 0 i isr s = s"
| "irq_loop run (Suc n) i isr s =
    (if isr = 0 then s
     else irq_loop run n (i + 1) (drop_bit 1 isr) (if isr AND 1 \<noteq> 0 then call_slot run i s else s))"

definition ucb1x00_irq ::
  "ac_chip \<Rightarrow> (nat \<Rightarrow> nat \<Rightarrow> nat \<Rightarrow> 'a ucb1x00_scheme \<Rightarrow> 'a ucb1x00_scheme) \<Rightarrow> 'a ucb1x00_scheme \<Rightarrow> 'a ucb1x00_scheme" where
  "ucb1x00_irq chip run s =
    (let (isr, s1) = mcp_reg_read chip UCB_IE_STATUS s;
         s2 = mcp_reg_write UCB_IE_CLEAR isr s1; s3 = mcp_reg_write UCB_IE_CLEAR 0 s2
     in irq_loop run 16 0 isr s3)"

text \<open>
  On the UCB1400 the interrupt only disables the line and completes \<open>irq_wait\<close>; the thread serves the chip and enables the line. The
  flag of the first tells whether the interrupt was this chip's. A round of the thread is possible once there is a completion.
\<close>

definition ucb1x00_threaded_irq :: "u32 \<Rightarrow> 'a ucb1x00_scheme \<Rightarrow> bool \<times> 'a ucb1x00_scheme" where
  "ucb1x00_threaded_irq irqnr s =
    (if irqnr = irq s then (True, s\<lparr>irq_off := irq_off s + 1, irq_wait := irq_wait s + 1\<rparr>) else (False, s))"

definition ucb1x00_thread_round ::
  "ac_chip \<Rightarrow> (nat \<Rightarrow> nat \<Rightarrow> nat \<Rightarrow> 'a ucb1x00_scheme \<Rightarrow> 'a ucb1x00_scheme) \<Rightarrow> 'a ucb1x00_scheme \<Rightarrow> 'a ucb1x00_scheme option" where
  "ucb1x00_thread_round chip run s =
    (if irq_wait s = 0 then None
     else let s1 = ucb1x00_irq chip run (s\<lparr>irq_wait := irq_wait s - 1\<rparr>) in Some (s1\<lparr>irq_off := irq_off s1 - 1\<rparr>))"

definition ucb1x00_hook_irq :: "u32 \<Rightarrow> nat \<Rightarrow> nat \<Rightarrow> 'a ucb1x00_scheme \<Rightarrow> int \<times> 'a ucb1x00_scheme" where
  "ucb1x00_hook_irq idx f d s =
    (if idx < 16
     then if fn (irq_handler s ! unat idx) = None
          then (0, s\<lparr>irq_handler := (irq_handler s)[unat idx := \<lparr>fn = Some f, devid = d\<rparr>]\<rparr>)
          else (- EBUSY, s)
     else (- EINVAL, s))"

text \<open>
  Enabling and disabling a source are one step each. In the source the spin lock covers the change of the record only; the writes
  to the registers follow after it is released, and two callers could mix theirs, which is not modelled.
\<close>

definition ucb1x00_enable_irq :: "u32 \<Rightarrow> u32 \<Rightarrow> 'a ucb1x00_scheme \<Rightarrow> 'a ucb1x00_scheme" where
  "ucb1x00_enable_irq idx edges s =
    (if idx < 16
     then let b = push_bit (unat idx) 1 :: u16;
              s1 = (if edges AND UCB_RISING \<noteq> 0 then s\<lparr>irq_ris_enbl := irq_ris_enbl s OR b\<rparr> else s);
              s2 = (if edges AND UCB_FALLING \<noteq> 0 then s1\<lparr>irq_fal_enbl := irq_fal_enbl s1 OR b\<rparr> else s1);
              s3 = mcp_reg_write UCB_IE_CLEAR (push_bit (unat idx) 1) s2;
              s4 = mcp_reg_write UCB_IE_CLEAR 0 s3;
              s5 = mcp_reg_write UCB_IE_RIS (ucast (irq_ris_enbl s4)) s4
          in mcp_reg_write UCB_IE_FAL (ucast (irq_fal_enbl s5)) s5
     else s)"

definition ucb1x00_disable_irq :: "u32 \<Rightarrow> u32 \<Rightarrow> 'a ucb1x00_scheme \<Rightarrow> 'a ucb1x00_scheme" where
  "ucb1x00_disable_irq idx edges s =
    (if idx < 16
     then let b = push_bit (unat idx) 1 :: u16;
              s1 = (if edges AND UCB_RISING \<noteq> 0 then s\<lparr>irq_ris_enbl := irq_ris_enbl s AND NOT b\<rparr> else s);
              s2 = (if edges AND UCB_FALLING \<noteq> 0 then s1\<lparr>irq_fal_enbl := irq_fal_enbl s1 AND NOT b\<rparr> else s1);
              s3 = mcp_reg_write UCB_IE_RIS (ucast (irq_ris_enbl s2)) s2
          in mcp_reg_write UCB_IE_FAL (ucast (irq_fal_enbl s3)) s3
     else s)"

definition ucb1x00_free_irq :: "u32 \<Rightarrow> nat \<Rightarrow> 'a ucb1x00_scheme \<Rightarrow> int \<times> 'a ucb1x00_scheme" where
  "ucb1x00_free_irq idx d s =
    (if idx \<ge> 16 then (- EINVAL, s)
     else let b = push_bit (unat idx) 1 :: u16;
              (ret, s1) = (if devid (irq_handler s ! unat idx) = d
                then (0, s\<lparr>irq_ris_enbl := irq_ris_enbl s AND NOT b, irq_fal_enbl := irq_fal_enbl s AND NOT b,
                           irq_handler := (irq_handler s)[unat idx := \<lparr>fn = None, devid = 0\<rparr>]\<rparr>)
                else (- ENOENT, s));
              s2 = mcp_reg_write UCB_IE_RIS (ucast (irq_ris_enbl s1)) s1
          in (ret, mcp_reg_write UCB_IE_FAL (ucast (irq_fal_enbl s2)) s2))"

section \<open>Binding\<close>

text \<open>What the kernel answers, by what happened before where that matters. \<open>stops\<close> tells whether \<open>kthread_stop\<close> returns.\<close>

record ucb_env =
  kmalloc :: "uev list \<Rightarrow> bool"
  probe_on :: u32
  probe_off :: u32
  req_irq :: "u32 \<Rightarrow> int"
  run_thread :: int
  class_reg :: int
  stops :: "uev list \<Rightarrow> bool"

text \<open>The operations of a driver that binds to the chip: \<open>add\<close> and \<open>remove\<close>, by its number.\<close>

type_synonym 's drv_add = "nat \<Rightarrow> 's \<Rightarrow> int \<times> 's"
type_synonym 's drv_remove = "nat \<Rightarrow> 's \<Rightarrow> 's"

definition ucb1x00_add_dev ::
  "ucb_env \<Rightarrow> 'a ucb1x00_scheme drv_add \<Rightarrow> nat \<Rightarrow> 'a ucb1x00_scheme \<Rightarrow> int \<times> 'a ucb1x00_scheme" where
  "ucb1x00_add_dev e add drv s =
    (if \<not> kmalloc e (ac_log s) then (- ENOMEM, s)
     else let (ret, s1) = add drv (note_ev [Kmalloc] s)
          in if ret = 0 then (0, s1\<lparr>devs := drv # devs s1\<rparr>) else (ret, note_ev [Kfree] s1))"

definition ucb1x00_remove_dev :: "'a ucb1x00_scheme drv_remove \<Rightarrow> nat \<Rightarrow> 'a ucb1x00_scheme \<Rightarrow> 'a ucb1x00_scheme" where
  "ucb1x00_remove_dev remove drv s =
    (let s1 = remove drv s in note_ev [Kfree] (s1\<lparr>devs := remove1 drv (devs s1)\<rparr>))"

partial_function (option) detect_wait :: "ac_chip \<Rightarrow> 'a ac97_scheme \<Rightarrow> 'a ac97_scheme option" where
  "detect_wait chip s =
    (let (v, s1) = mcp_reg_read chip UCB_ADC_DATA s
     in if v AND UCB_ADC_DAT_VAL = 0 then detect_wait chip s1 else Some s1)"

definition ucb1x00_detect_irq :: "ac_chip \<Rightarrow> ucb_env \<Rightarrow> 'a ac97_scheme \<Rightarrow> (u32 \<times> 'a ac97_scheme) option" where
  "ucb1x00_detect_irq chip e s =
    (let s1 = note_ev [ProbeIrqOn] s in
     if probe_on e = 0 then Some (NO_IRQ, s1)
     else let s2 = fold (\<lambda>(r, v). mcp_reg_write r v)
             [(UCB_IE_RIS, UCB_IE_ADC), (UCB_IE_FAL, UCB_IE_ADC), (UCB_IE_CLEAR, 0xffff), (UCB_IE_CLEAR, 0),
              (UCB_ADC_CR, UCB_ADC_ENA), (UCB_ADC_CR, UCB_ADC_ENA OR UCB_ADC_START)] s1
          in map_option (\<lambda>s3. (probe_off e, note_ev [ProbeIrqOff]
                 (fold (\<lambda>(r, v). mcp_reg_write r v)
                   [(UCB_ADC_CR, 0), (UCB_IE_RIS, 0), (UCB_IE_FAL, 0), (UCB_IE_CLEAR, 0xffff), (UCB_IE_CLEAR, 0)] s3)))
               (detect_wait chip s2))"

text \<open>The labels \<open>err_irq\<close> and \<open>err_free\<close>.\<close>

definition stop_thread :: "ucb_env \<Rightarrow> 'a ucb1x00_scheme \<Rightarrow> 'a ucb1x00_scheme option" where
  "stop_thread e s =
    (if UCB_IS_1400 (ucast (ucb_id s)) \<and> irq_task s
     then if stops e (ac_log s) then Some (note_ev [KthreadStop] s) else None
     else Some s)"

definition err_irq :: "ucb_env \<Rightarrow> int \<Rightarrow> 'a ucb1x00_scheme \<Rightarrow> (int \<times> 'a ucb1x00_scheme) option" where
  "err_irq e ret s = map_option (\<lambda>s1. (ret, note_ev [FreeIrq (irq s1), Kfree] s1)) (stop_thread e s)"

text \<open>The rest of the probe, from the interrupt on.\<close>

definition probe_irq_on_line ::
  "ucb_env \<Rightarrow> 'a ucb1x00_scheme drv_add \<Rightarrow> u32 \<Rightarrow> u32 \<Rightarrow> 'a ucb1x00_scheme \<Rightarrow> (int \<times> 'a ucb1x00_scheme) option" where
  "probe_irq_on_line e add v q s =
    (let s4 = s\<lparr>irq := q\<rparr> in
     if q = NO_IRQ then Some (- ENODEV, note_ev [Kfree] s4)
     else if req_irq e q \<noteq> 0 then Some (req_irq e q, note_ev [Kfree] s4)
     else let s5 = note_ev [RequestIrq q] s4 in
     if UCB_IS_1400 v \<and> run_thread e \<noteq> 0 then err_irq e (run_thread e) s5
     else let s6 = (if UCB_IS_1400 v then note_ev [KthreadRun] s5\<lparr>irq_task := True\<rparr> else s5);
              s7 = note_ev [SetIrqType q, SetDrvdata] s6
     in if class_reg e \<noteq> 0 then err_irq e (class_reg e) s7
     else let s8 = note_ev [ClassRegister] s7\<lparr>ucb1x00_devices := True\<rparr>
     in Some (0, fold (\<lambda>d st. snd (ucb1x00_add_dev e add d st)) (ucb1x00_drivers s8) s8))"

definition ucb1x00_probe ::
  "ac_chip \<Rightarrow> ucb_env \<Rightarrow> 'a ucb1x00_scheme drv_add \<Rightarrow> 'a ucb1x00_scheme \<Rightarrow> (int \<times> 'a ucb1x00_scheme) option" where
  "ucb1x00_probe chip e add s =
    (let (v, s1) = mcp_reg_read chip UCB_ID s in
     if v \<noteq> UCB_ID_1200 \<and> v \<noteq> UCB_ID_1300 \<and> \<not> UCB_IS_1400 v then Some (- ENODEV, s1)
     else if \<not> kmalloc e (ac_log s1) then Some (- ENOMEM, s1)
     else let s2 = note_ev [Kmalloc] s1\<lparr>irq := 0, irq_task := False, irq_wait := 0, irq_off := 0, ucb_id := ucast v, io_dir := 0,
             io_out := 0, adc_cr := 0, irq_fal_enbl := 0, irq_ris_enbl := 0,
             irq_handler := replicate 16 \<lparr>fn = None, devid = 0\<rparr>, devs := []\<rparr>
     in case ucb1x00_detect_irq chip e s2 of None \<Rightarrow> None | Some (q, s3) \<Rightarrow> probe_irq_on_line e add v q s3)"

definition ucb1x00_remove ::
  "ucb_env \<Rightarrow> 'a ucb1x00_scheme drv_remove \<Rightarrow> 'a ucb1x00_scheme \<Rightarrow> 'a ucb1x00_scheme option" where
  "ucb1x00_remove e remove s =
    (let s1 = s\<lparr>ucb1x00_devices := False\<rparr>; s2 = fold (ucb1x00_remove_dev remove) (devs s1) s1
     in map_option (\<lambda>s3. note_ev [FreeIrq (irq s3), ClassUnregister, Kfree] s3) (stop_thread e s2))"

text \<open>The link's part: the record \<open>mcp\<close> around the chip's.\<close>

definition mcp_probe ::
  "ac_chip \<Rightarrow> ucb_env \<Rightarrow> 'a ucb1x00_scheme drv_add \<Rightarrow> 'a ucb1x00_scheme \<Rightarrow> (int \<times> 'a ucb1x00_scheme) option" where
  "mcp_probe chip e add s =
    (if \<not> kmalloc e (ac_log s) then Some (- ENOMEM, s)
     else map_option (\<lambda>(ret, s1). (ret, note_ev [if ret \<noteq> 0 then Kfree else SetDrvdata] s1))
            (ucb1x00_probe chip e add (note_ev [Kmalloc] s)))"

definition mcp_remove ::
  "ucb_env \<Rightarrow> 'a ucb1x00_scheme drv_remove \<Rightarrow> 'a ucb1x00_scheme \<Rightarrow> (int \<times> 'a ucb1x00_scheme) option" where
  "mcp_remove e remove s = map_option (\<lambda>s1. (0, note_ev [ClearDrvdata, Kfree] s1)) (ucb1x00_remove e remove s)"

definition ucb1x00_register_driver ::
  "ucb_env \<Rightarrow> 'a ucb1x00_scheme drv_add \<Rightarrow> nat \<Rightarrow> 'a ucb1x00_scheme \<Rightarrow> int \<times> 'a ucb1x00_scheme" where
  "ucb1x00_register_driver e add drv s =
    (let s1 = s\<lparr>ucb1x00_drivers := drv # ucb1x00_drivers s\<rparr>
     in (0, if ucb1x00_devices s1 then snd (ucb1x00_add_dev e add drv s1) else s1))"

definition ucb1x00_unregister_driver :: "'a ucb1x00_scheme drv_remove \<Rightarrow> nat \<Rightarrow> 'a ucb1x00_scheme \<Rightarrow> 'a ucb1x00_scheme" where
  "ucb1x00_unregister_driver remove drv s =
    (let s1 = s\<lparr>ucb1x00_drivers := remove1 drv (ucb1x00_drivers s)\<rparr>
     in if ucb1x00_devices s1 \<and> drv \<in> set (devs s1) then ucb1x00_remove_dev remove drv s1 else s1)"

section \<open>What the codec's registers hold\<close>

text \<open>The value last written to a register of the codec.\<close>

definition last_written :: "u8 \<Rightarrow> uev list \<Rightarrow> u16" where
  "last_written r l = fold (\<lambda>v w. case v of AcWrite r' x \<Rightarrow> if r' = r then x else w | _ \<Rightarrow> w) l 0"

lemma last_written_append: "last_written r (l @ [v]) = (case v of AcWrite r' x \<Rightarrow> if r' = r then x else last_written r l | _ \<Rightarrow> last_written r l)"
  by (simp add: last_written_def split: uev.split)

lemma reg_access:
  "mcp_reg_write UCB_IO_DATA v s = note_ev [AcWrite 0x5a (ucast v)] s"
  "mcp_reg_write UCB_IO_DIR v s = note_ev [AcWrite 0x5C (ucast v)] s"
  "mcp_reg_write UCB_IE_RIS v s = note_ev [AcWrite 0x5E (ucast v)] s"
  "mcp_reg_write UCB_IE_FAL v s = note_ev [AcWrite 0x60 (ucast v)] s"
  "mcp_reg_write UCB_IE_CLEAR v s = note_ev [AcWrite 0x62 (ucast v)] s"
  "mcp_reg_write UCB_ADC_CR v s = note_ev [AcWrite 0x66 (ucast v)] s"
  "mcp_reg_read chip UCB_IE_STATUS s = (ucast (chip (ac_log s) 0x62), note_ev [AcRead 0x62 (chip (ac_log s) 0x62)] s)"
  "mcp_reg_read chip UCB_ADC_DATA s = (ucast (chip (ac_log s) 0x68), note_ev [AcRead 0x68 (chip (ac_log s) 0x68)] s)"
  "mcp_reg_read chip UCB_IO_DATA s = (ucast (chip (ac_log s) 0x5a), note_ev [AcRead 0x5a (chip (ac_log s) 0x5a)] s)"
  "mcp_reg_read chip UCB_ID s = (ucast (chip (ac_log s) 0x7e), note_ev [AcRead 0x7e (chip (ac_log s) 0x7e)] s)"
  by (simp_all add: mcp_reg_write_def mcp_reg_read_def regmap_def UCB_IO_DATA_def UCB_IO_DIR_def UCB_IE_RIS_def
      UCB_IE_FAL_def UCB_IE_CLEAR_def UCB_ADC_CR_def UCB_IE_STATUS_def UCB_ADC_DATA_def UCB_ID_def Let_def)

lemma note_ev_simps [simp]:
  "ac_log (note_ev es s) = ac_log s @ es"
  "note_ev es (note_ev ds s) = note_ev (ds @ es) s"
  by (simp_all add: note_ev_def)

lemma note_ev_fields [simp]:
  "irq (note_ev es s) = irq s" "irq_task (note_ev es s) = irq_task s" "irq_wait (note_ev es s) = irq_wait s"
  "irq_off (note_ev es s) = irq_off s" "ucb_id (note_ev es s) = ucb_id s" "io_dir (note_ev es s) = io_dir s"
  "io_out (note_ev es s) = io_out s" "adc_cr (note_ev es s) = adc_cr s" "irq_fal_enbl (note_ev es s) = irq_fal_enbl s"
  "irq_ris_enbl (note_ev es s) = irq_ris_enbl s" "irq_handler (note_ev es s) = irq_handler s" "devs (note_ev es s) = devs s"
  "ucb1x00_drivers (note_ev es t) = ucb1x00_drivers t" "ucb1x00_devices (note_ev es t) = ucb1x00_devices t"
  by (simp_all add: note_ev_def)

lemma ucast_u16_32 [simp]: "ucast (ucast (x :: u16) :: u32) = x"
  by (rule bit_word_eqI) (simp add: bit_simps)

lemma is_1400: "UCB_IS_1400 (ucast (x :: u16)) \<longleftrightarrow> x = 0x4304"
proof -
  have "(ucast x :: u32) = ucast (0x4304 :: u16) \<longleftrightarrow> x = 0x4304" by (metis ucast_u16_32)
  then show ?thesis by (simp add: UCB_IS_1400_def UCB_ID_1400_def)
qed

section \<open>Waiting for the converter\<close>

text \<open>The state after \<open>n\<close> reads of the data register, and the value of read \<open>n\<close>.\<close>

definition polled :: "ac_chip \<Rightarrow> nat \<Rightarrow> 'a ac97_scheme \<Rightarrow> 'a ac97_scheme" where
  "polled chip n s = ((\<lambda>s. snd (mcp_reg_read chip UCB_ADC_DATA s)) ^^ n) s"

definition poll :: "ac_chip \<Rightarrow> nat \<Rightarrow> 'a ac97_scheme \<Rightarrow> u16" where
  "poll chip n s = chip (ac_log (polled chip n s)) 0x68"

lemma polled_Suc: "polled chip (Suc n) s = polled chip n (snd (mcp_reg_read chip UCB_ADC_DATA s))"
  by (simp add: polled_def funpow_Suc_right del: funpow.simps)

lemma poll_Suc: "poll chip (Suc n) s = poll chip n (snd (mcp_reg_read chip UCB_ADC_DATA s))"
  by (simp add: poll_def polled_Suc)

lemma valid_bit: "(ucast (x :: u16) :: u32) AND UCB_ADC_DAT_VAL \<noteq> 0 \<longleftrightarrow> bit x 15"
  by (simp add: UCB_ADC_DAT_VAL_def and_exp_eq_0_iff_not_bit push_bit_eq_mult bit_simps flip: one_word_def)
     (simp add: and_exp_eq_0_iff_not_bit [where n = 15, simplified] bit_simps)

lemma adc_wait_valid:
  "bit (poll chip n s) 15 \<Longrightarrow> (\<And>i. i < n \<Longrightarrow> \<not> bit (poll chip i s) 15) \<Longrightarrow>
    adc_wait chip s = Some (ucast (poll chip n s), polled chip (Suc n) s)"
proof (induction n arbitrary: s)
  case 0
  then show ?case
    by (subst adc_wait.simps) (simp add: reg_access Let_def poll_def polled_def valid_bit)
next
  case (Suc n)
  have "\<not> bit (poll chip 0 s) 15" using Suc.prems(2) by simp
  then have "adc_wait chip s = adc_wait chip (snd (mcp_reg_read chip UCB_ADC_DATA s))"
    by (subst adc_wait.simps) (simp add: reg_access Let_def poll_def polled_def valid_bit)
  also have "\<dots> = Some (ucast (poll chip (Suc n) s), polled chip (Suc (Suc n)) s)"
    using Suc.IH [of "snd (mcp_reg_read chip UCB_ADC_DATA s)"] Suc.prems unfolding poll_Suc polled_Suc
    by (metis Suc_less_eq poll_Suc)
  finally show ?case .
qed

lemma adc_wait_Some:
  assumes "adc_wait chip s = Some r"
  shows "\<exists>n. bit (poll chip n s) 15 \<and> (\<forall>i<n. \<not> bit (poll chip i s) 15)
    \<and> r = (ucast (poll chip n s), polled chip (Suc n) s)"
proof -
  have "\<exists>n. bit (poll chip n s) 15"
  proof (rule adc_wait.raw_induct [OF _ assms], goal_cases)
    case (1 f chip s r)
    show ?case
    proof (cases "bit (poll chip 0 s) 15")
      case False
      then have "f chip (snd (mcp_reg_read chip UCB_ADC_DATA s)) = Some r"
        using 1(2) by (simp add: reg_access Let_def poll_def polled_def valid_bit)
      from 1(1) [OF this] show ?thesis unfolding poll_Suc [symmetric] by blast
    qed blast
  qed
  then have "bit (poll chip (LEAST n. bit (poll chip n s) 15) s) 15" by (rule LeastI_ex)
  moreover have "\<not> bit (poll chip i s) 15" if "i < (LEAST n. bit (poll chip n s) 15)" for i
    using that by (rule not_less_Least)
  ultimately show ?thesis using adc_wait_valid assms by (metis option.inject)
qed

lemma adc_wait_None: "adc_wait chip s = None \<Longrightarrow> \<not> bit (poll chip n s) 15"
proof
  assume n: "adc_wait chip s = None" "bit (poll chip n s) 15"
  then obtain m where "bit (poll chip m s) 15" "\<And>i. i < m \<Longrightarrow> \<not> bit (poll chip i s) 15"
    using exists_least_iff [of "\<lambda>n. bit (poll chip n s) 15"] by blast
  from adc_wait_valid [OF this] n(1) show False by simp
qed

lemma adc_bits:
  "ucast (ucast (x :: u16) AND (0x3ff :: u32)) = x AND 0x3ff" "(ucast (x :: u16) :: u32) AND 0x3ff < 1024"
  "drop_bit 5 ((y :: u32) AND 0x7fe0) < 1024"
proof -
  show "ucast (ucast x AND (0x3ff :: u32)) = x AND 0x3ff"
    by (rule bit_word_eqI) (auto simp: bit_simps)
  show "(ucast x :: u32) AND 0x3ff < 1024"
    by (rule le_less_trans [OF word_and_le1]) simp
  have "drop_bit 5 (y AND 0x7fe0) = drop_bit 5 y AND (0x3ff :: u32)" by simp
  then show "drop_bit 5 (y AND 0x7fe0) < 1024" by (simp only:) (rule le_less_trans [OF word_and_le1], simp)
qed

text \<open>
  A conversion. After the two writes that start it, reading the converter returns if and only if the data register ever
  becomes valid, with the ten bits of the first valid value (the low ones on the UCB1400, those from bit 5 up on the other chips), one
  read after the other until then and none after.
\<close>

theorem adc_conversion:
  "let ch = (if sync then c OR UCB_ADC_SYNC_ENA else c);
       s2 = note_ev [AcWrite 0x66 (adc_cr s OR ucast ch), AcWrite 0x66 (adc_cr s OR ucast (ch OR UCB_ADC_START))] s
   in case ucb1x00_adc_read chip c sync s of
        None \<Rightarrow> (\<forall>n. \<not> bit (poll chip n s2) 15)
      | Some (v, s') \<Rightarrow> \<exists>n. bit (poll chip n s2) 15 \<and> (\<forall>i<n. \<not> bit (poll chip i s2) 15)
          \<and> v = (if ucb_id s = 0x4304 then ucast (poll chip n s2) AND 0x3ff
                 else drop_bit 5 (ucast (poll chip n s2) AND 0x7fe0))
          \<and> v < 1024 \<and> s' = polled chip (Suc n) s2"
proof -
  let ?ch = "if sync then c OR UCB_ADC_SYNC_ENA else c"
  let ?s2 = "note_ev [AcWrite 0x66 (adc_cr s OR ucast ?ch), AcWrite 0x66 (adc_cr s OR ucast (?ch OR UCB_ADC_START))] s"
  have w: "ucast (ucast (a :: u16) OR (b :: u32)) = a OR (ucast b :: u16)" for a b
    by (rule bit_word_eqI) (simp add: bit_simps)
  note i = is_1400 [of "ucb_id s"]
  have r: "ucb1x00_adc_read chip c sync s =
      map_option (\<lambda>(v, s3). (if ucb_id s = 0x4304 then v AND 0x3ff else drop_bit 5 (v AND 0x7fe0), s3)) (adc_wait chip ?s2)"
    by (simp add: ucb1x00_adc_read_def reg_access w i or.assoc Let_def)
  show ?thesis
  proof (cases "adc_wait chip ?s2")
    case None
    then show ?thesis using adc_wait_None [OF None] unfolding Let_def r by simp
  next
    case (Some x)
    then show ?thesis
      using adc_wait_Some [OF Some] adc_bits unfolding Let_def r by (auto simp: split_beta)
  qed
qed

text \<open>A fresh chip: all fields zero, the UCB1400's identity.\<close>

definition fresh_ucb :: ucb1x00 where
  "fresh_ucb = \<lparr>ac_log = [], ucb1x00_drivers = [], ucb1x00_devices = False, irq = 0, irq_task = False, irq_wait = 0,
     irq_off = 0, ucb_id = 0x4304, io_dir = 0, io_out = 0, adc_cr = 0, irq_fal_enbl = 0, irq_ris_enbl = 0,
     irq_handler = replicate 16 \<lparr>fn = None, devid = 0\<rparr>, devs = []\<rparr>"

text \<open>A converter that is valid at the first read with the value 0x123, and one that never is.\<close>

theorem adc_conversion_witness:
  "map_option fst (ucb1x00_adc_read (\<lambda>_ _. 0x8123) 8 False fresh_ucb) = Some 0x123
   \<and> ucb1x00_adc_read (\<lambda>_ _. 0x123) 8 False fresh_ucb = None"
proof -
  have p: "poll (\<lambda>_ _. x) n s = x" for x n and s :: ucb1x00 by (simp add: poll_def)
  have b: "bit (0x8123 :: u16) 15" "\<not> bit (0x123 :: u16) 15" by simp_all
  have "map_option fst (ucb1x00_adc_read (\<lambda>_ _. 0x8123) 8 False fresh_ucb) = Some 0x123"
    using adc_conversion [of False 8 fresh_ucb "\<lambda>_ _. 0x8123"] b(1)
    by (auto simp: p fresh_ucb_def Let_def split: option.splits)
  moreover have "ucb1x00_adc_read (\<lambda>_ _. 0x123) 8 False fresh_ucb = None"
    using adc_conversion [of False 8 fresh_ucb "\<lambda>_ _. 0x123"] b(2)
    by (auto simp: p Let_def split: option.splits)
  ultimately show ?thesis by simp
qed

section \<open>Dispatch\<close>

lemma irq_loop_fold: "irq_loop run n i isr s = fold (call_slot run) (filter (\<lambda>j. bit isr (j - i)) [i..<i + n]) s"
proof (induction n arbitrary: i isr s)
  case 0
  then show ?case by simp
next
  case (Suc n)
  have f: "filter (\<lambda>j. bit (drop_bit 1 isr) (j - (i + 1))) [i + 1..<i + 1 + n] = filter (\<lambda>j. bit isr (j - i)) [Suc i..<Suc i + n]"
    by (rule filter_cong) (auto simp: bit_simps Suc_diff_Suc)
  show ?case
  proof (cases "isr = 0")
    case False
    then show ?thesis
      unfolding upt_shift irq_loop.simps Suc.IH f by (simp add: and_one_bit)
  qed simp
qed

lemma ucb_irq_fold:
  "ucb1x00_irq chip run s = fold (call_slot run) (filter (bit (chip (ac_log s) 0x62)) [0..<16])
     (note_ev [AcRead 0x62 (chip (ac_log s) 0x62), AcWrite 0x62 (chip (ac_log s) 0x62), AcWrite 0x62 0] s)"
proof -
  have "filter (\<lambda>j. bit (ucast (x :: u16) :: u32) (j - 0)) [0..<0 + 16] = filter (bit x) [0..<16]" for x
    by (rule filter_cong) (auto simp: bit_simps)
  then show ?thesis by (simp only: ucb1x00_irq_def reg_access Let_def irq_loop_fold split) (simp add: note_ev_def)
qed

text \<open>
  Serving an interrupt. The core reads the status once, acknowledges exactly the sources it saw, and then calls the
  handlers of those sources that have one, each once, from the lowest up; a handler hooked or freed by an earlier one counts.
\<close>

theorem ucb_irq_dispatch:
  "let isr = chip (ac_log s) 0x62
   in ucb1x00_irq chip run s = fold (call_slot run) (filter (bit isr) [0..<16])
        (note_ev [AcRead 0x62 isr, AcWrite 0x62 isr, AcWrite 0x62 0] s)"
  unfolding Let_def by (rule ucb_irq_fold)

section \<open>The record agrees with the chip\<close>

text \<open>
  The registers the core keeps a copy of hold the copy (of the converter's register the enable bit), and there are sixteen slots. An
  unused slot has a null pointer.
\<close>

definition chip_agrees :: "'a ucb1x00_scheme \<Rightarrow> bool" where
  "chip_agrees s \<longleftrightarrow>
     last_written 0x5C (ac_log s) = io_dir s \<and> last_written 0x5a (ac_log s) = io_out s
   \<and> last_written 0x5E (ac_log s) = irq_ris_enbl s \<and> last_written 0x60 (ac_log s) = irq_fal_enbl s
   \<and> bit (last_written 0x66 (ac_log s)) 15 = bit (adc_cr s) 15 \<and> length (irq_handler s) = 16"

definition line_ok :: "'a ucb1x00_scheme \<Rightarrow> bool" where
  "line_ok s \<longleftrightarrow> irq_off s = irq_wait s \<and> irq_wait s \<le> 1"

lemma last_written_app: "last_written r (l @ l') = fold (\<lambda>v w. case v of AcWrite r' x \<Rightarrow> if r' = r then x else w | _ \<Rightarrow> w) l' (last_written r l)"
  by (simp add: last_written_def)

lemmas agree_defs = chip_agrees_def reg_access Let_def last_written_app

lemma polled_agrees: "chip_agrees s \<Longrightarrow> chip_agrees (polled chip n s)" for s :: "'a ucb1x00_scheme"
proof (induction n arbitrary: s)
  case (Suc n)
  have "chip_agrees (snd (mcp_reg_read chip UCB_ADC_DATA s))" using Suc.prems by (simp add: agree_defs)
  then show ?case unfolding polled_Suc by (rule Suc.IH)
qed (simp add: polled_def)

lemma agrees_ops:
  assumes "chip_agrees s"
  shows "chip_agrees (ucb1x00_io_set_dir i out s)" "chip_agrees (ucb1x00_io_write out c s)"
    "chip_agrees (snd (ucb1x00_io_read chip s))" "chip_agrees (ucb1x00_adc_enable s)" "chip_agrees (ucb1x00_adc_disable s)"
    "chip_agrees (snd (ucb1x00_hook_irq idx f d s))" "chip_agrees (ucb1x00_enable_irq idx edges s)"
    "chip_agrees (ucb1x00_disable_irq idx edges s)" "chip_agrees (snd (ucb1x00_free_irq idx d s))"
    "chip_agrees (snd (ucb1x00_threaded_irq n s))"
  using assms
  by (simp_all add: ucb1x00_io_set_dir_def ucb1x00_io_write_def ucb1x00_io_read_def ucb1x00_adc_enable_def
      ucb1x00_adc_disable_def ucb1x00_hook_irq_def ucb1x00_enable_irq_def ucb1x00_disable_irq_def ucb1x00_free_irq_def
      ucb1x00_threaded_irq_def agree_defs)

lemma polled_line:
  "irq_off (polled chip n s) = irq_off s" "irq_wait (polled chip n s) = irq_wait s" for s :: "'a ucb1x00_scheme"
  by (induction n arbitrary: s) (simp_all add: polled_Suc reg_access, simp_all add: polled_def)

lemma adc_read_polled:
  assumes "ucb1x00_adc_read chip c sync s = Some (v, s')"
  obtains n where "s' = polled chip (Suc n) (note_ev
    [AcWrite 0x66 (adc_cr s OR ucast (if sync then c OR UCB_ADC_SYNC_ENA else c)),
     AcWrite 0x66 (adc_cr s OR ucast ((if sync then c OR UCB_ADC_SYNC_ENA else c) OR UCB_ADC_START))] s)"
proof -
  from adc_conversion [of sync c s chip] assms that show ?thesis
    unfolding Let_def by auto
qed

lemma bit_15_low: "(c :: u32) < 128 \<Longrightarrow> \<not> bit c 15"
proof -
  assume "c < 128"
  then have "take_bit 7 (unat c) = unat c" by (intro take_bit_nat_eq_self) (simp add: word_less_nat_alt)
  then have "bit (take_bit 7 (unat c)) 15 = bit (unat c) 15" by (rule arg_cong)
  then have "\<not> bit (unat c) 15" unfolding bit_take_bit_iff by simp
  then show ?thesis by (simp add: bit_unsigned_iff)
qed

lemma adc_read_agrees:
  assumes "chip_agrees s" "c < 128" "ucb1x00_adc_read chip c sync s = Some (v, s')"
  shows "chip_agrees s'" "irq_off s' = irq_off s" "irq_wait s' = irq_wait s"
proof -
  obtain n where s': "s' = polled chip (Suc n) (note_ev
    [AcWrite 0x66 (adc_cr s OR ucast (if sync then c OR UCB_ADC_SYNC_ENA else c)),
     AcWrite 0x66 (adc_cr s OR ucast ((if sync then c OR UCB_ADC_SYNC_ENA else c) OR UCB_ADC_START))] s)"
    using adc_read_polled [OF assms(3)] .
  have "chip_agrees (note_ev
    [AcWrite 0x66 (adc_cr s OR ucast (if sync then c OR UCB_ADC_SYNC_ENA else c)),
     AcWrite 0x66 (adc_cr s OR ucast ((if sync then c OR UCB_ADC_SYNC_ENA else c) OR UCB_ADC_START))] s)"
    using assms(1) bit_15_low [OF assms(2)]
    by (simp add: agree_defs bit_simps UCB_ADC_SYNC_ENA_def UCB_ADC_START_def)
  then show "chip_agrees s'" unfolding s' by (rule polled_agrees)
  show "irq_off s' = irq_off s" "irq_wait s' = irq_wait s" by (simp_all add: s' polled_line)
qed

lemma line_ops [simp]:
  "irq_off (ucb1x00_io_set_dir i out s) = irq_off s" "irq_wait (ucb1x00_io_set_dir i out s) = irq_wait s"
  "irq_off (ucb1x00_io_write out c s) = irq_off s" "irq_wait (ucb1x00_io_write out c s) = irq_wait s"
  "irq_off (snd (ucb1x00_io_read chip s)) = irq_off s" "irq_wait (snd (ucb1x00_io_read chip s)) = irq_wait s"
  "irq_off (ucb1x00_adc_enable s) = irq_off s" "irq_wait (ucb1x00_adc_enable s) = irq_wait s"
  "irq_off (ucb1x00_adc_disable s) = irq_off s" "irq_wait (ucb1x00_adc_disable s) = irq_wait s"
  "irq_off (snd (ucb1x00_hook_irq idx f d s)) = irq_off s" "irq_wait (snd (ucb1x00_hook_irq idx f d s)) = irq_wait s"
  "irq_off (ucb1x00_enable_irq idx edges s) = irq_off s" "irq_wait (ucb1x00_enable_irq idx edges s) = irq_wait s"
  "irq_off (ucb1x00_disable_irq idx edges s) = irq_off s" "irq_wait (ucb1x00_disable_irq idx edges s) = irq_wait s"
  "irq_off (snd (ucb1x00_free_irq idx d s)) = irq_off s" "irq_wait (snd (ucb1x00_free_irq idx d s)) = irq_wait s"
  by (simp_all add: ucb1x00_io_set_dir_def ucb1x00_io_write_def ucb1x00_io_read_def ucb1x00_adc_enable_def
      ucb1x00_adc_disable_def ucb1x00_hook_irq_def ucb1x00_enable_irq_def ucb1x00_disable_irq_def ucb1x00_free_irq_def
      reg_access Let_def)

text \<open>
  The steps the chip's record goes through: calls from process context, the interrupt line, which fires only while it is enabled, and the
  thread behind it. A channel is one of the masks of \<open>ucb1x00.h\<close>, below 0x80.
\<close>

inductive ucb_step ::
  "ac_chip \<Rightarrow> (nat \<Rightarrow> nat \<Rightarrow> nat \<Rightarrow> 'a ucb1x00_scheme \<Rightarrow> 'a ucb1x00_scheme) \<Rightarrow> 'a ucb1x00_scheme \<Rightarrow> 'a ucb1x00_scheme \<Rightarrow> bool"
  for chip run where
  step_set_dir: "ucb_step chip run s (ucb1x00_io_set_dir i out s)"
| step_write: "ucb_step chip run s (ucb1x00_io_write out c s)"
| step_read: "ucb_step chip run s (snd (ucb1x00_io_read chip s))"
| step_adc_enable: "ucb_step chip run s (ucb1x00_adc_enable s)"
| step_adc_read: "c < 128 \<Longrightarrow> ucb1x00_adc_read chip c sync s = Some (v, s') \<Longrightarrow> ucb_step chip run s s'"
| step_adc_disable: "ucb_step chip run s (ucb1x00_adc_disable s)"
| step_hook: "ucb_step chip run s (snd (ucb1x00_hook_irq idx f d s))"
| step_enable: "ucb_step chip run s (ucb1x00_enable_irq idx edges s)"
| step_disable: "ucb_step chip run s (ucb1x00_disable_irq idx edges s)"
| step_free: "ucb_step chip run s (snd (ucb1x00_free_irq idx d s))"
| step_line: "irq_off s = 0 \<Longrightarrow> ucb_step chip run s (snd (ucb1x00_threaded_irq (irq s) s))"
| step_thread: "ucb1x00_thread_round chip run s = Some s' \<Longrightarrow> ucb_step chip run s s'"

text \<open>What the core asks of the handlers of its sources: they leave the record agreeing with the chip, and the line alone.\<close>

locale source_handler =
  fixes run :: "nat \<Rightarrow> nat \<Rightarrow> nat \<Rightarrow> 'a ucb1x00_scheme \<Rightarrow> 'a ucb1x00_scheme"
  assumes run_agrees: "chip_agrees s \<Longrightarrow> chip_agrees (run f i d s)"
    and run_line: "irq_off (run f i d s) = irq_off s \<and> irq_wait (run f i d s) = irq_wait s"
begin

lemma slot_keeps:
  "chip_agrees s \<Longrightarrow> chip_agrees (call_slot run i s)"
  "irq_off (call_slot run i s) = irq_off s" "irq_wait (call_slot run i s) = irq_wait s"
  by (simp_all add: call_slot_def run_agrees run_line split: option.split)

lemma slots_keep:
  "chip_agrees s \<Longrightarrow> chip_agrees (fold (call_slot run) is s)"
  "irq_off (fold (call_slot run) is s) = irq_off s" "irq_wait (fold (call_slot run) is s) = irq_wait s"
  by (induction "is" arbitrary: s) (simp_all add: slot_keeps)

lemma served_agrees: "chip_agrees s \<Longrightarrow> chip_agrees (ucb1x00_irq chip run s)"
  unfolding ucb1x00_irq_def irq_loop_fold Let_def reg_access split
  by (rule slots_keep) (simp add: agree_defs)

lemma served_line: "irq_off (ucb1x00_irq chip run s) = irq_off s" "irq_wait (ucb1x00_irq chip run s) = irq_wait s"
  unfolding ucb1x00_irq_def irq_loop_fold Let_def reg_access split slots_keep by simp_all

lemma round_keeps:
  assumes "ucb1x00_thread_round chip run s = Some s'" "chip_agrees s" "line_ok s"
  shows "chip_agrees s' \<and> line_ok s'"
proof -
  have "chip_agrees (s\<lparr>irq_wait := irq_wait s - 1\<rparr>)" using assms(2) by (simp add: chip_agrees_def)
  from served_agrees [OF this, of chip] have "chip_agrees (ucb1x00_irq chip run (s\<lparr>irq_wait := irq_wait s - 1\<rparr>))" .
  then show ?thesis
    using assms by (auto simp: ucb1x00_thread_round_def Let_def line_ok_def served_line chip_agrees_def split: if_splits)
qed

lemma step_keeps:
  assumes "ucb_step chip run s s'" "chip_agrees s" "line_ok s"
  shows "chip_agrees s' \<and> line_ok s'"
  using assms
proof cases
  case (step_adc_read c sync v)
  then show ?thesis using adc_read_agrees assms(2,3) by (metis line_ok_def)
next
  case step_line
  then show ?thesis using assms(2,3) by (simp add: line_ok_def ucb1x00_threaded_irq_def chip_agrees_def)
next
  case step_thread
  then show ?thesis using round_keeps assms(2,3) by blast
qed (use assms(2,3) in \<open>simp_all add: agrees_ops line_ok_def\<close>)

lemma reach_keeps:
  "(ucb_step chip run)\<^sup>*\<^sup>* s s' \<Longrightarrow> chip_agrees s \<Longrightarrow> line_ok s \<Longrightarrow> chip_agrees s' \<and> line_ok s'"
  by (induction rule: rtranclp_induct) (auto dest: step_keeps)

end

section \<open>What a probe holds\<close>

definition mem_of :: "uev \<Rightarrow> int" where
  "mem_of v = (case v of Kmalloc \<Rightarrow> 1 | Kfree \<Rightarrow> - 1 | _ \<Rightarrow> 0)"

definition irq_of :: "uev \<Rightarrow> int" where
  "irq_of v = (case v of RequestIrq _ \<Rightarrow> 1 | FreeIrq _ \<Rightarrow> - 1 | _ \<Rightarrow> 0)"

definition thread_of :: "uev \<Rightarrow> int" where
  "thread_of v = (case v of KthreadRun \<Rightarrow> 1 | KthreadStop \<Rightarrow> - 1 | _ \<Rightarrow> 0)"

definition class_of :: "uev \<Rightarrow> int" where
  "class_of v = (case v of ClassRegister \<Rightarrow> 1 | ClassUnregister \<Rightarrow> - 1 | _ \<Rightarrow> 0)"

definition probing_of :: "uev \<Rightarrow> int" where
  "probing_of v = (case v of ProbeIrqOn \<Rightarrow> 1 | ProbeIrqOff \<Rightarrow> - 1 | _ \<Rightarrow> 0)"

lemmas weight_defs = mem_of_def irq_of_def thread_of_def class_of_def probing_of_def

definition held :: "(uev \<Rightarrow> int) \<Rightarrow> uev list \<Rightarrow> int" where
  "held f l = sum_list (map f l)"

lemma held_ev_simps [simp]: "held f [] = 0" "held f (v # l) = f v + held f l" "held f (l @ l') = held f l + held f l'"
  by (simp_all add: held_def)

definition link_ev :: "uev \<Rightarrow> bool" where
  "link_ev v \<longleftrightarrow> (case v of AcRead _ _ \<Rightarrow> True | AcWrite _ _ \<Rightarrow> True | _ \<Rightarrow> False)"

lemma held_link: "\<forall>v \<in> set l. link_ev v \<Longrightarrow> f \<in> {mem_of, irq_of, thread_of, class_of, probing_of} \<Longrightarrow> held f l = 0"
  by (induction l) (auto simp: link_ev_def weight_defs split: uev.splits)

lemma polled_log: "\<exists>l. polled chip n s = note_ev l s \<and> (\<forall>v \<in> set l. link_ev v)"
proof (induction n arbitrary: s)
  case 0
  show ?case by (intro exI [of _ "[]"]) (simp add: polled_def note_ev_def)
next
  case (Suc n)
  let ?v = "AcRead 0x68 (chip (ac_log s) 0x68)"
  from Suc [of "note_ev [?v] s"] obtain l where
    "polled chip n (note_ev [?v] s) = note_ev l (note_ev [?v] s)" "\<forall>v \<in> set l. link_ev v" by blast
  then show ?case by (intro exI [of _ "?v # l"]) (simp add: polled_Suc reg_access link_ev_def)
qed

lemma detect_wait_polled:
  assumes "detect_wait chip s = Some s'"
  shows "\<exists>n. s' = polled chip n s"
proof (rule detect_wait.raw_induct [OF _ assms], goal_cases)
  case (1 f chip s s')
  then show ?case
    by (auto simp: Let_def split_beta split: if_splits)
       (metis polled_Suc, metis polled_Suc polled_def funpow_0)
qed

lemma detect_result:
  assumes "ucb1x00_detect_irq chip e s = Some (q, s')"
  shows "(probe_on e = 0 \<and> q = NO_IRQ \<and> s' = note_ev [ProbeIrqOn] s) \<or>
    (probe_on e \<noteq> 0 \<and> q = probe_off e \<and>
      (\<exists>l. s' = note_ev ([ProbeIrqOn] @ l @ [ProbeIrqOff]) s \<and> (\<forall>v \<in> set l. link_ev v)))"
proof (cases "probe_on e = 0")
  case False
  let ?w = "[AcWrite 0x5E (ucast UCB_IE_ADC), AcWrite 0x60 (ucast UCB_IE_ADC), AcWrite 0x62 0xffff, AcWrite 0x62 0,
    AcWrite 0x66 (ucast UCB_ADC_ENA), AcWrite 0x66 (ucast (UCB_ADC_ENA OR UCB_ADC_START))]"
  obtain s3 where s3: "detect_wait chip (note_ev (ProbeIrqOn # ?w) s) = Some s3" "q = probe_off e"
    "s' = note_ev ([AcWrite 0x66 0, AcWrite 0x5E 0, AcWrite 0x60 0, AcWrite 0x62 0xffff, AcWrite 0x62 0] @ [ProbeIrqOff]) s3"
    using assms False by (auto simp: ucb1x00_detect_irq_def reg_access Let_def)
  obtain n where "s3 = polled chip n (note_ev (ProbeIrqOn # ?w) s)" using detect_wait_polled [OF s3(1)] by blast
  then obtain l where "s3 = note_ev l (note_ev (ProbeIrqOn # ?w) s)" "\<forall>v \<in> set l. link_ev v"
    using polled_log by blast
  then show ?thesis
    using False s3(2,3)
    by (intro disjI2) (simp add: exI [of _ "?w @ l @ [AcWrite 0x66 0, AcWrite 0x5E 0, AcWrite 0x60 0, AcWrite 0x62 0xffff, AcWrite 0x62 0]"] link_ev_def)
qed (use assms in \<open>simp add: ucb1x00_detect_irq_def\<close>)

lemma polled_written: "last_written r (ac_log (polled chip n s)) = last_written r (ac_log s)"
  by (induction n arbitrary: s) (simp_all add: polled_Suc reg_access last_written_app, simp add: polled_def)

lemma detect_registers:
  assumes "ucb1x00_detect_irq chip e s = Some (q, s')" "q \<noteq> NO_IRQ"
  shows "last_written 0x5E (ac_log s') = 0" "last_written 0x60 (ac_log s') = 0" "last_written 0x66 (ac_log s') = 0"
    "last_written 0x5C (ac_log s') = last_written 0x5C (ac_log s)" "last_written 0x5a (ac_log s') = last_written 0x5a (ac_log s)"
proof -
  let ?s2 = "note_ev [ProbeIrqOn, AcWrite 0x5E (ucast UCB_IE_ADC), AcWrite 0x60 (ucast UCB_IE_ADC), AcWrite 0x62 0xffff,
    AcWrite 0x62 0, AcWrite 0x66 (ucast UCB_ADC_ENA), AcWrite 0x66 (ucast (UCB_ADC_ENA OR UCB_ADC_START))] s"
  obtain s3 where s3: "detect_wait chip ?s2 = Some s3"
    "s' = note_ev [AcWrite 0x66 0, AcWrite 0x5E 0, AcWrite 0x60 0, AcWrite 0x62 0xffff, AcWrite 0x62 0, ProbeIrqOff] s3"
    using assms by (auto simp: ucb1x00_detect_irq_def reg_access Let_def split: if_splits)
  obtain n where "s3 = polled chip n ?s2" using detect_wait_polled [OF s3(1)] by blast
  then show "last_written 0x5E (ac_log s') = 0" "last_written 0x60 (ac_log s') = 0" "last_written 0x66 (ac_log s') = 0"
    "last_written 0x5C (ac_log s') = last_written 0x5C (ac_log s)" "last_written 0x5a (ac_log s') = last_written 0x5a (ac_log s)"
    unfolding s3(2) by (simp_all add: last_written_app polled_written)
qed

lemma detect_books:
  assumes "ucb1x00_detect_irq chip e s = Some (q, s')"
  obtains l where "s' = note_ev l s" "held mem_of l = 0" "held irq_of l = 0" "held thread_of l = 0" "held class_of l = 0"
    "held probing_of l = (if probe_on e = 0 then 1 else 0)" "q = (if probe_on e = 0 then NO_IRQ else probe_off e)"
proof (cases "probe_on e = 0")
  case True
  then show ?thesis using detect_result [OF assms] that [of "[ProbeIrqOn]"] by (simp add: weight_defs)
next
  case False
  then obtain l where l: "q = probe_off e" "s' = note_ev ([ProbeIrqOn] @ l @ [ProbeIrqOff]) s" "\<forall>v \<in> set l. link_ev v"
    using detect_result [OF assms] by blast
  then show ?thesis
    using False that [of "[ProbeIrqOn] @ l @ [ProbeIrqOff]"] held_link [OF l(3)] by (simp add: weight_defs)
qed

lemma stop_thread_cases:
  "stop_thread e s = Some s' \<Longrightarrow> s' = (if UCB_IS_1400 (ucast (ucb_id s)) \<and> irq_task s then note_ev [KthreadStop] s else s)"
  by (auto simp: stop_thread_def split: if_splits)

lemma line_books:
  assumes "probe_irq_on_line e add v q s = Some (ret, s')" "ucb1x00_drivers s = []" "\<not> irq_task s" "ucast (ucb_id s) = v"
  obtains l where "ac_log s' = ac_log s @ l" "held mem_of l = (if ret = 0 then 0 else - 1)" "held irq_of l = (if ret = 0 then 1 else 0)"
    "held class_of l = (if ret = 0 then 1 else 0)" "held thread_of l = (if ret = 0 \<and> UCB_IS_1400 v then 1 else 0)"
    "held probing_of l = 0" "q = NO_IRQ \<Longrightarrow> ret = - ENODEV"
    "ret = 0 \<Longrightarrow> q \<noteq> NO_IRQ \<and> irq s' = q \<and> ucb_id s' = ucb_id s \<and> (chip_agrees s \<and> line_ok s \<longrightarrow> chip_agrees s' \<and> line_ok s')"
proof -
  have w: "last_written r (l @ [RequestIrq a]) = last_written r l" "last_written r (l @ [RequestIrq a, KthreadRun, SetIrqType b, SetDrvdata, ClassRegister]) = last_written r l"
    "last_written r (l @ [RequestIrq a, SetIrqType b, SetDrvdata, ClassRegister]) = last_written r l" for r l a b
    by (simp_all add: last_written_app)
  show ?thesis
    using assms that
    by (cases "UCB_IS_1400 v"; force simp: probe_irq_on_line_def err_irq_def Let_def weight_defs chip_agrees_def line_ok_def w
        split: if_splits dest!: stop_thread_cases)
qed

lemma probe_books:
  assumes "ucb1x00_probe chip e add s = Some (ret, s')" "ucb1x00_drivers s = []"
    "last_written 0x5C (ac_log s) = 0" "last_written 0x5a (ac_log s) = 0"
  shows "let took = (\<lambda>f. held f (ac_log s') - held f (ac_log s)); one = (\<lambda>b. if b then 1 else 0)
    in took mem_of = one (ret = 0) \<and> took irq_of = one (ret = 0) \<and> took class_of = one (ret = 0)
     \<and> took thread_of = one (ret = 0 \<and> ucb_id s' = 0x4304)
     \<and> took probing_of \<in> {0, one (probe_on e = 0 \<and> ret = - ENODEV)}
     \<and> (ret = 0 \<longrightarrow> irq s' = probe_off e \<and> chip_agrees s' \<and> line_ok s')"
proof -
  define w where "w = chip (ac_log s) 0x7e"
  define s2 where "s2 = note_ev [AcRead 0x7e w, Kmalloc] s\<lparr>irq := 0, irq_task := False, irq_wait := 0, irq_off := 0, ucb_id := w, io_dir := 0,
    io_out := 0, adc_cr := 0, irq_fal_enbl := 0, irq_ris_enbl := 0,
    irq_handler := replicate 16 \<lparr>fn = None, devid = 0\<rparr>, devs := []\<rparr>"
  consider (bad) "ret = - ENODEV" "s' = note_ev [AcRead 0x7e w] s" | (full) "ret = - ENOMEM" "s' = note_ev [AcRead 0x7e w] s"
    | (go) q s3 where "ucb1x00_detect_irq chip e s2 = Some (q, s3)" "probe_irq_on_line e add (ucast w) q s3 = Some (ret, s')"
    using assms(1)
    by (auto simp: ucb1x00_probe_def reg_access Let_def w_def s2_def split: if_splits option.splits)
  then show ?thesis
  proof cases
    case go
    obtain l where l: "s3 = note_ev l s2" "held mem_of l = 0" "held irq_of l = 0" "held thread_of l = 0" "held class_of l = 0"
      "held probing_of l = (if probe_on e = 0 then 1 else 0)" "q = (if probe_on e = 0 then NO_IRQ else probe_off e)"
      using detect_books [OF go(1)] .
    have s2: "ucb1x00_drivers s2 = []" "\<not> irq_task s2" "ac_log s2 = ac_log s @ [AcRead 0x7e w, Kmalloc]" "ucb_id s2 = w"
      using assms(2) by (simp_all add: s2_def note_ev_def)
    have s3: "ucb1x00_drivers s3 = []" "\<not> irq_task s3" "ucast (ucb_id s3) = (ucast w :: u32)" using s2 by (simp_all add: l(1))
    obtain l' where
      l': "ac_log s' = ac_log s3 @ l'" "held mem_of l' = (if ret = 0 then 0 else - 1)" "held irq_of l' = (if ret = 0 then 1 else 0)"
      "held class_of l' = (if ret = 0 then 1 else 0)" "held thread_of l' = (if ret = 0 \<and> UCB_IS_1400 (ucast w) then 1 else 0)"
      "held probing_of l' = 0" "q = NO_IRQ \<Longrightarrow> ret = - ENODEV"
      "ret = 0 \<Longrightarrow> q \<noteq> NO_IRQ \<and> irq s' = q \<and> ucb_id s' = ucb_id s3 \<and> (chip_agrees s3 \<and> line_ok s3 \<longrightarrow> chip_agrees s' \<and> line_ok s')"
      using line_books [OF go(2) s3] by blast
    have a: "chip_agrees s3 \<and> line_ok s3" if "q \<noteq> NO_IRQ"
      using detect_registers [OF go(1) that] assms(3,4) l(1)
      by (simp add: chip_agrees_def line_ok_def s2_def last_written_app)
    have i: "UCB_IS_1400 (ucast w) \<longleftrightarrow> w = 0x4304" by (rule is_1400)
    show ?thesis
      using l l' a s2 i by (auto simp: weight_defs)
  qed (simp_all add: weight_defs)
qed

text \<open>
  What a probe of the chip holds. A probe that returns 0 holds the chip's record, its interrupt, its class device and, on the
  UCB1400, its thread, and the record agrees with the chip; a probe that returns an error has given back all of them. One thing it
  does not give back: when the kernel offers no interrupt line for probing, the probing is never ended.
\<close>

theorem ucb_probe_books:
  assumes "ucb1x00_probe chip e add s = Some (ret, s')" "ucb1x00_drivers s = []"
    "last_written 0x5C (ac_log s) = 0" "last_written 0x5a (ac_log s) = 0"
  shows "let took = (\<lambda>f. held f (ac_log s') - held f (ac_log s)); one = (\<lambda>b. if b then 1 else 0)
    in took mem_of = one (ret = 0) \<and> took irq_of = one (ret = 0) \<and> took class_of = one (ret = 0)
     \<and> took thread_of = one (ret = 0 \<and> ucb_id s' = 0x4304)
     \<and> took probing_of \<in> {0, one (probe_on e = 0 \<and> ret = - ENODEV)}
     \<and> (ret = 0 \<longrightarrow> irq s' = probe_off e \<and> chip_agrees s' \<and> line_ok s')"
  by (rule probe_books [OF assms])

text \<open>A UCB1400 whose converter is always valid, in a kernel that grants everything.\<close>

definition chip1400 :: ac_chip where
  "chip1400 l r = (if r = 0x7e then 0x4304 else 0x8000)"

definition granting :: ucb_env where
  "granting = \<lparr>kmalloc = (\<lambda>_. True), probe_on = 3, probe_off = 100, req_irq = (\<lambda>_. 0), run_thread = 0, class_reg = 0, stops = (\<lambda>_. True)\<rparr>"

lemma detect_chip1400:
  "ucb1x00_detect_irq chip1400 e s = (if probe_on e = 0 then Some (NO_IRQ, note_ev [ProbeIrqOn] s)
    else Some (probe_off e, note_ev ([ProbeIrqOn, AcWrite 0x5E 0x800, AcWrite 0x60 0x800, AcWrite 0x62 0xffff, AcWrite 0x62 0,
      AcWrite 0x66 0x8000, AcWrite 0x66 0x8080, AcRead 0x68 0x8000, AcWrite 0x66 0, AcWrite 0x5E 0, AcWrite 0x60 0,
      AcWrite 0x62 0xffff, AcWrite 0x62 0, ProbeIrqOff]) s))"
  by (simp add: ucb1x00_detect_irq_def reg_access Let_def, subst detect_wait.simps)
     (simp add: reg_access Let_def chip1400_def UCB_ADC_DAT_VAL_def UCB_IE_ADC_def UCB_ADC_ENA_def UCB_ADC_START_def)

theorem ucb_probe_books_witness:
  "\<exists>s'. ucb1x00_probe chip1400 (granting\<lparr>class_reg := - 12\<rparr>) (\<lambda>_ s. (0, s)) fresh_ucb = Some (- 12, s')
    \<and> held mem_of (ac_log s') = 0 \<and> held irq_of (ac_log s') = 0 \<and> held thread_of (ac_log s') = 0"
proof -
  let ?e = "granting\<lparr>class_reg := - 12\<rparr>"
  obtain s' where s': "ucb1x00_probe chip1400 ?e (\<lambda>_ s. (0, s)) fresh_ucb = Some (- 12, s')"
    by (simp add: ucb1x00_probe_def reg_access detect_chip1400 probe_irq_on_line_def err_irq_def stop_thread_def granting_def
        fresh_ucb_def chip1400_def NO_IRQ_def UCB_IS_1400_def UCB_ID_1400_def UCB_ID_1200_def UCB_ID_1300_def Let_def)
  then show ?thesis
    using ucb_probe_books [OF s'] by (simp add: fresh_ucb_def Let_def last_written_def)
qed

end
