(* ===== verification/Input.thy ===== *)
theory Input
  imports Prelude
begin

text \<open>
  The input core as the touch driver and its reader meet it, \<open>linux/drivers/input/input.c\<close>: the filter every event of a device passes
  (\<open>input_event\<close>), with the report functions of \<open>linux/include/linux/input.h\<close>. A bit field of a device is a set
  of numbers; calls back into the device (\<open>dev->event\<close>) and the arming of its repeat timer are recorded. Event
  values are \<open>int\<close>; the ones that occur are far from its bounds.
\<close>

definition EV_SYN :: nat where "EV_SYN = 0x00"
definition EV_KEY :: nat where "EV_KEY = 0x01"
definition EV_REL :: nat where "EV_REL = 0x02"
definition EV_ABS :: nat where "EV_ABS = 0x03"
definition EV_MSC :: nat where "EV_MSC = 0x04"
definition EV_SW :: nat where "EV_SW = 0x05"
definition EV_LED :: nat where "EV_LED = 0x11"
definition EV_SND :: nat where "EV_SND = 0x12"
definition EV_REP :: nat where "EV_REP = 0x14"
definition EV_FF :: nat where "EV_FF = 0x15"
definition EV_MAX :: nat where "EV_MAX = 0x1f"
definition SYN_REPORT :: nat where "SYN_REPORT = 0"
definition SYN_CONFIG :: nat where "SYN_CONFIG = 1"
definition KEY_MAX :: nat where "KEY_MAX = 0x1ff"
definition REL_MAX :: nat where "REL_MAX = 0x0f"
definition ABS_MAX :: nat where "ABS_MAX = 0x3f"
definition SW_MAX :: nat where "SW_MAX = 0x0f"
definition MSC_MAX :: nat where "MSC_MAX = 0x07"
definition LED_MAX :: nat where "LED_MAX = 0x0f"
definition SND_MAX :: nat where "SND_MAX = 0x07"
definition REP_MAX :: nat where "REP_MAX = 0x01"
definition REP_DELAY :: nat where "REP_DELAY = 0x00"
definition REP_PERIOD :: nat where "REP_PERIOD = 0x01"
definition ABS_X :: nat where "ABS_X = 0x00"
definition ABS_Y :: nat where "ABS_Y = 0x01"
definition ABS_PRESSURE :: nat where "ABS_PRESSURE = 0x18"
definition REL_X :: nat where "REL_X = 0x00"
definition REL_Y :: nat where "REL_Y = 0x01"
definition BTN_MOUSE :: nat where "BTN_MOUSE = 0x110"
definition BTN_TOUCH :: nat where "BTN_TOUCH = 0x14a"

record input_dev =
  evbit :: "nat set"
  keybit :: "nat set"
  relbit :: "nat set"
  absbit :: "nat set"
  mscbit :: "nat set"
  ledbit :: "nat set"
  sndbit :: "nat set"
  swbit :: "nat set"
  key :: "nat set"
  led :: "nat set"
  sw :: "nat set"
  rep :: "nat \<Rightarrow> int"
  abs_val :: "nat \<Rightarrow> int"
  absmin :: "nat \<Rightarrow> int"
  absmax :: "nat \<Rightarrow> int"
  absfuzz :: "nat \<Rightarrow> int"
  absflat :: "nat \<Rightarrow> int"
  sync :: bool
  repeat_key :: nat
  timer_data :: bool
  timer_armed :: bool
  has_event :: bool
  event_calls :: "(nat \<times> nat \<times> int) list"

definition flip_bit_in :: "nat \<Rightarrow> nat set \<Rightarrow> nat set" where
  "flip_bit_in i a = (if i \<in> a then a - {i} else insert i a)"

definition dev_event :: "nat \<Rightarrow> nat \<Rightarrow> int \<Rightarrow> input_dev \<Rightarrow> input_dev" where
  "dev_event type code value d = (if has_event d then d\<lparr>event_calls := event_calls d @ [(type, code, value)]\<rparr> else d)"

text \<open>\<open>!!test_bit(code, a) == value\<close>.\<close>

definition bit_is :: "nat \<Rightarrow> nat set \<Rightarrow> int \<Rightarrow> bool" where
  "bit_is code a value \<longleftrightarrow> (if code \<in> a then 1 else 0) = value"

text \<open>The three windows around the old value, one after the other; \<open>None\<close> drops the event.\<close>

definition defuzz :: "int \<Rightarrow> int \<Rightarrow> int \<Rightarrow> int option" where
  "defuzz old fuzz value =
    (if fuzz = 0 then Some value
     else if value > old - drop_bit 1 fuzz \<and> value < old + drop_bit 1 fuzz then None
     else let v1 = (if value > old - fuzz \<and> value < old + fuzz then drop_bit 2 (old * 3 + value) else value)
          in Some (if v1 > old - push_bit 1 fuzz \<and> v1 < old + push_bit 1 fuzz then drop_bit 1 (old + v1) else v1))"

text \<open>The \<open>switch\<close> of \<open>input_event\<close>: the device after it and the value that goes on, if any does.\<close>

definition input_filter :: "input_dev \<Rightarrow> nat \<Rightarrow> nat \<Rightarrow> int \<Rightarrow> input_dev \<times> int option" where
  "input_filter d type code value =
    (if type = EV_SYN then
       if code = SYN_CONFIG then (dev_event type code value d, Some value)
       else if code = SYN_REPORT then (if sync d then (d, None) else (d\<lparr>sync := True\<rparr>, Some value))
       else (d, Some value)
     else if type = EV_KEY then
       if code > KEY_MAX \<or> code \<notin> keybit d \<or> bit_is code (key d) value then (d, None)
       else if value = 2 then (d, Some value)
       else let d1 = d\<lparr>key := flip_bit_in code (key d)\<rparr>
            in (if EV_REP \<in> evbit d1 \<and> rep d1 REP_PERIOD \<noteq> 0 \<and> rep d1 REP_DELAY \<noteq> 0 \<and> timer_data d1 \<and> value \<noteq> 0
                then d1\<lparr>repeat_key := code, timer_armed := True\<rparr> else d1, Some value)
     else if type = EV_SW then
       if code > SW_MAX \<or> code \<notin> swbit d \<or> bit_is code (sw d) value then (d, None)
       else (d\<lparr>sw := flip_bit_in code (sw d)\<rparr>, Some value)
     else if type = EV_ABS then
       if code > ABS_MAX \<or> code \<notin> absbit d then (d, None)
       else (case defuzz (abs_val d code) (absfuzz d code) value of None \<Rightarrow> (d, None)
             | Some v \<Rightarrow> if abs_val d code = v then (d, None) else (d\<lparr>abs_val := (abs_val d)(code := v)\<rparr>, Some v))
     else if type = EV_REL then
       if code > REL_MAX \<or> code \<notin> relbit d \<or> value = 0 then (d, None) else (d, Some value)
     else if type = EV_MSC then
       if code > MSC_MAX \<or> code \<notin> mscbit d then (d, None) else (dev_event type code value d, Some value)
     else if type = EV_LED then
       if code > LED_MAX \<or> code \<notin> ledbit d \<or> bit_is code (led d) value then (d, None)
       else (dev_event type code value (d\<lparr>led := flip_bit_in code (led d)\<rparr>), Some value)
     else if type = EV_SND then
       if code > SND_MAX \<or> code \<notin> sndbit d then (d, None) else (dev_event type code value d, Some value)
     else if type = EV_REP then
       if code > REP_MAX \<or> value < 0 \<or> rep d code = value then (d, None)
       else (dev_event type code value (d\<lparr>rep := (rep d)(code := value)\<rparr>), Some value)
     else if type = EV_FF then (dev_event type code value d, Some value)
     else (d, Some value))"

text \<open>The device afterwards and the value handed to the open handlers, if any.\<close>

definition input_event :: "input_dev \<Rightarrow> nat \<Rightarrow> nat \<Rightarrow> int \<Rightarrow> input_dev \<times> int option" where
  "input_event d type code value =
    (if type > EV_MAX \<or> type \<notin> evbit d then (d, None)
     else case input_filter d type code value of (d1, None) \<Rightarrow> (d1, None)
          | (d1, Some v) \<Rightarrow> (if type \<noteq> EV_SYN then d1\<lparr>sync := False\<rparr> else d1, Some v))"

definition input_set_abs_params :: "nat \<Rightarrow> int \<Rightarrow> int \<Rightarrow> int \<Rightarrow> int \<Rightarrow> input_dev \<Rightarrow> input_dev" where
  "input_set_abs_params axis lo hi fuzz flat d =
    d\<lparr>absmin := (absmin d)(axis := lo), absmax := (absmax d)(axis := hi), absfuzz := (absfuzz d)(axis := fuzz),
      absflat := (absflat d)(axis := flat), absbit := insert axis (absbit d)\<rparr>"

text \<open>A device as \<open>input_allocate_device\<close> makes it, all zero.\<close>

definition blank_input_dev :: input_dev where
  "blank_input_dev = \<lparr>evbit = {}, keybit = {}, relbit = {}, absbit = {}, mscbit = {}, ledbit = {}, sndbit = {}, swbit = {},
     key = {}, led = {}, sw = {}, rep = (\<lambda>_. 0), abs_val = (\<lambda>_. 0), absmin = (\<lambda>_. 0), absmax = (\<lambda>_. 0), absfuzz = (\<lambda>_. 0),
     absflat = (\<lambda>_. 0), sync = False, repeat_key = 0, timer_data = False, timer_armed = False, has_event = False, event_calls = []\<rparr>"

end
