(* ===== verification/Touch.thy ===== *)
theory Touch
  imports Ucb Input "HOL-Library.Signed_Division"
begin

text \<open>
  The touch screen driver \<open>linux/drivers/mfd/ucb1x00-ts.c\<close> on the core of \<open>Ucb\<close> and the filter of \<open>Input\<close>: the table of panels, the
  map from samples to pixels, the measurements, the thread with its wait for the pen, open and close, binding. It is the
  configuration of the board: not the machine "collie", no \<open>CONFIG_CREATOR_PXA270_UCB1400_A2D_ENABLE\<close>, built as a module. The record \<open>touch\<close>
  extends the chip's by the driver's own and by the thread's position. Delays are left out, and so is freezing the thread.
\<close>

section \<open>Panels\<close>

definition UCB_IRQ_TSPX :: u32 where "UCB_IRQ_TSPX = 12"
definition UCB_TS_CR :: u32 where "UCB_TS_CR = 0x09"
definition UCB_TS_CR_TSMX_POW :: u32 where "UCB_TS_CR_TSMX_POW = push_bit 0 1"
definition UCB_TS_CR_TSPX_POW :: u32 where "UCB_TS_CR_TSPX_POW = push_bit 1 1"
definition UCB_TS_CR_TSPY_POW :: u32 where "UCB_TS_CR_TSPY_POW = push_bit 3 1"
definition UCB_TS_CR_TSMX_GND :: u32 where "UCB_TS_CR_TSMX_GND = push_bit 4 1"
definition UCB_TS_CR_TSMY_GND :: u32 where "UCB_TS_CR_TSMY_GND = push_bit 6 1"
definition UCB_TS_CR_TSPY_GND :: u32 where "UCB_TS_CR_TSPY_GND = push_bit 7 1"
definition UCB_TS_CR_MODE_INT :: u32 where "UCB_TS_CR_MODE_INT = push_bit 8 0"
definition UCB_TS_CR_MODE_PRES :: u32 where "UCB_TS_CR_MODE_PRES = push_bit 8 1"
definition UCB_TS_CR_MODE_POS :: u32 where "UCB_TS_CR_MODE_POS = push_bit 8 2"
definition UCB_TS_CR_BIAS_ENA :: u32 where "UCB_TS_CR_BIAS_ENA = push_bit 11 1"
definition UCB_TS_CR_TSPX_LOW :: u32 where "UCB_TS_CR_TSPX_LOW = push_bit 12 1"
definition UCB_TS_CR_TSMX_LOW :: u32 where "UCB_TS_CR_TSMX_LOW = push_bit 13 1"
definition UCB_ADC_INP_TSPX :: u32 where "UCB_ADC_INP_TSPX = push_bit 2 0"
definition UCB_ADC_INP_TSPY :: u32 where "UCB_ADC_INP_TSPY = push_bit 2 2"

definition TS_SWAP_NONE :: u16 where "TS_SWAP_NONE = 0x00"
definition TS_SWAP_X_Y :: u16 where "TS_SWAP_X_Y = 0x01"
definition TS_SWAP_X_MIN_MAX :: u16 where "TS_SWAP_X_MIN_MAX = 0x02"
definition TS_SWAP_Y_MIN_MAX :: u16 where "TS_SWAP_Y_MIN_MAX = 0x04"
definition TS_TYPE_0 :: u16 where "TS_TYPE_0 = TS_SWAP_NONE"
definition TS_TYPE_1 :: u16 where "TS_TYPE_1 = TS_SWAP_X_Y"
definition TS_TYPE_4 :: u16 where "TS_TYPE_4 = TS_SWAP_Y_MIN_MAX"
definition TS_TYPE_7 :: u16 where "TS_TYPE_7 = TS_SWAP_X_Y OR TS_SWAP_X_MIN_MAX OR TS_SWAP_Y_MIN_MAX"

record mtlcd_info =
  xres :: u16
  yres :: u16
  min_x :: u16
  min_y :: u16
  adc_max_x :: u16
  adc_max_y :: u16
  lcdtype :: "string option"
  ts_convert_type :: u16

definition MT_LCD :: "mtlcd_info list" where
  "MT_LCD =
    [\<lparr>xres = 240, yres = 320, min_x = 80, min_y = 100, adc_max_x = 960, adc_max_y = 930, lcdtype = Some ''MTLCD-0283224'', ts_convert_type = TS_TYPE_7\<rparr>,
     \<lparr>xres = 240, yres = 320, min_x = 90, min_y = 100, adc_max_x = 950, adc_max_y = 970, lcdtype = Some ''MTLCD-0353224'', ts_convert_type = TS_TYPE_4\<rparr>,
     \<lparr>xres = 640, yres = 480, min_x = 16, min_y = 80, adc_max_x = 965, adc_max_y = 900, lcdtype = Some ''MTLCD-1046448'', ts_convert_type = TS_TYPE_0\<rparr>,
     \<lparr>xres = 320, yres = 240, min_x = 60, min_y = 68, adc_max_x = 965, adc_max_y = 940, lcdtype = Some ''MTLCD-0353224A'', ts_convert_type = TS_TYPE_4\<rparr>,
     \<lparr>xres = 800, yres = 480, min_x = 140, min_y = 55, adc_max_x = 900, adc_max_y = 999, lcdtype = Some ''MTLCD-0708048'', ts_convert_type = TS_TYPE_1\<rparr>,
     \<lparr>xres = 0, yres = 0, min_x = 0, min_y = 0, adc_max_x = 0, adc_max_y = 0, lcdtype = None, ts_convert_type = 0\<rparr>]"

section \<open>State\<close>

text \<open>
  Where the thread is: at the test of its loop, asleep between measuring and deciding with its three samples, waiting for the pen, in the
  pause after a sample, gone.
\<close>

datatype ts_pc = LoopHead | Measured u32 u32 u32 | WaitPen | Pause | Exited

text \<open>
  \<open>ts_wait\<close> counts the completions of \<open>ts->irq_wait\<close>, \<open>stop_asked\<close> is the request of \<open>kthread_stop\<close>, \<open>handle_open\<close> whether the
  handler's handle is open, and \<open>handed_on\<close> what the handler was given, latest last.
\<close>

record touch = ucb1x00 +
  idev :: input_dev
  ts_wait :: nat
  rtask :: bool
  x_res :: u16
  y_res :: u16
  restart :: bool
  adcsync :: bool
  pMTLCD :: "mtlcd_info option"
  touch_convert_type :: u16
  select_lcd_index :: int
  pc :: ts_pc
  valid :: bool
  stop_asked :: bool
  handle_open :: bool
  handed_on :: "(nat \<times> nat \<times> int) list"

section \<open>Reports\<close>

definition report :: "nat \<Rightarrow> nat \<Rightarrow> int \<Rightarrow> touch \<Rightarrow> touch" where
  "report type code value s =
    (let (d, v) = input_event (idev s) type code value
     in s\<lparr>idev := d, handed_on := (case v of Some w \<Rightarrow> if handle_open s then handed_on s @ [(type, code, w)] else handed_on s
                                        | None \<Rightarrow> handed_on s)\<rparr>)"

definition input_report_abs :: "nat \<Rightarrow> int \<Rightarrow> touch \<Rightarrow> touch" where
  "input_report_abs code value s = report EV_ABS code value s"

definition input_sync :: "touch \<Rightarrow> touch" where
  "input_sync s = report EV_SYN SYN_REPORT 0 s"

text \<open>The panel chosen; outside the table (\<open>None\<close>) nothing is known of what is read.\<close>

definition ts_option :: "touch \<Rightarrow> touch option" where
  "ts_option s =
    (if select_lcd_index s < 0 \<or> select_lcd_index s \<ge> int (length MT_LCD) then None
     else let p = MT_LCD ! nat (select_lcd_index s); i = (\<lambda>w. uint (w :: u16));
              range = (if ts_convert_type p AND TS_SWAP_X_Y \<noteq> 0
                then input_set_abs_params ABS_Y (i (min_x p)) (i (adc_max_x p)) 0 0 \<circ>
                     input_set_abs_params ABS_X (i (min_y p)) (i (adc_max_y p)) 0 0
                else input_set_abs_params ABS_Y (i (min_y p)) (i (adc_max_y p)) 0 0 \<circ>
                     input_set_abs_params ABS_X (i (min_x p)) (i (adc_max_x p)) 0 0)
          in Some (s\<lparr>touch_convert_type := ts_convert_type p, pMTLCD := Some p, idev := range (idev s)\<rparr>))"

text \<open>The pixel of a sample. The products and quotients are \<open>int\<close>, everything stored is sixteen bits.\<close>

definition ts_pixel :: "u16 \<Rightarrow> mtlcd_info \<Rightarrow> u16 \<Rightarrow> u16 \<Rightarrow> u16 \<times> u16" where
  "ts_pixel ty p x0 y0 =
    (let x = (if x0 > adc_max_x p then adc_max_x p else x0); y = (if y0 > adc_max_y p then adc_max_y p else y0);
         x = (if x \<le> min_x p then 0 else x - min_x p); y = (if y \<le> min_y p then 0 else y - min_y p);
         scale = (\<lambda>v res hi lo. word_of_int ((uint (v :: u16) * uint (res :: u16)) sdiv (uint (hi :: u16) - uint (lo :: u16))) :: u16);
         (x1, y1) = (if ty AND TS_SWAP_X_Y \<noteq> 0
           then (scale y (xres p) (adc_max_y p) (min_y p), scale x (yres p) (adc_max_x p) (min_x p))
           else (scale x (xres p) (adc_max_x p) (min_x p), scale y (yres p) (adc_max_y p) (min_y p)));
         x1 = (if ty AND TS_SWAP_X_MIN_MAX \<noteq> 0 then xres p - x1 else x1);
         y1 = (if ty AND TS_SWAP_Y_MIN_MAX \<noteq> 0 then yres p - y1 else y1)
     in (x1, y1))"

text \<open>Opening sets the panel before the thread that reports can run.\<close>

definition ucb1x00_ts_evt_add :: "u16 \<Rightarrow> u16 \<Rightarrow> u16 \<Rightarrow> touch \<Rightarrow> touch" where
  "ucb1x00_ts_evt_add pressure x y s =
    (case pMTLCD s of None \<Rightarrow> s
     | Some p \<Rightarrow> let (x1, y1) = ts_pixel (touch_convert_type s) p x y
         in input_sync (input_report_abs ABS_PRESSURE (uint pressure)
              (input_report_abs ABS_Y (uint y1) (input_report_abs ABS_X (uint x1) s))))"

definition ucb1x00_ts_event_release :: "touch \<Rightarrow> touch" where
  "ucb1x00_ts_event_release s = input_sync (input_report_abs ABS_PRESSURE 0 s)"

section \<open>Measuring\<close>

definition ucb1x00_ts_mode_int :: "touch \<Rightarrow> touch" where
  "ucb1x00_ts_mode_int s = mcp_reg_write UCB_TS_CR
     (UCB_TS_CR_TSMX_POW OR UCB_TS_CR_TSPX_POW OR UCB_TS_CR_TSMY_GND OR UCB_TS_CR_TSPY_GND OR UCB_TS_CR_MODE_INT) s"

definition ucb1x00_ts_read_pressure :: "ac_chip \<Rightarrow> touch \<Rightarrow> (u32 \<times> touch) option" where
  "ucb1x00_ts_read_pressure chip s =
    (let s1 = mcp_reg_write UCB_TS_CR (UCB_TS_CR_TSMX_POW OR UCB_TS_CR_TSPX_POW OR UCB_TS_CR_TSMY_GND OR UCB_TS_CR_TSPY_GND OR
           UCB_TS_CR_MODE_PRES OR UCB_TS_CR_BIAS_ENA) s
     in ucb1x00_adc_read chip UCB_ADC_INP_TSPY (adcsync s1) s1)"

definition ucb1x00_ts_read_xpos :: "ac_chip \<Rightarrow> touch \<Rightarrow> (u32 \<times> touch) option" where
  "ucb1x00_ts_read_xpos chip s =
    (let pres = UCB_TS_CR_TSMX_GND OR UCB_TS_CR_TSPX_POW OR UCB_TS_CR_MODE_PRES OR UCB_TS_CR_BIAS_ENA;
         s1 = mcp_reg_write UCB_TS_CR pres s; s2 = mcp_reg_write UCB_TS_CR pres s1;
         s3 = mcp_reg_write UCB_TS_CR (UCB_TS_CR_TSMX_GND OR UCB_TS_CR_TSPX_POW OR UCB_TS_CR_MODE_POS OR UCB_TS_CR_BIAS_ENA) s2
     in ucb1x00_adc_read chip UCB_ADC_INP_TSPY (adcsync s3) s3)"

definition ucb1x00_ts_read_ypos :: "ac_chip \<Rightarrow> touch \<Rightarrow> (u32 \<times> touch) option" where
  "ucb1x00_ts_read_ypos chip s =
    (let pres = UCB_TS_CR_TSMY_GND OR UCB_TS_CR_TSPY_POW OR UCB_TS_CR_MODE_PRES OR UCB_TS_CR_BIAS_ENA;
         s1 = mcp_reg_write UCB_TS_CR pres s; s2 = mcp_reg_write UCB_TS_CR pres s1;
         s3 = mcp_reg_write UCB_TS_CR (UCB_TS_CR_TSMY_GND OR UCB_TS_CR_TSPY_POW OR UCB_TS_CR_MODE_POS OR UCB_TS_CR_BIAS_ENA) s2
     in ucb1x00_adc_read chip UCB_ADC_INP_TSPX (adcsync s3) s3)"

definition ucb1x00_ts_read_xres :: "ac_chip \<Rightarrow> touch \<Rightarrow> (u32 \<times> touch) option" where
  "ucb1x00_ts_read_xres chip s =
    (let s1 = mcp_reg_write UCB_TS_CR (UCB_TS_CR_TSMX_GND OR UCB_TS_CR_TSPX_POW OR UCB_TS_CR_MODE_PRES OR UCB_TS_CR_BIAS_ENA) s
     in ucb1x00_adc_read chip 0 (adcsync s1) s1)"

definition ucb1x00_ts_read_yres :: "ac_chip \<Rightarrow> touch \<Rightarrow> (u32 \<times> touch) option" where
  "ucb1x00_ts_read_yres chip s =
    (let s1 = mcp_reg_write UCB_TS_CR (UCB_TS_CR_TSMY_GND OR UCB_TS_CR_TSPY_POW OR UCB_TS_CR_MODE_PRES OR UCB_TS_CR_BIAS_ENA) s
     in ucb1x00_adc_read chip 0 (adcsync s1) s1)"

text \<open>Its value is true when the pen is up.\<close>

definition ucb1x00_ts_pen_down :: "ac_chip \<Rightarrow> touch \<Rightarrow> bool \<times> touch" where
  "ucb1x00_ts_pen_down chip s =
    (let (val, s1) = mcp_reg_read chip UCB_TS_CR s
     in (val AND (UCB_TS_CR_TSPX_LOW OR UCB_TS_CR_TSMX_LOW) \<noteq> 0, s1))"

section \<open>The thread\<close>

definition ts_measure :: "ac_chip \<Rightarrow> touch \<Rightarrow> touch option" where
  "ts_measure chip s =
    (case ucb1x00_ts_read_xpos chip (ucb1x00_adc_enable (s\<lparr>restart := False\<rparr>)) of None \<Rightarrow> None
     | Some (x, s1) \<Rightarrow> case ucb1x00_ts_read_ypos chip s1 of None \<Rightarrow> None
     | Some (y, s2) \<Rightarrow> case ucb1x00_ts_read_pressure chip s2 of None \<Rightarrow> None
     | Some (p, s3) \<Rightarrow> Some ((ucb1x00_adc_disable (ucb1x00_ts_mode_int s3))\<lparr>pc := Measured x y p\<rparr>))"

definition ts_decide :: "ac_chip \<Rightarrow> u32 \<Rightarrow> u32 \<Rightarrow> u32 \<Rightarrow> touch \<Rightarrow> touch" where
  "ts_decide chip x y p s =
    (let (up, s1) = ucb1x00_ts_pen_down chip s
     in if up
        then let s2 = ucb1x00_enable_irq UCB_IRQ_TSPX UCB_FALLING s1;
                 s3 = (if valid s2 then (ucb1x00_ts_event_release s2)\<lparr>valid := False\<rparr> else s2)
             in s3\<lparr>pc := WaitPen\<rparr>
        else let s2 = (if \<not> restart s1 then (ucb1x00_ts_evt_add (ucast p) (ucast x) (ucast y) s1)\<lparr>valid := True\<rparr> else s1)
             in s2\<lparr>pc := Pause\<rparr>)"

text \<open>
  The thread runs from one place where it sleeps to the next. \<open>None\<close>: it cannot go on, because it waits for the pen, has exited, or
  spins on the converter. Waking it does not end \<open>wait_for_completion_interruptible\<close> (\<open>linux/kernel/sched.c\<close>), which tests
  the count again.
\<close>

definition ts_thread :: "ac_chip \<Rightarrow> touch \<Rightarrow> touch option" where
  "ts_thread chip s =
    (case pc s of
       LoopHead \<Rightarrow> if stop_asked s then Some (s\<lparr>rtask := False, pc := Exited\<rparr>) else ts_measure chip s
     | Measured x y p \<Rightarrow> Some (ts_decide chip x y p s)
     | WaitPen \<Rightarrow> if ts_wait s = 0 then None else Some (s\<lparr>ts_wait := ts_wait s - 1, pc := LoopHead\<rparr>)
     | Pause \<Rightarrow> Some (s\<lparr>pc := LoopHead\<rparr>)
     | Exited \<Rightarrow> None)"

definition ucb1x00_ts_irq :: "touch \<Rightarrow> touch" where
  "ucb1x00_ts_irq s = (let s1 = ucb1x00_disable_irq UCB_IRQ_TSPX UCB_FALLING s in s1\<lparr>ts_wait := ts_wait s1 + 1\<rparr>)"

text \<open>The one handler there is, by its number, and the pointer to the driver's record.\<close>

definition TS_IRQ :: nat where "TS_IRQ = 0"
definition TS_PTR :: nat where "TS_PTR = 1"

definition touch_run :: "nat \<Rightarrow> nat \<Rightarrow> nat \<Rightarrow> touch \<Rightarrow> touch" where
  "touch_run f i d s = (if f = TS_IRQ then ucb1x00_ts_irq s else s)"

definition ucb1x00_ts_resume :: "touch \<Rightarrow> int \<times> touch" where
  "ucb1x00_ts_resume s = (0, if rtask s then s\<lparr>restart := True, ts_wait := ts_wait s + 1\<rparr> else s)"

section \<open>Open and close\<close>

text \<open>
  Opening: an outcome with the result and the new state, or one that reads outside the panel table, trips over the \<open>BUG_ON\<close>, or
  spins on the converter. \<open>run_ok\<close> tells whether the thread could be started.
\<close>

datatype open_outcome = Opened int touch | OutsideTable | BugOn | Spins

definition ucb1x00_ts_open :: "ac_chip \<Rightarrow> bool \<Rightarrow> touch \<Rightarrow> open_outcome" where
  "ucb1x00_ts_open chip run_ok s =
    (if rtask s then BugOn
     else case ts_option s of None \<Rightarrow> OutsideTable
     | Some s1 \<Rightarrow> let (ret, s2) = ucb1x00_hook_irq UCB_IRQ_TSPX TS_IRQ TS_PTR (s1\<lparr>ts_wait := 0\<rparr>) in
       if ret < 0 then Opened ret s2
       else case ucb1x00_ts_read_xres chip (ucb1x00_adc_enable s2) of None \<Rightarrow> Spins
       | Some (xr, s3) \<Rightarrow> case ucb1x00_ts_read_yres chip (s3\<lparr>x_res := ucast xr\<rparr>) of None \<Rightarrow> Spins
       | Some (yr, s4) \<Rightarrow> let s5 = ucb1x00_adc_disable (s4\<lparr>y_res := ucast yr\<rparr>) in
         if run_ok then Opened 0 (s5\<lparr>rtask := True, pc := LoopHead, valid := False, stop_asked := False\<rparr>)
         else Opened (- EFAULT) ((snd (ucb1x00_free_irq UCB_IRQ_TSPX TS_PTR s5))\<lparr>rtask := False\<rparr>))"

text \<open>Closing: first the thread is asked to stop and waited for; the rest runs when it has gone.\<close>

definition ts_close_ask :: "touch \<Rightarrow> touch" where
  "ts_close_ask s = (if rtask s then s\<lparr>stop_asked := True\<rparr> else s)"

definition ts_close_rest :: "touch \<Rightarrow> touch" where
  "ts_close_rest s = mcp_reg_write UCB_TS_CR 0 (snd (ucb1x00_free_irq UCB_IRQ_TSPX TS_PTR s))"

section \<open>Binding\<close>

text \<open>\<open>alloc_input\<close> tells whether the input core has a device to give.\<close>

definition ucb1x00_ts_add :: "ucb_env \<Rightarrow> bool \<Rightarrow> bool \<Rightarrow> touch \<Rightarrow> int \<times> touch" where
  "ucb1x00_ts_add e alloc_input adcsync_param s =
    (if \<not> kmalloc e (ac_log s) then (- ENOMEM, s)
     else let s1 = note_ev [Kmalloc] s in
     if \<not> alloc_input then (- ENOMEM, note_ev [Kfree] s1)
     else let d = blank_input_dev\<lparr>absfuzz := (absfuzz blank_input_dev)(ABS_X := 6, ABS_Y := 6),
                absmax := (absmax blank_input_dev)(ABS_PRESSURE := 0x100),
                evbit := {EV_ABS, EV_SYN}, absbit := {ABS_X, ABS_Y, ABS_PRESSURE}\<rparr>;
              s2 = note_ev [InputAllocate, InputRegister] s1
                \<lparr>idev := d, adcsync := adcsync_param, restart := False, rtask := False, ts_wait := 0, pMTLCD := None,
                 x_res := 0, y_res := 0\<rparr>
     in (0, mcp_reg_write 16 0x1000 s2))"

definition ucb1x00_ts_remove :: "touch \<Rightarrow> touch" where
  "ucb1x00_ts_remove s = note_ev [InputUnregister, Kfree] s"

text \<open>The module parameter picks a panel by its name; the loop ends at the entry without one.\<close>

fun ts_setup_loop :: "nat \<Rightarrow> mtlcd_info list \<Rightarrow> string \<Rightarrow> nat option" where
  "ts_setup_loop i [] options = None"
| "ts_setup_loop i (p # ps) options =
    (case lcdtype p of None \<Rightarrow> None
     | Some name \<Rightarrow> if options = name then Some i else ts_setup_loop (i + 1) ps options)"

definition ucb1x00_ts_setup :: "string \<Rightarrow> touch \<Rightarrow> int \<times> touch" where
  "ucb1x00_ts_setup options s =
    (case ts_setup_loop 0 MT_LCD options of None \<Rightarrow> (- 1, s) | Some i \<Rightarrow> (0, s\<lparr>select_lcd_index := int i\<rparr>))"

text \<open>\<open>configured\<close> is the panel of the kernel configuration, -1 if none is configured. The driver has number 0.\<close>

definition ts_adds :: "ucb_env \<Rightarrow> bool \<Rightarrow> bool \<Rightarrow> touch drv_add" where
  "ts_adds e alloc_input adcsync_param = (\<lambda>_. ucb1x00_ts_add e alloc_input adcsync_param)"

definition ucb1x00_ts_init :: "ucb_env \<Rightarrow> bool \<Rightarrow> bool \<Rightarrow> int \<Rightarrow> string \<Rightarrow> touch \<Rightarrow> int \<times> touch" where
  "ucb1x00_ts_init e alloc_input adcsync_param configured options s =
    (let (ret, s1) = ucb1x00_ts_setup options (s\<lparr>select_lcd_index := configured\<rparr>)
     in ucb1x00_register_driver e (ts_adds e alloc_input adcsync_param) 0 s1)"

definition ucb1x00_ts_exit :: "touch \<Rightarrow> touch" where
  "ucb1x00_ts_exit s = ucb1x00_unregister_driver (\<lambda>_. ucb1x00_ts_remove) 0 s"

section \<open>Pixels\<close>

text \<open>One axis in plain numbers: the sample clamped to the panel's range, scaled to the resolution, mirrored if asked.\<close>

definition axis :: "int \<Rightarrow> int \<Rightarrow> int \<Rightarrow> bool \<Rightarrow> int \<Rightarrow> int" where
  "axis lo hi res mirrored v =
    (let c = max 0 (min v hi - lo) * res div (hi - lo) in if mirrored then res - c else c)"

definition panel_ok :: "mtlcd_info \<Rightarrow> bool" where
  "panel_ok p \<longleftrightarrow> 0 < min_x p \<and> 0 < min_y p \<and> min_x p < adc_max_x p \<and> min_y p < adc_max_y p \<and> adc_max_x p < 1024 \<and> adc_max_y p < 1024
     \<and> xres p \<le> 800 \<and> yres p \<le> 800"

lemma panels_ok: "p \<in> set MT_LCD \<Longrightarrow> lcdtype p \<noteq> None \<Longrightarrow> panel_ok p"
  by (auto simp: MT_LCD_def panel_ok_def)

lemma axis_bounds:
  assumes "lo < hi" "0 \<le> res"
  shows "0 \<le> axis lo hi res m v" "axis lo hi res m v \<le> res"
proof -
  have "max 0 (min v hi - lo) * res \<le> (hi - lo) * res" using assms by (intro mult_right_mono) auto
  then have "max 0 (min v hi - lo) * res div (hi - lo) \<le> res"
    using assms by (metis diff_gt_0_iff_gt nonzero_mult_div_cancel_left less_irrefl zdiv_mono1)
  moreover have "0 \<le> max 0 (min v hi - lo) * res div (hi - lo)"
    using assms by (intro pos_imp_zdiv_nonneg_iff [THEN iffD2]) auto
  ultimately show "0 \<le> axis lo hi res m v" "axis lo hi res m v \<le> res" by (simp_all add: axis_def Let_def)
qed

lemma axis_ends:
  assumes "lo < hi"
  shows "axis lo hi res m lo = (if m then res else 0)" "axis lo hi res m hi = (if m then 0 else res)"
  using assms by (simp_all add: axis_def)

lemma axis_mono:
  assumes "lo < hi" "0 \<le> res" "v \<le> w"
  shows "if m then axis lo hi res m w \<le> axis lo hi res m v else axis lo hi res m v \<le> axis lo hi res m w"
proof -
  have "max 0 (min v hi - lo) * res div (hi - lo) \<le> max 0 (min w hi - lo) * res div (hi - lo)"
    using assms by (intro zdiv_mono1 mult_right_mono) auto
  then show ?thesis by (simp add: axis_def Let_def)
qed

text \<open>The sixteen-bit computation of one axis.\<close>

lemma uint_minus_le: "uint a \<le> uint b \<Longrightarrow> uint (b - a) = uint b - uint a" for a b :: u16
  by (metis uint_sub_lem)

lemma axis_word:
  fixes v lo hi res :: u16
  assumes "lo < hi" "hi < 1024" "res \<le> 800"
  defines "c \<equiv> (if (if v > hi then hi else v) \<le> lo then 0 else (if v > hi then hi else v) - lo)"
  defines "w \<equiv> (word_of_int ((uint c * uint res) sdiv (uint hi - uint lo)) :: u16)"
  shows "uint w = axis (uint lo) (uint hi) (uint res) False (uint v)"
    "uint (res - w) = axis (uint lo) (uint hi) (uint res) True (uint v)"
proof -
  have o: "uint lo < uint hi" "uint hi < 1024" "uint res \<le> 800" "0 \<le> uint res" "0 \<le> uint lo"
    using assms(1-3) by (simp_all add: word_less_def word_le_def)
  have c: "uint c = max 0 (min (uint v) (uint hi) - uint lo)"
    using o by (auto simp: c_def word_less_def word_le_def uint_minus_le min_def max_def)
  let ?q = "uint c * uint res div (uint hi - uint lo)"
  have q: "?q = axis (uint lo) (uint hi) (uint res) False (uint v)" by (simp add: axis_def c)
  have s: "(uint c * uint res) sdiv (uint hi - uint lo) = ?q"
    using o by (simp add: signed_divide_int_def sgn_if)
  have b: "0 \<le> ?q" "?q \<le> uint res" using axis_bounds [OF o(1,4), of False "uint v"] q by simp_all
  show u: "uint w = axis (uint lo) (uint hi) (uint res) False (uint v)"
    using b o unfolding w_def s q [symmetric] by (simp add: uint_word_of_int)
  have "uint w \<le> uint res" using u b q by simp
  then have "uint (res - w) = uint res - uint w" by (rule uint_minus_le)
  then show "uint (res - w) = axis (uint lo) (uint hi) (uint res) True (uint v)" unfolding u by (simp add: axis_def)
qed

lemma ts_pixel_axes:
  assumes "panel_ok p"
  shows "uint (fst (ts_pixel ty p x y)) =
      (if ty AND TS_SWAP_X_Y \<noteq> 0 then axis (uint (min_y p)) (uint (adc_max_y p)) (uint (xres p)) (ty AND TS_SWAP_X_MIN_MAX \<noteq> 0) (uint y)
       else axis (uint (min_x p)) (uint (adc_max_x p)) (uint (xres p)) (ty AND TS_SWAP_X_MIN_MAX \<noteq> 0) (uint x))"
    "uint (snd (ts_pixel ty p x y)) =
      (if ty AND TS_SWAP_X_Y \<noteq> 0 then axis (uint (min_x p)) (uint (adc_max_x p)) (uint (yres p)) (ty AND TS_SWAP_Y_MIN_MAX \<noteq> 0) (uint x)
       else axis (uint (min_y p)) (uint (adc_max_y p)) (uint (yres p)) (ty AND TS_SWAP_Y_MIN_MAX \<noteq> 0) (uint y))"
  using assms axis_word [of "min_x p" "adc_max_x p" "xres p" x] axis_word [of "min_y p" "adc_max_y p" "xres p" y]
    axis_word [of "min_x p" "adc_max_x p" "yres p" x] axis_word [of "min_y p" "adc_max_y p" "yres p" y]
  unfolding panel_ok_def ts_pixel_def Let_def
  by (simp_all split del: if_split) (simp_all split: if_split)

lemma ts_option_panel:
  assumes "select_lcd_index s = int i" "i < 5"
  shows "ts_option s = Some (s\<lparr>touch_convert_type := ts_convert_type (MT_LCD ! i), pMTLCD := Some (MT_LCD ! i),
      idev := (if ts_convert_type (MT_LCD ! i) AND TS_SWAP_X_Y \<noteq> 0
        then input_set_abs_params ABS_Y (uint (min_x (MT_LCD ! i))) (uint (adc_max_x (MT_LCD ! i))) 0 0
             (input_set_abs_params ABS_X (uint (min_y (MT_LCD ! i))) (uint (adc_max_y (MT_LCD ! i))) 0 0 (idev s))
        else input_set_abs_params ABS_Y (uint (min_y (MT_LCD ! i))) (uint (adc_max_y (MT_LCD ! i))) 0 0
             (input_set_abs_params ABS_X (uint (min_x (MT_LCD ! i))) (uint (adc_max_x (MT_LCD ! i))) 0 0 (idev s)))\<rparr>)"
  using assms by (simp add: ts_option_def Let_def MT_LCD_def)

lemma panel_nth: "i < 5 \<Longrightarrow> panel_ok (MT_LCD ! i)"
  by (rule panels_ok) (auto simp: MT_LCD_def less_Suc_eq numeral_eq_Suc)

lemma pixel_corner:
  assumes "panel_ok p"
  shows "\<exists>x y. ts_pixel ty p x y = (0, 0)" "\<exists>x y. ts_pixel ty p x y = (xres p, yres p)"
proof -
  let ?sw = "ty AND TS_SWAP_X_Y \<noteq> 0" and ?mx = "ty AND TS_SWAP_X_MIN_MAX \<noteq> 0" and ?my = "ty AND TS_SWAP_Y_MIN_MAX \<noteq> 0"
  have lt: "uint (min_x p) < uint (adc_max_x p)" "uint (min_y p) < uint (adc_max_y p)"
    using assms by (simp_all add: panel_ok_def word_less_def)
  have e: "q = (a, b)" if "uint (fst q) = uint a" "uint (snd q) = uint b" for q :: "u16 \<times> u16" and a b
    using that by (cases q) (simp add: word_uint_eq_iff)
  define ends where "ends = (\<lambda>flip. (if (if ?sw then ?my else ?mx) = flip then adc_max_x p else min_x p,
     if (if ?sw then ?mx else ?my) = flip then adc_max_y p else min_y p))"
  have "ts_pixel ty p (fst (ends True)) (snd (ends True)) = (0, 0)"
    by (rule e; simp add: ts_pixel_axes [OF assms] ends_def axis_ends [OF lt(1)] axis_ends [OF lt(2)])
  then show "\<exists>x y. ts_pixel ty p x y = (0, 0)" by blast
  have "ts_pixel ty p (fst (ends False)) (snd (ends False)) = (xres p, yres p)"
    by (rule e; simp add: ts_pixel_axes [OF assms] ends_def axis_ends [OF lt(1)] axis_ends [OF lt(2)])
  then show "\<exists>x y. ts_pixel ty p x y = (xres p, yres p)" by blast
qed

text \<open>
  C35: the pixels of the touch screen. For each of the five panels: whatever the samples, the coordinates reported are at most the
  resolution, and both that maximum, one past the last pixel, and the origin are reached; a coordinate moves in one direction only
  with its sample. The range announced to the input core is that of the samples: the origin lies below it.
\<close>

theorem touch_pixels:
  assumes "select_lcd_index s = int i" "i < 5"
  defines "p \<equiv> MT_LCD ! i" and "px \<equiv> ts_pixel (ts_convert_type (MT_LCD ! i)) (MT_LCD ! i)"
  shows "fst (px x y) \<le> xres p \<and> snd (px x y) \<le> yres p
    \<and> (\<exists>a b. px a b = (0, 0)) \<and> (\<exists>a b. px a b = (xres p, yres p))
    \<and> (x \<le> x' \<and> y \<le> y' \<longrightarrow>
        (if ts_convert_type p AND TS_SWAP_X_MIN_MAX \<noteq> 0 then fst (px x' y') \<le> fst (px x y) else fst (px x y) \<le> fst (px x' y'))
      \<and> (if ts_convert_type p AND TS_SWAP_Y_MIN_MAX \<noteq> 0 then snd (px x' y') \<le> snd (px x y) else snd (px x y) \<le> snd (px x' y')))
    \<and> (\<exists>s1. ts_option s = Some s1 \<and> 0 < absmin (idev s1) ABS_X \<and> 0 < absmin (idev s1) ABS_Y)"
proof -
  have ok: "panel_ok p" unfolding p_def by (rule panel_nth [OF assms(2)])
  have lt: "uint (min_x p) < uint (adc_max_x p)" "uint (min_y p) < uint (adc_max_y p)" "0 \<le> uint (xres p)" "0 \<le> uint (yres p)"
    using ok by (simp_all add: panel_ok_def word_less_def)
  note ax = ts_pixel_axes [OF ok, folded px_def p_def]
  have "fst (px x y) \<le> xres p" "snd (px x y) \<le> yres p"
    unfolding word_le_def px_def p_def [symmetric] ts_pixel_axes [OF ok] using lt by (simp_all add: axis_bounds)
  moreover have "x \<le> x' \<and> y \<le> y' \<longrightarrow>
        (if ts_convert_type p AND TS_SWAP_X_MIN_MAX \<noteq> 0 then fst (px x' y') \<le> fst (px x y) else fst (px x y) \<le> fst (px x' y'))
      \<and> (if ts_convert_type p AND TS_SWAP_Y_MIN_MAX \<noteq> 0 then snd (px x' y') \<le> snd (px x y) else snd (px x y) \<le> snd (px x' y'))"
    unfolding word_le_def px_def p_def [symmetric] ts_pixel_axes [OF ok]
    using lt axis_mono [OF lt(1,3), of "uint x" "uint x'" True] axis_mono [OF lt(1,3), of "uint x" "uint x'" False]
      axis_mono [OF lt(1,4), of "uint x" "uint x'" True] axis_mono [OF lt(1,4), of "uint x" "uint x'" False]
      axis_mono [OF lt(2,3), of "uint y" "uint y'" True] axis_mono [OF lt(2,3), of "uint y" "uint y'" False]
      axis_mono [OF lt(2,4), of "uint y" "uint y'" True] axis_mono [OF lt(2,4), of "uint y" "uint y'" False]
    by simp
  moreover have "\<exists>s1. ts_option s = Some s1 \<and> 0 < absmin (idev s1) ABS_X \<and> 0 < absmin (idev s1) ABS_Y"
    using ok unfolding ts_option_panel [OF assms(1,2)] p_def
    by (simp add: panel_ok_def input_set_abs_params_def ABS_X_def ABS_Y_def word_less_def)
  ultimately show ?thesis using pixel_corner [OF ok] unfolding px_def p_def by blast
qed

text \<open>A chip bound, the first panel configured, nothing open.\<close>

definition fresh_touch :: touch where
  "fresh_touch = ucb1x00.extend fresh_ucb (touch.fields blank_input_dev 0 False 0 0 False False None 0 0 LoopHead False False True [])"

lemma fresh_touch_simps [simp]:
  "ac_log fresh_touch = []" "ucb1x00_drivers fresh_touch = []" "ucb1x00_devices fresh_touch = False" "irq_task fresh_touch = False"
  "irq_wait fresh_touch = 0" "irq_off fresh_touch = 0" "ucb_id fresh_touch = 0x4304" "io_dir fresh_touch = 0" "io_out fresh_touch = 0"
  "adc_cr fresh_touch = 0" "irq_fal_enbl fresh_touch = 0" "irq_ris_enbl fresh_touch = 0" "devs fresh_touch = []"
  "irq_handler fresh_touch = replicate 16 \<lparr>fn = None, devid = 0\<rparr>" "idev fresh_touch = blank_input_dev" "ts_wait fresh_touch = 0"
  "rtask fresh_touch = False" "select_lcd_index fresh_touch = 0" "pc fresh_touch = LoopHead" "valid fresh_touch = False"
  "stop_asked fresh_touch = False" "handle_open fresh_touch = True" "handed_on fresh_touch = []" "adcsync fresh_touch = False"
  by (simp_all add: fresh_touch_def fresh_ucb_def ucb1x00.extend_def touch.fields_def)

theorem touch_pixels_witness:
  "fst (ts_pixel TS_TYPE_7 (MT_LCD ! 0) 500 500) \<le> 240
   \<and> (\<exists>a b. ts_pixel TS_TYPE_7 (MT_LCD ! 0) a b = (240, 320))"
proof -
  have "select_lcd_index fresh_touch = int 0" by simp
  from touch_pixels [OF this, of 500 500 500 500] show ?thesis by (simp add: MT_LCD_def)
qed

section \<open>The thread and the pen\<close>

lemma note_ev_touch [simp]:
  "idev (note_ev es s) = idev s" "ts_wait (note_ev es s) = ts_wait s" "rtask (note_ev es s) = rtask s" "restart (note_ev es s) = restart s"
  "pMTLCD (note_ev es s) = pMTLCD s" "touch_convert_type (note_ev es s) = touch_convert_type s" "pc (note_ev es s) = pc s"
  "valid (note_ev es s) = valid s" "stop_asked (note_ev es s) = stop_asked s" "handle_open (note_ev es s) = handle_open s"
  "handed_on (note_ev es s) = handed_on s" "select_lcd_index (note_ev es s) = select_lcd_index s" "adcsync (note_ev es s) = adcsync s"
  by (simp_all add: note_ev_def)

lemma ts_cr_access:
  "mcp_reg_write UCB_TS_CR v s = note_ev [AcWrite 0x64 (ucast v)] s"
  "mcp_reg_read chip UCB_TS_CR s = (ucast (chip (ac_log s) 0x64), note_ev [AcRead 0x64 (chip (ac_log s) 0x64)] s)"
  by (simp_all add: mcp_reg_write_def mcp_reg_read_def regmap_def UCB_TS_CR_def Let_def)

lemma report_frame [simp]:
  "chip_agrees (report t c v s) = chip_agrees s" "line_ok (report t c v s) = line_ok s" "irq_fal_enbl (report t c v s) = irq_fal_enbl s"
  "irq_handler (report t c v s) = irq_handler s" "pc (report t c v s) = pc s" "ts_wait (report t c v s) = ts_wait s"
  "rtask (report t c v s) = rtask s" "stop_asked (report t c v s) = stop_asked s"
  by (simp_all add: report_def chip_agrees_def line_ok_def split: prod.split)

lemma events_frame [simp]:
  "chip_agrees (ucb1x00_ts_evt_add p x y s) = chip_agrees s" "line_ok (ucb1x00_ts_evt_add p x y s) = line_ok s"
  "irq_fal_enbl (ucb1x00_ts_evt_add p x y s) = irq_fal_enbl s" "irq_handler (ucb1x00_ts_evt_add p x y s) = irq_handler s"
  "ts_wait (ucb1x00_ts_evt_add p x y s) = ts_wait s" "rtask (ucb1x00_ts_evt_add p x y s) = rtask s"
  "stop_asked (ucb1x00_ts_evt_add p x y s) = stop_asked s"
  "chip_agrees (ucb1x00_ts_event_release s) = chip_agrees s" "line_ok (ucb1x00_ts_event_release s) = line_ok s"
  "irq_fal_enbl (ucb1x00_ts_event_release s) = irq_fal_enbl s" "irq_handler (ucb1x00_ts_event_release s) = irq_handler s"
  "ts_wait (ucb1x00_ts_event_release s) = ts_wait s" "rtask (ucb1x00_ts_event_release s) = rtask s"
  "stop_asked (ucb1x00_ts_event_release s) = stop_asked s"
  by (simp_all add: ucb1x00_ts_evt_add_def ucb1x00_ts_event_release_def input_sync_def input_report_abs_def
      split: option.split prod.split)

lemma adc_read_note:
  assumes "ucb1x00_adc_read chip c b s = Some (v, s')"
  shows "\<exists>l. s' = note_ev l s"
proof -
  obtain n ws where "s' = polled chip (Suc n) (note_ev ws s)" using adc_read_polled [OF assms] by blast
  then show ?thesis using polled_log [of chip "Suc n" "note_ev ws s"] by auto
qed

text \<open>A measurement of the driver only talks on the link, and leaves the record agreeing with the chip.\<close>

definition only_talks :: "touch \<Rightarrow> touch \<Rightarrow> bool" where
  "only_talks s s' \<longleftrightarrow> (\<exists>l. s' = note_ev l s) \<and> (chip_agrees s \<longrightarrow> chip_agrees s')"

lemma last_written_ts_cr:
  "r \<noteq> 0x64 \<Longrightarrow> \<forall>w \<in> set ws. \<exists>x. w = AcWrite 0x64 x \<Longrightarrow> last_written r (l @ ws) = last_written r l"
  unfolding last_written_app by (induction ws arbitrary: l rule: rev_induct) auto

lemma measured:
  assumes "ucb1x00_adc_read chip c b (note_ev ws s) = Some (v, s')" "c < 128" "\<forall>w \<in> set ws. \<exists>x. w = AcWrite 0x64 x"
  shows "only_talks s s'"
proof -
  obtain l where l: "s' = note_ev l (note_ev ws s)" using adc_read_note [OF assms(1)] by blast
  have "chip_agrees s \<longrightarrow> chip_agrees (note_ev ws s)"
    by (simp add: chip_agrees_def last_written_ts_cr [OF _ assms(3)])
  then show ?thesis using adc_read_agrees(1) [OF _ assms(2,1)] l unfolding only_talks_def by auto
qed

lemma reads_talk:
  "ucb1x00_ts_read_xpos chip s = Some (v, s') \<Longrightarrow> only_talks s s'"
  "ucb1x00_ts_read_ypos chip s = Some (v, s') \<Longrightarrow> only_talks s s'"
  "ucb1x00_ts_read_pressure chip s = Some (v, s') \<Longrightarrow> only_talks s s'"
  "ucb1x00_ts_read_xres chip s = Some (v, s') \<Longrightarrow> only_talks s s'"
  "ucb1x00_ts_read_yres chip s = Some (v, s') \<Longrightarrow> only_talks s s'"
  unfolding ucb1x00_ts_read_xpos_def ucb1x00_ts_read_ypos_def ucb1x00_ts_read_pressure_def ucb1x00_ts_read_xres_def
    ucb1x00_ts_read_yres_def Let_def ts_cr_access note_ev_simps
  by (erule measured; simp add: UCB_ADC_INP_TSPY_def UCB_ADC_INP_TSPX_def word_less_nat_alt)+

lemma only_talks_fields:
  assumes "only_talks s s'"
  shows "line_ok s' = line_ok s" "irq_fal_enbl s' = irq_fal_enbl s" "irq_handler s' = irq_handler s" "ts_wait s' = ts_wait s"
    "rtask s' = rtask s" "stop_asked s' = stop_asked s" "valid s' = valid s" "idev s' = idev s" "handed_on s' = handed_on s"
    "pMTLCD s' = pMTLCD s" "touch_convert_type s' = touch_convert_type s" "handle_open s' = handle_open s" "restart s' = restart s"
    "pc s' = pc s"
  using assms by (auto simp: only_talks_def line_ok_def)

lemma agrees_touch_fields [simp]:
  "chip_agrees (s\<lparr>restart := b\<rparr>) = chip_agrees s" "chip_agrees (s\<lparr>pc := q\<rparr>) = chip_agrees s"
  "chip_agrees (s\<lparr>ts_wait := n\<rparr>) = chip_agrees s" "chip_agrees (s\<lparr>valid := b\<rparr>) = chip_agrees s"
  "chip_agrees (s\<lparr>rtask := b\<rparr>) = chip_agrees s" "chip_agrees (s\<lparr>stop_asked := b\<rparr>) = chip_agrees s"
  "chip_agrees (s\<lparr>x_res := w\<rparr>) = chip_agrees s" "chip_agrees (s\<lparr>y_res := w\<rparr>) = chip_agrees s"
  "line_ok (s\<lparr>restart := b\<rparr>) = line_ok s" "line_ok (s\<lparr>pc := q\<rparr>) = line_ok s"
  "line_ok (s\<lparr>ts_wait := n\<rparr>) = line_ok s" "line_ok (s\<lparr>valid := b\<rparr>) = line_ok s"
  "line_ok (s\<lparr>rtask := b\<rparr>) = line_ok s" "line_ok (s\<lparr>stop_asked := b\<rparr>) = line_ok s"
  "line_ok (s\<lparr>x_res := w\<rparr>) = line_ok s" "line_ok (s\<lparr>y_res := w\<rparr>) = line_ok s"
  by (simp_all add: chip_agrees_def line_ok_def)

lemma adc_switch_frame [simp]:
  "irq_handler (ucb1x00_adc_enable s) = irq_handler s" "irq_fal_enbl (ucb1x00_adc_enable s) = irq_fal_enbl s"
  "ts_wait (ucb1x00_adc_enable t) = ts_wait t" "rtask (ucb1x00_adc_enable t) = rtask t" "stop_asked (ucb1x00_adc_enable t) = stop_asked t"
  "valid (ucb1x00_adc_enable t) = valid t" "idev (ucb1x00_adc_enable t) = idev t" "handed_on (ucb1x00_adc_enable t) = handed_on t"
  "pMTLCD (ucb1x00_adc_enable t) = pMTLCD t" "touch_convert_type (ucb1x00_adc_enable t) = touch_convert_type t"
  "handle_open (ucb1x00_adc_enable t) = handle_open t" "restart (ucb1x00_adc_enable t) = restart t"
  "irq_handler (ucb1x00_adc_disable s) = irq_handler s" "irq_fal_enbl (ucb1x00_adc_disable s) = irq_fal_enbl s"
  "ts_wait (ucb1x00_adc_disable t) = ts_wait t" "rtask (ucb1x00_adc_disable t) = rtask t" "stop_asked (ucb1x00_adc_disable t) = stop_asked t"
  "valid (ucb1x00_adc_disable t) = valid t" "idev (ucb1x00_adc_disable t) = idev t" "handed_on (ucb1x00_adc_disable t) = handed_on t"
  "pMTLCD (ucb1x00_adc_disable t) = pMTLCD t" "touch_convert_type (ucb1x00_adc_disable t) = touch_convert_type t"
  "handle_open (ucb1x00_adc_disable t) = handle_open t" "restart (ucb1x00_adc_disable t) = restart t"
  "line_ok (ucb1x00_adc_enable s) = line_ok s" "line_ok (ucb1x00_adc_disable s) = line_ok s"
  by (simp_all add: ucb1x00_adc_enable_def ucb1x00_adc_disable_def reg_access Let_def line_ok_def)

lemma mode_int_talks: "only_talks s (ucb1x00_ts_mode_int s)"
  by (auto simp: only_talks_def ucb1x00_ts_mode_int_def ts_cr_access chip_agrees_def last_written_app)

lemma measure_result:
  assumes "ts_measure chip s = Some s'"
  shows "\<exists>x y p. pc s' = Measured x y p" "chip_agrees s \<Longrightarrow> chip_agrees s'" "line_ok s' = line_ok s"
    "irq_handler s' = irq_handler s" "irq_fal_enbl s' = irq_fal_enbl s" "ts_wait s' = ts_wait s" "rtask s' = rtask s"
    "stop_asked s' = stop_asked s" "valid s' = valid s" "idev s' = idev s" "handed_on s' = handed_on s" "pMTLCD s' = pMTLCD s"
    "touch_convert_type s' = touch_convert_type s" "handle_open s' = handle_open s" "restart s' = False"
proof -
  obtain x s1 y s2 p s3 where r:
    "ucb1x00_ts_read_xpos chip (ucb1x00_adc_enable (s\<lparr>restart := False\<rparr>)) = Some (x, s1)"
    "ucb1x00_ts_read_ypos chip s1 = Some (y, s2)" "ucb1x00_ts_read_pressure chip s2 = Some (p, s3)"
    and s': "s' = (ucb1x00_adc_disable (ucb1x00_ts_mode_int s3))\<lparr>pc := Measured x y p\<rparr>"
    using assms by (auto simp: ts_measure_def split: option.splits)
  note t = reads_talk(1) [OF r(1)] reads_talk(2) [OF r(2)] reads_talk(3) [OF r(3)] mode_int_talks [of s3]
  show "\<exists>x y p. pc s' = Measured x y p" by (simp add: s')
  show "chip_agrees s'" if "chip_agrees s"
    using that t unfolding s' only_talks_def by (auto intro!: agrees_ops)
  show "line_ok s' = line_ok s" "irq_handler s' = irq_handler s" "irq_fal_enbl s' = irq_fal_enbl s" "ts_wait s' = ts_wait s"
    "rtask s' = rtask s" "stop_asked s' = stop_asked s" "valid s' = valid s" "idev s' = idev s" "handed_on s' = handed_on s"
    "pMTLCD s' = pMTLCD s" "touch_convert_type s' = touch_convert_type s" "handle_open s' = handle_open s" "restart s' = False"
    using t [THEN only_talks_fields(1)] t [THEN only_talks_fields(2)] t [THEN only_talks_fields(3)] t [THEN only_talks_fields(4)]
      t [THEN only_talks_fields(5)] t [THEN only_talks_fields(6)] t [THEN only_talks_fields(7)] t [THEN only_talks_fields(8)]
      t [THEN only_talks_fields(9)] t [THEN only_talks_fields(10)] t [THEN only_talks_fields(11)] t [THEN only_talks_fields(12)]
      t [THEN only_talks_fields(13)]
    by (simp_all add: s')
qed

section \<open>Never asleep with the pen unheard\<close>

lemma touch_ts_irq_frame [simp]:
  "irq_handler (ucb1x00_ts_irq s) = irq_handler s" "pc (ucb1x00_ts_irq s) = pc s" "rtask (ucb1x00_ts_irq s) = rtask s"
  "stop_asked (ucb1x00_ts_irq s) = stop_asked s" "ts_wait (ucb1x00_ts_irq s) = Suc (ts_wait s)"
  "irq_off (ucb1x00_ts_irq s) = irq_off s" "irq_wait (ucb1x00_ts_irq s) = irq_wait s"
  by (simp_all add: ucb1x00_ts_irq_def ucb1x00_disable_irq_def reg_access UCB_IRQ_TSPX_def Let_def)

lemma touch_ts_irq_agrees: "chip_agrees s \<Longrightarrow> chip_agrees (ucb1x00_ts_irq s)"
  unfolding ucb1x00_ts_irq_def Let_def by (simp add: agrees_ops)

interpretation pen: source_handler touch_run
  by unfold_locales (auto simp: touch_run_def touch_ts_irq_agrees)

text \<open>
  C29: the core's record and the chip. Let a probe return 0, with the I/O data and direction registers holding 0 before it, as after a
  reset, and no driver of the chip registered yet. Then after whatever calls, conversions and interrupts follow, each taken as one step, with the
  touch screen's handler behind the interrupts: the record's copies of the I/O direction and data and of the two edge registers are the
  values last written to them; of the converter's register \<open>ADC_CR\<close> this holds of the enable bit, bit 15, alone, since a conversion
  writes channel and start bits that the record does not have; there are sixteen slots, and the line is disabled once for each
  interrupt not yet served, at most once.
\<close>

theorem ucb_record_agrees:
  assumes "ucb1x00_probe chip e add s = Some (0, s1)" "ucb1x00_drivers s = []"
    "last_written 0x5C (ac_log s) = 0" "last_written 0x5a (ac_log s) = 0" "(ucb_step chip touch_run)\<^sup>*\<^sup>* s1 s2"
  shows "chip_agrees s2 \<and> line_ok s2"
proof -
  have "chip_agrees s1 \<and> line_ok s1" using probe_books [OF assms(1-4)] by (simp add: Let_def)
  then show ?thesis using pen.reach_keeps [OF assms(5)] by blast
qed

lemma probe_granted: "\<exists>s1. ucb1x00_probe chip1400 granting add s = Some (0, s1)"
  by (simp add: ucb1x00_probe_def reg_access detect_chip1400 probe_irq_on_line_def granting_def
      chip1400_def NO_IRQ_def UCB_IS_1400_def UCB_ID_1400_def UCB_ID_1200_def UCB_ID_1300_def Let_def)

theorem ucb_record_agrees_witness:
  "\<exists>s1. ucb1x00_probe chip1400 granting (\<lambda>_ s. (0, s)) fresh_touch = Some (0, s1)
    \<and> chip_agrees (ucb1x00_enable_irq 12 UCB_FALLING s1)"
proof -
  obtain s1 where s1: "ucb1x00_probe chip1400 granting (\<lambda>_ s. (0, s)) fresh_touch = Some (0, s1)" using probe_granted by blast
  have "(ucb_step chip1400 touch_run)\<^sup>*\<^sup>* s1 (ucb1x00_enable_irq 12 UCB_FALLING s1)"
    by (intro r_into_rtranclp step_enable)
  then show ?thesis using ucb_record_agrees [OF s1] s1 by (auto simp: last_written_def)
qed

text \<open>
  The steps the screen goes through while it is open: the thread, the chip's line, the core's thread, a resume, and the request to
  stop.
\<close>

inductive touch_step :: "ac_chip \<Rightarrow> touch \<Rightarrow> touch \<Rightarrow> bool" for chip where
  by_thread: "ts_thread chip s = Some s' \<Longrightarrow> touch_step chip s s'"
| by_line: "irq_off s = 0 \<Longrightarrow> touch_step chip s (snd (ucb1x00_threaded_irq (irq s) s))"
| by_core: "ucb1x00_thread_round chip touch_run s = Some s' \<Longrightarrow> touch_step chip s s'"
| by_resume: "touch_step chip s (snd (ucb1x00_ts_resume s))"
| by_close: "touch_step chip s (ts_close_ask s)"

text \<open>While the thread waits with no completion, the edge of the pen is enabled.\<close>

definition touch_inv :: "touch \<Rightarrow> bool" where
  "touch_inv s \<longleftrightarrow> chip_agrees s \<and> (rtask s \<longleftrightarrow> pc s \<noteq> Exited)
    \<and> irq_handler s ! 12 = \<lparr>fn = Some TS_IRQ, devid = TS_PTR\<rparr>
    \<and> (pc s = WaitPen \<and> ts_wait s = 0 \<longrightarrow> bit (irq_fal_enbl s) 12)"

lemma enable_pen:
  "chip_agrees s \<Longrightarrow> chip_agrees (ucb1x00_enable_irq UCB_IRQ_TSPX UCB_FALLING s)"
  "bit (irq_fal_enbl (ucb1x00_enable_irq UCB_IRQ_TSPX UCB_FALLING s)) 12"
  "irq_handler (ucb1x00_enable_irq UCB_IRQ_TSPX UCB_FALLING s) = irq_handler s"
  "ts_wait (ucb1x00_enable_irq UCB_IRQ_TSPX UCB_FALLING t) = ts_wait t" "rtask (ucb1x00_enable_irq UCB_IRQ_TSPX UCB_FALLING t) = rtask t"
  "stop_asked (ucb1x00_enable_irq UCB_IRQ_TSPX UCB_FALLING t) = stop_asked t"
  "valid (ucb1x00_enable_irq UCB_IRQ_TSPX UCB_FALLING t) = valid t" "idev (ucb1x00_enable_irq UCB_IRQ_TSPX UCB_FALLING t) = idev t"
  "handed_on (ucb1x00_enable_irq UCB_IRQ_TSPX UCB_FALLING t) = handed_on t"
  "handle_open (ucb1x00_enable_irq UCB_IRQ_TSPX UCB_FALLING t) = handle_open t"
  by (simp_all add: agrees_ops)
     (simp_all add: ucb1x00_enable_irq_def UCB_IRQ_TSPX_def UCB_FALLING_def reg_access bit_simps word_less_nat_alt Let_def)

lemma decide_inv:
  assumes "touch_inv s" "pc s = Measured x y p" "s' = ts_decide chip x y p s"
  shows "touch_inv s'" "line_ok s' = line_ok s" "stop_asked s' = stop_asked s" "rtask s' = rtask s"
proof -
  have r: "chip_agrees (note_ev [AcRead a b] s) = chip_agrees s" for a b by (simp add: chip_agrees_def last_written_app)
  show "touch_inv s'"
    using assms r
    by (auto simp: touch_inv_def ts_decide_def ucb1x00_ts_pen_down_def ts_cr_access Let_def enable_pen split: if_splits)
  show "line_ok s' = line_ok s" "stop_asked s' = stop_asked s" "rtask s' = rtask s"
    using assms(3)
    by (auto simp: ts_decide_def ucb1x00_ts_pen_down_def ts_cr_access Let_def enable_pen line_ok_def [of "ucb1x00_enable_irq _ _ _"] line_ok_def [of s]
        line_ok_def [of "note_ev _ _"] split: if_splits)
qed

lemma slot_inv: "touch_inv s \<Longrightarrow> touch_inv (call_slot touch_run i s)"
  by (auto simp: call_slot_def touch_run_def touch_inv_def touch_ts_irq_agrees split: option.split)

lemma slots_inv: "touch_inv s \<Longrightarrow> touch_inv (fold (call_slot touch_run) is s)"
  by (induction "is" arbitrary: s) (simp_all add: slot_inv)

lemma served_from:
  "ucb1x00_thread_round chip touch_run s = Some s' \<Longrightarrow>
    \<exists>n. s' = (fold (call_slot touch_run) (filter (bit (chip (ac_log s) 0x62)) [0..<16])
      (note_ev [AcRead 0x62 (chip (ac_log s) 0x62), AcWrite 0x62 (chip (ac_log s) 0x62), AcWrite 0x62 0]
        (s\<lparr>irq_wait := irq_wait s - 1\<rparr>)))\<lparr>irq_off := n\<rparr>"
  using ucb_irq_fold [of chip touch_run "s\<lparr>irq_wait := irq_wait s - 1\<rparr>"]
  by (auto simp: ucb1x00_thread_round_def Let_def split: if_splits)

lemma touch_inv_line [simp]: "touch_inv (s\<lparr>irq_off := n\<rparr>) = touch_inv s" "touch_inv (s\<lparr>irq_wait := n\<rparr>) = touch_inv s"
  by (simp_all add: touch_inv_def chip_agrees_def)

lemma core_inv:
  assumes "ucb1x00_thread_round chip touch_run s = Some s'" "touch_inv s"
  shows "touch_inv s'"
proof -
  let ?l = "[AcRead 0x62 (chip (ac_log s) 0x62), AcWrite 0x62 (chip (ac_log s) 0x62), AcWrite 0x62 0]"
  have "touch_inv (note_ev ?l (s\<lparr>irq_wait := irq_wait s - 1\<rparr>))"
    using assms(2) by (simp add: touch_inv_def chip_agrees_def last_written_app)
  from slots_inv [OF this] show ?thesis using served_from [OF assms(1)] by auto
qed

lemma step_inv:
  assumes "touch_step chip s s'" "touch_inv s" "line_ok s"
  shows "touch_inv s' \<and> line_ok s'"
  using assms(1)
proof cases
  case by_thread
  show ?thesis
  proof (cases "pc s")
    case LoopHead
    show ?thesis
    proof (cases "stop_asked s")
      case False
      then have "ts_measure chip s = Some s'" using by_thread LoopHead by (simp add: ts_thread_def)
      from measure_result [OF this] assms(2,3) LoopHead show ?thesis by (auto simp: touch_inv_def)
    qed (use by_thread LoopHead assms(2,3) in \<open>auto simp: ts_thread_def touch_inv_def\<close>)
  next
    case (Measured x y p)
    then have "s' = ts_decide chip x y p s" using by_thread by (simp add: ts_thread_def)
    from decide_inv [OF assms(2) Measured this] assms(3) show ?thesis by simp
  qed (use by_thread assms(2,3) in \<open>auto simp: ts_thread_def touch_inv_def split: if_splits\<close>)
next
  case by_line
  then show ?thesis using assms(2,3) by (simp add: ucb1x00_threaded_irq_def line_ok_def)
next
  case by_core
  then show ?thesis using core_inv assms(2,3) pen.round_keeps by (metis touch_inv_def)
next
  case by_resume
  then show ?thesis using assms(2,3) by (auto simp: ucb1x00_ts_resume_def touch_inv_def)
next
  case by_close
  then show ?thesis using assms(2,3) by (auto simp: ts_close_ask_def touch_inv_def)
qed

lemma reach_inv: "(touch_step chip)\<^sup>*\<^sup>* s s' \<Longrightarrow> touch_inv s \<Longrightarrow> line_ok s \<Longrightarrow> touch_inv s' \<and> line_ok s'"
  by (induction rule: rtranclp_induct) (auto dest: step_inv)

lemma ts_option_frame:
  "ts_option s = Some s' \<Longrightarrow> chip_agrees s' = chip_agrees s \<and> line_ok s' = line_ok s \<and> irq_handler s' = irq_handler s
    \<and> handle_open s' = handle_open s \<and> handed_on s' = handed_on s"
  by (auto simp: ts_option_def Let_def chip_agrees_def line_ok_def split: if_splits)

lemma open_result:
  assumes "ucb1x00_ts_open chip True s = Opened 0 s'" "chip_agrees s" "line_ok s"
  shows "touch_inv s'" "line_ok s'" "pc s' = LoopHead" "\<not> stop_asked s'" "\<not> valid s'" "ts_wait s' = 0" "handed_on s' = handed_on s"
proof -
  obtain s1 where s1: "ts_option s = Some s1" using assms(1) by (auto simp: ucb1x00_ts_open_def split: if_splits option.splits)
  define s2 where "s2 = snd (ucb1x00_hook_irq UCB_IRQ_TSPX TS_IRQ TS_PTR (s1\<lparr>ts_wait := 0\<rparr>))"
  have free: "fst (ucb1x00_hook_irq UCB_IRQ_TSPX TS_IRQ TS_PTR (s1\<lparr>ts_wait := 0\<rparr>)) = 0"
    and hook: "irq_handler s2 = (irq_handler s1)[12 := \<lparr>fn = Some TS_IRQ, devid = TS_PTR\<rparr>]"
    using assms(1) s1
    by (auto simp: ucb1x00_ts_open_def ucb1x00_hook_irq_def UCB_IRQ_TSPX_def s2_def Let_def word_less_nat_alt split: if_splits)
  obtain xr s3 yr s4 where r: "ucb1x00_ts_read_xres chip (ucb1x00_adc_enable s2) = Some (xr, s3)"
    "ucb1x00_ts_read_yres chip (s3\<lparr>x_res := ucast xr\<rparr>) = Some (yr, s4)"
    and s': "s' = (ucb1x00_adc_disable (s4\<lparr>y_res := ucast yr\<rparr>))\<lparr>rtask := True, pc := LoopHead, valid := False, stop_asked := False\<rparr>"
    using assms(1) s1 free
    by (auto simp: ucb1x00_ts_open_def Let_def s2_def split_beta split: if_splits option.splits)
  have a: "chip_agrees s2" "line_ok s2" "length (irq_handler s2) = 16"
    using agrees_ops(6) [of "s1\<lparr>ts_wait := 0\<rparr>"] ts_option_frame [OF s1] assms(2,3) free
    by (auto simp: s2_def chip_agrees_def line_ok_def)
  have w: "ts_wait s2 = 0" "handed_on s2 = handed_on s"
    using ts_option_frame [OF s1] by (simp_all add: s2_def ucb1x00_hook_irq_def)
  have t: "only_talks (ucb1x00_adc_enable s2) s3" "only_talks (s3\<lparr>x_res := ucast xr\<rparr>) s4" by (rule reads_talk(4) [OF r(1)], rule reads_talk(5) [OF r(2)])
  have "chip_agrees s4" "line_ok s4" "irq_handler s4 = irq_handler s2" "ts_wait s4 = 0" "handed_on s4 = handed_on s"
    using t a(1,2) w only_talks_fields(1,3,4,9) [OF t(1)] only_talks_fields(1,3,4,9) [OF t(2)] by (auto simp: only_talks_def agrees_ops)
  then show "touch_inv s'" "line_ok s'" "pc s' = LoopHead" "\<not> stop_asked s'" "\<not> valid s'" "ts_wait s' = 0" "handed_on s' = handed_on s"
    using a(3) by (simp_all add: s' touch_inv_def agrees_ops hook)
qed

text \<open>A chip that converts at once, with the pen up and the pen's source set.\<close>

definition chip_up :: ac_chip where
  "chip_up l r = (if r = 0x64 then 0x3000 else if r = 0x68 then 0x8123 else if r = 0x62 then 0x1000 else 0)"

lemma adc_up: "\<exists>v s'. ucb1x00_adc_read chip_up c b s = Some (v, s')"
proof -
  have "\<exists>v s'. adc_wait chip_up t = Some (v, s')" for t :: "'a ucb1x00_scheme"
    using adc_wait_valid [of chip_up 0 t] by (simp add: poll_def chip_up_def)
  then show ?thesis unfolding ucb1x00_adc_read_def Let_def by (metis (no_types, lifting) option.simps(9) case_prod_conv)
qed

lemma reads_up:
  "\<exists>v s'. ucb1x00_ts_read_xpos chip_up s = Some (v, s')" "\<exists>v s'. ucb1x00_ts_read_ypos chip_up s = Some (v, s')"
  "\<exists>v s'. ucb1x00_ts_read_pressure chip_up s = Some (v, s')" "\<exists>v s'. ucb1x00_ts_read_xres chip_up s = Some (v, s')"
  "\<exists>v s'. ucb1x00_ts_read_yres chip_up s = Some (v, s')"
  unfolding ucb1x00_ts_read_xpos_def ucb1x00_ts_read_ypos_def ucb1x00_ts_read_pressure_def ucb1x00_ts_read_xres_def
    ucb1x00_ts_read_yres_def Let_def by (rule adc_up)+

lemma open_up:
  "\<exists>s1. ucb1x00_ts_open chip_up True fresh_touch = Opened 0 s1"
proof -
  obtain s1 where s1: "ts_option fresh_touch = Some s1" by (simp add: ts_option_panel [where i = 0])
  have h: "irq_handler s1 = replicate 16 \<lparr>fn = None, devid = 0\<rparr>" using ts_option_frame [OF s1] by simp
  obtain s2 where s2: "ucb1x00_hook_irq UCB_IRQ_TSPX TS_IRQ TS_PTR (s1\<lparr>ts_wait := 0\<rparr>) = (0, s2)"
    by (simp add: ucb1x00_hook_irq_def UCB_IRQ_TSPX_def h word_less_nat_alt)
  obtain xr s3 where s3: "ucb1x00_ts_read_xres chip_up (ucb1x00_adc_enable s2) = Some (xr, s3)" using reads_up by blast
  obtain yr s4 where s4: "ucb1x00_ts_read_yres chip_up (s3\<lparr>x_res := ucast xr\<rparr>) = Some (yr, s4)" using reads_up by blast
  show ?thesis by (simp add: ucb1x00_ts_open_def s1 s2 s3 s4)
qed

lemma waiting_up:
  "\<exists>s1 s. ucb1x00_ts_open chip_up True fresh_touch = Opened 0 s1 \<and> (touch_step chip_up)\<^sup>*\<^sup>* s1 s \<and> pc s = WaitPen \<and> ts_wait s = 0"
proof -
  obtain s1 where s1: "ucb1x00_ts_open chip_up True fresh_touch = Opened 0 s1" using open_up by blast
  have f: "chip_agrees fresh_touch" "line_ok fresh_touch" by (simp_all add: chip_agrees_def line_ok_def last_written_def)
  note o = open_result [OF s1 f]
  obtain s2 where m: "ts_measure chip_up s1 = Some s2"
    unfolding ts_measure_def using reads_up by (metis (mono_tags, lifting) option.simps(5) case_prod_conv)
  obtain x y p where q: "pc s2 = Measured x y p" using measure_result(1) [OF m] by blast
  let ?s = "ts_decide chip_up x y p s2"
  have "touch_step chip_up s1 s2" by (rule by_thread) (simp add: ts_thread_def o m)
  moreover have "touch_step chip_up s2 ?s" by (rule by_thread) (simp add: ts_thread_def q)
  ultimately have "(touch_step chip_up)\<^sup>*\<^sup>* s1 ?s" by auto
  moreover have "pc ?s = WaitPen" "ts_wait ?s = 0"
    using measure_result [OF m] o
    by (simp_all add: ts_decide_def ucb1x00_ts_pen_down_def ts_cr_access chip_up_def UCB_TS_CR_TSPX_LOW_def UCB_TS_CR_TSMX_LOW_def enable_pen Let_def)
  ultimately show ?thesis using s1 by blast
qed

text \<open>
  C28: the driver never sleeps with the pen unheard. In every state reached after opening the screen, whatever the order of the thread, the
  chip's line, the core's thread, resumes and requests to stop: when the thread waits and nothing has been completed, the chip's
  register enables the falling edge of the pen, and the driver's handler is hooked to it.
\<close>

theorem pen_is_heard:
  assumes "ucb1x00_ts_open chip True s0 = Opened 0 s1" "chip_agrees s0" "line_ok s0" "(touch_step chip)\<^sup>*\<^sup>* s1 s"
    "pc s = WaitPen" "ts_wait s = 0"
  shows "bit (last_written 0x60 (ac_log s)) 12 \<and> irq_handler s ! 12 = \<lparr>fn = Some TS_IRQ, devid = TS_PTR\<rparr>"
proof -
  have "touch_inv s" using open_result [OF assms(1-3)] reach_inv [OF assms(4)] by blast
  then show ?thesis using assms(5,6) by (simp add: touch_inv_def chip_agrees_def)
qed

theorem pen_is_heard_witness:
  "\<exists>s1 s. ucb1x00_ts_open chip_up True fresh_touch = Opened 0 s1 \<and> (touch_step chip_up)\<^sup>*\<^sup>* s1 s \<and> pc s = WaitPen
    \<and> bit (last_written 0x60 (ac_log s)) 12"
proof -
  have f: "chip_agrees fresh_touch" "line_ok fresh_touch" by (simp_all add: chip_agrees_def line_ok_def last_written_def)
  then show ?thesis using waiting_up pen_is_heard [OF _ f] by blast
qed

section \<open>Closing waits for the pen\<close>

text \<open>The steps in which nobody touches the screen: none of the core's thread and no resume.\<close>

inductive quiet_step :: "ac_chip \<Rightarrow> touch \<Rightarrow> touch \<Rightarrow> bool" for chip where
  quiet_thread: "ts_thread chip s = Some s' \<Longrightarrow> quiet_step chip s s'"
| quiet_line: "irq_off s = 0 \<Longrightarrow> quiet_step chip s (snd (ucb1x00_threaded_irq (irq s) s))"
| quiet_close: "quiet_step chip s (ts_close_ask s)"

lemma quiet_waits:
  "(quiet_step chip)\<^sup>*\<^sup>* s s' \<Longrightarrow> pc s = WaitPen \<Longrightarrow> ts_wait s = 0 \<Longrightarrow> rtask s \<Longrightarrow> pc s' = WaitPen \<and> ts_wait s' = 0 \<and> rtask s'"
proof (induction rule: rtranclp_induct)
  case (step s' s'')
  then have p: "pc s' = WaitPen" "ts_wait s' = 0" "rtask s'" by simp_all
  from step.hyps(2) show ?case
    by cases (use p in \<open>auto simp: ts_thread_def ucb1x00_threaded_irq_def ts_close_ask_def\<close>)
qed simp

lemma slots_wait:
  assumes "12 \<in> set is" "irq_handler s ! 12 = \<lparr>fn = Some TS_IRQ, devid = TS_PTR\<rparr>"
  shows "0 < ts_wait (fold (call_slot touch_run) is s)"
proof -
  have h: "irq_handler (call_slot touch_run i t) = irq_handler t" for i t
    by (simp add: call_slot_def touch_run_def split: option.split)
  have m: "ts_wait t \<le> ts_wait (call_slot touch_run i t)" for i t
    by (simp add: call_slot_def touch_run_def split: option.split)
  have mono: "ts_wait t \<le> ts_wait (fold (call_slot touch_run) js t)" for js t
    by (induction js arbitrary: t) (use m le_trans in fastforce)+
  show ?thesis
    using assms
  proof (induction "is" arbitrary: s)
    case (Cons i js)
    show ?case
    proof (cases "i = 12")
      case True
      then have "0 < ts_wait (call_slot touch_run i s)" using Cons.prems by (simp add: call_slot_def touch_run_def)
      then show ?thesis using mono [of "call_slot touch_run i s" js] by simp
    qed (use Cons h in simp)
  qed simp
qed

lemma slots_frame [simp]:
  "pc (fold (call_slot touch_run) is s) = pc s" "rtask (fold (call_slot touch_run) is s) = rtask s"
  "stop_asked (fold (call_slot touch_run) is s) = stop_asked s"
  by (induction "is" arbitrary: s) (simp_all add: call_slot_def touch_run_def split: option.split)

text \<open>
  C34: closing waits for the pen. From a state in which the thread waits, with nothing completed, asking it to stop does not end it:
  as long as nobody touches the screen it stays where it is, and the close that waits for it does not return. When the core then serves an
  interrupt in which the pen's source is set, the thread runs to its end.
\<close>

theorem close_waits_for_pen:
  assumes "ucb1x00_ts_open chip True s0 = Opened 0 s1" "chip_agrees s0" "line_ok s0" "(touch_step chip)\<^sup>*\<^sup>* s1 s"
    "pc s = WaitPen" "ts_wait s = 0"
  shows "(\<forall>s'. (quiet_step chip)\<^sup>*\<^sup>* (ts_close_ask s) s' \<longrightarrow> pc s' = WaitPen \<and> rtask s')
    \<and> (\<forall>s' c. (quiet_step chip)\<^sup>*\<^sup>* (ts_close_ask s) s' \<and> bit (chip (ac_log s') 0x62) 12 \<and> ucb1x00_thread_round chip touch_run s' = Some c \<longrightarrow>
        (\<exists>h. ts_thread chip c = Some h \<and> map_option pc (ts_thread chip h) = Some Exited \<and> map_option rtask (ts_thread chip h) = Some False))"
proof -
  have inv: "touch_inv s" "line_ok s" using open_result [OF assms(1-3)] reach_inv [OF assms(4)] by blast+
  then have asked: "pc (ts_close_ask s) = WaitPen" "ts_wait (ts_close_ask s) = 0" "rtask (ts_close_ask s)" "stop_asked (ts_close_ask s)"
    using assms(5,6) by (simp_all add: ts_close_ask_def touch_inv_def)
  have q: "pc s' = WaitPen \<and> ts_wait s' = 0 \<and> rtask s'" if "(quiet_step chip)\<^sup>*\<^sup>* (ts_close_ask s) s'" for s'
    using quiet_waits [OF that asked(1-3)] .
  have more: "touch_inv s' \<and> line_ok s' \<and> stop_asked s'" if "(quiet_step chip)\<^sup>*\<^sup>* (ts_close_ask s) s'" for s'
    using that
  proof (induction rule: rtranclp_induct)
    case base
    show ?case using step_inv [OF by_close inv] asked(4) by blast
  next
    case (step t u)
    have "touch_step chip t u" using step.hyps(2) by cases (auto intro: touch_step.intros)
    then have "touch_inv u \<and> line_ok u" using step.IH step_inv by blast
    moreover have "stop_asked u"
      using step.hyps(2) q [OF step.hyps(1)] step.IH
      by cases (auto simp: ts_thread_def ucb1x00_threaded_irq_def ts_close_ask_def)
    ultimately show ?case by simp
  qed
  have "\<exists>h. ts_thread chip c = Some h \<and> map_option pc (ts_thread chip h) = Some Exited \<and> map_option rtask (ts_thread chip h) = Some False"
    if r: "(quiet_step chip)\<^sup>*\<^sup>* (ts_close_ask s) s'" "bit (chip (ac_log s') 0x62) 12" "ucb1x00_thread_round chip touch_run s' = Some c" for s' c
  proof -
    have "12 \<in> set (filter (bit (chip (ac_log s') 0x62)) [0..<16])" using r(2) by simp
    then have "0 < ts_wait c" "pc c = WaitPen" "stop_asked c"
      using served_from [OF r(3)] q [OF r(1)] more [OF r(1)] slots_wait by (auto simp: touch_inv_def)
    then show ?thesis by (simp add: ts_thread_def)
  qed
  then show ?thesis using q by blast
qed

theorem close_waits_for_pen_witness:
  "\<exists>s1 s. ucb1x00_ts_open chip_up True fresh_touch = Opened 0 s1 \<and> (touch_step chip_up)\<^sup>*\<^sup>* s1 s
    \<and> (\<forall>s'. (quiet_step chip_up)\<^sup>*\<^sup>* (ts_close_ask s) s' \<longrightarrow> rtask s')"
proof -
  have f: "chip_agrees fresh_touch" "line_ok fresh_touch" by (simp_all add: chip_agrees_def line_ok_def last_written_def)
  then show ?thesis using waiting_up close_waits_for_pen [OF _ f] by blast
qed

section \<open>The panel chosen\<close>

definition panel_names :: "string list" where
  "panel_names = [''MTLCD-0283224'', ''MTLCD-0353224'', ''MTLCD-1046448'', ''MTLCD-0353224A'', ''MTLCD-0708048'']"

lemma lcdtypes: "map lcdtype MT_LCD = map Some panel_names @ [None]"
  by (simp add: MT_LCD_def panel_names_def)

lemma length_names: "length panel_names = 5"
  by (simp add: panel_names_def)

lemma distinct_panels: "distinct panel_names"
  by (simp add: panel_names_def)

lemma setup_loop_found:
  "map lcdtype ps = map Some ns @ [None] \<Longrightarrow> distinct ns \<Longrightarrow> i < length ns \<Longrightarrow> ts_setup_loop k ps (ns ! i) = Some (k + i)"
proof (induction ns arbitrary: k ps i)
  case (Cons n ns)
  then obtain q qs where "ps = q # qs" "lcdtype q = Some n" "map lcdtype qs = map Some ns @ [None]" by auto
  then show ?case using Cons by (cases i) auto
qed simp

lemma setup_loop_none:
  "map lcdtype ps = map Some ns @ [None] \<Longrightarrow> options \<notin> set ns \<Longrightarrow> ts_setup_loop k ps options = None"
proof (induction ns arbitrary: k ps)
  case (Cons n ns)
  then obtain q qs where "ps = q # qs" "lcdtype q = Some n" "map lcdtype qs = map Some ns @ [None]" by auto
  then show ?case using Cons by auto
qed auto

lemma panel_name: "i < 5 \<Longrightarrow> lcdtype (MT_LCD ! i) = Some (panel_names ! i)"
proof -
  assume i: "i < 5"
  then have "lcdtype (MT_LCD ! i) = map lcdtype MT_LCD ! i"
    by (intro nth_map [symmetric]) (simp add: MT_LCD_def)
  also have "\<dots> = Some (panel_names ! i)" unfolding lcdtypes using i by (simp add: nth_append length_names)
  finally show ?thesis .
qed

lemma panel_name_set: "Some n \<in> lcdtype ` set MT_LCD \<longleftrightarrow> n \<in> set panel_names"
  unfolding set_map [symmetric] lcdtypes by auto

lemma register_select:
  "select_lcd_index (snd (ucb1x00_register_driver e (ts_adds e al par) 0 s)) = select_lcd_index s"
  "rtask (snd (ucb1x00_register_driver e (ts_adds e al par) 0 s)) \<Longrightarrow> rtask s"
  by (auto simp: ucb1x00_register_driver_def ucb1x00_add_dev_def ts_adds_def ucb1x00_ts_add_def mcp_reg_write_def Let_def
      split: if_splits)

text \<open>
  Which panel the screen uses. Loading the driver always succeeds. A module parameter that names one of the five panels selects
  it, whatever the kernel was configured for; any other leaves the configured one. Without a configured panel that is the index -1, and
  opening the screen reads in front of the table.
\<close>

theorem panel_selected:
  fixes s :: touch and e :: ucb_env and al par :: bool
  assumes "\<not> rtask s"
  defines "r \<equiv> \<lambda>configured options. ucb1x00_ts_init e al par configured options s"
  shows "fst (r configured options) = 0
    \<and> (i < 5 \<longrightarrow> lcdtype (MT_LCD ! i) = Some name \<longrightarrow> select_lcd_index (snd (r configured name)) = int i)
    \<and> (Some options \<notin> lcdtype ` set MT_LCD \<longrightarrow> select_lcd_index (snd (r configured options)) = configured
        \<and> ucb1x00_ts_open chip run_ok (snd (r (- 1) options)) = OutsideTable)"
proof -
  have f: "fst (r configured options) = 0"
    by (simp add: r_def ucb1x00_ts_init_def ucb1x00_register_driver_def Let_def split: prod.split)
  have named: "select_lcd_index (snd (r configured name)) = int i"
    if "i < 5" "lcdtype (MT_LCD ! i) = Some name"
  proof -
    have "ts_setup_loop 0 MT_LCD name = Some i"
      using that setup_loop_found [OF lcdtypes distinct_panels, of i 0] panel_name [OF that(1)] by (simp add: panel_names_def)
    then show ?thesis
      by (simp add: r_def ucb1x00_ts_init_def ucb1x00_ts_setup_def register_select)
  qed
  have other: "select_lcd_index (snd (r configured options)) = configured \<and> (rtask (snd (r configured options)) \<longrightarrow> rtask s)"
    if "Some options \<notin> lcdtype ` set MT_LCD" for configured
  proof -
    have "ts_setup_loop 0 MT_LCD options = None"
      using that unfolding panel_name_set by (rule setup_loop_none [OF lcdtypes])
    then show ?thesis
      using register_select(2) by (force simp: r_def ucb1x00_ts_init_def ucb1x00_ts_setup_def register_select(1))
  qed
  show ?thesis using f named other assms(1) by (auto simp: ucb1x00_ts_open_def ts_option_def)
qed

theorem panel_selected_witness:
  "select_lcd_index (snd (ucb1x00_ts_init granting True False (- 1) ''MTLCD-0708048'' fresh_touch)) = 4
   \<and> ucb1x00_ts_open chip_up True (snd (ucb1x00_ts_init granting True False (- 1) '''' fresh_touch)) = OutsideTable"
proof -
  have r: "\<not> rtask fresh_touch" by simp
  show ?thesis
    using panel_selected [OF r, where i = 4 and name = "panel_names ! 4" and e = granting and al = True and par = False and configured = "- 1"]
      panel_selected [OF r, where options = "''''" and e = granting and al = True and par = False and chip = chip_up and run_ok = True]
      panel_name [of 4] panel_name_set [of "''''"]
    by (simp add: panel_names_def)
qed

section \<open>Loading and unloading the whole stack\<close>

definition input_of :: "uev \<Rightarrow> int" where
  "input_of v = (case v of InputAllocate \<Rightarrow> 1 | InputUnregister \<Rightarrow> - 1 | _ \<Rightarrow> 0)"

lemma probe_success:
  assumes "ucb1x00_probe chip e add s = Some (0, s')" "ucb1x00_drivers s = []"
  shows "devs s' = []" "ucb1x00_devices s'" "ucb1x00_drivers s' = []"
    "irq_task s' \<longleftrightarrow> UCB_IS_1400 (ucast (ucb_id s'))" "held input_of (ac_log s') = held input_of (ac_log s)"
proof -
  define w where "w = chip (ac_log s) 0x7e"
  define s2 where "s2 = note_ev [AcRead 0x7e w, Kmalloc] s\<lparr>irq := 0, irq_task := False, irq_wait := 0, irq_off := 0, ucb_id := w, io_dir := 0,
    io_out := 0, adc_cr := 0, irq_fal_enbl := 0, irq_ris_enbl := 0,
    irq_handler := replicate 16 \<lparr>fn = None, devid = 0\<rparr>, devs := []\<rparr>"
  obtain q s3 where d: "ucb1x00_detect_irq chip e s2 = Some (q, s3)" "probe_irq_on_line e add (ucast w) q s3 = Some (0, s')"
    using assms(1)
    by (auto simp: ucb1x00_probe_def reg_access Let_def w_def s2_def split: if_splits option.splits)
  have l0: "held input_of l = 0" if "\<forall>v \<in> set l. link_ev v" for l
    using that by (induction l) (auto simp: link_ev_def input_of_def split: uev.splits)
  obtain l where l: "s3 = note_ev l s2" "held input_of l = 0"
  proof (rule disjE [OF detect_result [OF d(1)]])
    assume "probe_on e = 0 \<and> q = NO_IRQ \<and> s3 = note_ev [ProbeIrqOn] s2"
    then show ?thesis using that [of "[ProbeIrqOn]"] by (simp add: input_of_def)
  next
    assume "probe_on e \<noteq> 0 \<and> q = probe_off e \<and> (\<exists>l. s3 = note_ev ([ProbeIrqOn] @ l @ [ProbeIrqOff]) s2 \<and> (\<forall>v\<in>set l. link_ev v))"
    then obtain l where "s3 = note_ev ([ProbeIrqOn] @ l @ [ProbeIrqOff]) s2" "\<forall>v\<in>set l. link_ev v" by blast
    then show ?thesis using that [of "[ProbeIrqOn] @ l @ [ProbeIrqOff]"] l0 by (simp add: input_of_def)
  qed
  have "ucb1x00_drivers s3 = []" "devs s3 = []" "ucb_id s3 = w" "\<not> irq_task s3"
    "held input_of (ac_log s3) = held input_of (ac_log s)"
    using assms(2) l by (simp_all add: s2_def input_of_def)
  then show "devs s' = []" "ucb1x00_devices s'" "ucb1x00_drivers s' = []"
    "irq_task s' \<longleftrightarrow> UCB_IS_1400 (ucast (ucb_id s'))" "held input_of (ac_log s') = held input_of (ac_log s)"
    using d(2) by (auto simp: probe_irq_on_line_def err_irq_def Let_def input_of_def split: if_splits)
qed

lemma init_books:
  fixes s :: touch
  assumes "devs s = []" "ucb1x00_devices s" "ucb1x00_drivers s = []" "s2 = snd (ucb1x00_ts_init e al par configured options s)"
  shows "devs s2 \<in> {[], [0]}" "ucb1x00_devices s2" "ucb1x00_drivers s2 = [0]" "irq_task s2 = irq_task s" "ucb_id s2 = ucb_id s" "irq s2 = irq s"
    "\<exists>l. ac_log s2 = ac_log s @ l \<and> held mem_of l = (if devs s2 = [0] then 2 else 0) \<and> held irq_of l = 0 \<and> held thread_of l = 0
      \<and> held class_of l = 0 \<and> held input_of l = (if devs s2 = [0] then 1 else 0)"
proof -
  define s0 where "s0 = snd (ucb1x00_ts_setup options (s\<lparr>select_lcd_index := configured\<rparr>))\<lparr>ucb1x00_drivers := [0]\<rparr>"
  have s0: "devs s0 = []" "ucb1x00_devices s0" "ucb1x00_drivers s0 = [0]" "irq_task s0 = irq_task s" "ucb_id s0 = ucb_id s" "irq s0 = irq s"
    "ac_log s0 = ac_log s"
    using assms(1,2) by (simp_all add: s0_def ucb1x00_ts_setup_def split: option.split)
  have s2: "s2 = snd (ucb1x00_add_dev e (ts_adds e al par) 0 s0)"
    using assms(2,3) s0(2) unfolding assms(4) s0_def
    by (simp add: ucb1x00_ts_init_def ucb1x00_register_driver_def ucb1x00_ts_setup_def split: option.split)
  show "devs s2 \<in> {[], [0]}" "ucb1x00_devices s2" "ucb1x00_drivers s2 = [0]" "irq_task s2 = irq_task s" "ucb_id s2 = ucb_id s" "irq s2 = irq s"
    "\<exists>l. ac_log s2 = ac_log s @ l \<and> held mem_of l = (if devs s2 = [0] then 2 else 0) \<and> held irq_of l = 0 \<and> held thread_of l = 0
      \<and> held class_of l = 0 \<and> held input_of l = (if devs s2 = [0] then 1 else 0)"
    using s0 unfolding s2
    by (auto simp: ucb1x00_add_dev_def ts_adds_def ucb1x00_ts_add_def mcp_reg_write_def regmap_def weight_defs input_of_def Let_def)
qed

text \<open>
  Everything taken is given back. Binding the link, loading the touch driver, unloading it and unbinding the link, if the calls
  return and binding succeeds, leaves memory, interrupts, threads, class and input devices as they were, whether or not the
  touch driver could be bound in between.
\<close>

theorem stack_unloads:
  fixes s :: touch
  assumes "mcp_probe chip e add s = Some (0, s1)" "ucb1x00_drivers s = []" "last_written 0x5C (ac_log s) = 0" "last_written 0x5a (ac_log s) = 0"
    "s3 = ucb1x00_ts_exit (snd (ucb1x00_ts_init e al par configured options s1))"
    "mcp_remove e (\<lambda>_. ucb1x00_ts_remove) s3 = Some (r, s4)"
  shows "r = 0 \<and> ucb1x00_drivers s4 = [] \<and> (\<forall>f \<in> {mem_of, irq_of, thread_of, class_of, input_of}. held f (ac_log s4) = held f (ac_log s))"
proof -
  obtain s0 where s0: "ucb1x00_probe chip e add (note_ev [Kmalloc] s) = Some (0, s0)" "s1 = note_ev [SetDrvdata] s0"
    using assms(1) by (auto simp: mcp_probe_def split: if_splits)
  have d: "ucb1x00_drivers (note_ev [Kmalloc] s) = []" "last_written 0x5C (ac_log (note_ev [Kmalloc] s)) = 0"
    "last_written 0x5a (ac_log (note_ev [Kmalloc] s)) = 0"
    using assms(2-4) by (simp_all add: last_written_app)
  note p = probe_success [OF s0(1) d(1)] and b = probe_books [OF s0(1) d]
  define s2 where "s2 = snd (ucb1x00_ts_init e al par configured options s1)"
  have "devs s1 = []" "ucb1x00_devices s1" "ucb1x00_drivers s1 = []" using p by (simp_all add: s0(2))
  note i = init_books [OF this s2_def]
  obtain l where l: "ac_log s2 = ac_log s1 @ l" "held mem_of l = (if devs s2 = [0] then 2 else 0)" "held irq_of l = 0" "held thread_of l = 0"
      "held class_of l = 0" "held input_of l = (if devs s2 = [0] then 1 else 0)"
    using i(7) by blast
  have s3: "devs s3 = []" "ucb1x00_drivers s3 = []" "irq_task s3 = irq_task s2" "ucb_id s3 = ucb_id s2"
    "ac_log s3 = ac_log s2 @ (if devs s2 = [0] then [InputUnregister, Kfree, Kfree] else [])"
    using i(1-3) unfolding assms(5) s2_def [symmetric]
    by (auto simp: ucb1x00_ts_exit_def ucb1x00_unregister_driver_def ucb1x00_remove_dev_def ucb1x00_ts_remove_def Let_def)
  obtain s4' where s4': "stop_thread e (s3\<lparr>ucb1x00_devices := False\<rparr>) = Some s4'"
    "s4 = note_ev [FreeIrq (irq s4'), ClassUnregister, Kfree, ClearDrvdata, Kfree] s4'" "r = 0"
    using assms(6) s3(1) by (auto simp: mcp_remove_def ucb1x00_remove_def Let_def)
  have t: "ac_log s4' = ac_log s3 @ (if UCB_IS_1400 (ucast (ucb_id s3)) then [KthreadStop] else [])" "ucb1x00_drivers s4' = []"
    using stop_thread_cases [OF s4'(1)] p(4) i(4,5) s3 by (auto simp: s0(2))
  have u: "ucb_id s3 = ucb_id s0" using i(5) s3 by (simp add: s0(2))
  show ?thesis
    using b p(5) l t s4'(2,3) s3(5) u
    by (auto simp: weight_defs input_of_def s0(2) Let_def is_1400)
qed

theorem stack_unloads_witness:
  "\<exists>s1 s4. mcp_probe chip1400 granting (\<lambda>_ s. (0, s)) fresh_touch = Some (0, s1)
    \<and> mcp_remove granting (\<lambda>_. ucb1x00_ts_remove) (ucb1x00_ts_exit (snd (ucb1x00_ts_init granting True False 0 [] s1))) = Some (0, s4)
    \<and> held mem_of (ac_log s4) = 0"
proof -
  obtain s1 where s1: "mcp_probe chip1400 granting (\<lambda>_ s. (0, s)) fresh_touch = Some (0, s1)"
    using probe_granted [of "\<lambda>_ s. (0, s)" "note_ev [Kmalloc] fresh_touch"] by (auto simp: mcp_probe_def granting_def)
  let ?s3 = "ucb1x00_ts_exit (snd (ucb1x00_ts_init granting True False 0 [] s1))"
  have "\<exists>t. stop_thread granting u = Some t" for u :: touch by (simp add: stop_thread_def granting_def)
  then obtain r s4 where "mcp_remove granting (\<lambda>_. ucb1x00_ts_remove) ?s3 = Some (r, s4)"
    unfolding mcp_remove_def ucb1x00_remove_def Let_def by (metis (no_types, lifting) option.simps(9))
  with stack_unloads [OF s1 _ _ _ refl this] s1 show ?thesis by (auto simp: last_written_def)
qed

end
