(* ===== verification/Tsdev.thy ===== *)
theory Tsdev
  imports Touch Keypad
begin

text \<open>
  The reader of the touch screen: \<open>linux/drivers/input/tsdev.c\<close>, the handler that turns input events into the records of the old
  touch screen protocol, with a ring of 64 events for each open file. A file is a number; \<open>tsdev_table\<close> maps a minor number to its
  device. Calls into the input core are recorded as \<open>ts_call\<close>s.
\<close>

section \<open>Data\<close>

definition TSDEV_MINORS :: nat where "TSDEV_MINORS = 32"
definition TSDEV_MINOR_BASE :: nat where "TSDEV_MINOR_BASE = 128"
definition TSDEV_MINOR_MASK :: nat where "TSDEV_MINOR_MASK = 15"
definition TSDEV_BUFFER_SIZE :: nat where "TSDEV_BUFFER_SIZE = 64"

record ts_event =
  ev_pressure :: u16
  ev_x :: u16
  ev_y :: u16
  millisecs :: u16

record ts_calibration =
  xscale :: int
  xtrans :: int
  yscale :: int
  ytrans :: int
  xyswap :: int

record tsdev_list =
  head :: nat
  tail :: nat
  event :: "ts_event list"
  raw :: bool

record tsdev =
  exist :: bool
  opens :: int
  minor :: nat
  clients :: "(nat \<times> tsdev_list) list"
  ts_x :: int
  ts_y :: int
  ts_pressure :: int
  cal :: ts_calibration

type_synonym tsdev_table = "nat \<Rightarrow> tsdev option"

datatype ts_call = InputOpen nat | InputClose nat

abbreviation (input) EAGAIN :: int where "EAGAIN \<equiv> 11"

section \<open>Events\<close>

definition ts_put :: "ts_event \<Rightarrow> tsdev_list \<Rightarrow> tsdev_list" where
  "ts_put ev l = l\<lparr>event := (event l)[head l := ev], head := (head l + 1) AND (TSDEV_BUFFER_SIZE - 1)\<rparr>"

text \<open>
  \<open>scr_x\<close> and \<open>scr_y\<close> are the module's parameters \<open>xres\<close> and \<open>yres\<close>; \<open>usec\<close> is the microsecond part of the time at which the file is served.
  The calibration is compiled out.
\<close>

definition tsdev_state :: "int \<Rightarrow> int \<Rightarrow> input_dev \<Rightarrow> nat \<Rightarrow> nat \<Rightarrow> int \<Rightarrow> tsdev \<Rightarrow> tsdev" where
  "tsdev_state scr_x scr_y d type code value ts =
    (if type = EV_ABS then
       if code = ABS_X then ts\<lparr>ts_x := value\<rparr>
       else if code = ABS_Y then ts\<lparr>ts_y := value\<rparr>
       else if code = ABS_PRESSURE then
         let v1 = (if value > absmax d ABS_PRESSURE then absmax d ABS_PRESSURE else value); v2 = v1 - absmin d ABS_PRESSURE
         in ts\<lparr>ts_pressure := (if v2 < 0 then 0 else v2)\<rparr>
       else ts
     else if type = EV_REL then
       if code = REL_X then let v = ts_x ts + value in ts\<lparr>ts_x := (if v < 0 then 0 else if v > scr_x then scr_x else v)\<rparr>
       else if code = REL_Y then let v = ts_y ts + value in ts\<lparr>ts_y := (if v < 0 then 0 else if v > scr_y then scr_y else v)\<rparr>
       else ts
     else if type = EV_KEY then
       if code = BTN_TOUCH \<or> code = BTN_MOUSE then
         if value = 0 then ts\<lparr>ts_pressure := 0\<rparr>
         else if value = 1 then (if ts_pressure ts = 0 then ts\<lparr>ts_pressure := 1\<rparr> else ts)
         else ts
       else ts
     else ts)"

definition tsdev_event ::
  "int \<Rightarrow> int \<Rightarrow> (nat \<Rightarrow> int) \<Rightarrow> input_dev \<Rightarrow> nat \<Rightarrow> nat \<Rightarrow> int \<Rightarrow> tsdev \<Rightarrow> tsdev" where
  "tsdev_event scr_x scr_y usec d type code value ts =
    (let ts1 = tsdev_state scr_x scr_y d type code value ts
     in if type \<noteq> EV_SYN \<or> code \<noteq> SYN_REPORT then ts1
        else ts1\<lparr>clients := map (\<lambda>(f, l). (f, ts_put \<lparr>ev_pressure = word_of_int (ts_pressure ts1), ev_x = word_of_int (ts_x ts1),
               ev_y = word_of_int (ts_y ts1), millisecs = word_of_int (usec f sdiv 100)\<rparr> l)) (clients ts1)\<rparr>)"

section \<open>Files\<close>

text \<open>Reading: asleep with nothing to read, or a result with the events copied. \<open>faults\<close> tells at which offset the user's memory ends.\<close>

datatype read_outcome = Asleep | ReadResult int "ts_event list"

function tsdev_read_loop :: "(nat \<Rightarrow> bool) \<Rightarrow> nat \<Rightarrow> nat \<Rightarrow> tsdev_list \<Rightarrow> ts_event list \<Rightarrow> int \<times> ts_event list \<times> tsdev_list" where
  "tsdev_read_loop faults count retval l got =
    (if head l \<noteq> tail l \<and> retval + 8 \<le> count
     then if faults retval then (- EFAULT, got, l)
          else tsdev_read_loop faults count (retval + 8) (l\<lparr>tail := (tail l + 1) AND (TSDEV_BUFFER_SIZE - 1)\<rparr>)
                 (got @ [event l ! tail l])
     else (int retval, got, l))"
  by pat_completeness auto

termination
  by (relation "measure (\<lambda>(f, count, retval, l, got). count - retval)") auto

declare tsdev_read_loop.simps [simp del]

definition tsdev_read :: "bool \<Rightarrow> bool \<Rightarrow> (nat \<Rightarrow> bool) \<Rightarrow> nat \<Rightarrow> tsdev_list \<Rightarrow> read_outcome \<times> tsdev_list" where
  "tsdev_read ex nonblock faults count l =
    (if head l = tail l \<and> ex \<and> nonblock then (ReadResult (- EAGAIN) [], l)
     else if \<not> (head l \<noteq> tail l \<or> \<not> ex) then (Asleep, l)
     else if \<not> ex then (ReadResult (- ENODEV) [], l)
     else let (r, got, l1) = tsdev_read_loop faults count 0 l [] in (ReadResult r got, l1))"

definition POLLIN :: int where "POLLIN = 0x0001"
definition POLLERR :: int where "POLLERR = 0x0008"
definition POLLHUP :: int where "POLLHUP = 0x0010"
definition POLLRDNORM :: int where "POLLRDNORM = 0x0040"

definition tsdev_poll :: "bool \<Rightarrow> tsdev_list \<Rightarrow> int" where
  "tsdev_poll ex l = (if head l = tail l then 0 else POLLIN OR POLLRDNORM) OR (if ex then 0 else POLLHUP OR POLLERR)"

definition blank_list :: "bool \<Rightarrow> tsdev_list" where
  "blank_list r = \<lparr>head = 0, tail = 0, event = replicate TSDEV_BUFFER_SIZE \<lparr>ev_pressure = 0, ev_x = 0, ev_y = 0, millisecs = 0\<rparr>, raw = r\<rparr>"

definition tsdev_open :: "bool \<Rightarrow> nat \<Rightarrow> int \<Rightarrow> tsdev_table \<Rightarrow> int \<times> tsdev_table \<times> ts_call list" where
  "tsdev_open mem file iminor tab =
    (let i = iminor - int TSDEV_MINOR_BASE; m = nat (i AND int TSDEV_MINOR_MASK) in
     if i \<ge> int TSDEV_MINORS \<or> tab m = None then (- ENODEV, tab, [])
     else if \<not> mem then (- ENOMEM, tab, [])
     else let ts = the (tab m); l = blank_list (i \<ge> int (TSDEV_MINORS div 2));
              ts1 = ts\<lparr>clients := clients ts @ [(file, l)], opens := opens ts + 1\<rparr>
          in (0, tab(m \<mapsto> ts1), if opens ts = 0 \<and> exist ts then [InputOpen m] else []))"

definition tsdev_free :: "tsdev \<Rightarrow> tsdev_table \<Rightarrow> tsdev_table" where
  "tsdev_free ts tab = tab(minor ts := None)"

text \<open>Closing file \<open>file\<close> of the device \<open>m\<close>.\<close>

definition tsdev_release :: "nat \<Rightarrow> nat \<Rightarrow> tsdev_table \<Rightarrow> tsdev_table \<times> ts_call list" where
  "tsdev_release file m tab =
    (case tab m of None \<Rightarrow> (tab, [])
     | Some ts \<Rightarrow>
       let ts1 = ts\<lparr>clients := filter (\<lambda>(f, l). f \<noteq> file) (clients ts), opens := opens ts - 1\<rparr>; tab1 = tab(m \<mapsto> ts1)
       in if opens ts1 = 0
          then if exist ts1 then (tab1, [InputClose m]) else (tsdev_free ts1 tab1, [])
          else (tab1, []))"

definition tsdev_ioctl_get :: "tsdev \<Rightarrow> bool \<Rightarrow> int \<times> ts_calibration option" where
  "tsdev_ioctl_get ts copies = (if copies then (0, Some (cal ts)) else (- EFAULT, None))"

definition tsdev_ioctl_set :: "ts_calibration option \<Rightarrow> tsdev \<Rightarrow> int \<times> tsdev" where
  "tsdev_ioctl_set arg ts = (case arg of None \<Rightarrow> (- EFAULT, ts) | Some c \<Rightarrow> (0, ts\<lparr>cal := c\<rparr>))"

section \<open>Devices\<close>

definition rough_calibration :: "int \<Rightarrow> int \<Rightarrow> input_dev \<Rightarrow> ts_calibration" where
  "rough_calibration scr_x scr_y d =
    (let delta = (\<lambda>a. let v = absmax d a - absmin d a + 1 in if v = 0 then 1 else v);
         xs = push_bit 8 scr_x sdiv delta ABS_X; ys = push_bit 8 scr_y sdiv delta ABS_Y
     in \<lparr>xscale = xs, xtrans = - drop_bit 8 (absmin d ABS_X * xs), yscale = ys, ytrans = - drop_bit 8 (absmin d ABS_Y * ys), xyswap = 0\<rparr>)"

text \<open>The first free minor number; the result is the minor of the new device, if there is one.\<close>

definition tsdev_connect :: "bool \<Rightarrow> int \<Rightarrow> int \<Rightarrow> input_dev \<Rightarrow> tsdev_table \<Rightarrow> nat option \<times> tsdev_table" where
  "tsdev_connect mem scr_x scr_y d tab =
    (case find (\<lambda>m. tab m = None) [0..<TSDEV_MINORS div 2] of None \<Rightarrow> (None, tab)
     | Some m \<Rightarrow> if \<not> mem then (None, tab)
         else (Some m, tab(m \<mapsto> \<lparr>exist = True, opens = 0, minor = m, clients = [], ts_x = 0, ts_y = 0, ts_pressure = 0,
                cal = rough_calibration scr_x scr_y d\<rparr>)))"

definition tsdev_disconnect :: "nat \<Rightarrow> tsdev_table \<Rightarrow> tsdev_table \<times> ts_call list" where
  "tsdev_disconnect m tab =
    (case tab m of None \<Rightarrow> (tab, [])
     | Some ts \<Rightarrow>
       let ts1 = ts\<lparr>exist := False\<rparr>; tab1 = tab(m \<mapsto> ts1)
       in if opens ts1 \<noteq> 0 then (tab1, [InputClose m]) else (tsdev_free ts1 tab1, []))"


section \<open>The ring of a file\<close>

definition ts_wf :: "tsdev_list \<Rightarrow> bool" where
  "ts_wf l \<longleftrightarrow> length (event l) = 64 \<and> head l < 64 \<and> tail l < 64"

text \<open>The unread events, oldest first.\<close>

definition ts_events :: "tsdev_list \<Rightarrow> ts_event list" where
  "ts_events l = ring_between 64 (event l) (head l) (tail l)"

lemma ts_next: "(i + 1) AND (TSDEV_BUFFER_SIZE - 1) = (i + 1) mod 64"
proof -
  have "(i + 1) AND mask 6 = (i + 1) mod 64"
    unfolding take_bit_eq_mask [symmetric] take_bit_nat_def by simp
  then show ?thesis by (simp add: TSDEV_BUFFER_SIZE_def mask_eq_exp_minus_1)
qed

lemma ts_next_Suc [simp]: "Suc i AND (TSDEV_BUFFER_SIZE - Suc 0) = Suc i mod 64"
  using ts_next [of i] by simp

lemma ts_put_wf: "ts_wf l \<Longrightarrow> ts_wf (ts_put ev l)"
  by (simp add: ts_wf_def ts_put_def)

lemma ts_put_events: "ts_wf l \<Longrightarrow> length (ts_events l) < 63 \<Longrightarrow> ts_events (ts_put ev l) = ts_events l @ [ev]"
  using ring_put [of "head l" 64 "tail l" "event l" ev] by (simp add: ts_wf_def ts_events_def ts_put_def)

lemma ts_put_full: "ts_wf l \<Longrightarrow> length (ts_events l) = 63 \<Longrightarrow> ts_events (ts_put ev l) = []"
  using ring_put_full [of "head l" 64 "tail l" "event l"] by (simp add: ts_wf_def ts_events_def ts_put_def)

lemma ts_events_room: "ts_wf l \<Longrightarrow> length (ts_events l) \<le> 63"
  using mod_less_divisor [of 64 "head l + 64 - tail l"] by (simp add: ts_events_def length_ring_between)

lemma ts_empty: "ts_wf l \<Longrightarrow> ts_events l = [] \<longleftrightarrow> head l = tail l"
  using ring_empty [of "head l" 64 "tail l" "event l"] by (auto simp: ts_wf_def ts_events_def)

text \<open>One event taken by the reader's loop.\<close>

lemma ts_take:
  fixes l
  defines "l' \<equiv> l\<lparr>tail := (tail l + 1) AND (TSDEV_BUFFER_SIZE - 1)\<rparr>"
  assumes "ts_wf l" "ts_events l = e # es"
  shows "event l ! tail l = e" "ts_wf l'" "ts_events l' = es" "head l \<noteq> tail l"
  using ring_get [of "head l" 64 "tail l" "event l" e es] ts_empty [OF assms(2)] assms(2,3)
  by (auto simp: ts_wf_def ts_events_def l'_def)

lemma read_loop_stop:
  "ts_events l = [] \<or> \<not> retval + 8 \<le> count \<Longrightarrow> ts_wf l \<Longrightarrow> tsdev_read_loop faults count retval l got = (int retval, got, l)"
  by (auto simp: tsdev_read_loop.simps [of faults count retval l got] ts_empty)

lemma read_loop_step:
  assumes "ts_wf l" "ts_events l = e # es" "retval + 8 \<le> count"
  shows "tsdev_read_loop faults count retval l got = (if faults retval then (- EFAULT, got, l)
    else tsdev_read_loop faults count (retval + 8) (l\<lparr>tail := (tail l + 1) AND (TSDEV_BUFFER_SIZE - 1)\<rparr>) (got @ [e]))"
  using ts_take [OF assms(1,2)] assms(3) by (subst tsdev_read_loop.simps) simp

text \<open>How many events a read copies: up to the room, the ring's end or the first fault.\<close>

definition ts_copied :: "(nat \<Rightarrow> bool) \<Rightarrow> nat \<Rightarrow> nat \<Rightarrow> nat" where
  "ts_copied faults retval k = length (takeWhile (\<lambda>i. \<not> faults (retval + 8 * i)) [0..<k])"

lemma ts_copied_Suc: "ts_copied faults retval (Suc k) = (if faults retval then 0 else Suc (ts_copied faults (retval + 8) k))"
  unfolding ts_copied_def by (simp add: upt_conv_Cons map_Suc_upt [symmetric] takeWhile_map o_def add.assoc del: upt_Suc)

lemma ts_copied_le: "ts_copied faults retval k \<le> k"
  using length_takeWhile_le [of "\<lambda>i. \<not> faults (retval + 8 * i)" "[0..<k]"] by (simp add: ts_copied_def)

lemma read_loop_result:
  assumes "ts_wf l"
  shows "\<exists>l'. tsdev_read_loop faults count retval l got =
      (let k = min (length (ts_events l)) ((count - retval) div 8); n = ts_copied faults retval k
       in (if n < k then - EFAULT else int (retval + 8 * k), got @ take n (ts_events l), l')) \<and> ts_wf l' \<and>
      ts_events l' = drop (ts_copied faults retval (min (length (ts_events l)) ((count - retval) div 8))) (ts_events l)"
  using assms
proof (induction "ts_events l" arbitrary: l retval got)
  case Nil
  then show ?case using read_loop_stop [of l retval count faults got] by (simp add: ts_copied_def Nil.hyps [symmetric] Let_def)
next
  case (Cons e es)
  note evs = Cons.hyps(2) [symmetric]
  show ?case
  proof (cases "retval + 8 \<le> count")
    case False
    then show ?thesis using read_loop_stop [of l retval count faults got] Cons.prems by (simp add: ts_copied_def)
  next
    case True
    define l1 where "l1 = l\<lparr>tail := (tail l + 1) AND (TSDEV_BUFFER_SIZE - 1)\<rparr>"
    have l1: "ts_wf l1" "ts_events l1 = es" using ts_take [OF Cons.prems evs] by (simp_all add: l1_def)
    have room: "(count - retval) div 8 = Suc ((count - (retval + 8)) div 8)" using True by simp
    note step = read_loop_step [OF Cons.prems evs True, of faults got, folded l1_def]
    show ?thesis
    proof (cases "faults retval")
      case True
      then show ?thesis using step Cons.prems by (simp add: evs room ts_copied_Suc Let_def)
    next
      case False
      from Cons.hyps(1) [OF l1(2) [symmetric] l1(1), of "retval + 8" "got @ [e]"] False step
      show ?thesis by (auto simp: evs room ts_copied_Suc l1(2) Let_def algebra_simps)
    qed
  qed
qed


text \<open>The next event on its own, as a read of eight bytes takes it.\<close>

definition ts_next_event :: "tsdev_list \<Rightarrow> ts_event option \<times> tsdev_list" where
  "ts_next_event l = (case tsdev_read True True (\<lambda>_. False) 8 l of (ReadResult r (e # es), l') \<Rightarrow> (Some e, l') | (_, l') \<Rightarrow> (None, l'))"

lemma ts_next_event_cons:
  assumes "ts_wf l" "ts_events l = e # es"
  shows "ts_next_event l = (Some e, l\<lparr>tail := (tail l + 1) AND (TSDEV_BUFFER_SIZE - 1)\<rparr>)"
  using ts_take [OF assms] read_loop_step [OF assms, of 0 8 "\<lambda>_. False" "[]"] read_loop_stop [of _ 8 8 "\<lambda>_. False"]
  by (simp add: ts_next_event_def tsdev_read_def)

interpretation pen_ring: key_fifo ts_wf ts_events 63 ts_put ts_next_event "\<lambda>e. e"
proof unfold_locales
  fix l e es
  show "ts_wf (ts_put e l)" if "ts_wf l" using that by (rule ts_put_wf)
  show "ts_events (ts_put e l) = ts_events l @ [e]" if "ts_wf l" "length (ts_events l) < 63" using that by (rule ts_put_events)
  show "ts_next_event l = (None, l)" if "ts_wf l" "ts_events l = []"
    using that ts_empty by (simp add: ts_next_event_def tsdev_read_def)
  show "fst (ts_next_event l) = Some e \<and> ts_wf (snd (ts_next_event l)) \<and> ts_events (snd (ts_next_event l)) = es"
    if "ts_wf l" "ts_events l = e # es"
    using ts_take [OF that] ts_next_event_cons [OF that] by simp
qed

text \<open>What a file nobody reads holds: the ring loses 64 events each time it comes round.\<close>

lemma full_turn: "t mod 64 = 63 \<Longrightarrow> 64 * (Suc t div 64) = Suc t" for t :: nat
  using mod_Suc [of t 64] mult_div_mod_eq [of 64 "Suc t"] by simp

lemma same_turn: "t mod 64 \<noteq> 63 \<Longrightarrow> Suc t div 64 = t div 64" for t :: nat
  by (simp add: div_Suc mod_Suc)

lemma unread_events:
  "ts_wf l \<Longrightarrow> ts_events (fold ts_put evs l) = drop (64 * ((length (ts_events l) + length evs) div 64)) (ts_events l @ evs)"
proof (induction evs rule: rev_induct)
  case Nil
  then show ?case using ts_events_room [of l] by simp
next
  case (snoc e evs)
  let ?l = "fold ts_put evs l" and ?t = "length (ts_events l) + length evs"
  have wf: "ts_wf ?l" using snoc.prems by (rule pen_ring.wf_put_all)
  have len: "length (ts_events ?l) = ?t mod 64" 
    using snoc by (simp only: length_drop length_append minus_mult_div_eq_mod)
  show ?case
  proof (cases "?t mod 64 = 63")
    case True
    then have "64 * (Suc ?t div 64) = Suc ?t" by (rule full_turn)
    then show ?thesis using ts_put_full [OF wf] len True by simp
  next
    case False
    then have "Suc ?t div 64 = ?t div 64" by (rule same_turn)
    moreover have "length (ts_events ?l) < 63" using len False mod_less_divisor [of 64 ?t] by linarith
    moreover have "64 * (?t div 64) \<le> length (ts_events l @ evs)" by simp
    ultimately show ?thesis
      using snoc.IH [OF snoc.prems] ts_put_events [OF wf, of e] by simp
  qed
qed


lemma poll_flags: "tsdev_poll ex l = 0 \<longleftrightarrow> head l = tail l \<and> ex"
  by (simp add: tsdev_poll_def POLLIN_def POLLERR_def POLLHUP_def POLLRDNORM_def)

text \<open>
  C33: what a read returns, in every case. With nothing to read it says \<open>-EAGAIN\<close> or sleeps; from an unplugged device it says
  \<open>-ENODEV\<close>, whatever the ring still holds; otherwise it copies the oldest events, as many as fit the count, up to the first one the user's
  memory does not take. In that last case the call is an error and yet the events before it are gone from the ring. \<open>poll\<close> reports nothing
  exactly when a read would sleep.
\<close>

theorem tsdev_reads:
  assumes "ts_wf l"
  shows "let evs = ts_events l; k = min (length evs) (count div 8); n = ts_copied faults 0 k;
           (outcome, l') = tsdev_read ex nonblock faults count l
         in outcome = (if evs = [] \<and> ex then (if nonblock then ReadResult (- EAGAIN) [] else Asleep)
                       else if \<not> ex then ReadResult (- ENODEV) []
                       else ReadResult (if n < k then - EFAULT else int (8 * k)) (take n evs)) \<and>
            ts_wf l' \<and> ts_events l' = (if ex then drop n evs else evs) \<and>
            (tsdev_poll ex l = 0 \<longleftrightarrow> tsdev_read ex False faults count l = (Asleep, l))"
  using read_loop_result [OF assms, of faults count 0 "[]"] ts_empty [OF assms] assms poll_flags [of ex l]
  by (auto simp: tsdev_read_def Let_def ts_copied_def)

text \<open>Two events in the ring, memory for one: the first is lost.\<close>

definition ev_at :: "nat \<Rightarrow> ts_event" where
  "ev_at n = \<lparr>ev_pressure = 1, ev_x = of_nat n, ev_y = 0, millisecs = 0\<rparr>"

lemma blank_wf: "ts_wf (blank_list r)" "ts_events (blank_list r) = []"
  by (simp_all add: ts_wf_def ts_events_def blank_list_def TSDEV_BUFFER_SIZE_def)

lemma two_events:
  "ts_wf (ts_put (ev_at 2) (ts_put (ev_at 1) (blank_list False)))"
  "ts_events (ts_put (ev_at 2) (ts_put (ev_at 1) (blank_list False))) = [ev_at 1, ev_at 2]"
  by (simp_all add: ts_put_wf ts_put_events blank_wf)

theorem tsdev_reads_witness:
  "let l = ts_put (ev_at 2) (ts_put (ev_at 1) (blank_list False)); (outcome, l') = tsdev_read True False (\<lambda>off. off = 8) 64 l
   in ts_wf l \<and> outcome = ReadResult (- EFAULT) [ev_at 1] \<and> ts_events l' = [ev_at 2]"
  using tsdev_reads [OF two_events(1), where faults = "\<lambda>off. off = 8" and count = 64 and ex = True and nonblock = False] two_events
  by (auto simp: Let_def ts_copied_def upt_conv_Cons split: prod.splits)

section \<open>Serving the files\<close>

text \<open>A run of input events, each with the files' times, and the records it makes for a file.\<close>

type_synonym timed_event = "(nat \<Rightarrow> int) \<times> nat \<times> nat \<times> int"

definition tsdev_serve :: "int \<Rightarrow> int \<Rightarrow> input_dev \<Rightarrow> timed_event list \<Rightarrow> tsdev \<Rightarrow> tsdev" where
  "tsdev_serve sx sy d es ts = fold (\<lambda>(usec, type, code, value). tsdev_event sx sy usec d type code value) es ts"

definition ts_record :: "tsdev \<Rightarrow> int \<Rightarrow> ts_event" where
  "ts_record ts usec = \<lparr>ev_pressure = word_of_int (ts_pressure ts), ev_x = word_of_int (ts_x ts), ev_y = word_of_int (ts_y ts),
     millisecs = word_of_int (usec sdiv 100)\<rparr>"

fun ts_records :: "int \<Rightarrow> int \<Rightarrow> input_dev \<Rightarrow> nat \<Rightarrow> timed_event list \<Rightarrow> tsdev \<Rightarrow> ts_event list" where
  "ts_records sx sy d f [] ts = []"
| "ts_records sx sy d f ((usec, type, code, value) # es) ts =
    (let ts1 = tsdev_state sx sy d type code value ts
     in (if type = EV_SYN \<and> code = SYN_REPORT then [ts_record ts1 (usec f)] else []) @ ts_records sx sy d f es ts1)"

lemma tsdev_state_clients [simp]:
  "clients (tsdev_state sx sy d type code value ts) = clients ts"
  "tsdev_state sx sy d type code value (ts\<lparr>clients := cs\<rparr>) = (tsdev_state sx sy d type code value ts)\<lparr>clients := cs\<rparr>"
  "(tsdev_state sx sy d type code value ts)\<lparr>clients := clients ts\<rparr> = tsdev_state sx sy d type code value ts"
  by (cases ts, simp add: tsdev_state_def Let_def if_distrib [of clients] if_distrib [of "clients_update c" for c]
      cong: if_cong split del: if_split)+

lemma ts_record_clients [simp]: "ts_record (ts\<lparr>clients := cs\<rparr>) u = ts_record ts u"
  by (simp add: ts_record_def)

lemma ts_records_clients [simp]: "ts_records sx sy d f es (ts\<lparr>clients := cs\<rparr>) = ts_records sx sy d f es ts"
proof (induction es arbitrary: ts)
  case Nil
  then show ?case by simp
next
  case (Cons e es)
  then show ?case by (cases e) (simp add: Let_def)
qed

lemma tsdev_event_split:
  "tsdev_event sx sy usec d type code value ts = (let ts1 = tsdev_state sx sy d type code value ts in
     ts1\<lparr>clients := map (\<lambda>(f, l). (f, if type = EV_SYN \<and> code = SYN_REPORT then ts_put (ts_record ts1 (usec f)) l else l)) (clients ts)\<rparr>)"
proof (cases "type = EV_SYN \<and> code = SYN_REPORT")
  case True
  then show ?thesis by (simp add: tsdev_event_def Let_def ts_record_def)
next
  case False
  then show ?thesis by (auto simp: tsdev_event_def Let_def)
qed

text \<open>Each file gets its records, whatever the others do.\<close>

lemma serve_clients:
  "clients (tsdev_serve sx sy d es ts) = map (\<lambda>(f, l). (f, fold ts_put (ts_records sx sy d f es ts) l)) (clients ts)"
proof (induction es arbitrary: ts)
  case Nil
  then show ?case by (simp add: tsdev_serve_def case_prod_beta)
next
  case (Cons e es)
  obtain usec type code v where e: "e = (usec, type, code, v)" by (cases e)
  have "tsdev_serve sx sy d (e # es) ts = tsdev_serve sx sy d es (tsdev_event sx sy usec d type code v ts)"
    by (simp add: tsdev_serve_def e)
  then show ?case
    by (simp add: Cons.IH tsdev_event_split Let_def e case_prod_beta)
qed


text \<open>
  C32: what a file holds after any run of input events, unread or not. The ring is never asked whether there is room, so each time it
  comes round the 64 events it has seen are gone: of everything put in, only what follows the last multiple of 64 is left, in order. A
  reader 64 reports behind finds nothing.
\<close>

theorem tsdev_overflow:
  assumes "(f, l) \<in> set (clients ts)" "ts_wf l"
  shows "\<exists>l'. (f, l') \<in> set (clients (tsdev_serve sx sy d es ts)) \<and> ts_wf l' \<and>
    (let every = ts_events l @ ts_records sx sy d f es ts in ts_events l' = drop (64 * (length every div 64)) every)"
proof -
  define l' where "l' = fold ts_put (ts_records sx sy d f es ts) l"
  have "(f, l') \<in> set (clients (tsdev_serve sx sy d es ts))"
    unfolding serve_clients l'_def using assms(1) by force
  moreover have "ts_wf l'" unfolding l'_def using assms(2) by (rule pen_ring.wf_put_all)
  ultimately show ?thesis
    using unread_events [OF assms(2), of "ts_records sx sy d f es ts"] by (auto simp: l'_def Let_def)
qed

definition quiet_dev :: tsdev where
  "quiet_dev = \<lparr>exist = True, opens = 1, minor = 0, clients = [(7, blank_list False)], ts_x = 5, ts_y = 6, ts_pressure = 1,
     cal = \<lparr>xscale = 0, xtrans = 0, yscale = 0, ytrans = 0, xyswap = 0\<rparr>\<rparr>"

lemma quiet_records:
  "length (ts_records 240 320 blank_input_dev 7 (replicate n (\<lambda>_. 0, EV_SYN, SYN_REPORT, 0)) ts) = n"
  by (induction n arbitrary: ts) (simp_all add: Let_def)

theorem tsdev_overflow_witness:
  "\<exists>l. (7, l) \<in> set (clients (tsdev_serve 240 320 blank_input_dev (replicate 64 (\<lambda>_. 0, EV_SYN, SYN_REPORT, 0)) quiet_dev)) \<and>
     ts_events l = []"
proof -
  have "(7, blank_list False) \<in> set (clients quiet_dev)" by (simp add: quiet_dev_def)
  from tsdev_overflow [OF this blank_wf(1), of 240 320 blank_input_dev "replicate 64 (\<lambda>_. 0, EV_SYN, SYN_REPORT, 0)"]
  show ?thesis unfolding Let_def length_append quiet_records blank_wf by (auto simp: quiet_records)
qed

section \<open>The life of a device\<close>

text \<open>
  A step of the reader module as a whole: a touch screen comes, a file is opened, read, served or closed, a touch screen goes. The log
  holds the calls into the input core. A file number is fresh at its opening, as the kernel's file objects are.
\<close>

inductive tsdev_step :: "tsdev_table \<times> ts_call list \<Rightarrow> tsdev_table \<times> ts_call list \<Rightarrow> bool" where
  connect: "tsdev_connect mem sx sy d tab = (r, tab') \<Longrightarrow> tsdev_step (tab, log) (tab', log)"
| open_file: "tsdev_open mem file iminor tab = (r, tab', calls) \<Longrightarrow> 0 \<le> iminor \<Longrightarrow>
    (\<And>m ts l. tab m = Some ts \<Longrightarrow> (file, l) \<notin> set (clients ts)) \<Longrightarrow> tsdev_step (tab, log) (tab', log @ calls)"
| serve: "tab m = Some ts \<Longrightarrow> exist ts \<Longrightarrow> tsdev_step (tab, log) (tab(m \<mapsto> tsdev_event sx sy usec d type code value ts), log)"
| read_file: "tab m = Some ts \<Longrightarrow> clients ts = cs @ (file, l) # cs' \<Longrightarrow> tsdev_read (exist ts) nonblock faults count l = (outcome, l') \<Longrightarrow>
    tsdev_step (tab, log) (tab(m \<mapsto> ts\<lparr>clients := cs @ (file, l') # cs'\<rparr>), log)"
| set_cal: "tab m = Some ts \<Longrightarrow> tsdev_ioctl_set arg ts = (r, ts') \<Longrightarrow> tsdev_step (tab, log) (tab(m \<mapsto> ts'), log)"
| release_file: "tab m = Some ts \<Longrightarrow> (file, l) \<in> set (clients ts) \<Longrightarrow> tsdev_release file m tab = (tab', calls) \<Longrightarrow>
    tsdev_step (tab, log) (tab', log @ calls)"
| disconnect: "tab m = Some ts \<Longrightarrow> exist ts \<Longrightarrow> tsdev_disconnect m tab = (tab', calls) \<Longrightarrow> tsdev_step (tab, log) (tab', log @ calls)"

inductive_cases tsdev_stepE [elim]: "tsdev_step (tab, log) (tab', log')"

text \<open>
  A device is in the slot of its minor number; its count is the number of its files, which are distinct and have sound rings; an unplugged
  device is kept only for its files.
\<close>

definition dev_ok :: "nat \<Rightarrow> tsdev \<Rightarrow> bool" where
  "dev_ok m ts \<longleftrightarrow> m < 16 \<and> minor ts = m \<and> opens ts = int (length (clients ts)) \<and> distinct (map fst (clients ts)) \<and>
     (exist ts \<or> clients ts \<noteq> []) \<and> (\<forall>(f, l) \<in> set (clients ts). ts_wf l)"

text \<open>Whether the device's handle should be open now.\<close>

definition handle_up :: "tsdev option \<Rightarrow> bool" where
  "handle_up d = (case d of None \<Rightarrow> False | Some ts \<Rightarrow> exist ts \<and> clients ts \<noteq> [])"

definition table_ok :: "tsdev_table \<times> ts_call list \<Rightarrow> bool" where
  "table_ok s \<longleftrightarrow> (\<forall>m ts. fst s m = Some ts \<longrightarrow> dev_ok m ts) \<and>
     (\<forall>m. count_list (snd s) (InputOpen m) = count_list (snd s) (InputClose m) + (if handle_up (fst s m) then 1 else 0))"

lemma table_okD: "table_ok (tab, log) \<Longrightarrow> tab m = Some ts \<Longrightarrow> dev_ok m ts"
  by (simp add: table_ok_def)

text \<open>A step that changes one slot and makes the calls for it.\<close>

lemma table_ok_upd:
  assumes "table_ok (tab, log)" "case new of None \<Rightarrow> True | Some ts \<Rightarrow> dev_ok m ts"
    and "\<And>k. k \<noteq> m \<Longrightarrow> count_list calls (InputOpen k) = count_list calls (InputClose k)"
    and "count_list calls (InputOpen m) + (if handle_up (tab m) then 1 else 0) =
         count_list calls (InputClose m) + (if handle_up new then 1 else 0)"
  shows "table_ok (tab(m := new), log @ calls)"
proof -
  have "count_list (log @ calls) (InputOpen k) = count_list (log @ calls) (InputClose k) + (if handle_up ((tab(m := new)) k) then 1 else 0)" for k
    using assms(1,3,4) by (cases "k = m") (auto simp: table_ok_def split: if_splits)
  then show ?thesis using assms(1,2) by (auto simp: table_ok_def split: option.splits)
qed

lemma table_ok_same:
  assumes "table_ok (tab, log)" "tab m = Some ts" "dev_ok m ts'" "exist ts' = exist ts" "clients ts' = [] \<longleftrightarrow> clients ts = []"
  shows "table_ok (tab(m \<mapsto> ts'), log)"
  using table_ok_upd [where calls = "[]" and m = m and new = "Some ts'", OF assms(1)] assms by (simp add: handle_up_def)

lemma tsdev_state_frame [simp]:
  "minor (tsdev_state sx sy d type code value ts) = minor ts" "opens (tsdev_state sx sy d type code value ts) = opens ts"
  "exist (tsdev_state sx sy d type code value ts) = exist ts"
  by (simp add: tsdev_state_def Let_def if_distrib [of minor] if_distrib [of opens] if_distrib [of exist] cong: if_cong split del: if_split)+

lemma event_ok: "dev_ok m ts \<Longrightarrow> dev_ok m (tsdev_event sx sy usec d type code value ts)"
  by (auto simp: tsdev_event_split Let_def dev_ok_def o_def case_prod_beta ts_put_wf)

lemma event_same [simp]:
  "exist (tsdev_event sx sy usec d type code value ts) = exist ts" "clients (tsdev_event sx sy usec d type code value ts) = [] \<longleftrightarrow> clients ts = []"
  by (simp_all add: tsdev_event_split Let_def)

lemma read_wf: "tsdev_read ex nonblock faults count l = (outcome, l') \<Longrightarrow> ts_wf l \<Longrightarrow> ts_wf l'"
  using read_loop_result [of l faults count 0 "[]"] by (auto simp: tsdev_read_def Let_def split: if_splits prod.splits)

lemma connect_ok:
  assumes "table_ok (tab, log)" "tsdev_connect mem sx sy d tab = (r, tab')"
  shows "table_ok (tab', log)"
proof (cases "find (\<lambda>m. tab m = None) [0..<TSDEV_MINORS div 2]")
  case None
  then show ?thesis using assms by (simp add: tsdev_connect_def)
next
  case (Some m)
  then have "tab m = None" "m < 16" by (auto simp: find_Some_iff TSDEV_MINORS_def)
  then show ?thesis
    using assms Some table_ok_upd [where calls = "[]" and m = m, OF assms(1)]
    by (auto simp: tsdev_connect_def dev_ok_def handle_up_def split: if_splits)
qed

lemma minor_slot: "nat (i AND int TSDEV_MINOR_MASK) < 16"
proof -
  have "i AND int TSDEV_MINOR_MASK \<le> 15" using AND_upper2 [of "int TSDEV_MINOR_MASK" i] by (simp add: TSDEV_MINOR_MASK_def)
  then show ?thesis by arith
qed

lemma open_ok:
  assumes "table_ok (tab, log)" "tsdev_open mem file iminor tab = (r, tab', calls)"
    "\<And>m ts l. tab m = Some ts \<Longrightarrow> (file, l) \<notin> set (clients ts)"
  shows "table_ok (tab', log @ calls)"
proof -
  define m where "m = nat ((iminor - int TSDEV_MINOR_BASE) AND int TSDEV_MINOR_MASK)"
  show ?thesis
  proof (cases "r = 0")
    case False
    then show ?thesis using assms(1,2) by (auto simp: tsdev_open_def Let_def split: if_splits)
  next
    case True
    then obtain ts where ts: "tab m = Some ts"
      using assms(2) by (auto simp: tsdev_open_def Let_def m_def split: if_splits)
    define ts' where "ts' = ts\<lparr>clients := clients ts @ [(file, blank_list (iminor - int TSDEV_MINOR_BASE \<ge> int (TSDEV_MINORS div 2)))],
      opens := opens ts + 1\<rparr>"
    have res: "tab' = tab(m \<mapsto> ts')" "calls = (if opens ts = 0 \<and> exist ts then [InputOpen m] else [])"
      using assms(2) ts True by (auto simp: tsdev_open_def Let_def ts'_def m_def [symmetric] split: if_splits)
    have ok: "dev_ok m ts" using assms(1) ts by (rule table_okD)
    have "dev_ok m ts'" using ok assms(3) [OF ts] by (force simp: dev_ok_def ts'_def blank_wf)
    then show ?thesis
      unfolding res using ok ts by (intro table_ok_upd [OF assms(1)]) (auto simp: dev_ok_def handle_up_def ts'_def)
  qed
qed


text \<open>Closing a file of a sound device: what is left of the slot, and the call it makes.\<close>

lemma release_result:
  fixes f
  defines "rest \<equiv> filter (\<lambda>(g, l). g \<noteq> f)"
  assumes ts: "tab m = Some ts" "dev_ok m ts" and f: "f \<in> fst ` set (clients ts)"
  shows "tsdev_release f m tab =
    (if rest (clients ts) \<noteq> [] then (tab(m \<mapsto> ts\<lparr>clients := rest (clients ts), opens := opens ts - 1\<rparr>), [])
     else if exist ts then (tab(m \<mapsto> ts\<lparr>clients := [], opens := 0\<rparr>), [InputClose m]) else (tab(m := None), []))"
    and "int (length (rest (clients ts))) = opens ts - 1"
proof -
  have "length (rest (clients ts)) + 1 = length (clients ts)"
  proof -
    obtain cs l cs' where cs: "clients ts = cs @ (f, l) # cs'" using f by (auto dest: split_list)
    then have "f \<notin> fst ` set cs" "f \<notin> fst ` set cs'" using ts(2) by (auto simp: dev_ok_def)
    then have "rest cs = cs" "rest cs' = cs'" by (force simp: rest_def intro: filter_True)+
    then show ?thesis using cs by (simp add: rest_def)
  qed
  then show len: "int (length (rest (clients ts))) = opens ts - 1" using ts(2) by (simp add: dev_ok_def)
  have "opens ts - 1 = 0 \<longleftrightarrow> rest (clients ts) = []" using len by (cases "rest (clients ts)") auto
  then show "tsdev_release f m tab =
    (if rest (clients ts) \<noteq> [] then (tab(m \<mapsto> ts\<lparr>clients := rest (clients ts), opens := opens ts - 1\<rparr>), [])
     else if exist ts then (tab(m \<mapsto> ts\<lparr>clients := [], opens := 0\<rparr>), [InputClose m]) else (tab(m := None), []))"
    using ts by (auto simp: tsdev_release_def tsdev_free_def Let_def rest_def dev_ok_def)
qed

lemma rest_ok:
  assumes "dev_ok m ts" "filter (\<lambda>(g, l). g \<noteq> f) (clients ts) \<noteq> [] \<or> exist ts"
    and "n = int (length (filter (\<lambda>(g, l). g \<noteq> f) (clients ts)))"
  shows "dev_ok m (ts\<lparr>clients := filter (\<lambda>(g, l). g \<noteq> f) (clients ts), opens := n\<rparr>)"
  using assms by (auto simp: dev_ok_def distinct_map_filter)

lemma release_ok:
  assumes "table_ok (tab, log)" "tab m = Some ts" "(f, l) \<in> set (clients ts)" "tsdev_release f m tab = (tab', calls)"
  shows "table_ok (tab', log @ calls)"
proof -
  note ok = table_okD [OF assms(1,2)]
  have f: "f \<in> fst ` set (clients ts)" "clients ts \<noteq> []" using assms(3) by force+
  note res = release_result [of tab m, OF assms(2) ok f(1)]
  show ?thesis
    using assms(4) res f(2) rest_ok [OF ok, of f] table_ok_upd [OF assms(1), of m None calls] table_ok_upd [OF assms(1), of m _ calls] assms(2)
    by (auto simp: handle_up_def split: if_splits)
qed

lemma disconnect_ok:
  assumes "table_ok (tab, log)" "tab m = Some ts" "exist ts" "tsdev_disconnect m tab = (tab', calls)"
  shows "table_ok (tab', log @ calls)"
proof -
  have ok: "dev_ok m ts" using assms(1,2) by (rule table_okD)
  then have "dev_ok m (ts\<lparr>exist := False\<rparr>)" if "clients ts \<noteq> []" using that by (simp add: dev_ok_def)
  with ok table_ok_upd [OF assms(1), of m None calls] table_ok_upd [OF assms(1), of m "Some (ts\<lparr>exist := False\<rparr>)" calls] assms(2-4)
  show ?thesis
    by (auto simp: tsdev_disconnect_def tsdev_free_def Let_def handle_up_def dev_ok_def split: if_splits)
qed

lemma tsdev_step_ok: "tsdev_step s s' \<Longrightarrow> table_ok s \<Longrightarrow> table_ok s'"
proof (induction rule: tsdev_step.induct)
  case (connect mem sx sy d tab r tab' log)
  then show ?case by (blast intro: connect_ok)
next
  case (open_file mem nr iminor tab r tab' calls log)
  then show ?case by (blast intro: open_ok)
next
  case (serve tab m ts log sx sy usec d type code "value")
  then show ?case by (intro table_ok_same [where ts = ts]) (auto intro: event_ok dest: table_okD)
next
  case (read_file tab m ts cs nr l cs' nonblock faults count outcome l' log)
  then have "dev_ok m (ts\<lparr>clients := cs @ (nr, l') # cs'\<rparr>)"
    using table_okD [OF read_file.prems read_file.hyps(1)] read_wf [OF read_file.hyps(3)] by (auto simp: dev_ok_def)
  then show ?case using read_file by (intro table_ok_same [where ts = ts]) auto
next
  case (set_cal tab m ts arg r ts' log)
  then show ?case
    using table_okD [OF set_cal.prems set_cal.hyps(1)]
    by (intro table_ok_same [where ts = ts]) (auto simp: tsdev_ioctl_set_def dev_ok_def split: option.splits)
next
  case (release_file tab m ts nr l tab' calls log)
  then show ?case by (blast intro: release_ok)
next
  case (disconnect tab m ts tab' calls log)
  then show ?case by (blast intro: disconnect_ok)
qed


lemma empty_table_ok: "table_ok (Map.empty, [])"
  by (simp add: table_ok_def handle_up_def)

lemma reach_table_ok: "tsdev_step\<^sup>*\<^sup>* (Map.empty, []) s \<Longrightarrow> table_ok s"
  by (induction rule: rtranclp_induct) (auto intro: tsdev_step_ok empty_table_ok)

text \<open>
  C30: what is well formed about the table of touch screens after any calls of the input core and of user programs. A device sits
  in the slot of its minor number below 16; its count of openings is the number of its files, all different, each with a sound ring; an
  unplugged device is there only while a file still holds it. The device below has been opened and closed in turn: it has one more
  opening than closings exactly while it is plugged in and has a file.
\<close>

theorem tsdev_devices_sound:
  assumes "tsdev_step\<^sup>*\<^sup>* (Map.empty, []) (tab, log)" "tab m = Some ts"
  shows "m < 16 \<and> minor ts = m \<and> opens ts = int (length (clients ts)) \<and> distinct (map fst (clients ts)) \<and>
    (\<forall>(f, l) \<in> set (clients ts). ts_wf l) \<and> (\<not> exist ts \<longrightarrow> clients ts \<noteq> []) \<and>
    count_list log (InputOpen m) = count_list log (InputClose m) + (if exist ts \<and> clients ts \<noteq> [] then 1 else 0)"
proof -
  have ok: "table_ok (tab, log)" using assms(1) by (rule reach_table_ok)
  then have "count_list log (InputOpen m) = count_list log (InputClose m) + (if handle_up (tab m) then 1 else 0)"
    by (simp add: table_ok_def)
  then show ?thesis using table_okD [OF ok assms(2)] assms(2) by (auto simp: dev_ok_def handle_up_def)
qed

text \<open>A touch screen comes and file 7 is opened on its first minor number.\<close>

definition one_reader :: tsdev where
  "one_reader = \<lparr>exist = True, opens = 1, minor = 0, clients = [(7, blank_list False)], ts_x = 0, ts_y = 0, ts_pressure = 0,
     cal = rough_calibration 240 320 blank_input_dev\<rparr>"

lemma one_reader_reached: "tsdev_step\<^sup>*\<^sup>* (Map.empty, []) ([0 \<mapsto> one_reader], [InputOpen 0])"
proof -
  let ?none = "one_reader\<lparr>opens := 0, clients := []\<rparr>"
  have "find (\<lambda>m. (Map.empty :: tsdev_table) m = None) [0..<TSDEV_MINORS div 2] = Some 0"
    by (simp add: TSDEV_MINORS_def upt_conv_Cons)
  then have "tsdev_connect True 240 320 blank_input_dev Map.empty = (Some 0, [0 \<mapsto> ?none])"
    by (simp add: tsdev_connect_def one_reader_def)
  then have "tsdev_step (Map.empty, []) ([0 \<mapsto> ?none], [])" by (rule tsdev_step.connect)
  moreover have "tsdev_open True 7 128 [0 \<mapsto> ?none] = (0, [0 \<mapsto> one_reader], [InputOpen 0])"
    by (simp add: tsdev_open_def Let_def one_reader_def TSDEV_MINORS_def TSDEV_MINOR_BASE_def)
  then have "tsdev_step ([0 \<mapsto> ?none], []) ([0 \<mapsto> one_reader], [] @ [InputOpen 0])"
    by (rule tsdev_step.open_file) (auto split: if_splits)
  ultimately show ?thesis by auto
qed

theorem tsdev_devices_sound_witness:
  "opens one_reader = 1 \<and> count_list [InputOpen 0] (InputOpen 0) = count_list [InputOpen 0] (InputClose 0) + (1 :: nat)"
  using tsdev_devices_sound [OF one_reader_reached, of 0 one_reader] by (simp add: one_reader_def)

section \<open>Unplugging\<close>

definition close_all :: "nat list \<Rightarrow> nat \<Rightarrow> tsdev_table \<Rightarrow> tsdev_table" where
  "close_all fs m tab = fold (\<lambda>f t. fst (tsdev_release f m t)) fs tab"

lemma close_unplugged:
  assumes "tab m = Some ts" "dev_ok m ts" "\<not> exist ts" "distinct fs" "set fs \<subseteq> fst ` set (clients ts)"
  shows "close_all fs m tab =
    (if set fs = fst ` set (clients ts) then tab(m := None)
     else tab(m \<mapsto> ts\<lparr>clients := filter (\<lambda>(g, l). g \<notin> set fs) (clients ts), opens := opens ts - int (length fs)\<rparr>))"
  using assms
proof (induction fs arbitrary: tab ts)
  case Nil
  then have "clients ts \<noteq> []" by (auto simp: dev_ok_def)
  with Nil show ?case by (auto simp: close_all_def)
next
  case (Cons f fs)
  define rest where "rest = filter (\<lambda>(g, l). g \<noteq> f) (clients ts)"
  have f: "f \<in> fst ` set (clients ts)" using Cons.prems(5) by simp
  note res = release_result [of tab m, OF Cons.prems(1,2) f, folded rest_def]
  have names: "fst ` set rest = fst ` set (clients ts) - {f}" by (force simp: rest_def)
  have all: "close_all (f # fs) m tab = close_all fs m (fst (tsdev_release f m tab))" by (simp add: close_all_def)
  show ?case
  proof (cases "rest = []")
    case True
    then have one: "fst ` set (clients ts) = {f}" using names f by auto
    then have "fs = []" using Cons.prems(4,5) by (cases fs) auto
    with one True res Cons.prems(3) all show ?thesis by (simp add: close_all_def)
  next
    case False
    define ts1 where "ts1 = ts\<lparr>clients := rest, opens := opens ts - 1\<rparr>"
    have step: "fst (tsdev_release f m tab) = tab(m \<mapsto> ts1)" using res False by (simp add: ts1_def)
    have ok: "dev_ok m ts1"
      unfolding ts1_def rest_def using rest_ok [OF Cons.prems(2), of f] False res(2) by (simp add: rest_def)
    have "close_all fs m (tab(m \<mapsto> ts1)) =
      (if set fs = fst ` set (clients ts1) then (tab(m \<mapsto> ts1))(m := None)
       else (tab(m \<mapsto> ts1))(m \<mapsto> ts1\<lparr>clients := filter (\<lambda>(g, l). g \<notin> set fs) (clients ts1), opens := opens ts1 - int (length fs)\<rparr>))"
      using Cons.prems ok names by (intro Cons.IH) (auto simp: ts1_def)
    moreover have "set fs = fst ` set (clients ts1) \<longleftrightarrow> set (f # fs) = fst ` set (clients ts)"
      using names f Cons.prems(4) by (auto simp: ts1_def)
    moreover have "filter (\<lambda>(g, l). g \<notin> set fs) rest = filter (\<lambda>(g, l). g \<notin> set (f # fs)) (clients ts)"
      unfolding rest_def filter_filter by (rule filter_cong) auto
    ultimately show ?thesis unfolding all step by (simp add: ts1_def algebra_simps)
  qed
qed

text \<open>
  C31: an unplugged touch screen goes when its last reader does. Whatever the order in which its files are then closed, the slot
  stays taken, by a device that no longer exists, until the last one; the last closing frees it, and the other slots never change.
\<close>

theorem tsdev_unplugged:
  assumes "tsdev_step\<^sup>*\<^sup>* (Map.empty, []) (tab, log)" "tab m = Some ts" "exist ts"
    and "distinct (fs @ fs')" "set (fs @ fs') = fst ` set (clients ts)"
  shows "let tab' = close_all fs m (fst (tsdev_disconnect m tab))
         in if fs' = [] then tab' = tab(m := None)
            else \<exists>ts'. tab' = tab(m \<mapsto> ts') \<and> \<not> exist ts' \<and> fst ` set (clients ts') = set fs' \<and>
              tsdev_read (exist ts') nonblock faults count l = (ReadResult (- ENODEV) [], l)"
proof -
  have ok: "dev_ok m ts" using table_okD [OF reach_table_ok [OF assms(1)] assms(2)] .
  show ?thesis
  proof (cases "clients ts = []")
    case True
    then have "opens ts = 0" using ok by (simp add: dev_ok_def)
    with True assms ok show ?thesis
      by (simp add: close_all_def tsdev_disconnect_def tsdev_free_def Let_def dev_ok_def)
  next
    case False
    define ts1 where "ts1 = ts\<lparr>exist := False\<rparr>"
    have ok1: "dev_ok m ts1" using ok False by (simp add: dev_ok_def ts1_def)
    have gone: "fst (tsdev_disconnect m tab) = tab(m \<mapsto> ts1)"
      using assms(2) ok False by (simp add: tsdev_disconnect_def Let_def ts1_def dev_ok_def)
    have all: "set fs = fst ` set (clients ts) \<longleftrightarrow> fs' = []" using assms(4,5) by (cases fs') auto
    have "fst ` set (filter (\<lambda>(g, l). g \<notin> set fs) (clients ts)) = fst ` set (clients ts) - set fs" by force
    then have left: "fst ` set (filter (\<lambda>(g, l). g \<notin> set fs) (clients ts)) = set fs'" using assms(4,5) by auto
    have "close_all fs m (tab(m \<mapsto> ts1)) = (if set fs = fst ` set (clients ts1) then (tab(m \<mapsto> ts1))(m := None)
      else (tab(m \<mapsto> ts1))(m \<mapsto> ts1\<lparr>clients := filter (\<lambda>(g, l). g \<notin> set fs) (clients ts1), opens := opens ts1 - int (length fs)\<rparr>))"
      by (rule close_unplugged) (use ok1 assms(4,5) in \<open>auto simp: ts1_def\<close>)
    moreover define ts2 where "ts2 = ts1\<lparr>clients := filter (\<lambda>(g, l). g \<notin> set fs) (clients ts1), opens := opens ts1 - int (length fs)\<rparr>"
    ultimately have closed: "close_all fs m (tab(m \<mapsto> ts1)) = (if fs' = [] then tab(m := None) else tab(m \<mapsto> ts2))"
      using all by (simp add: ts1_def)
    have "\<not> exist ts2" "fst ` set (clients ts2) = set fs'" using left by (simp_all add: ts2_def ts1_def)
    then show ?thesis unfolding gone Let_def closed by (auto simp: tsdev_read_def)
  qed
qed

theorem tsdev_unplugged_witness: "close_all [7] 0 (fst (tsdev_disconnect 0 [0 \<mapsto> one_reader])) = Map.empty"
  using tsdev_unplugged [OF one_reader_reached, of 0 one_reader "[7]" "[]"] by (simp add: one_reader_def)


section \<open>From the pen to the reader\<close>

text \<open>A frame: the place in pixels and the pressure, as the input device holds them.\<close>

type_synonym pen_frame = "int \<times> int \<times> int"

definition dev_frame :: "input_dev \<Rightarrow> pen_frame" where
  "dev_frame d = (abs_val d ABS_X, abs_val d ABS_Y, abs_val d ABS_PRESSURE)"








text \<open>A driver that has been bound and opened, its handle open.\<close>

definition touch_ready :: "touch \<Rightarrow> mtlcd_info \<Rightarrow> bool" where
  "touch_ready s p \<longleftrightarrow> pMTLCD s = Some p \<and> handle_open s \<and> {EV_ABS, EV_SYN} \<subseteq> evbit (idev s) \<and>
     {ABS_X, ABS_Y, ABS_PRESSURE} \<subseteq> absbit (idev s) \<and> (\<forall>a \<in> {ABS_X, ABS_Y, ABS_PRESSURE}. absfuzz (idev s) a = 0) \<and>
     absmin (idev s) ABS_PRESSURE = 0 \<and> absmax (idev s) ABS_PRESSURE = 0x100"



lemma ready_upd [simp]:
  "touch_ready (s\<lparr>idev := (idev s)\<lparr>abs_val := f, sync := b\<rparr>, handed_on := h\<rparr>) p = touch_ready s p"
  "touch_ready (s\<lparr>idev := (idev s)\<lparr>sync := b\<rparr>, handed_on := h\<rparr>) p = touch_ready s p"
  by (simp_all add: touch_ready_def)
























text \<open>The driver with the device of its binding, opened with the first panel; a pen pressed in the middle, held, and lifted.\<close>

definition bound_touch :: touch where
  "bound_touch = fresh_touch\<lparr>idev := blank_input_dev\<lparr>absfuzz := (absfuzz blank_input_dev)(ABS_X := 6, ABS_Y := 6),
     absmax := (absmax blank_input_dev)(ABS_PRESSURE := 0x100), evbit := {EV_ABS, EV_SYN}, absbit := {ABS_X, ABS_Y, ABS_PRESSURE}\<rparr>\<rparr>"

definition ready_touch :: touch where
  "ready_touch = the (ts_option bound_touch)"

lemma ready_touch_eq:
  "ready_touch = bound_touch\<lparr>touch_convert_type := TS_TYPE_7, pMTLCD := Some (MT_LCD ! 0),
     idev := input_set_abs_params ABS_Y 80 960 0 0 (input_set_abs_params ABS_X 100 930 0 0 (idev bound_touch))\<rparr>"
  by (simp add: ready_touch_def ts_option_def Let_def bound_touch_def MT_LCD_def TS_TYPE_7_def TS_SWAP_X_Y_def TS_SWAP_X_MIN_MAX_def
      TS_SWAP_Y_MIN_MAX_def)


lemma ready_touch_fields [simp]:
  "dev_frame (idev ready_touch) = (0, 0, 0)" "sync (idev ready_touch) = False" "touch_convert_type ready_touch = TS_TYPE_7"
  by (simp_all add: ready_touch_eq bound_touch_def input_set_abs_params_def blank_input_dev_def dev_frame_def)




end
