(* ===== verification/Guess.thy ===== *)
theory Guess
  imports Apps "HOL-Library.Signed_Division"
begin

text \<open>
  The guessing game of \<open>0851084_eos_lab7\<close>: \<open>guess.cpp\<close> halves an interval at every tick of its virtual timer and signals \<open>game.cpp\<close>,
  which answers through a shared memory. The two processes share nothing but that memory and a signal, which does not queue:
  a step is one run of a handler. Sums of two \<open>int\<close>s wrap at 32 bits.
\<close>

section \<open>The two handlers\<close>

text \<open>\<open>signalled\<close>: a \<open>SIGUSR1\<close> not yet delivered to the game; \<open>over\<close>: the guesser has killed itself.\<close>

record lab7 =
  guess :: int
  resu :: int
  upper_bound :: int
  lower_bound :: int
  ans :: int
  signalled :: bool
  over :: bool

definition timer_handler :: "lab7 \<Rightarrow> lab7" where
  "timer_handler s =
    (if over s then s
     else if resu s = 2 then s\<lparr>over := True\<rparr>
     else let s1 = (if resu s = 3 then s\<lparr>lower_bound := guess s, guess := s32 (guess s + upper_bound s) sdiv 2\<rparr>
                    else if resu s = 1 then s\<lparr>upper_bound := guess s, guess := s32 (guess s + lower_bound s) sdiv 2\<rparr>
                    else s)
          in s1\<lparr>signalled := True\<rparr>)"

definition game_handler :: "lab7 \<Rightarrow> lab7" where
  "game_handler s =
    (if \<not> signalled s then s
     else let s1 = s\<lparr>signalled := False\<rparr>
          in if guess s1 = ans s1 then s1\<lparr>resu := 2\<rparr>
             else if guess s1 > ans s1 then s1\<lparr>resu := 1\<rparr>
             else s1\<lparr>resu := 3\<rparr>)"

text \<open>\<open>game\<close> with the number \<open>a\<close>, \<open>guess\<close> with the upper bound \<open>u\<close>.\<close>

definition lab7_start :: "int \<Rightarrow> int \<Rightarrow> lab7" where
  "lab7_start u a = \<lparr>guess = u sdiv 2, resu = 4, upper_bound = u, lower_bound = 1, ans = a, signalled = False, over = False\<rparr>"

inductive lab7_step :: "lab7 \<Rightarrow> lab7 \<Rightarrow> bool" where
  tick: "lab7_step s (timer_handler s)"
| answer: "signalled s \<Longrightarrow> lab7_step s (game_handler s)"

section \<open>An answer to every guess\<close>

definition lab7_round :: "lab7 \<Rightarrow> lab7" where
  "lab7_round s = game_handler (timer_handler s)"

lemma sdiv_2: "0 \<le> x \<Longrightarrow> x sdiv 2 = x div (2 :: int)"
  by (cases "x = 0") (simp_all add: signed_divide_int_def sgn_1_pos)

lemma halves: "u - l \<le> 2 * p \<Longrightarrow> u - (l + u) div 2 \<le> p" "u - l \<le> 2 * p \<Longrightarrow> (l + u) div 2 - l \<le> p" for u l p :: int
  by presburger+

definition answered :: "lab7 \<Rightarrow> bool" where
  "answered s \<longleftrightarrow> \<not> over s \<and> \<not> signalled s \<and> resu s = (if guess s = ans s then 2 else if guess s > ans s then 1 else 3)"

text \<open>One round after an answer: the interval is halved around the guess.\<close>

lemma round_answered:
  assumes "answered s" "guess s \<noteq> ans s" "0 \<le> guess s" "guess s + upper_bound s < 2 ^ 31" "guess s + lower_bound s < 2 ^ 31"
    "0 \<le> upper_bound s" "0 \<le> lower_bound s"
  shows "answered (lab7_round s)" "ans (lab7_round s) = ans s"
    and "guess s < ans s \<Longrightarrow> lower_bound (lab7_round s) = guess s \<and> upper_bound (lab7_round s) = upper_bound s \<and>
           guess (lab7_round s) = (guess s + upper_bound s) div 2"
    and "ans s < guess s \<Longrightarrow> upper_bound (lab7_round s) = guess s \<and> lower_bound (lab7_round s) = lower_bound s \<and>
           guess (lab7_round s) = (guess s + lower_bound s) div 2"
proof -
  have "s32 (guess s + upper_bound s) sdiv 2 = (guess s + upper_bound s) div 2"
    "s32 (guess s + lower_bound s) sdiv 2 = (guess s + lower_bound s) div 2"
    using assms by (simp_all add: s32_id sdiv_2)
  then show "answered (lab7_round s)" "ans (lab7_round s) = ans s"
    "guess s < ans s \<Longrightarrow> lower_bound (lab7_round s) = guess s \<and> upper_bound (lab7_round s) = upper_bound s \<and>
       guess (lab7_round s) = (guess s + upper_bound s) div 2"
    "ans s < guess s \<Longrightarrow> upper_bound (lab7_round s) = guess s \<and> lower_bound (lab7_round s) = lower_bound s \<and>
       guess (lab7_round s) = (guess s + lower_bound s) div 2"
    using assms by (auto simp: answered_def lab7_round_def timer_handler_def game_handler_def Let_def)
qed

lemma round_found: "answered s \<Longrightarrow> guess s = ans s \<Longrightarrow> over (lab7_round s)"
  by (simp add: answered_def lab7_round_def timer_handler_def game_handler_def Let_def)

lemma over_stays: "over s \<Longrightarrow> over (timer_handler s)" "over s \<Longrightarrow> over (game_handler s)"
  by (simp_all add: timer_handler_def game_handler_def Let_def)

lemma over_rounds: "over ((lab7_round ^^ m) s) \<Longrightarrow> m \<le> n \<Longrightarrow> over ((lab7_round ^^ n) s)"
proof (induction n)
  case 0
  then show ?case by simp
next
  case (Suc n)
  then show ?case by (cases "m = Suc n") (auto simp: lab7_round_def over_stays)
qed

definition bracketed :: "lab7 \<Rightarrow> bool" where
  "bracketed s \<longleftrightarrow> 0 \<le> lower_bound s \<and> lower_bound s \<le> ans s \<and> ans s < upper_bound s \<and> upper_bound s < 2 ^ 30"

text \<open>A guess in the middle of an interval of length at most \<open>2 ^ j\<close> around the number: \<open>j + 1\<close> more rounds.\<close>

lemma bisection:
  assumes "answered s" "bracketed s" "guess s = (lower_bound s + upper_bound s) div 2" "upper_bound s - lower_bound s \<le> 2 ^ j"
  shows "over ((lab7_round ^^ Suc j) s)"
  using assms
proof (induction j arbitrary: s)
  case 0
  then have "guess s = ans s" by (auto simp: bracketed_def)
  with 0 show ?case using round_found by simp
next
  case (Suc j)
  show ?case
  proof (cases "guess s = ans s")
    case True
    then have "over ((lab7_round ^^ 1) s)" using Suc.prems(1) round_found by simp
    then show ?thesis by (rule over_rounds) simp
  next
    case False
    have b: "0 \<le> lower_bound s" "lower_bound s \<le> ans s" "ans s < upper_bound s" "upper_bound s < 2 ^ 30"
      and g: "guess s = (lower_bound s + upper_bound s) div 2" "upper_bound s - lower_bound s \<le> 2 * 2 ^ j"
      using Suc.prems by (simp_all add: bracketed_def)
    have room: "0 \<le> guess s" "guess s + upper_bound s < 2 ^ 31" "guess s + lower_bound s < 2 ^ 31" "guess s < 2 ^ 30"
      using b g by auto
    note r = round_answered [OF Suc.prems(1) False room(1-3)]
    have "over ((lab7_round ^^ Suc j) (lab7_round s))"
    proof (rule Suc.IH)
      show "answered (lab7_round s)" using r b by simp
      show "bracketed (lab7_round s)" using r b room False by (cases "guess s < ans s") (simp_all add: bracketed_def)
      show "guess (lab7_round s) = (lower_bound (lab7_round s) + upper_bound (lab7_round s)) div 2"
        using r b room False by (cases "guess s < ans s") (simp_all add: add.commute)
      show "upper_bound (lab7_round s) - lower_bound (lab7_round s) \<le> 2 ^ j"
        using r b room False halves [OF g(2)] g(1) by (cases "guess s < ans s") simp_all
    qed
    then show ?thesis by (simp only: funpow_Suc_right o_def)
  qed
qed

lemma start_round:
  fixes u a
  assumes "0 \<le> u"
  defines "s \<equiv> lab7_round (lab7_start u a)"
  shows "answered s" "guess s = u div 2" "upper_bound s = u" "lower_bound s = 1" "ans s = a"
  using assms(1)
  by (auto simp: s_def lab7_start_def lab7_round_def timer_handler_def game_handler_def answered_def Let_def sdiv_2)

lemma found_rounds:
  assumes "0 \<le> u" "u < 2 ^ 30" "u \<le> 2 ^ k" "1 \<le> a \<and> a < u \<or> a = u div 2"
  shows "over ((lab7_round ^^ (k + 2)) (lab7_start u a))"
proof -
  define s where "s = lab7_round (lab7_start u a)"
  note s = start_round [OF assms(1), of a, folded s_def]
  show ?thesis
  proof (cases "a = u div 2")
    case True
    then have "over (lab7_round s)" using s by (intro round_found) simp_all
    then have "over ((lab7_round ^^ 2) (lab7_start u a))" by (simp add: s_def numeral_2_eq_2)
    then show ?thesis by (rule over_rounds) simp
  next
    case False
    then have a: "1 \<le> a" "a < u" using assms(4) by auto
    then obtain j where k: "k = Suc j" using assms(3) by (cases k) auto
    have room: "0 \<le> guess s" "guess s + upper_bound s < 2 ^ 31" "guess s + lower_bound s < 2 ^ 31" "0 \<le> upper_bound s" "0 \<le> lower_bound s"
      "guess s \<noteq> ans s"
      using s assms(1,2) False by auto
    note r = round_answered [OF s(1) room(6) room(1-5)]
    have u: "u \<le> 2 * 2 ^ j" using assms(3) k by simp
    have "over ((lab7_round ^^ Suc j) (lab7_round s))"
    proof (rule bisection)
      show "answered (lab7_round s)" by (rule r(1))
      show "bracketed (lab7_round s)"
        using r(2-4) s a assms(2) room False by (cases "guess s < ans s") (auto simp: bracketed_def)
      show "guess (lab7_round s) = (lower_bound (lab7_round s) + upper_bound (lab7_round s)) div 2"
        using r(3,4) room by (cases "guess s < ans s") (simp_all add: add.commute)
      show "upper_bound (lab7_round s) - lower_bound (lab7_round s) \<le> 2 ^ j"
        using r(3,4) room s u halves [of u 0 "2 ^ j"] by (cases "guess s < ans s") auto
    qed
    then have "over ((lab7_round ^^ Suc (Suc j)) s)" by (simp only: funpow_Suc_right o_def)
    then have "over ((lab7_round ^^ Suc (Suc (Suc j))) (lab7_start u a))" unfolding s_def by (simp only: funpow_Suc_right o_def)
    then show ?thesis by (simp add: k)
  qed
qed

text \<open>Outside the interval the guesses close in on an end and never reach the number.\<close>

definition out_of_reach :: "lab7 \<Rightarrow> bool" where
  "out_of_reach s \<longleftrightarrow> answered s \<and> 0 \<le> guess s \<and> guess s < 2 ^ 30 \<and> 0 \<le> upper_bound s \<and> upper_bound s < 2 ^ 30 \<and>
     0 \<le> lower_bound s \<and> lower_bound s < 2 ^ 30 \<and>
     (guess s < ans s \<and> guess s \<le> upper_bound s \<and> upper_bound s \<le> ans s \<or> ans s < guess s \<and> ans s < lower_bound s)"

lemma out_of_reach_round:
  assumes "out_of_reach s"
  shows "out_of_reach (lab7_round s)"
proof -
  have room: "0 \<le> guess s" "guess s + upper_bound s < 2 ^ 31" "guess s + lower_bound s < 2 ^ 31" "0 \<le> upper_bound s" "0 \<le> lower_bound s"
    "answered s" "guess s \<noteq> ans s"
    using assms by (auto simp: out_of_reach_def)
  note r = round_answered [OF room(6,7) room(1-5)]
  show ?thesis
  proof (cases "guess s < ans s")
    case True
    with r(1,2) r(3) [OF True] assms show ?thesis by (auto simp: out_of_reach_def)
  next
    case False
    then have lt: "ans s < guess s" using room(7) by simp
    with r(1,2) r(4) [OF lt] assms show ?thesis by (auto simp: out_of_reach_def)
  qed
qed

lemma never_found:
  assumes "0 \<le> u" "u < 2 ^ 30" "\<not> (1 \<le> a \<and> a < u \<or> a = u div 2)"
  shows "\<not> over ((lab7_round ^^ n) (lab7_start u a))"
proof (cases n)
  case 0
  then show ?thesis by (simp add: lab7_start_def)
next
  case (Suc m)
  have "out_of_reach (lab7_round (lab7_start u a))"
    using start_round [OF assms(1), of a] assms by (auto simp: out_of_reach_def)
  then have "out_of_reach ((lab7_round ^^ m) (lab7_round (lab7_start u a)))"
    by (rule funpow_invariant) (rule out_of_reach_round)
  then show ?thesis unfolding Suc by (simp add: funpow_swap1 out_of_reach_def answered_def)
qed

text \<open>
  C21: when the game ends. With an answer to every guess, the guesser finds the number exactly when it lies from 1 to below the upper
  bound, or is the first guess; then it needs at most two rounds more than the bound has bits. The bound itself is never
  guessed: the guesses stop at the number before it and the two programs run for ever.
\<close>

theorem guess_ends:
  assumes "0 \<le> u" "u < 2 ^ 30"
  shows "((\<exists>n. over ((lab7_round ^^ n) (lab7_start u a))) \<longleftrightarrow> 1 \<le> a \<and> a < u \<or> a = u div 2) \<and>
    (u \<le> 2 ^ k \<longrightarrow> 1 \<le> a \<longrightarrow> a < u \<longrightarrow> over ((lab7_round ^^ (k + 2)) (lab7_start u a)))"
proof -
  have "u \<le> 2 ^ 30" using assms(2) by simp
  then show ?thesis
    using found_rounds [OF assms, of k a] found_rounds [OF assms, of 30 a] never_found [OF assms, of a] by blast
qed

theorem guess_ends_witness:
  "over ((lab7_round ^^ 9) (lab7_start 100 99)) \<and> \<not> (\<exists>n. over ((lab7_round ^^ n) (lab7_start 100 100)))"
  using guess_ends [of 100 99 7] guess_ends [of 100 100 7] by simp

section \<open>A late answer\<close>

text \<open>The number left behind: below both bounds and the guess.\<close>

definition left_behind :: "lab7 \<Rightarrow> bool" where
  "left_behind s \<longleftrightarrow> \<not> over s \<and> resu s \<noteq> 2 \<and> 0 \<le> ans s \<and> (\<forall>v \<in> {guess s, lower_bound s, upper_bound s}. ans s < v \<and> v < 2 ^ 30)"

lemma left_behind_step: "lab7_step s s' \<Longrightarrow> left_behind s \<Longrightarrow> left_behind s'"
proof (induction rule: lab7_step.induct)
  case (tick s)
  then have "s32 (guess s + upper_bound s) = guess s + upper_bound s" "s32 (guess s + lower_bound s) = guess s + lower_bound s"
    by (auto simp: left_behind_def s32_id)
  with tick show ?case by (auto simp: left_behind_def timer_handler_def Let_def sdiv_2)
next
  case (answer s)
  then show ?case by (auto simp: left_behind_def game_handler_def Let_def)
qed

lemma left_behind_reach: "lab7_step\<^sup>*\<^sup>* s s' \<Longrightarrow> left_behind s \<Longrightarrow> left_behind s'"
  by (induction rule: rtranclp_induct) (auto dest: left_behind_step)

lemma ans_stays [simp]: "ans (timer_handler s) = ans s" "ans (game_handler s) = ans s"
  by (simp_all add: timer_handler_def game_handler_def Let_def)

lemma reach_ans: "lab7_step\<^sup>*\<^sup>* s s' \<Longrightarrow> ans s' = ans s"
  by (induction rule: rtranclp_induct) (auto elim!: lab7_step.cases)

lemma late_answer:
  assumes "1 \<le> u" "u < 2 ^ 30" "u div 2 < a" "a < (u div 2 + u) div 2"
  shows "lab7_step\<^sup>*\<^sup>* (lab7_start u a) (timer_handler (timer_handler (lab7_round (lab7_start u a))))"
    and "left_behind (timer_handler (timer_handler (lab7_round (lab7_start u a))))"
proof -
  let ?s = "lab7_start u a"
  have "signalled (timer_handler ?s)" by (simp add: lab7_start_def timer_handler_def Let_def)
  then show "lab7_step\<^sup>*\<^sup>* ?s (timer_handler (timer_handler (lab7_round ?s)))"
    unfolding lab7_round_def
    by (meson lab7_step.tick lab7_step.answer rtranclp.rtrancl_into_rtrancl rtranclp.rtrancl_refl)
  define g where "g = (u div 2 + u) div 2"
  have "s32 (u div 2 + u) = u div 2 + u" "s32 (g + u) = g + u" using assms by (auto simp: s32_id g_def)
  moreover have "0 \<le> u div 2 + u" "0 \<le> g" "0 \<le> g + u" "g \<le> u" using assms(1) by (auto simp: g_def)
  moreover have "g \<le> (g + u) div 2" "(g + u) div 2 \<le> u" using \<open>g \<le> u\<close> by auto
  ultimately show "left_behind (timer_handler (timer_handler (lab7_round ?s)))"
    using assms
    by (auto simp: lab7_start_def lab7_round_def timer_handler_def game_handler_def Let_def left_behind_def sdiv_2 g_def [symmetric])
qed

text \<open>
  C22: what a late answer does. Nothing makes the guesser wait for the game: if its timer runs twice after the first answer before the
  game has served the signal, the second run takes the old answer for one to the new guess. For a number between the first
  guess and the next that moves the lower bound past it, and from then on no order of ticks and answers ever finds it.
\<close>

theorem late_answer_loses:
  assumes "1 \<le> u" "u < 2 ^ 30" "u div 2 < a" "a < (u div 2 + u) div 2"
  shows "\<exists>s. lab7_step\<^sup>*\<^sup>* (lab7_start u a) s \<and> (\<forall>s'. lab7_step\<^sup>*\<^sup>* s s' \<longrightarrow> \<not> over s' \<and> guess s' \<noteq> a)"
proof (intro exI conjI allI impI)
  show "lab7_step\<^sup>*\<^sup>* (lab7_start u a) (timer_handler (timer_handler (lab7_round (lab7_start u a))))"
    by (rule late_answer(1) [OF assms])
  fix s'
  assume s': "lab7_step\<^sup>*\<^sup>* (timer_handler (timer_handler (lab7_round (lab7_start u a)))) s'"
  then have "left_behind s'" using late_answer(2) [OF assms] by (rule left_behind_reach)
  then show "\<not> over s'" by (simp add: left_behind_def)
  show "guess s' \<noteq> a" using reach_ans [OF s'] \<open>left_behind s'\<close> by (auto simp: left_behind_def lab7_round_def lab7_start_def)
qed

theorem late_answer_loses_witness:
  "\<exists>s. lab7_step\<^sup>*\<^sup>* (lab7_start 100 60) s \<and> (\<forall>s'. lab7_step\<^sup>*\<^sup>* s s' \<longrightarrow> \<not> over s' \<and> guess s' \<noteq> 60)"
  using late_answer_loses [of 100 60] by simp

end
