(* ===== verification/Sockets.thy ===== *)
theory Sockets
  imports Apps
begin

text \<open>
  The two versions of \<open>sockop.c\<close>, the socket helpers of the homework servers and clients
  (\<open>0851084_eos_hw2\<close> and \<open>0851084_eos_hw3\<close>): \<open>passivesock\<close> and \<open>connectsock\<close>. The name services and the
  system calls are a parameter, the record \<open>net\<close>; the calls a function makes are listed in its
  result. \<open>errexit\<close> prints a message and ends the process: the outcome \<open>Exit\<close> with the message.
\<close>

section \<open>Byte order, numbers and addresses\<close>

text \<open>\<open>htons\<close> and \<open>ntohs\<close> of a little-endian machine.\<close>

definition htons :: "u16 \<Rightarrow> u16" where "htons x = push_bit 8 x OR drop_bit 8 x"

definition ntohs :: "u16 \<Rightarrow> u16" where "ntohs x = push_bit 8 x OR drop_bit 8 x"

lemma htons_ntohs [simp]: "htons (ntohs x) = x"
  unfolding htons_def ntohs_def
  by (rule bit_word_eqI) (auto simp: bit_simps)

lemma ntohs_htons [simp]: "ntohs (htons x) = x"
  unfolding htons_def ntohs_def
  by (rule bit_word_eqI) (auto simp: bit_simps)

lemma htons_eq_0 [simp]: "htons x = 0 \<longleftrightarrow> x = 0"
  by (metis htons_def ntohs_htons ntohs_def or.right_neutral push_bit_of_0 drop_bit_of_0)

definition isspace :: "u8 \<Rightarrow> bool" where "isspace c = (c = 0x20 \<or> (9 \<le> c \<and> c \<le> 13))"

definition isdigit :: "u8 \<Rightarrow> bool" where "isdigit c = (0x30 \<le> c \<and> c \<le> 0x39)"

text \<open>\<open>atoi\<close>; nothing is known of a number that does not fit an \<open>int\<close>.\<close>

definition atoi :: "u8 list \<Rightarrow> int option" where
  "atoi cs =
    (let t = dropWhile isspace cs;
         (neg, t) = (case t of [] \<Rightarrow> (False, []) | c # u \<Rightarrow>
            if c = 0x2d then (True, u) else if c = 0x2b then (False, u) else (False, t));
         v = int (value_in 10 (takeWhile isdigit t));
         v = (if neg then - v else v)
     in if - (2 ^ 31) \<le> v \<and> v < 2 ^ 31 then Some v else None)"

record sockaddr_in =
  sin_family :: u16
  sin_port :: u16
  sin_addr :: "u8 list"

definition AF_INET :: u16 where "AF_INET = 2"

definition INADDR_NONE :: u32 where "INADDR_NONE = 0xffffffff"

definition zero_sin :: sockaddr_in where
  "zero_sin = \<lparr>sin_family = AF_INET, sin_port = 0, sin_addr = replicate 4 0\<rparr>"

definition addr_bytes :: "u32 \<Rightarrow> u8 list" where
  "addr_bytes a = map (\<lambda>i. ucast (drop_bit (8 * i) a)) [0, 1, 2, 3]"

section \<open>The world of a call\<close>

datatype sock_type = SOCK_STREAM | SOCK_DGRAM

datatype syscall = Socket sock_type | Bind int sockaddr_in | Listen int int | Connect int sockaddr_in

text \<open>
  \<open>servbyname\<close> is the \<open>s_port\<close> of \<open>getservbyname\<close>, \<open>hostbyname\<close> the address bytes of \<open>gethostbyname\<close>
  (\<open>h_length\<close> of them), \<open>answer\<close> the result of a system call and \<open>strerr\<close> the text of its error.
\<close>

record net =
  servbyname :: "u8 list \<Rightarrow> u8 list \<Rightarrow> u32 option"
  hostbyname :: "u8 list \<Rightarrow> u8 list option"
  inet_addr :: "u8 list \<Rightarrow> u32"
  answer :: "syscall \<Rightarrow> int"
  strerr :: "syscall \<Rightarrow> u8 list"

datatype outcome = Descriptor int | Exit "u8 list" | Undefined

definition quoted :: "u8 list \<Rightarrow> u8 list" where "quoted cs = 0x22 # cs @ [0x22]"

definition sock_type_of :: "u8 list \<Rightarrow> sock_type" where
  "sock_type_of transport = (if transport = ascii ''udp'' then SOCK_DGRAM else SOCK_STREAM)"

text \<open>The port of a service that is given by its number.\<close>

definition numbered_port :: "u8 list \<Rightarrow> outcome \<Rightarrow> outcome + u16" where
  "numbered_port service refuse = (case atoi service of
      None \<Rightarrow> Inl Undefined
    | Some v \<Rightarrow> (let p = htons (word_of_int v) in if p = 0 then Inl refuse else Inr p))"

section \<open>Homework 2\<close>

definition passivesock2 :: "net \<Rightarrow> u8 list \<Rightarrow> u8 list \<Rightarrow> int \<Rightarrow> outcome \<times> syscall list" where
  "passivesock2 n service transport qlen =
    (case (case servbyname n service transport of
             Some p \<Rightarrow> Inr (htons (ntohs (ucast p)))
           | None \<Rightarrow> numbered_port service
               (Exit (ascii ''Can't find '' @ quoted service @ ascii '' service entry'' @ [0x0a]))) of
      Inl out \<Rightarrow> (out, [])
    | Inr port \<Rightarrow>
       (let sin = zero_sin\<lparr>sin_port := port\<rparr>;
            ty = sock_type_of transport;
            c = Socket ty; s = answer n c
        in if s < 0 then (Exit (ascii ''Can't create socket: '' @ strerr n c @ [0x0a]), [c])
        else let b = Bind s sin
        in if answer n b < 0
           then (Exit (ascii ''Can't bind to port '' @ service @ ascii '': '' @ strerr n b @ [0x0a]), [c, b])
        else if ty = SOCK_STREAM
        then let l = Listen s qlen in
             if answer n l < 0
             then (Exit (ascii ''Can't listen on port '' @ service @ ascii '': '' @ strerr n l @ [0x0a]), [c, b, l])
             else (Descriptor s, [c, b, l])
        else (Descriptor s, [c, b])))"

definition connectsock2 :: "net \<Rightarrow> u8 list \<Rightarrow> u8 list \<Rightarrow> u8 list \<Rightarrow> outcome \<times> syscall list" where
  "connectsock2 n host service transport =
    (case (case servbyname n service transport of
             Some p \<Rightarrow> Inr (ucast p)
           | None \<Rightarrow> numbered_port service
               (Exit (ascii ''Can't get '' @ quoted service @ ascii '' service entry'' @ [0x0a]))) of
      Inl out \<Rightarrow> (out, [])
    | Inr port \<Rightarrow>
       (case (case hostbyname n host of
                Some bs \<Rightarrow> if length bs \<le> 4 then Inr (bs @ replicate (4 - length bs) 0) else Inl Undefined
              | None \<Rightarrow> if inet_addr n host = INADDR_NONE
                  then Inl (Exit (ascii ''Can't get '' @ quoted host @ ascii '' host entry'' @ [0x0a]))
                  else Inr (addr_bytes (inet_addr n host))) of
         Inl out \<Rightarrow> (out, [])
       | Inr addr \<Rightarrow>
          (let sin = zero_sin\<lparr>sin_port := port, sin_addr := addr\<rparr>;
               c = Socket (sock_type_of transport); s = answer n c
           in if s < 0 then (Exit (ascii ''Can't create socket: '' @ strerr n c @ [0x0a]), [c])
           else let k = Connect s sin
           in if answer n k < 0
              then (Exit (ascii ''Can't connect to '' @ host @ ascii ''.'' @ service @ ascii '': '' @
                          strerr n k @ [0x0a]), [c, k])
              else (Descriptor s, [c, k]))))"

section \<open>Homework 3\<close>

definition passivesock3 :: "net \<Rightarrow> u8 list \<Rightarrow> u8 list \<Rightarrow> int \<Rightarrow> outcome \<times> syscall list" where
  "passivesock3 n service transport qlen =
    (case (case servbyname n service transport of
             Some p \<Rightarrow> Inr (htons (ntohs (ucast p)))
           | None \<Rightarrow> numbered_port service
               (Exit (ascii ''Can't_find_'' @ quoted service @ ascii ''service_ectry''))) of
      Inl out \<Rightarrow> (out, [])
    | Inr port \<Rightarrow>
       (let sin = zero_sin\<lparr>sin_port := port\<rparr>;
            ty = sock_type_of transport;
            c = Socket ty; s = answer n c
        in if s < 0 then (Exit (ascii ''Can't_create_socket:'' @ strerr n c @ [0x0a]), [c])
        else let b = Bind s sin
        in if answer n b < 0
           then (Exit (ascii ''Can't_bind_to_port_'' @ service @ ascii '':'' @ strerr n b @ [0x0a]), [c, b])
        else if ty = SOCK_STREAM
        then let l = Listen s qlen in
             if answer n l < 0
             then (Exit (ascii ''Can't_listen_on_port_'' @ service @ ascii '':'' @ strerr n l @ [0x0a]), [c, b, l])
             else (Descriptor s, [c, b, l])
        else (Descriptor s, [c, b])))"

definition connectsock3 :: "net \<Rightarrow> u8 list \<Rightarrow> u8 list \<Rightarrow> u8 list \<Rightarrow> outcome \<times> syscall list" where
  "connectsock3 n host service transport =
    (case (case servbyname n service transport of
             Some p \<Rightarrow> Inr (htons (ntohs (ucast p)))
           | None \<Rightarrow> numbered_port service
               (Exit (ascii ''Can't_find_'' @ quoted service @ ascii ''service_entry''))) of
      Inl out \<Rightarrow> (out, [])
    | Inr port \<Rightarrow>
       (case (case hostbyname n host of
                Some bs \<Rightarrow> if length bs \<le> 4 then Inr (bs @ replicate (4 - length bs) 0) else Inl Undefined
              | None \<Rightarrow> if inet_addr n host = INADDR_NONE
                  then Inl (Exit (ascii ''Can't_get_'' @ quoted host @ ascii ''_host_entry'' @ [0x0a]))
                  else Inr (addr_bytes (inet_addr n host))) of
         Inl out \<Rightarrow> (out, [])
       | Inr addr \<Rightarrow>
          (let sin = zero_sin\<lparr>sin_port := port, sin_addr := addr\<rparr>;
               c = Socket (sock_type_of transport); s = answer n c
           in if s < 0 then (Exit (ascii ''Can't_create_to_socket'' @ [0x0a]), [c])
           else let k = Connect s sin
           in if answer n k < 0
              then (Exit (ascii ''Can't_connect_to_'' @ host @ ascii ''.'' @ service @ ascii ''_'' @
                          strerr n k @ [0x0a]), [c, k])
              else (Descriptor s, [c, k]))))"

section \<open>The two versions agree\<close>

text \<open>What a caller sees of an outcome when the wording of the message is left aside.\<close>

fun wordless :: "outcome \<times> syscall list \<Rightarrow> int option option \<times> syscall list" where
  "wordless (Descriptor s, cs) = (Some (Some s), cs)"
| "wordless (Exit m, cs) = (Some None, cs)"
| "wordless (Undefined, cs) = (None, cs)"

lemma numbered_port_wordless:
  "numbered_port service (Exit m) = Inr p \<longleftrightarrow> numbered_port service (Exit m') = Inr p"
  "numbered_port service (Exit m) = Inl Undefined \<longleftrightarrow> numbered_port service (Exit m') = Inl Undefined"
  by (auto simp: numbered_port_def Let_def split: option.splits if_splits)

lemma numbered_port_cases:
  obtains (undefd) "\<And>m. numbered_port service (Exit m) = Inl Undefined"
  | (refused) "\<And>m. numbered_port service (Exit m) = Inl (Exit m)"
  | (port) p where "\<And>m. numbered_port service (Exit m) = Inr p" "p \<noteq> 0"
proof (cases "atoi service")
  case None
  then show ?thesis by (intro undefd) (simp add: numbered_port_def)
next
  case (Some v)
  show ?thesis
  proof (cases "(word_of_int v :: u16) = 0")
    case True
    with Some show ?thesis by (intro refused) (simp add: numbered_port_def)
  next
    case False
    with Some show ?thesis
      by (intro port [of "htons (word_of_int v)"]) (simp_all add: numbered_port_def Let_def)
  qed
qed

lemma passivesock_agree:
  "wordless (passivesock2 n service transport qlen) = wordless (passivesock3 n service transport qlen)"
  by (cases service rule: numbered_port_cases)
    (auto simp: passivesock2_def passivesock3_def Let_def split: option.split)

lemma connectsock_agree:
  "wordless (connectsock2 n host service transport) = wordless (connectsock3 n host service transport)"
  by (cases service rule: numbered_port_cases)
    (auto simp: connectsock2_def connectsock3_def Let_def split: option.split)

section \<open>Ports by number\<close>

lemma takeWhile_isdigit: "takeWhile isdigit (dec_nat n) = dec_nat n"
  unfolding takeWhile_eq_all_conv
proof
  fix c
  assume "c \<in> set (dec_nat n)"
  then obtain d where d: "d < 10" "c = digit_char d" using dec_nat_digits by blast
  then show "isdigit c"
    using unat_digit_char [OF d(1)] by (simp add: isdigit_def word_le_nat_alt)
qed

lemma hd_dec_nat: "\<exists>d<10. hd (dec_nat n) = digit_char d"
  using dec_nat_digits [of "hd (dec_nat n)" n] dec_nat_not_Nil [of n] by auto

lemma digit_char_ne: "d < 10 \<Longrightarrow> unat x < 48 \<Longrightarrow> digit_char d \<noteq> x"
  using unat_digit_char [of d] by auto

lemma digit_char_not_space: "d < 10 \<Longrightarrow> \<not> isspace (digit_char d)"
  using unat_digit_char [of d] digit_char_ne [of d "0x20"]
  by (auto simp: isspace_def word_le_nat_alt)

lemma atoi_dec_nat:
  assumes "n < 2 ^ 31"
  shows "atoi (dec_nat n) = Some (int n)"
proof -
  obtain c u where cu: "dec_nat n = c # u" using dec_nat_not_Nil [of n] by (cases "dec_nat n") auto
  obtain d where d: "d < 10" "c = digit_char d" using hd_dec_nat [of n] cu by auto
  have "\<not> isspace c" "c \<noteq> 0x2d" "c \<noteq> 0x2b"
    using d digit_char_not_space digit_char_ne [of d "0x2d"] digit_char_ne [of d "0x2b"] by auto
  moreover have "value_in 10 (takeWhile isdigit (c # u)) = n"
    using takeWhile_isdigit [of n] value_dec_nat [of n] cu by (simp only:)
  ultimately show ?thesis
    using assms cu by (simp add: atoi_def Let_def del: takeWhile.simps)
qed

lemma port_of_number:
  assumes "p < 2 ^ 31"
  shows "numbered_port (dec_nat p) out = (if p mod 65536 = 0 then Inl out else Inr (htons (of_nat p)))"
  using assms
  by (simp add: numbered_port_def atoi_dec_nat word_of_nat_eq_0_iff mod_eq_0_iff_dvd)

lemma replicate_4: "replicate 4 x = [x, x, x, x]"
  by (simp add: numeral_eq_Suc)

lemma numbered_passivesock:
  assumes "servbyname n (dec_nat p) transport = None" "p < 2 ^ 31" "0 \<le> answer n (Socket (sock_type_of transport))"
  shows "if p mod 65536 = 0
    then snd (passivesock2 n (dec_nat p) transport qlen) = []
      \<and> fst (wordless (passivesock2 n (dec_nat p) transport qlen)) = Some None
    else Bind (answer n (Socket (sock_type_of transport)))
           \<lparr>sin_family = AF_INET, sin_port = htons (of_nat p), sin_addr = [0, 0, 0, 0]\<rparr>
         \<in> set (snd (passivesock2 n (dec_nat p) transport qlen))"
  using assms
  by (cases "p mod 65536 = 0")
    (simp_all add: passivesock2_def port_of_number Let_def zero_sin_def replicate_4 if_distrib [of snd])

text \<open>
  C38: the two versions of \<open>sockop.c\<close> do the same for a caller. Whatever the name services and the
  kernel answer, \<open>passivesock\<close> and \<open>connectsock\<close> of homework 2 and 3 make the same system calls in the
  same order, on the same addresses, and return the same descriptor or both end the process; only
  the wording of their messages differs. A service given by a number \<open>p\<close> that no name service knows
  becomes port \<open>p mod 65536\<close> in network order: the port is refused exactly if it is a multiple of
  65536, and no other number is too large.
\<close>

theorem sockets_agree:
  "wordless (passivesock2 n service transport qlen) = wordless (passivesock3 n service transport qlen)
   \<and> wordless (connectsock2 n host service transport) = wordless (connectsock3 n host service transport)
   \<and> (servbyname n (dec_nat p) transport = None \<and> p < 2 ^ 31 \<and> 0 \<le> answer n (Socket (sock_type_of transport)) \<longrightarrow>
      (if p mod 65536 = 0
       then snd (passivesock2 n (dec_nat p) transport qlen) = []
         \<and> fst (wordless (passivesock2 n (dec_nat p) transport qlen)) = Some None
       else Bind (answer n (Socket (sock_type_of transport)))
              \<lparr>sin_family = AF_INET, sin_port = htons (of_nat p), sin_addr = [0, 0, 0, 0]\<rparr>
            \<in> set (snd (passivesock2 n (dec_nat p) transport qlen))))"
  by (intro conjI impI passivesock_agree connectsock_agree) (elim conjE, rule numbered_passivesock)

definition closed_net :: net where
  "closed_net = \<lparr>servbyname = (\<lambda>_ _. None), hostbyname = (\<lambda>_. None), inet_addr = (\<lambda>_. INADDR_NONE),
     answer = (\<lambda>c. case c of Socket _ \<Rightarrow> 3 | _ \<Rightarrow> 0), strerr = (\<lambda>_. [])\<rparr>"

theorem sockets_agree_witness:
  "Bind 3 \<lparr>sin_family = AF_INET, sin_port = htons (of_nat 8080), sin_addr = [0, 0, 0, 0]\<rparr>
   \<in> set (snd (passivesock2 closed_net (dec_nat 8080) (ascii ''tcp'') 5))
   \<and> snd (passivesock2 closed_net (dec_nat 65536) (ascii ''tcp'') 5) = []"
  using sockets_agree [of closed_net "[]" "ascii ''tcp''" 5 "[]" 8080]
    sockets_agree [of closed_net "[]" "ascii ''tcp''" 5 "[]" 65536]
  by (simp add: closed_net_def)

end
