(* ===== verification/Bank.thy ===== *)
theory Bank
  imports Sockets
begin

text \<open>
  The account server and client of \<open>0851084_eos_lab6\<close>. Each connection has a thread that reads its bytes one by one (\<open>money\<close>) and changes the
  one account between \<open>P()\<close> and \<open>V()\<close>. A step is one such action of one thread; \<open>account += amount\<close> is a load and a store, so
  that without the semaphore two threads could lose an amount. A connection is the list of bytes that will arrive on it before it is
  closed; a failing \<open>read\<close> is not modelled. Sums wrap at 32 bits.
\<close>

section \<open>A line\<close>

definition newline :: u8 where "newline = 0x0a"

definition blank_buf :: "u8 list" where "blank_buf = replicate 16 0"

text \<open>\<open>atoi\<close> of the string at offset \<open>k\<close> of the buffer; \<open>None\<close> if the scan would leave the buffer.\<close>

definition atoi_at :: "nat \<Rightarrow> u8 list \<Rightarrow> int option" where
  "atoi_at k b =
    (let t = dropWhile isspace (drop k b); u = (case t of [] \<Rightarrow> [] | c # u \<Rightarrow> if c = 0x2d \<or> c = 0x2b then u else t)
     in if dropWhile isdigit u = [] then None else atoi (drop k b))"

text \<open>What a complete line asks for: nothing, or the direction and the amount.\<close>

datatype bank_line = Ignored | Request bool int | Outside

definition bank_parse :: "u8 list \<Rightarrow> bank_line" where
  "bank_parse b =
    (if take 7 b = ascii ''deposit'' then (case atoi_at 8 b of None \<Rightarrow> Outside | Some a \<Rightarrow> Request True a)
     else if take 8 b = ascii ''withdraw'' then (case atoi_at 9 b of None \<Rightarrow> Outside | Some a \<Rightarrow> Request False a)
     else Ignored)"

section \<open>Threads\<close>

text \<open>Where a thread is: reading, before \<open>P()\<close>, before the load, before the store, before \<open>printf\<close>, before \<open>V()\<close>, or gone.\<close>

datatype bank_pc = Reading | AtP bool int | AtLoad bool int | AtStore bool int int | AtPrint | AtV | Done | WildWrite

record worker =
  wpc :: bank_pc
  input :: "u8 list"
  buf :: "u8 list"
  pos :: nat

record bank =
  sem :: nat
  account :: int
  printed :: "int list"
  workers :: "worker list"

definition apply_amount :: "bool \<Rightarrow> int \<Rightarrow> int \<Rightarrow> int" where
  "apply_amount dep r a = s32 (if dep then r + a else r - a)"

text \<open>The thread function \<open>money\<close>, action by action; \<open>None\<close> while it cannot go on.\<close>

definition worker_step :: "bank \<Rightarrow> worker \<Rightarrow> (bank \<times> worker) option" where
  "worker_step b w =
    (case wpc w of
       Reading \<Rightarrow>
         (case input w of [] \<Rightarrow> Some (b, w\<lparr>wpc := Done\<rparr>)
          | ch # rest \<Rightarrow>
            if ch \<noteq> newline
            then if pos w \<ge> length (buf w) then Some (b, w\<lparr>wpc := WildWrite\<rparr>)
                 else Some (b, w\<lparr>input := rest, buf := (buf w)[pos w := ch], pos := pos w + 1\<rparr>)
            else (case bank_parse (buf w) of
                Ignored \<Rightarrow> Some (b, w\<lparr>input := rest, pos := 0, buf := blank_buf\<rparr>)
              | Request dep a \<Rightarrow> Some (b, w\<lparr>input := rest, wpc := AtP dep a\<rparr>)
              | Outside \<Rightarrow> Some (b, w\<lparr>wpc := WildWrite\<rparr>)))
     | AtP dep a \<Rightarrow> if sem b = 0 then None else Some (b\<lparr>sem := sem b - 1\<rparr>, w\<lparr>wpc := AtLoad dep a\<rparr>)
     | AtLoad dep a \<Rightarrow> Some (b, w\<lparr>wpc := AtStore dep a (account b)\<rparr>)
     | AtStore dep a r \<Rightarrow> Some (b\<lparr>account := apply_amount dep r a\<rparr>, w\<lparr>wpc := AtPrint\<rparr>)
     | AtPrint \<Rightarrow> Some (b\<lparr>printed := printed b @ [account b]\<rparr>, w\<lparr>wpc := AtV\<rparr>)
     | AtV \<Rightarrow> Some (b\<lparr>sem := sem b + 1\<rparr>, w\<lparr>wpc := Reading, pos := 0, buf := blank_buf\<rparr>)
     | Done \<Rightarrow> None
     | WildWrite \<Rightarrow> None)"

text \<open>A thread asleep in \<open>semop\<close> that a signal wakes: \<open>P()\<close> says -1, nobody looks, and the thread goes on.\<close>

definition interrupt_P :: "bank \<Rightarrow> worker \<Rightarrow> worker option" where
  "interrupt_P b w = (case wpc w of AtP dep a \<Rightarrow> if sem b = 0 then Some (w\<lparr>wpc := AtLoad dep a\<rparr>) else None | _ \<Rightarrow> None)"

definition new_worker :: "u8 list \<Rightarrow> worker" where
  "new_worker cs = \<lparr>wpc = Reading, input = cs, buf = blank_buf, pos = 0\<rparr>"

text \<open>The server with its connections accepted; a thread that starts later is one that takes no step yet.\<close>

definition bank_start :: "u8 list list \<Rightarrow> bank" where
  "bank_start streams = \<lparr>sem = 1, account = 0, printed = [], workers = map new_worker streams\<rparr>"

inductive bank_step :: "bank \<Rightarrow> bank \<Rightarrow> bool" where
  run: "i < length (workers b) \<Longrightarrow> worker_step b (workers b ! i) = Some (b', w') \<Longrightarrow>
    bank_step b (b'\<lparr>workers := (workers b)[i := w']\<rparr>)"

inductive bank_signal :: "bank \<Rightarrow> bank \<Rightarrow> bool" where
  wake: "i < length (workers b) \<Longrightarrow> interrupt_P b (workers b ! i) = Some w' \<Longrightarrow> bank_signal b (b\<lparr>workers := (workers b)[i := w']\<rparr>)"

section \<open>The client\<close>



section \<open>Mutual exclusion\<close>

definition inside :: "worker \<Rightarrow> bool" where
  "inside w \<longleftrightarrow> (case wpc w of AtLoad _ _ \<Rightarrow> True | AtStore _ _ _ \<Rightarrow> True | AtPrint \<Rightarrow> True | AtV \<Rightarrow> True | _ \<Rightarrow> False)"

definition count_inside :: "bank \<Rightarrow> nat" where
  "count_inside b = length (filter inside (workers b))"

text \<open>One thread at most is inside, the semaphore knows, what it has loaded is the account, and the last balance printed is too.\<close>

definition exclusive :: "bank \<Rightarrow> bool" where
  "exclusive b \<longleftrightarrow> count_inside b + sem b = 1 \<and>
     (\<forall>w \<in> set (workers b). \<forall>dep a r. wpc w = AtStore dep a r \<longrightarrow> r = account b) \<and>
     ((\<forall>w \<in> set (workers b). wpc w \<noteq> AtPrint) \<longrightarrow> last (0 # printed b) = account b)"


lemma filter_length_upd:
  "i < length ws \<Longrightarrow> int (length (filter P (ws[i := w]))) = int (length (filter P ws)) - (if P (ws ! i) then 1 else 0) + (if P w then 1 else 0)"
proof (induction ws arbitrary: i)
  case Nil
  then show ?case by simp
next
  case (Cons x xs)
  show ?case
  proof (cases i)
    case 0
    then show ?thesis by simp
  next
    case (Suc k)
    then show ?thesis using Cons.IH [of k] Cons.prems by (simp split: if_splits)
  qed
qed

lemma filter_length_pos: "i < length ws \<Longrightarrow> P (ws ! i) \<Longrightarrow> 0 < length (filter P ws)"
  by (metis length_greater_0_conv filter_empty_conv nth_mem)

lemma filter_length_one: "length (filter P ws) \<le> 1 \<Longrightarrow> i < length ws \<Longrightarrow> j < length ws \<Longrightarrow> P (ws ! i) \<Longrightarrow> P (ws ! j) \<Longrightarrow> i = j"
proof (induction ws arbitrary: i j)
  case Nil
  then show ?case by simp
next
  case (Cons x xs)
  show ?case
  proof (cases "P x")
    case True
    then have "\<forall>k<length xs. \<not> P (xs ! k)" using Cons.prems(1) filter_length_pos [of _ xs P] by fastforce
    then show ?thesis using Cons.prems by (cases i; cases j) auto
  next
    case False
    then show ?thesis using Cons by (cases i; cases j) auto
  qed
qed

text \<open>What a step of one thread does to the shared state.\<close>

lemma worker_step_shared:
  assumes "worker_step b w = Some (b', w')"
  shows "workers b' = workers b"
    and "int (sem b') + (if inside w' then 1 else 0) = int (sem b) + (if inside w then 1 else 0)"
    and "account b' \<noteq> account b \<or> printed b' \<noteq> printed b \<Longrightarrow> inside w"
    and "wpc w' = AtStore dep a r \<Longrightarrow> r = account b' \<and> inside w"
  using assms
  by (auto simp: worker_step_def inside_def split: bank_pc.splits list.splits bank_line.splits if_splits)

lemma exclusive_step:
  assumes "bank_step b c" "exclusive b"
  shows "exclusive c"
  using assms(1)
proof cases
  case (run i b' w')
  let ?w = "workers b ! i"
  note sh = worker_step_shared [OF run(3)]
  have "int (count_inside c) = int (count_inside b) - (if inside ?w then 1 else 0) + (if inside w' then 1 else 0)"
    using filter_length_upd [OF run(2), of inside w'] by (simp add: count_inside_def run(1))
  then have one: "count_inside c + sem c = 1" using assms(2) sh(2) by (simp add: exclusive_def run(1) split: if_splits)
  have only: "j = i" if "j < length (workers b)" "inside (workers b ! j)" "inside ?w" for j
    using assms(2) filter_length_one [of inside "workers b" j i] that run(2) by (simp add: exclusive_def count_inside_def)
  have stores: "r = account c" if w: "w \<in> set (workers c)" "wpc w = AtStore dep a r" for w dep a r
  proof -
    obtain j where j: "j < length (workers b)" "w = (workers b)[i := w'] ! j"
      using w(1) by (auto simp: run(1) in_set_conv_nth)
    show ?thesis
    proof (cases "j = i")
      case True
      then show ?thesis using sh(4) w(2) j run(2) by (simp add: run(1))
    next
      case False
      then have w_old: "w = workers b ! j" using j by simp
      then have "r = account b" using assms(2) w(2) nth_mem [OF j(1)] by (simp add: exclusive_def)
      moreover have "\<not> inside ?w" using only [OF j(1)] False w(2) w_old by (auto simp: inside_def)
      ultimately have "r = account b'" using sh(3) by metis
      then show ?thesis by (simp add: run(1))
    qed
  qed
  have prints: "last (0 # printed c) = account c" if all: "\<forall>w \<in> set (workers c). wpc w \<noteq> AtPrint"
  proof -
    have w': "wpc w' \<noteq> AtPrint" using all run(2) by (auto simp: run(1) set_update_memI)
    show ?thesis
    proof (cases "wpc ?w = AtPrint")
      case True
      then show ?thesis using run(3) by (auto simp: worker_step_def run(1))
    next
      case False
      have "\<forall>w \<in> set (workers b). wpc w \<noteq> AtPrint"
      proof
        fix w assume "w \<in> set (workers b)"
        then obtain j where j: "j < length (workers b)" "w = workers b ! j" by (auto simp: in_set_conv_nth)
        moreover have "(workers b)[i := w'] ! j \<in> set ((workers b)[i := w'])" using j by simp
        ultimately show "wpc w \<noteq> AtPrint" using all False by (cases "j = i") (simp_all add: run(1))
      qed
      then have "last (0 # printed b) = account b" using assms(2) by (simp add: exclusive_def)
      moreover have "account b' = account b \<and> printed b' = printed b"
        using run(3) w' False by (auto simp: worker_step_def split: bank_pc.splits list.splits bank_line.splits if_splits)
      ultimately show ?thesis by (simp add: run(1))
    qed
  qed
  show ?thesis using one stores prints by (auto simp: exclusive_def)
qed


lemma reach_exclusive: "bank_step\<^sup>*\<^sup>* (bank_start streams) b \<Longrightarrow> exclusive b"
proof (induction rule: rtranclp_induct)
  case base
  then show ?case by (auto simp: exclusive_def bank_start_def count_inside_def inside_def new_worker_def)
next
  case (step b c)
  then show ?case by (blast intro: exclusive_step)
qed

text \<open>
  C14: the account is never lost to a race. Whatever the connections send and in whatever order the threads run, as long as no signal
  wakes a thread in \<open>P()\<close>: at most one thread is between \<open>P()\<close> and \<open>V()\<close>, exactly then the semaphore is 0, a thread about to store has loaded the
  account as it still is, and when no thread is about to print, the last balance printed is the account.
\<close>

theorem bank_exclusive:
  assumes "bank_step\<^sup>*\<^sup>* (bank_start streams) b"
  shows "count_inside b + sem b = 1 \<and> (\<forall>w \<in> set (workers b). \<forall>dep a r. wpc w = AtStore dep a r \<longrightarrow> r = account b) \<and>
    ((\<forall>w \<in> set (workers b). wpc w \<noteq> AtPrint) \<longrightarrow> last (0 # printed b) = account b)"
  using reach_exclusive [OF assms] unfolding exclusive_def .

text \<open>Two connections, one with a line of no meaning, after that line.\<close>

theorem bank_exclusive_witness:
  "let b = bank_start [[newline], []]; c = b\<lparr>workers := (workers b)[0 := (workers b ! 0)\<lparr>input := [], pos := 0, buf := blank_buf\<rparr>]\<rparr>
   in bank_step\<^sup>*\<^sup>* b c \<and> count_inside c + sem c = 1"
proof -
  define b where "b = bank_start [[newline], []]"
  define c where "c = b\<lparr>workers := (workers b)[0 := (workers b ! 0)\<lparr>input := [], pos := 0, buf := blank_buf\<rparr>]\<rparr>"
  have "bank_parse blank_buf = Ignored" by code_simp
  then have "worker_step b (workers b ! 0) = Some (b, (workers b ! 0)\<lparr>input := [], pos := 0, buf := blank_buf\<rparr>)"
    by (simp add: b_def bank_start_def new_worker_def worker_step_def)
  then have "bank_step b c" unfolding c_def by (intro bank_step.run) (simp_all add: b_def bank_start_def)
  then have "bank_step\<^sup>*\<^sup>* b c" by blast
  moreover from this have "count_inside c + sem c = 1" unfolding b_def by (rule bank_exclusive [THEN conjunct1])
  ultimately show ?thesis unfolding Let_def c_def b_def by blast
qed

section \<open>The sum of all requests\<close>

















section \<open>All threads\<close>









section \<open>Clients and server together\<close>



















section \<open>A signal\<close>

text \<open>A schedule: which thread acts next, and whether a signal wakes it.\<close>

fun bank_schedule :: "(nat \<times> bool) list \<Rightarrow> bank \<Rightarrow> bank option" where
  "bank_schedule [] b = Some b"
| "bank_schedule ((i, sig) # sched) b =
    (if length (workers b) \<le> i then None
     else if sig then (case interrupt_P b (workers b ! i) of None \<Rightarrow> None
       | Some w \<Rightarrow> bank_schedule sched (b\<lparr>workers := (workers b)[i := w]\<rparr>))
     else (case worker_step b (workers b ! i) of None \<Rightarrow> None
       | Some (b', w) \<Rightarrow> bank_schedule sched (b'\<lparr>workers := (workers b)[i := w]\<rparr>)))"

lemma schedule_reach: "bank_schedule sched b = Some c \<Longrightarrow> (sup bank_step bank_signal)\<^sup>*\<^sup>* b c"
proof (induction sched b rule: bank_schedule.induct)
  case (1 b)
  then show ?case by simp
next
  case (2 i sig sched b)
  show ?case
  proof (cases sig)
    case True
    then obtain w where w: "interrupt_P b (workers b ! i) = Some w" "i < length (workers b)"
      "bank_schedule sched (b\<lparr>workers := (workers b)[i := w]\<rparr>) = Some c"
      using "2.prems" by (auto split: if_splits option.splits)
    then have "(sup bank_step bank_signal)\<^sup>*\<^sup>* (b\<lparr>workers := (workers b)[i := w]\<rparr>) c"
      by (intro "2.IH"(1)) (use True in simp_all)
    moreover have "sup bank_step bank_signal b (b\<lparr>workers := (workers b)[i := w]\<rparr>)" using bank_signal.wake [OF w(2,1)] by simp
    ultimately show ?thesis by (rule converse_rtranclp_into_rtranclp [rotated])
  next
    case False
    then obtain b' w where w: "worker_step b (workers b ! i) = Some (b', w)" "i < length (workers b)"
      "bank_schedule sched (b'\<lparr>workers := (workers b)[i := w]\<rparr>) = Some c"
      using "2.prems" by (auto split: if_splits option.splits)
    then have "(sup bank_step bank_signal)\<^sup>*\<^sup>* (b'\<lparr>workers := (workers b)[i := w]\<rparr>) c"
      by (intro "2.IH"(2)) (use False in simp_all)
    moreover have "sup bank_step bank_signal b (b'\<lparr>workers := (workers b)[i := w]\<rparr>)" using bank_step.run [OF w(2,1)] by simp
    ultimately show ?thesis by (rule converse_rtranclp_into_rtranclp [rotated])
  qed
qed

text \<open>Thread 0 reads its line, enters and loads; thread 1 reads its line, is woken in \<open>P()\<close> and loads too; then both finish.\<close>

definition bad_schedule :: "(nat \<times> bool) list" where
  "bad_schedule = replicate 10 (0, False) @ replicate 2 (0, False) @ replicate 10 (1, False) @ [(1, True), (1, False)] @
     replicate 4 (0, False) @ replicate 4 (1, False)"

text \<open>
  What one signal does. Two clients deposit 1 each; a signal wakes the second thread while it sleeps in \<open>P()\<close>. Its result is
  not looked at, the thread goes on, and one deposit is lost: both threads are gone, the account is 1, and the semaphore
  is 2, so that from now on two threads can always be inside.
\<close>

theorem bank_signal_loses:
  "\<exists>b. (sup bank_step bank_signal)\<^sup>*\<^sup>* (bank_start [ascii ''deposit 1'' @ [newline], ascii ''deposit 1'' @ [newline]]) b \<and>
    list_all (\<lambda>w. wpc w = Done) (workers b) \<and> account b = 1 \<and> sem b = 2"
proof -
  have "case bank_schedule bad_schedule (bank_start [ascii ''deposit 1'' @ [newline], ascii ''deposit 1'' @ [newline]]) of None \<Rightarrow> False
     | Some b \<Rightarrow> list_all (\<lambda>w. wpc w = Done) (workers b) \<and> account b = 1 \<and> sem b = 2"
    by code_simp
  then show ?thesis using schedule_reach by (auto split: option.splits)
qed

end
