(* ===== verification/ShopServer.thy ===== *)
theory ShopServer
  imports Inventory "HOL-Library.Multiset"
begin

text \<open>
  The mask shop as a server, \<open>0851084_eos_hw3/hw3.cpp\<close> (and \<open>0851084_eos_hw2/server.cpp\<close>, which differs in a fixed alcohol capacity of 50
  and in not sorting at its end). Each client has a thread that serves one request at a time under the one mutex: the state is the data
  the mutex guards, a handler is a function from it and the client's session to both and the bytes written to the client.

  The server runs on the host, where \<open>char\<close> is signed. A request is the string found in the thread's buffer of 30 bytes. An index outside the
  arrays, the use of a variable never set, or a word longer than its buffer are errors; the one byte the source always writes past
  a buffer (the end of the string in \<open>city\<close>, in \<open>tmp_ID\<close> and in \<open>buf_ID\<close> of the login) is taken to do no harm.
\<close>

section \<open>State\<close>

datatype shop_error = WildIndex | NeverSet | TooLong

record cell =
  row_no :: int
  s_a :: int
  s_b :: int
  s_c :: int
  type_num :: int
  row_sum :: int
  type_name :: "u8 list"
  s_city :: "u8 list"

definition blank_cell :: cell where
  "blank_cell = \<lparr>row_no = 0, s_a = 0, s_b = 0, s_c = 0, type_num = 0, row_sum = 0, type_name = [], s_city = []\<rparr>"

definition BUY_ID_NUM :: int where "BUY_ID_NUM = 100000"

text \<open>\<open>buied\<close> holds the first \<open>buied_num\<close> entries of \<open>buied_ID\<close>, the only ones that are read.\<close>

record shop =
  data :: "cell list list"
  num :: int
  day :: int
  alcohol :: int
  alcohol_capacity :: int
  buied :: "u8 list list"
  result_index :: int
  writeToResult :: "u8 list"

record session =
  iflogin :: bool
  login_ID :: "u8 list"

text \<open>What a handler gives: the shop, the session, and what it writes to the client.\<close>

type_synonym reply = "shop_error + (shop \<times> session \<times> u8 list)"

definition digit_of :: "u8 \<Rightarrow> int" where "digit_of ch = sint ch - 48"

definition snprintf :: "nat \<Rightarrow> u8 list \<Rightarrow> u8 list" where "snprintf n cs = take (n - 1) cs"

definition log_head :: "nat \<Rightarrow> int \<Rightarrow> u8 list \<Rightarrow> shop \<Rightarrow> u8 list" where
  "log_head room fd cs s = snprintf room (dec (result_index s) @ [0x2c] @ dec (day s) @ [0x2c] @ dec fd @ [0x2c] @ cs @ [0x2c])"

definition log_result :: "u8 list \<Rightarrow> shop \<Rightarrow> shop" where
  "log_result cs s = s\<lparr>writeToResult := writeToResult s @ cs, result_index := result_index s + 1\<rparr>"

section \<open>Identity numbers\<close>

definition letter_value :: "u8 \<Rightarrow> int option" where
  "letter_value ch =
    (let v = sint ch in
     if v = 73 then Some 34 else if v = 79 then Some 35 else if v = 87 then Some 32 else if v = 90 then Some 33
     else if 65 \<le> v \<and> v \<le> 72 then Some (v - 65 + 10)
     else if 74 \<le> v \<and> v \<le> 78 then Some (v - 74 + 18)
     else if 80 \<le> v \<and> v \<le> 86 then Some (v - 80 + 23)
     else if v = 88 then Some 30 else if v = 89 then Some 31 else None)"

definition check_ID :: "u8 list \<Rightarrow> bool option" where
  "check_ID w =
    (case letter_value (w ! 0) of None \<Rightarrow> None
     | Some y \<Rightarrow>
       let Y = y sdiv 10 + (y smod 10) * 9; D = (\<lambda>i. digit_of (w ! i));
           Z = 10 - (Y + D 1 * 8 + D 2 * 7 + D 3 * 6 + D 4 * 5 + D 5 * 4 + D 6 * 3 + D 7 * 2 + D 8 * 1) smod 10
       in Some (Z = D 9))"

definition check_day_of_week :: "shop \<Rightarrow> u8 list \<Rightarrow> bool" where
  "check_day_of_week s w =
    (let day_of_week = (if day s = 7 then True else if day s smod 2 \<noteq> digit_of (w ! 9) smod 2 then False else True)
     in if \<not> day_of_week then False
        else \<not> list_ex (\<lambda>b. \<forall>j \<in> set [0..<10]. w ! j = b ! j) (buied s))"

section \<open>Handlers\<close>

definition show_row :: "cell \<Rightarrow> u8 list" where
  "show_row v = dec (row_no v) @ sp @ s_city v @ sp @ dec (s_a v) @ sp @ dec (s_b v) @ sp @ dec (s_c v)"

definition show_rows :: "shop \<Rightarrow> nat \<Rightarrow> cell list" where
  "show_rows s i = take (nat (type_num (data s ! i ! 0))) (data s ! i)"

text \<open>Showing reads outside the table when a count exceeds it.\<close>

definition counts_in_table :: "shop \<Rightarrow> bool" where
  "counts_in_table s \<longleftrightarrow> num s \<le> int (length (data s)) \<and>
     (\<forall>i \<in> set [0..<nat (num s)]. data s ! i \<noteq> [] \<and> type_num (data s ! i ! 0) \<le> int (length (data s ! i)))"

definition server_show :: "int \<Rightarrow> session \<Rightarrow> shop \<Rightarrow> reply" where
  "server_show fd ses s =
    (if \<not> counts_in_table s then Inl WildIndex
     else let types = [0..<nat (num s)]; name = (\<lambda>i. type_name (data s ! i ! 0));
       show_info = ascii ''show'' @ nl @ concat (map (\<lambda>i. name i @ nl @
         concat (map (\<lambda>v. snprintf 30 (show_row v @ nl)) (show_rows s i))) types);
       write_info = concat (map (\<lambda>i. (if i = 0 then [] else sp) @ name i @
         concat (map (\<lambda>v. snprintf 30 (sp @ show_row v)) (show_rows s i))) types)
     in Inr (log_result (log_head 30 fd (ascii ''show'') s @ write_info @ nl) s, ses, show_info))"

definition login_succ :: "u8 list" where "login_succ = ascii ''Login successful.'' @ nl"
definition login_fail :: "u8 list" where "login_fail = ascii ''Login failed.'' @ nl"

text \<open>
  A number of fewer than ten characters leaves places of \<open>tmp_ID\<close> that were never set, but for the terminating zero, which a number of nine
  characters puts in the last place; \<open>NeverSet\<close> stands for all of these.
\<close>

definition server_login :: "int \<Rightarrow> u8 list \<Rightarrow> session \<Rightarrow> shop \<Rightarrow> reply" where
  "server_login fd buf ses s =
    (let failed = Inr (log_result (log_head 50 fd buf s @ login_fail) s, ses, login_fail)
     in if iflogin ses then failed
        else case scan_word buf of None \<Rightarrow> Inl NeverSet
        | Some (w0, rest) \<Rightarrow> if 5 < length w0 then Inl TooLong else case scan_word rest of None \<Rightarrow> Inl NeverSet
        | Some (w, _) \<Rightarrow>
          if length w < 10 then Inl NeverSet
          else case check_ID (take 10 w) of None \<Rightarrow> Inl NeverSet
          | Some ok \<Rightarrow> if ok
              then Inr (log_result (log_head 50 fd buf s @ login_succ) s, ses\<lparr>iflogin := True, login_ID := take 10 w\<rparr>, login_succ)
              else failed)"

text \<open>The next entry of \<open>buied_ID\<close>.\<close>

definition add_buied :: "u8 list \<Rightarrow> shop \<Rightarrow> shop option" where
  "add_buied w s = (if int (length (buied s)) < BUY_ID_NUM then Some (s\<lparr>buied := buied s @ [w]\<rparr>) else None)"

definition logout_succ :: "u8 list" where "logout_succ = ascii ''Logout successful.'' @ nl"
definition logout_fail :: "u8 list" where "logout_fail = ascii ''Logout failed.'' @ nl"

definition server_logout :: "int \<Rightarrow> session \<Rightarrow> shop \<Rightarrow> reply" where
  "server_logout fd ses s =
    (let head = log_head 30 fd (ascii ''logout'') s in
     if \<not> iflogin ses then Inr (log_result (head @ logout_fail) s, ses, logout_fail)
     else case add_buied (login_ID ses) s of None \<Rightarrow> Inl WildIndex
     | Some s1 \<Rightarrow> Inr (log_result (head @ logout_succ) s1, ses\<lparr>iflogin := False\<rparr>, logout_succ))"

text \<open>The six conversions of an order; a word too long for its buffer, or one that is missing.\<close>

record order =
  o_type :: "u8 list"
  o_city :: "u8 list"
  o_a :: int
  o_b :: int
  o_c :: int

definition scan_order :: "u8 list \<Rightarrow> shop_error + order" where
  "scan_order info =
    (case scan_word info of None \<Rightarrow> Inl NeverSet
     | Some (w, s1) \<Rightarrow> if 10 \<le> length w then Inl TooLong else
      (case scan_word s1 of None \<Rightarrow> Inl NeverSet
       | Some (ty, s2) \<Rightarrow> if 20 \<le> length ty then Inl TooLong else
        (case scan_word s2 of None \<Rightarrow> Inl NeverSet
         | Some (ci, s3) \<Rightarrow> if 1 < length ci then Inl TooLong else
          (case scan_int s3 of None \<Rightarrow> Inl NeverSet
           | Some (a, s4) \<Rightarrow> (case scan_int s4 of None \<Rightarrow> Inl NeverSet
             | Some (b, s5) \<Rightarrow> (case scan_int s5 of None \<Rightarrow> Inl NeverSet
               | Some (c, s6) \<Rightarrow> Inr \<lparr>o_type = ty, o_city = ci, o_a = a, o_b = b, o_c = c\<rparr>))))))"

definition buy_fail :: "u8 list" where "buy_fail = ascii ''Buy failed.'' @ nl"
definition disinfect :: "u8 list" where "disinfect = ascii ''Disinfecting hands with alcohol.''"
definition putting_mask :: "u8 list" where "putting_mask = ascii ''Putting masks into envelope.''"
definition thankyou :: "u8 list" where "thankyou = ascii ''Thank you for your purchase.''"

text \<open>The order is one the shop takes: none of the numbers, nor their sum, above three, and none below zero.\<close>

definition order_ok :: "order \<Rightarrow> bool" where
  "order_ok q \<longleftrightarrow> \<not> (o_a q > 3 \<or> o_b q > 3 \<or> o_c q > 3) \<and> \<not> (o_a q < 0 \<or> o_b q < 0 \<or> o_c q < 0) \<and> \<not> o_a q + o_b q + o_c q > 3"

text \<open>The day after a purchase; with the week the list of buyers begins anew.\<close>

definition next_day :: "shop \<Rightarrow> shop" where
  "next_day s = (if day s + 1 = 8 then s\<lparr>day := 1, buied := []\<rparr> else s\<lparr>day := day s + 1\<rparr>)"

definition sell_cell :: "order \<Rightarrow> cell \<Rightarrow> cell" where
  "sell_cell q v = v\<lparr>s_a := s_a v - o_a q, s_b := s_b v - o_b q, s_c := s_c v - o_c q\<rparr>"

definition use_alcohol :: "shop \<Rightarrow> shop" where
  "use_alcohol s = s\<lparr>alcohol := (if alcohol s - 1 < 5 then alcohol_capacity s else alcohol s - 1)\<rparr>"

text \<open>The branch for the type \<open>i\<close> that was found.\<close>

definition buy_at :: "nat \<Rightarrow> order \<Rightarrow> u8 list \<Rightarrow> session \<Rightarrow> shop \<Rightarrow> reply" where
  "buy_at i q head ses s =
    (let city_num = digit_of (o_city q ! 0); failed = Inr (log_result (head @ buy_fail) s, ses, buy_fail)
     in if type_num (data s ! i ! 0) < city_num then failed
        else if city_num - 1 < 0 \<or> city_num - 1 \<ge> int (length (data s ! i)) then Inl WildIndex
        else let j = nat (city_num - 1); v = data s ! i ! j
        in if s_a v < o_a q \<or> s_b v < o_b q \<or> s_c v < o_c q then failed
           else case add_buied (login_ID ses)
                  (use_alcohol (s\<lparr>data := (data s)[i := (data s ! i)[j := sell_cell q v]]\<rparr>)) of
                None \<Rightarrow> Inl WildIndex
              | Some s1 \<Rightarrow> Inr (log_result (head @ disinfect @ sp @ putting_mask @ sp @ thankyou @ nl) (next_day s1),
                  ses\<lparr>iflogin := False\<rparr>, disinfect @ putting_mask @ thankyou))"

definition server_buy :: "int \<Rightarrow> u8 list \<Rightarrow> session \<Rightarrow> shop \<Rightarrow> reply" where
  "server_buy fd info ses s =
    (let head = log_head 50 fd info s; failed = Inr (log_result (head @ buy_fail) s, ses, buy_fail)
     in if \<not> iflogin ses then failed
        else if \<not> check_day_of_week s (login_ID ses) then failed
        else case scan_order info of Inl e \<Rightarrow> Inl e
        | Inr q \<Rightarrow>
          if take 3 (o_type q) = ascii ''XXX'' then failed
          else if \<not> order_ok q then failed
          else case find (\<lambda>i. o_type q = type_name (data s ! i ! 0)) [0..<min (nat (num s)) (length (data s))] of
                 None \<Rightarrow> if num s > int (length (data s)) then Inl WildIndex else Inr (log_result head s, ses, [])
               | Some i \<Rightarrow> buy_at i q head ses s)"

definition server_statics :: "int \<Rightarrow> session \<Rightarrow> shop \<Rightarrow> reply" where
  "server_statics fd ses s =
    Inr (log_result (snprintf 30 (dec (result_index s) @ [0x2c] @ dec (day s) @ [0x2c] @ dec fd @ ascii '',statics,'' @ dec (alcohol s) @ nl)) s,
      ses, snprintf 10 (dec (alcohol s) @ nl))"

definition invalid_text :: "u8 list" where "invalid_text = ascii ''Input format not valid.'' @ nl"

definition server_invalid :: "int \<Rightarrow> session \<Rightarrow> shop \<Rightarrow> reply" where
  "server_invalid fd ses s = Inr (log_result (log_head 30 fd (ascii ''exit'') s @ invalid_text) s, ses, invalid_text)"

text \<open>One turn of the loop of \<open>mask_server\<close>, between \<open>lock\<close> and \<open>unlock\<close>.\<close>

definition starts :: "string \<Rightarrow> u8 list \<Rightarrow> bool" where "starts w buf \<longleftrightarrow> take (length w) buf = ascii w"

definition mask_server :: "int \<Rightarrow> u8 list \<Rightarrow> session \<Rightarrow> shop \<Rightarrow> reply" where
  "mask_server fd buf ses s =
    (if starts ''show'' buf then server_show fd ses s
     else if starts ''login'' buf then server_login fd buf ses s
     else if starts ''logout'' buf then server_logout fd ses s
     else if starts ''buy'' buf then server_buy fd buf ses s
     else if starts ''statics'' buf then server_statics fd ses s
     else server_invalid fd ses s)"

section \<open>Start and end\<close>

text \<open>Reading \<open>inventory.txt\<close>: \<open>buf\<close> is the line buffer \<open>s\<close>, empty at first.\<close>

definition load_row :: "u8 list \<Rightarrow> cell \<Rightarrow> shop_error + cell" where
  "load_row l v =
     (case scan_int l of None \<Rightarrow> Inr v
      | Some (n, s1) \<Rightarrow> let v1 = v\<lparr>row_no := n\<rparr> in
       (case scan_word s1 of None \<Rightarrow> Inr v1
        | Some (w, s2) \<Rightarrow> if 50 \<le> length w then Inl TooLong else let v2 = v1\<lparr>s_city := w\<rparr> in
         (case scan_int s2 of None \<Rightarrow> Inr v2
          | Some (a, s3) \<Rightarrow> let v3 = v2\<lparr>s_a := a\<rparr> in
           (case scan_int s3 of None \<Rightarrow> Inr v3
            | Some (b, s4) \<Rightarrow> let v4 = v3\<lparr>s_b := b\<rparr> in
             (case scan_int s4 of None \<Rightarrow> Inr v4 | Some (c, s5) \<Rightarrow> Inr (v4\<lparr>s_c := c\<rparr>))))))"

fun load_rows :: "nat \<Rightarrow> nat \<Rightarrow> u8 list \<Rightarrow> u8 list \<Rightarrow> cell list \<Rightarrow> shop_error + (u8 list \<times> u8 list \<times> cell list)" where
  "load_rows 0 j buf file rows = Inr (buf, file, rows)"
| "load_rows (Suc k) j buf file rows =
     (let (buf1, file1) = fgets buf file
      in if length rows \<le> j then Inl WildIndex
         else case load_row buf1 (rows ! j) of Inl e \<Rightarrow> Inl e | Inr v \<Rightarrow> load_rows k (j + 1) buf1 file1 (rows[j := v]))"

fun load_types :: "nat \<Rightarrow> nat \<Rightarrow> u8 list \<Rightarrow> u8 list \<Rightarrow> cell list list \<Rightarrow> shop_error + cell list list" where
  "load_types 0 i buf file tab = Inr tab"
| "load_types (Suc k) i buf file tab =
     (let (buf1, file1) = fgets buf file; (buf2, file2) = fgets buf1 file1
      in if length tab \<le> i then Inl WildIndex
         else let rows = tab ! i; v = rows ! 0;
                  v1 = (case scan_word buf1 of None \<Rightarrow> v | Some (w, _) \<Rightarrow> v\<lparr>type_name := w\<rparr>)
              in if 20 \<le> length (type_name v1) then Inl TooLong
                 else let v2 = (case scan_int buf2 of None \<Rightarrow> v1 | Some (n, _) \<Rightarrow> v1\<lparr>type_num := n\<rparr>)
                 in case load_rows (nat (type_num v2)) 0 buf2 file2 (rows[0 := v2]) of Inl e \<Rightarrow> Inl e
                    | Inr (buf3, file3, rows1) \<Rightarrow> load_types k (i + 1) buf3 file3 (tab[i := rows1]))"

definition blank_table :: "cell list list" where "blank_table = replicate 15 (replicate 100 blank_cell)"

text \<open>\<open>main\<close> up to the socket: the file, the day and the capacity of the arguments.\<close>

definition shop_main :: "u8 list \<Rightarrow> int \<Rightarrow> int \<Rightarrow> shop_error + shop" where
  "shop_main file d capacity =
    (let (buf, file1) = fgets [] file; n = (case scan_int buf of None \<Rightarrow> 0 | Some (n, _) \<Rightarrow> n)
     in case load_types (nat n) 0 buf file1 blank_table of Inl e \<Rightarrow> Inl e
        | Inr tab \<Rightarrow> Inr \<lparr>data = tab, num = n, day = d, alcohol = capacity, alcohol_capacity = capacity, buied = [],
            result_index = 0, writeToResult = []\<rparr>)"

text \<open>The exchange of two neighbours as the source writes it: the second one becomes the global \<open>bubble_tmp\<close>.\<close>

definition exchange :: "nat \<Rightarrow> cell list \<Rightarrow> cell list" where
  "exchange j rows =
    (let x = rows ! j; y = rows ! (j + 1)
     in (rows[j := x\<lparr>row_no := row_no y, s_city := s_city y, row_sum := row_sum y\<rparr>])
          [j + 1 := blank_cell\<lparr>row_no := row_no x, s_city := s_city x, row_sum := row_sum x\<rparr>])"

definition bubble_pass :: "nat \<Rightarrow> cell list \<Rightarrow> cell list" where
  "bubble_pass toIndex rows = fold (\<lambda>j r. if row_sum (r ! j) < row_sum (r ! (j + 1)) then exchange j r else r) [0..<toIndex] rows"

fun bubble :: "nat \<Rightarrow> cell list \<Rightarrow> cell list" where
  "bubble 0 rows = rows"
| "bubble (Suc toIndex) rows = (if 0 < toIndex then bubble toIndex (bubble_pass toIndex rows) else rows)"

definition add_sums :: "nat \<Rightarrow> cell list \<Rightarrow> cell list" where
  "add_sums k rows = fold (\<lambda>j r. r[j := (r ! j)\<lparr>row_sum := s32 (s_a (r ! j) + s_b (r ! j) + s_c (r ! j))\<rparr>]) [0..<k] rows"

definition sort_rows :: "cell list \<Rightarrow> cell list" where
  "sort_rows rows = (let k = nat (type_num (rows ! 0)) in bubble k (add_sums k rows))"

definition server_sort :: "shop \<Rightarrow> shop_error + shop" where
  "server_sort s =
    (if \<not> counts_in_table s then Inl WildIndex
     else Inr (s\<lparr>data := map (\<lambda>i. if int i < num s then sort_rows (data s ! i) else data s ! i) [0..<length (data s)]\<rparr>))"

text \<open>What it prints: of every type its rows with number, city and sum.\<close>

definition final_report :: "shop \<Rightarrow> u8 list" where
  "final_report s = nl @ concat (map (\<lambda>i. type_name (data s ! i ! 0) @ nl @
     concat (map (\<lambda>v. dec (row_no v) @ sp @ s_city v @ sp @ dec (row_sum v) @ nl) (show_rows s i))) [0..<nat (num s)])"

section \<open>What a request can do\<close>

definition sold_text :: "u8 list" where "sold_text = disinfect @ putting_mask @ thankyou"

text \<open>The shop after \<open>q\<close> was bought of the row \<open>j\<close> of the type \<open>i\<close>.\<close>

definition sell :: "nat \<Rightarrow> nat \<Rightarrow> order \<Rightarrow> u8 list \<Rightarrow> shop \<Rightarrow> shop" where
  "sell i j q w s =
    (let s1 = use_alcohol (s\<lparr>data := (data s)[i := (data s ! i)[j := sell_cell q (data s ! i ! j)]]\<rparr>)
     in next_day (s1\<lparr>buied := buied s1 @ [w]\<rparr>))"

definition sellable :: "nat \<Rightarrow> nat \<Rightarrow> order \<Rightarrow> shop \<Rightarrow> bool" where
  "sellable i j q s \<longleftrightarrow> i < length (data s) \<and> int i < num s \<and> j < length (data s ! i) \<and> int j < type_num (data s ! i ! 0) \<and> order_ok q \<and>
     o_a q \<le> s_a (data s ! i ! j) \<and> o_b q \<le> s_b (data s ! i ! j) \<and> o_c q \<le> s_c (data s ! i ! j)"

inductive outcome :: "session \<Rightarrow> shop \<Rightarrow> shop \<Rightarrow> session \<Rightarrow> u8 list \<Rightarrow> bool" for ses s where
  noted: "out \<noteq> sold_text \<Longrightarrow> outcome ses s (log_result cs s) ses out"
| logged_in: "out \<noteq> sold_text \<Longrightarrow> length w = 10 \<Longrightarrow> check_ID w = Some True \<Longrightarrow> outcome ses s (log_result cs s) (ses\<lparr>iflogin := True, login_ID := w\<rparr>) out"
| logged_out: "out \<noteq> sold_text \<Longrightarrow> iflogin ses \<Longrightarrow>
    outcome ses s (log_result cs (s\<lparr>buied := buied s @ [login_ID ses]\<rparr>)) (ses\<lparr>iflogin := False\<rparr>) out"
| sold: "iflogin ses \<Longrightarrow> check_day_of_week s (login_ID ses) \<Longrightarrow> sellable i j q s \<Longrightarrow>
    outcome ses s (log_result cs (sell i j q (login_ID ses) s)) (ses\<lparr>iflogin := False\<rparr>) sold_text"

lemmas reply_texts = sold_text_def disinfect_def putting_mask_def thankyou_def buy_fail_def login_succ_def login_fail_def
  logout_succ_def logout_fail_def invalid_text_def ascii_def nl_def

lemma other_texts [simp]: "buy_fail \<noteq> sold_text" "login_succ \<noteq> sold_text" "login_fail \<noteq> sold_text" "logout_succ \<noteq> sold_text"
  "logout_fail \<noteq> sold_text" "invalid_text \<noteq> sold_text" "[] \<noteq> sold_text" "ascii ''show'' @ cs \<noteq> sold_text" "snprintf 10 cs \<noteq> sold_text"
proof -
  show "snprintf 10 cs \<noteq> sold_text"
  proof
    assume "snprintf 10 cs = sold_text"
    then have "length (snprintf 10 cs) = length sold_text" by simp
    then show False by (simp add: snprintf_def reply_texts)
  qed
qed (simp_all add: reply_texts)

lemma show_outcome: "server_show fd ses s = Inr (s', ses', out) \<Longrightarrow> outcome ses s s' ses' out"
  by (auto simp: server_show_def Let_def split: if_splits intro: outcome.noted)

lemma login_outcome: "server_login fd buf ses s = Inr (s', ses', out) \<Longrightarrow> outcome ses s s' ses' out"
  by (auto simp: server_login_def Let_def split: if_splits option.splits; rule outcome.noted outcome.logged_in; simp)

lemma logout_outcome: "server_logout fd ses s = Inr (s', ses', out) \<Longrightarrow> outcome ses s s' ses' out"
  by (auto simp: server_logout_def add_buied_def Let_def split: if_splits option.splits intro: outcome.noted outcome.logged_out)

lemma buy_at_outcome:
  assumes "buy_at i q head ses s = Inr (s', ses', out)" "iflogin ses" "check_day_of_week s (login_ID ses)"
    and "i < length (data s)" "int i < num s" "order_ok q"
  shows "outcome ses s s' ses' out"
proof -
  let ?c = "digit_of (o_city q ! 0)"
  let ?j = "nat (?c - 1)"
  consider (fail) "out = buy_fail" "ses' = ses" "s' = log_result (head @ buy_fail) s"
    | (ok) "0 \<le> ?c - 1" "?c - 1 < int (length (data s ! i))" "?c \<le> type_num (data s ! i ! 0)"
        "o_a q \<le> s_a (data s ! i ! ?j)" "o_b q \<le> s_b (data s ! i ! ?j)" "o_c q \<le> s_c (data s ! i ! ?j)"
        "out = sold_text" "ses' = ses\<lparr>iflogin := False\<rparr>"
        "\<exists>cs. s' = log_result cs (sell i ?j q (login_ID ses) s)"
    using assms(1)
    by (auto simp: buy_at_def Let_def add_buied_def sell_def sold_text_def not_less split: if_splits option.splits)
  then show ?thesis
  proof cases
    case fail
    then show ?thesis by (simp add: outcome.noted)
  next
    case ok
    then have "sellable i ?j q s" using assms(4-6) by (auto simp: sellable_def nat_less_iff)
    then show ?thesis using ok(7-9) assms(2,3) by (auto intro: outcome.sold)
  qed
qed

lemma buy_outcome:
  assumes "server_buy fd info ses s = Inr (s', ses', out)"
  shows "outcome ses s s' ses' out"
proof -
  consider (noted) "out = buy_fail \<or> out = []" "ses' = ses" "\<exists>cs. s' = log_result cs s"
    | (at) q i where "iflogin ses" "check_day_of_week s (login_ID ses)" "order_ok q"
        "find (\<lambda>i. o_type q = type_name (data s ! i ! 0)) [0..<min (nat (num s)) (length (data s))] = Some i"
        "buy_at i q (log_head 50 fd info s) ses s = Inr (s', ses', out)"
    using assms by (auto simp: server_buy_def Let_def split: if_splits sum.splits option.splits)
  then show ?thesis
  proof cases
    case noted
    then show ?thesis by (auto intro: outcome.noted)
  next
    case at
    then have "i < length (data s)" "int i < num s" by (auto simp: find_Some_iff)
    then show ?thesis using at by (intro buy_at_outcome)
  qed
qed

lemma mask_server_outcome: "mask_server fd buf ses s = Inr (s', ses', out) \<Longrightarrow> outcome ses s s' ses' out"
  by (auto simp: mask_server_def server_statics_def server_invalid_def
    split: if_splits intro: show_outcome login_outcome logout_outcome buy_outcome outcome.noted)

section \<open>A day's work: the requests of all clients, one after the other\<close>

text \<open>
  The mutex makes one sequence of the requests of all threads; \<open>Connect\<close> starts a thread, whose session is its own. A session is
  kept under the descriptor of its connection. The run also notes each sale, with its day and the buyer's number.
\<close>

datatype shop_event = Connect int | Request int "u8 list"

definition new_session :: session where "new_session = \<lparr>iflogin = False, login_ID = []\<rparr>"

fun shop_run :: "shop_event list \<Rightarrow> (int \<Rightarrow> session) \<Rightarrow> shop \<Rightarrow> shop_error + ((int \<Rightarrow> session) \<times> shop \<times> (int \<times> u8 list) list)" where
  "shop_run [] ss s = Inr (ss, s, [])"
| "shop_run (Connect fd # evs) ss s = shop_run evs (ss(fd := new_session)) s"
| "shop_run (Request fd buf # evs) ss s =
     (case mask_server fd buf (ss fd) s of Inl e \<Rightarrow> Inl e
      | Inr (s1, ses1, out) \<Rightarrow>
         (case shop_run evs (ss(fd := ses1)) s1 of Inl e \<Rightarrow> Inl e
          | Inr (ss2, s2, sales) \<Rightarrow> Inr (ss2, s2, (if out = sold_text then [(day s, login_ID (ss fd))] else []) @ sales)))"

text \<open>A property of shop, sessions and the sales so far that every outcome keeps, every run keeps.\<close>

lemma shop_run_keeps:
  assumes "shop_run evs ss s = Inr (ss', s', sales)" "I past ss s"
    and con: "\<And>past ss s fd. I past ss s \<Longrightarrow> I past (ss(fd := new_session)) s"
    and out: "\<And>past ss s fd s1 ses1 out. I past ss s \<Longrightarrow> outcome (ss fd) s s1 ses1 out \<Longrightarrow>
      I (past @ (if out = sold_text then [(day s, login_ID (ss fd))] else [])) (ss(fd := ses1)) s1"
  shows "I (past @ sales) ss' s'"
  using assms(1,2)
proof (induction evs ss s arbitrary: past sales rule: shop_run.induct)
  case (1 ss s)
  then show ?case by simp
next
  case (2 fd evs ss s)
  then show ?case using con [of past ss s fd] by (simp del: fun_upd_apply)
next
  case (3 fd buf evs ss s)
  from 3(2) obtain s1 ses1 out sales1 where m: "mask_server fd buf (ss fd) s = Inr (s1, ses1, out)"
    and r: "shop_run evs (ss(fd := ses1)) s1 = Inr (ss', s', sales1)"
    and p: "sales = (if out = sold_text then [(day s, login_ID (ss fd))] else []) @ sales1"
    by (auto split: sum.splits)
  have "I ((past @ (if out = sold_text then [(day s, login_ID (ss fd))] else [])) @ sales1) ss' s'"
    by (rule 3(1) [OF m refl refl r out [OF 3(3) mask_server_outcome [OF m]]])
  then show ?case by (simp add: p)
qed

text \<open>The fields the handlers leave alone, and what a sale does to the others.\<close>

lemma log_result_fields [simp]: "data (log_result cs s) = data s" "num (log_result cs s) = num s" "day (log_result cs s) = day s"
  "alcohol (log_result cs s) = alcohol s" "alcohol_capacity (log_result cs s) = alcohol_capacity s" "buied (log_result cs s) = buied s"
  by (simp_all add: log_result_def)

lemma sell_fields [simp]: "data (sell i j q w s) = (data s)[i := (data s ! i)[j := sell_cell q (data s ! i ! j)]]"
  "num (sell i j q w s) = num s" "alcohol_capacity (sell i j q w s) = alcohol_capacity s"
  "alcohol (sell i j q w s) = (if alcohol s - 1 < 5 then alcohol_capacity s else alcohol s - 1)"
  "day (sell i j q w s) = (if day s = 7 then 1 else day s + 1)"
  "buied (sell i j q w s) = (if day s = 7 then [] else buied s @ [w])"
  by (simp_all add: sell_def use_alcohol_def next_day_def Let_def)

lemma not_bought: "check_day_of_week s w \<Longrightarrow> w \<notin> set (buied s)"
  by (auto simp: check_day_of_week_def list_ex_iff Let_def split: if_splits)

section \<open>Once a week\<close>

text \<open>\<open>D\<close> days of the week were over at the start; the buyers since Monday are in the list.\<close>

definition week_kept :: "nat \<Rightarrow> (int \<times> u8 list) list \<Rightarrow> shop \<Rightarrow> bool" where
  "week_kept D past s \<longleftrightarrow> day s = int ((D + length past) mod 7) + 1 \<and>
     (\<forall>n < length past. (D + n) div 7 = (D + length past) div 7 \<longrightarrow> snd (past ! n) \<in> set (buied s))"

definition sale_in_turn :: "nat \<Rightarrow> (int \<times> u8 list) list \<Rightarrow> nat \<Rightarrow> bool" where
  "sale_in_turn D ps n \<longleftrightarrow> fst (ps ! n) = int ((D + n) mod 7) + 1 \<and>
     check_ID (snd (ps ! n)) = Some True \<and> (fst (ps ! n) = 7 \<or> fst (ps ! n) mod 2 = digit_of (snd (ps ! n) ! 9) smod 2) \<and>
     (\<forall>j < n. snd (ps ! j) = snd (ps ! n) \<longrightarrow> (D + j) div 7 < (D + n) div 7)"

lemma sale_in_turn_append: "n < length ps \<Longrightarrow> sale_in_turn D (ps @ qs) n = sale_in_turn D ps n"
  by (auto simp: sale_in_turn_def nth_append)

lemma smod_2_nonneg: "0 \<le> (x::int) \<Longrightarrow> x smod 2 = x mod 2"
  by (cases "x = 0") (simp_all add: signed_modulo_int_def)

lemma day_rule: "check_day_of_week s w \<Longrightarrow> 0 \<le> day s \<Longrightarrow> day s = 7 \<or> day s mod 2 = digit_of (w ! 9) smod 2"
  by (auto simp: check_day_of_week_def Let_def smod_2_nonneg split: if_splits)

lemma week_after_sale:
  assumes "week_kept D past s"
  shows "week_kept D (past @ [(day s, w)]) (sell i j q w s)"
proof -
  let ?n = "length past"
  have d: "day s = int ((D + ?n) mod 7) + 1" using assms by (simp add: week_kept_def)
  show ?thesis
  proof (cases "(D + ?n) mod 7 = 6")
    case True
    then have s: "Suc (D + ?n) div 7 = Suc ((D + ?n) div 7)" "Suc (D + ?n) mod 7 = 0" by (simp_all add: div_Suc mod_Suc)
    have "(D + m) div 7 \<noteq> Suc ((D + ?n) div 7)" if "m < Suc ?n" for m
      using div_le_mono [of "D + m" "D + ?n" 7] that by simp
    then show ?thesis using d True s by (simp add: week_kept_def)
  next
    case False
    then have s: "Suc (D + ?n) div 7 = (D + ?n) div 7" "Suc (D + ?n) mod 7 = Suc ((D + ?n) mod 7)" by (simp_all add: div_Suc mod_Suc)
    have "day s \<noteq> 7" using False d by simp
    then show ?thesis using assms s d by (auto simp: week_kept_def nth_append less_Suc_eq)
  qed
qed

lemma new_sale_in_turn:
  assumes "week_kept D past s" "check_day_of_week s w" "check_ID w = Some True"
  shows "sale_in_turn D (past @ [(day s, w)]) (length past)"
proof -
  have d: "day s = int ((D + length past) mod 7) + 1" using assms(1) by (simp add: week_kept_def)
  have "(D + j) div 7 < (D + length past) div 7" if "j < length past" "snd (past ! j) = w" for j
    using that assms not_bought [OF assms(2)] div_le_mono [of "D + j" "D + length past" 7]
    by (auto simp: week_kept_def intro: le_neq_implies_less)
  then show ?thesis using d assms(3) day_rule [OF assms(2)] by (auto simp: sale_in_turn_def nth_append)
qed

definition week_inv :: "nat \<Rightarrow> (int \<times> u8 list) list \<Rightarrow> (int \<Rightarrow> session) \<Rightarrow> shop \<Rightarrow> bool" where
  "week_inv D past ss s \<longleftrightarrow> week_kept D past s \<and> (\<forall>n < length past. sale_in_turn D past n) \<and>
     (\<forall>fd. iflogin (ss fd) \<longrightarrow> check_ID (login_ID (ss fd)) = Some True)"

lemma week_connect: "week_inv D past ss s \<Longrightarrow> week_inv D past (ss(fd := new_session)) s"
  by (simp add: week_inv_def new_session_def)

lemma week_outcome:
  assumes "week_inv D past ss s" "outcome (ss fd) s s1 ses1 out"
  shows "week_inv D (past @ (if out = sold_text then [(day s, login_ID (ss fd))] else [])) (ss(fd := ses1)) s1"
  using assms(2)
proof cases
  case (sold i j q cs)
  let ?w = "login_ID (ss fd)"
  have "check_ID ?w = Some True" using assms(1) sold by (simp add: week_inv_def)
  then have "week_kept D (past @ [(day s, ?w)]) (sell i j q ?w s)" "sale_in_turn D (past @ [(day s, ?w)]) (length past)"
    using assms(1) sold by (auto simp: week_inv_def week_after_sale new_sale_in_turn)
  then show ?thesis using assms(1) sold
    by (auto simp: week_inv_def less_Suc_eq sale_in_turn_append week_kept_def)
qed (use assms(1) in \<open>auto simp: week_inv_def week_kept_def\<close>)

text \<open>
  C11: The rationing holds whatever the clients send and in whatever order their requests get the mutex: of the sales of a run the n-th
  happens n days after the start, on the day of the week the shop then has, to a valid number whose last digit has the parity of the
  day or on a Sunday, and a number that buys twice does so in different weeks. A run that leaves the arrays' bounds is not
  meant.
\<close>

theorem once_a_week:
  assumes "shop_run evs ss s = Inr (ss', s', sales)" "day s = int D + 1" "D < 7" "\<forall>fd. \<not> iflogin (ss fd)"
  shows "day s' = int ((D + length sales) mod 7) + 1 \<and> (\<forall>n < length sales. fst (sales ! n) = int ((D + n) mod 7) + 1 \<and>
     check_ID (snd (sales ! n)) = Some True \<and> (fst (sales ! n) = 7 \<or> fst (sales ! n) mod 2 = digit_of (snd (sales ! n) ! 9) smod 2) \<and>
     (\<forall>j < n. snd (sales ! j) = snd (sales ! n) \<longrightarrow> (D + j) div 7 < (D + n) div 7))"
proof -
  have "week_inv D [] ss s" using assms(2-4) by (simp add: week_inv_def week_kept_def)
  then have "week_inv D ([] @ sales) ss' s'"
    using shop_run_keeps [where I = "week_inv D", OF assms(1)] week_connect week_outcome by blast
  then show ?thesis unfolding week_inv_def week_kept_def sale_in_turn_def append_Nil by blast
qed

section \<open>Stocks, alcohol, and an answer for everyone\<close>

definition stock_ok :: "cell \<Rightarrow> bool" where "stock_ok v \<longleftrightarrow> 0 \<le> s_a v \<and> 0 \<le> s_b v \<and> 0 \<le> s_c v"

definition shop_safe :: "shop \<Rightarrow> bool" where
  "shop_safe s \<longleftrightarrow> counts_in_table s \<and> list_all (list_all stock_ok) (data s) \<and> 5 \<le> alcohol s \<and> alcohol s \<le> alcohol_capacity s"

definition masks :: "shop \<Rightarrow> int" where
  "masks s = (\<Sum>row\<leftarrow>data s. \<Sum>v\<leftarrow>row. s_a v + s_b v + s_c v)"

text \<open>A request that reads well: words that fit, a number with a letter first, a city from 1 on.\<close>

definition good_request :: "u8 list \<Rightarrow> bool" where
  "good_request buf \<longleftrightarrow>
     (starts ''login'' buf \<longrightarrow> (case scan_word buf of None \<Rightarrow> False
        | Some (w0, r) \<Rightarrow> length w0 \<le> 5 \<and> (case scan_word r of None \<Rightarrow> False
           | Some (w, _) \<Rightarrow> 10 \<le> length w \<and> letter_value (w ! 0) \<noteq> None))) \<and>
     (starts ''buy'' buf \<longrightarrow> (case scan_order buf of Inl e \<Rightarrow> False | Inr q \<Rightarrow> 1 \<le> digit_of (o_city q ! 0)))"

fun good_event :: "shop_event \<Rightarrow> bool" where
  "good_event (Connect fd) = True"
| "good_event (Request fd buf) = good_request buf"

lemma sum_list_put: "i < length xs \<Longrightarrow> (\<Sum>x\<leftarrow>xs[i := y]. f x) = (\<Sum>x\<leftarrow>xs. f x) - f (xs ! i) + (f y :: int)"
  by (induction xs arbitrary: i) (auto split: nat.split simp: nth_Cons')

lemma masks_sell:
  assumes "i < length (data s)" "j < length (data s ! i)"
  shows "masks (sell i j q w s) = masks s - (o_a q + o_b q + o_c q)"
  using assms by (simp add: masks_def sum_list_put sell_cell_def)

lemma masks_log [simp]: "masks (log_result cs s) = masks s" "masks (s\<lparr>buied := x\<rparr>) = masks s"
  by (simp_all add: masks_def)

lemma list_all_put: "list_all P xs \<Longrightarrow> P y \<Longrightarrow> list_all P (xs[i := y])"
  by (auto simp: list_all_iff dest: set_update_subset_insert [THEN subsetD])

lemma safe_log: "shop_safe s \<Longrightarrow> shop_safe (log_result cs s)" "shop_safe s \<Longrightarrow> shop_safe (s\<lparr>buied := x\<rparr>)"
  by (simp_all add: shop_safe_def counts_in_table_def)

lemma safe_sell:
  assumes "shop_safe s" "sellable i j q s"
  shows "shop_safe (sell i j q w s)"
proof -
  have row: "list_all stock_ok (data s ! i)" using assms by (simp add: shop_safe_def sellable_def list_all_length)
  then have "stock_ok (data s ! i ! j)" using assms(2) by (simp add: sellable_def list_all_length)
  then have "stock_ok (sell_cell q (data s ! i ! j))" using assms(2) by (simp add: sellable_def stock_ok_def sell_cell_def)
  then have "list_all (list_all stock_ok) (data (sell i j q w s))"
    using assms(1) row by (simp add: shop_safe_def list_all_put)
  moreover have "counts_in_table (sell i j q w s)"
    using assms by (auto simp: shop_safe_def counts_in_table_def sellable_def nth_list_update sell_cell_def)
  ultimately show ?thesis using assms(1) by (simp add: shop_safe_def)
qed

text \<open>Between zero and three masks leave with each sale.\<close>

lemma safe_outcome:
  assumes "outcome ses s s1 ses1 out" "shop_safe s"
  shows "shop_safe s1 \<and> masks s1 \<le> masks s \<and> masks s \<le> masks s1 + (if out = sold_text then 3 else 0) \<and>
    length (buied s1) \<le> length (buied s) + 1"
  using assms(1)
proof cases
  case (sold i j q cs)
  then have "order_ok q" "i < length (data s)" "j < length (data s ! i)" by (auto simp: sellable_def)
  then show ?thesis using sold safe_sell [OF assms(2)] by (auto simp: safe_log masks_sell order_ok_def)
qed (use assms(2) in \<open>auto simp: safe_log\<close>)

lemma buy_answered:
  assumes "scan_order buf = Inr q" "1 \<le> digit_of (o_city q ! 0)" "counts_in_table s" "int (length (buied s)) < BUY_ID_NUM"
  shows "\<exists>r. server_buy fd buf ses s = Inr r"
proof -
  have "\<exists>r. buy_at i q h ses s = Inr r" if "i < nat (num s)" for i h
  proof -
    have "type_num (data s ! i ! 0) \<le> int (length (data s ! i))" using assms(3) that by (simp add: counts_in_table_def)
    then show ?thesis using assms(2,4) by (auto simp: buy_at_def Let_def add_buied_def use_alcohol_def)
  qed
  moreover have "num s \<le> int (length (data s))" using assms(3) by (simp add: counts_in_table_def)
  ultimately show ?thesis using assms(1) by (auto simp: server_buy_def Let_def find_Some_iff split: option.splits)
qed

lemma good_answered:
  assumes "good_request buf" "counts_in_table s" "int (length (buied s)) < BUY_ID_NUM"
  shows "\<exists>r. mask_server fd buf ses s = Inr r"
proof -
  have "\<exists>r. server_buy fd buf ses s = Inr r" if "starts ''buy'' buf"
    using that assms buy_answered by (auto simp: good_request_def split: sum.splits)
  moreover have "\<exists>r. server_login fd buf ses s = Inr r" if "starts ''login'' buf"
    using that assms(1)
    by (auto simp: good_request_def server_login_def check_ID_def Let_def split: option.splits)
  ultimately show ?thesis using assms(2,3)
    by (auto simp: mask_server_def server_show_def server_logout_def add_buied_def server_statics_def server_invalid_def Let_def)
qed

lemma run_answers:
  assumes "list_all good_event evs" "shop_safe s" "int (length (buied s) + length evs) \<le> BUY_ID_NUM"
  shows "\<exists>ss' s' sales. shop_run evs ss s = Inr (ss', s', sales) \<and> shop_safe s' \<and> masks s' \<le> masks s \<and>
    masks s \<le> masks s' + 3 * int (length sales)"
  using assms
proof (induction evs ss s rule: shop_run.induct)
  case (3 fd buf evs ss s)
  then have "\<exists>r. mask_server fd buf (ss fd) s = Inr r" by (intro good_answered) (auto simp: shop_safe_def)
  then obtain s1 ses1 out where m: "mask_server fd buf (ss fd) s = Inr (s1, ses1, out)" by auto
  have o: "shop_safe s1" "masks s1 \<le> masks s" "masks s \<le> masks s1 + (if out = sold_text then 3 else 0)"
    "length (buied s1) \<le> length (buied s) + 1"
    using safe_outcome [OF mask_server_outcome [OF m] 3(3)] by auto
  obtain ss' s' sales where "shop_run evs (ss(fd := ses1)) s1 = Inr (ss', s', sales)" "shop_safe s'" "masks s' \<le> masks s1"
    "masks s1 \<le> masks s' + 3 * int (length sales)"
    using 3(1) [OF m refl refl _ o(1)] 3(2,4) o(4) by (auto simp del: fun_upd_apply)
  then show ?case using o(2,3) by (auto simp: m simp del: fun_upd_apply)
qed (auto simp del: fun_upd_apply)

text \<open>
  C12: The server answers: as long as the table of buyers has room every run of requests that read well, in whatever order the
  clients send them, is served to its end; no stock is ever negative, the alcohol stays between five and the capacity, and what
  is missing from the stocks is at most three masks for each sale.
\<close>

theorem shop_serves:
  assumes "shop_safe s" "list_all good_event evs" "int (length (buied s) + length evs) \<le> BUY_ID_NUM"
  shows "\<exists>ss' s' sales. shop_run evs ss s = Inr (ss', s', sales) \<and> counts_in_table s' \<and>
    list_all (list_all (\<lambda>v. 0 \<le> s_a v \<and> 0 \<le> s_b v \<and> 0 \<le> s_c v)) (data s') \<and> 5 \<le> alcohol s' \<and> alcohol s' \<le> alcohol_capacity s' \<and>
    masks s' \<le> masks s \<and> masks s \<le> masks s' + 3 * int (length sales)"
  using run_answers [OF assms(2,1,3), of ss] unfolding shop_safe_def stock_ok_def [abs_def] by blast

section \<open>Logging in\<close>

definition word_end :: "u8 list \<Rightarrow> bool" where "word_end r \<longleftrightarrow> r = [] \<or> is_space (hd r)"

lemma scan_word_end:
  assumes "w \<noteq> []" "\<forall>ch \<in> set w. \<not> is_space ch" "word_end r"
  shows "scan_word (w @ r) = Some (w, r)" "scan_word (sp @ w @ r) = Some (w, r)"
proof -
  have "dropWhile is_space (w @ r) = w @ r" "takeWhile (\<lambda>ch. \<not> is_space ch) (w @ r) = w" "dropWhile (\<lambda>ch. \<not> is_space ch) (w @ r) = r"
    using assms by (cases w; cases r; auto simp: word_end_def takeWhile_append2 dropWhile_append2)+
  then show "scan_word (w @ r) = Some (w, r)" "scan_word (sp @ w @ r) = Some (w, r)"
    using assms(1) by (simp_all add: scan_word_def sp_def is_space_def Let_def)
qed

lemma word_end_simps [simp]: "word_end (sp @ r)" "word_end []" by (simp_all add: word_end_def sp_def is_space_def)

lemma command_words: "\<forall>ch \<in> set (ascii ''login''). \<not> is_space ch" "\<forall>ch \<in> set (ascii ''buy''). \<not> is_space ch"
  "ascii ''login'' \<noteq> []" "ascii ''buy'' \<noteq> []"
  by (simp_all add: ascii_def is_space_def)

lemma digit_of_char: "d < 10 \<Longrightarrow> digit_of (digit_char d) = int d"
proof -
  have "\<forall>d<10. digit_of (digit_char d) = int d" by code_simp
  then show "d < 10 \<Longrightarrow> ?thesis" by simp
qed

text \<open>The weighted sum of letter and digits, the check digit included.\<close>

definition id_sum :: "int \<Rightarrow> nat list \<Rightarrow> nat" where
  "id_sum y ds = nat (y div 10 + (y mod 10) * 9) + (\<Sum>i\<leftarrow>[0..<8]. (8 - i) * ds ! i) + ds ! 8"

lemma letter_value_range: "letter_value l = Some y \<Longrightarrow> 10 \<le> y \<and> y \<le> 35"
  by (auto simp: letter_value_def Let_def split: if_splits)

lemma sint_small:
  assumes "unat (l :: u8) \<le> 32"
  shows "sint l \<le> 32"
proof -
  have u: "uint l \<le> 32" "0 \<le> uint l" using assms of_nat_mono [OF assms, where 'a = int] by simp_all
  have "signed_take_bit 7 n = n" if "0 \<le> n" "n \<le> 32" for n :: int
    by (rule signed_take_bit_int_eq_self) (use that in simp_all)
  from this [OF u(2,1)] show ?thesis using u(1) by (simp add: sint_uint)
qed

lemma letter_no_space: "letter_value l = Some y \<Longrightarrow> \<not> is_space l"
proof -
  assume "letter_value l = Some y"
  then have "65 \<le> sint l" by (auto simp: letter_value_def Let_def split: if_splits)
  moreover have "unat l \<le> 32" if "is_space l" using that by (auto simp: is_space_def)
  ultimately show ?thesis using sint_small [of l] by fastforce
qed

lemma check_digit: "d < 10 \<Longrightarrow> (10 - int w smod 10 = int d) = ((w + d) mod 10 = 0 \<and> d \<noteq> 0)"
proof -
  assume "d < 10"
  have "int w smod 10 = int (w mod 10)" by (cases "w = 0") (simp_all add: signed_modulo_int_def zmod_int)
  moreover have "\<forall>m<10. \<forall>d<10. (10 - int m = int d) = ((m + d) mod 10 = 0 \<and> d \<noteq> 0)" by code_simp
  then have "(10 - int (w mod 10) = int d) = ((w mod 10 + d) mod 10 = 0 \<and> d \<noteq> 0)" using \<open>d < 10\<close> by simp
  ultimately show ?thesis by (simp add: mod_add_left_eq)
qed

lemma check_ID_digits:
  assumes "letter_value l = Some y" "length ds = 9" "list_all (\<lambda>d. d < 10) ds"
  shows "check_ID (l # map digit_char ds) = Some (id_sum y ds mod 10 = 0 \<and> ds ! 8 \<noteq> 0)"
proof -
  define Y where "Y = nat (y div 10 + (y mod 10) * 9)"
  have "10 \<le> y" using letter_value_range [OF assms(1)] by simp
  then have "0 \<le> y div 10 + y mod 10 * 9" by (intro add_nonneg_nonneg) (simp_all add: pos_imp_zdiv_nonneg_iff)
  then have y: "y sdiv 10 + y smod 10 * 9 = int Y"
    using \<open>10 \<le> y\<close> by (simp add: signed_modulo_int_def signed_divide_int_def Y_def)
  obtain a b c d e f g h k where ds: "ds = [a, b, c, d, e, f, g, h, k]"
    using assms(2) by (auto simp: numeral_eq_Suc length_Suc_conv)
  let ?w = "Y + a * 8 + b * 7 + c * 6 + d * 5 + e * 4 + f * 3 + g * 2 + h * 1"
  have small: "a < 10" "b < 10" "c < 10" "d < 10" "e < 10" "f < 10" "g < 10" "h < 10" "k < 10" using assms(3) ds by simp_all
  have "check_ID (l # map digit_char ds) = Some (10 - int ?w smod 10 = int k)"
    using assms(1) small by (simp add: ds check_ID_def Let_def y digit_of_char add.assoc)
  moreover have "[0..<8] = [0, 1, 2, 3, 4, 5, 6, 7::nat]" by code_simp
  then have "id_sum y ds = ?w + k" by (simp add: id_sum_def ds Y_def)
  ultimately show ?thesis using check_digit [OF small(9), of ?w] by (simp add: ds)
qed

definition login_text :: "u8 \<Rightarrow> nat list \<Rightarrow> u8 list" where
  "login_text l ds = ascii ''login'' @ sp @ l # map digit_char ds"

lemma starts_login: "starts ''login'' (ascii ''login'' @ cs)" "\<not> starts ''show'' (ascii ''login'' @ cs)"
  by (simp_all add: starts_def ascii_def)

lemma login_text_answer:
  assumes "letter_value l = Some y" "length ds = 9" "list_all (\<lambda>d. d < 10) ds"
  shows "mask_server fd (login_text l ds) ses s = Inr
    (if \<not> iflogin ses \<and> id_sum y ds mod 10 = 0 \<and> ds ! 8 \<noteq> 0
     then (log_result (log_head 50 fd (login_text l ds) s @ login_succ) s, ses\<lparr>iflogin := True, login_ID := l # map digit_char ds\<rparr>, login_succ)
     else (log_result (log_head 50 fd (login_text l ds) s @ login_fail) s, ses, login_fail))"
proof -
  let ?w = "l # map digit_char ds"
  have "\<forall>ch \<in> set ?w. \<not> is_space ch"
    using assms(3) letter_no_space [OF assms(1)] digit_char_facts(2) by (auto simp: list_all_iff)
  then have "scan_word (sp @ ?w) = Some (?w, [])" using scan_word_end(2) [of ?w "[]"] by simp
  moreover have "scan_word (login_text l ds) = Some (ascii ''login'', sp @ ?w)"
    unfolding login_text_def using command_words by (intro scan_word_end) simp_all
  moreover have "length (ascii ''login'') = 5" by (simp add: ascii_def)
  moreover have "take 10 ?w = ?w" using assms(2) by simp
  moreover have "starts ''login'' (login_text l ds)" "\<not> starts ''show'' (login_text l ds)"
    unfolding login_text_def by (rule starts_login)+
  ultimately show ?thesis
    using assms(2) check_ID_digits [OF assms] by (simp add: mask_server_def server_login_def Let_def del: take_Suc_Cons)
qed

text \<open>
  Logging in with a letter and nine digits succeeds, for a client not yet logged in, exactly if the weighted sum with the check
  digit is a multiple of ten and the check digit is not zero; the session then has the number, and otherwise nothing but the log
  changes. The last condition is not meant: of the numbers with check digit zero none is ever let in.
\<close>

theorem server_login_rule:
  assumes "letter_value l = Some y" "length ds = 9" "list_all (\<lambda>d. d < 10) ds"
  shows "mask_server fd (login_text l ds) ses s = Inr
    (if \<not> iflogin ses \<and> id_sum y ds mod 10 = 0 \<and> ds ! 8 \<noteq> 0
     then (log_result (log_head 50 fd (login_text l ds) s @ login_succ) s, ses\<lparr>iflogin := True, login_ID := l # map digit_char ds\<rparr>, login_succ)
     else (log_result (log_head 50 fd (login_text l ds) s @ login_fail) s, ses, login_fail))"
  by (rule login_text_answer [OF assms])

section \<open>Buying\<close>

definition order_text :: "u8 list \<Rightarrow> nat \<Rightarrow> int \<Rightarrow> int \<Rightarrow> int \<Rightarrow> u8 list" where
  "order_text t k a b c = ascii ''buy'' @ sp @ t @ sp @ [digit_char k] @ sp @ dec a @ sp @ dec b @ sp @ dec c"

definition order_of :: "u8 list \<Rightarrow> nat \<Rightarrow> int \<Rightarrow> int \<Rightarrow> int \<Rightarrow> order" where
  "order_of t k a b c = \<lparr>o_type = t, o_city = [digit_char k], o_a = a, o_b = b, o_c = c\<rparr>"

definition word_ok :: "u8 list \<Rightarrow> bool" where
  "word_ok t \<longleftrightarrow> t \<noteq> [] \<and> length t < 20 \<and> list_all (\<lambda>ch. \<not> is_space ch) t"

definition type_ok :: "u8 list \<Rightarrow> bool" where
  "type_ok t \<longleftrightarrow> word_ok t \<and> take 3 t \<noteq> ascii ''XXX''"

lemma scan_order_text:
  assumes "word_ok t" "k < 10" "int32 a" "int32 b" "int32 c"
  shows "scan_order (order_text t k a b c) = Inr (order_of t k a b c)"
proof -
  have t: "t \<noteq> []" "\<forall>ch \<in> set t. \<not> is_space ch" "length t < 20" using assms(1) by (auto simp: word_ok_def list_all_iff)
  have k: "\<forall>ch \<in> set [digit_char k]. \<not> is_space ch" using assms(2) by (simp add: digit_char_facts)
  have w: "scan_word (order_text t k a b c) = Some (ascii ''buy'', sp @ t @ sp @ [digit_char k] @ sp @ dec a @ sp @ dec b @ sp @ dec c)"
    unfolding order_text_def by (rule scan_word_end(1)) (use command_words in simp_all)
  have n: "scan_int (sp @ dec c) = Some (c, [])" using scan_int_dec [of "[]" c] assms(5) by (simp add: scan_int_sp no_digit_first_def)
  have "length (ascii ''buy'') = 3" by (simp add: ascii_def)
  then show ?thesis
    using t assms(3,4) scan_word_end(2) [OF t(1,2)] scan_word_end(2) [OF _ k] n
    by (simp add: scan_order_def w order_of_def scan_int_sp scan_int_dec del: append_Cons)
qed

definition city_at :: "nat \<Rightarrow> nat \<Rightarrow> shop \<Rightarrow> cell" where "city_at i j s = data s ! i ! j"

lemma starts_buy: "\<not> starts ''show'' (order_text t k a b c)" "\<not> starts ''login'' (order_text t k a b c)"
  "\<not> starts ''logout'' (order_text t k a b c)" "starts ''buy'' (order_text t k a b c)"
  by (simp_all add: order_text_def starts_def ascii_def)

text \<open>The type is the \<open>i\<close>-th and no earlier one has its name.\<close>

definition type_found :: "u8 list \<Rightarrow> nat \<Rightarrow> shop \<Rightarrow> bool" where
  "type_found t i s \<longleftrightarrow> int i < num s \<and> type_name (data s ! i ! 0) = t \<and> (\<forall>h \<in> set [0..<i]. type_name (data s ! h ! 0) \<noteq> t)"

lemma find_type:
  assumes "type_found t i s" "counts_in_table s"
  shows "find (\<lambda>h. t = type_name (data s ! h ! 0)) [0..<min (nat (num s)) (length (data s))] = Some i"
proof -
  have "i < min (nat (num s)) (length (data s))" using assms by (auto simp: type_found_def counts_in_table_def)
  then show ?thesis using assms(1) by (auto simp: find_Some_iff type_found_def intro!: exI [of _ i])
qed

lemma order_answer:
  assumes "type_ok t" "1 \<le> k" "k < 10" "int32 a" "int32 b" "int32 c" "type_found t i s" "counts_in_table s"
    and "int (length (buied s)) < BUY_ID_NUM"
  defines "v \<equiv> city_at i (k - 1) s"
  shows "mask_server fd (order_text t k a b c) ses s =
    (let head = log_head 50 fd (order_text t k a b c) s
     in Inr (if iflogin ses \<and> check_day_of_week s (login_ID ses) \<and> order_ok (order_of t k a b c) \<and> int k \<le> type_num (data s ! i ! 0) \<and>
           a \<le> s_a v \<and> b \<le> s_b v \<and> c \<le> s_c v
       then (log_result (head @ disinfect @ sp @ putting_mask @ sp @ thankyou @ nl)
               (sell i (k - 1) (order_of t k a b c) (login_ID ses) s), ses\<lparr>iflogin := False\<rparr>, sold_text)
       else (log_result (head @ buy_fail) s, ses, buy_fail)))"
proof -
  let ?q = "order_of t k a b c"
  have q: "o_type ?q = t" "digit_of (o_city ?q ! 0) = int k" "o_a ?q = a" "o_b ?q = b" "o_c ?q = c" "take 3 t \<noteq> ascii ''XXX''"
    using assms(1,3) by (simp_all add: order_of_def digit_of_char type_ok_def)
  have s: "scan_order (order_text t k a b c) = Inr ?q" using assms(1,3-6) by (intro scan_order_text) (simp_all add: type_ok_def)
  have f: "find (\<lambda>h. t = type_name (data s ! h ! 0)) [0..<min (nat (num s)) (length (data s))] = Some i"
    using assms by (intro find_type)
  have n: "type_num (data s ! i ! 0) \<le> int (length (data s ! i))"
    using assms(7,8) by (auto simp: type_found_def counts_in_table_def)
  have j: "nat (int k - 1) = k - 1" "0 \<le> int k - 1" using assms(2) by linarith+
  have "buy_at i ?q h ses s = Inr (if int k \<le> type_num (data s ! i ! 0) \<and> a \<le> s_a v \<and> b \<le> s_b v \<and> c \<le> s_c v
       then (log_result (h @ disinfect @ sp @ putting_mask @ sp @ thankyou @ nl) (sell i (k - 1) ?q (login_ID ses) s),
         ses\<lparr>iflogin := False\<rparr>, sold_text)
       else (log_result (h @ buy_fail) s, ses, buy_fail))" for h
    using j n assms(9) unfolding v_def city_at_def buy_at_def q Let_def j(1)
    by (auto simp: add_buied_def sell_def sold_text_def use_alcohol_def Let_def)
  then show ?thesis
    by (simp add: mask_server_def starts_buy server_buy_def s q f Let_def)
qed

text \<open>
  C13: An order for a type the shop has is accepted exactly if the client is logged in, it is its day and it has not bought this week,
  the numbers are between zero and three and so is their sum, the city exists and has the masks. Then the masks leave that city's
  stock and no other entry of the table changes, the session is logged out, the number is noted and the day moves on;
  otherwise the client is told so and nothing but the log changes.
\<close>

theorem order_served:
  assumes "type_ok t" "1 \<le> k" "k < 10" "int32 a" "int32 b" "int32 c" "type_found t i s" "counts_in_table s"
    and "int (length (buied s)) < BUY_ID_NUM" "v = city_at i (k - 1) s"
    and "mask_server fd (order_text t k a b c) ses s = Inr (s', ses', out)"
  shows "if iflogin ses \<and> check_day_of_week s (login_ID ses) \<and> 0 \<le> a \<and> 0 \<le> b \<and> 0 \<le> c \<and> a + b + c \<le> 3 \<and>
        int k \<le> type_num (data s ! i ! 0) \<and> a \<le> s_a v \<and> b \<le> s_b v \<and> c \<le> s_c v
     then out = sold_text \<and> ses' = ses\<lparr>iflogin := False\<rparr> \<and>
        (\<forall>i' j'. i' < length (data s) \<longrightarrow> j' < length (data s ! i') \<longrightarrow> city_at i' j' s' = (if (i', j') = (i, k - 1)
           then v\<lparr>s_a := s_a v - a, s_b := s_b v - b, s_c := s_c v - c\<rparr> else city_at i' j' s)) \<and>
        (if day s = 7 then day s' = 1 \<and> buied s' = [] else day s' = day s + 1 \<and> buied s' = buied s @ [login_ID ses])
     else out = buy_fail \<and> ses' = ses \<and> data s' = data s \<and> day s' = day s \<and> buied s' = buied s"
proof -
  have ok: "order_ok (order_of t k a b c) = (0 \<le> a \<and> 0 \<le> b \<and> 0 \<le> c \<and> a + b + c \<le> 3)" by (auto simp: order_ok_def order_of_def)
  have cell: "i' < length (data s) \<longrightarrow> j' < length (data s ! i') \<longrightarrow>
      city_at i' j' (sell i (k - 1) (order_of t k a b c) w s) = (if (i', j') = (i, k - 1)
        then v\<lparr>s_a := s_a v - a, s_b := s_b v - b, s_c := s_c v - c\<rparr> else city_at i' j' s)" for i' j' w
    using assms(10) by (cases "i' = i") (auto simp: city_at_def sell_cell_def order_of_def nth_list_update)
  have log: "city_at i' j' (log_result cs x) = city_at i' j' x" for i' j' cs x by (simp add: city_at_def)
  let ?P = "iflogin ses \<and> check_day_of_week s (login_ID ses) \<and> (0 \<le> a \<and> 0 \<le> b \<and> 0 \<le> c \<and> a + b + c \<le> 3) \<and>
        int k \<le> type_num (data s ! i ! 0) \<and> a \<le> s_a v \<and> b \<le> s_b v \<and> c \<le> s_c v"
  note r = assms(11) [unfolded order_answer [OF assms(1-9)] assms(10) [symmetric] ok Let_def]
  show ?thesis
  proof (cases ?P)
    case True
    obtain cs where "s' = log_result cs (sell i (k - 1) (order_of t k a b c) (login_ID ses) s)" "ses' = ses\<lparr>iflogin := False\<rparr>" "out = sold_text"
      using r unfolding if_P [OF True] by auto
    then show ?thesis using True by (simp add: log cell [unfolded One_nat_def])
  next
    case False
    then have "s' = log_result (log_head 50 fd (order_text t k a b c) s @ buy_fail) s" "ses' = ses" "out = buy_fail"
      using r unfolding if_not_P [OF False] by simp_all
    then show ?thesis using False by auto
  qed
qed

lemma other_not_Nil: "buy_fail \<noteq> []" "login_succ \<noteq> []" "login_fail \<noteq> []" "logout_succ \<noteq> []" "logout_fail \<noteq> []" "invalid_text \<noteq> []"
    "disinfect @ cs \<noteq> []" "snprintf 10 (dec x @ nl) \<noteq> []" "ascii ''show'' @ cs \<noteq> []"
  by (simp_all add: reply_texts snprintf_def)

lemma show_answers: "server_show fd ses s \<noteq> Inr (s', ses', [])"
  by (simp add: server_show_def Let_def nl_def)

lemma login_answers: "server_login fd buf ses s \<noteq> Inr (s', ses', [])"
  by (simp add: server_login_def Let_def other_not_Nil split: option.split)

lemma logout_answers: "server_logout fd ses s \<noteq> Inr (s', ses', [])"
  by (simp add: server_logout_def Let_def other_not_Nil split: option.split)

lemma buy_at_answers: "buy_at i q head ses s \<noteq> Inr (s', ses', [])"
  by (auto simp: buy_at_def Let_def reply_texts split: option.split)

lemma buy_silent:
  assumes "server_buy fd buf ses s = Inr (s', ses', out)" "scan_order buf = Inr q"
  shows "out = [] \<longleftrightarrow> iflogin ses \<and> check_day_of_week s (login_ID ses) \<and> order_ok q \<and> take 3 (o_type q) \<noteq> ascii ''XXX'' \<and>
    list_all (\<lambda>i. o_type q \<noteq> type_name (data s ! i ! 0)) [0..<nat (num s)]"
proof (cases "iflogin ses \<and> check_day_of_week s (login_ID ses) \<and> order_ok q \<and> take 3 (o_type q) \<noteq> ascii ''XXX''")
  case False
  then show ?thesis using assms other_not_Nil(1) by (auto simp: server_buy_def Let_def split: if_splits)
next
  case True
  let ?f = "find (\<lambda>i. o_type q = type_name (data s ! i ! 0)) [0..<min (nat (num s)) (length (data s))]"
  have r: "(case ?f of None \<Rightarrow> if num s > int (length (data s)) then Inl WildIndex else Inr (log_result (log_head 50 fd buf s) s, ses, [])
      | Some i \<Rightarrow> buy_at i q (log_head 50 fd buf s) ses s) = Inr (s', ses', out)"
    using assms True by (simp add: server_buy_def Let_def)
  show ?thesis
  proof (cases ?f)
    case None
    then have "out = []" "num s \<le> int (length (data s))" using r by (auto split: if_splits)
    then show ?thesis using None True by (simp add: find_None_iff list_all_iff min_absorb1)
  next
    case (Some i)
    then have "out \<noteq> []" using r buy_at_answers by auto
    then show ?thesis using Some by (auto simp: find_Some_iff list_all_iff)
  qed
qed

text \<open>
  C23: Of the requests that read well exactly one kind gets no answer, and leaves its client waiting: the order, of a client who may buy
  today and of numbers the shop takes, for a type the shop does not have.
\<close>

theorem unknown_type_unanswered:
  assumes "good_request buf" "mask_server fd buf ses s = Inr (s', ses', out)"
  shows "out = [] \<longleftrightarrow> starts ''buy'' buf \<and> iflogin ses \<and> check_day_of_week s (login_ID ses) \<and>
    (case scan_order buf of Inl e \<Rightarrow> False | Inr q \<Rightarrow> order_ok q \<and> take 3 (o_type q) \<noteq> ascii ''XXX'' \<and>
       list_all (\<lambda>i. o_type q \<noteq> type_name (data s ! i ! 0)) [0..<nat (num s)])"
proof -
  show ?thesis
  proof (cases "starts ''buy'' buf")
    case False
    then show ?thesis using assms(2) show_answers login_answers logout_answers
      by (auto simp: mask_server_def server_statics_def server_invalid_def other_not_Nil split: if_splits)
  next
    case True
    then obtain cs where "buf = ascii ''buy'' @ cs" by (metis append_take_drop_id starts_def)
    then have m: "server_buy fd buf ses s = Inr (s', ses', out)"
      using assms(2) by (simp add: mask_server_def starts_def ascii_def)
    obtain q where q: "scan_order buf = Inr q" using True assms(1) by (auto simp: good_request_def split: sum.splits)
    show ?thesis using buy_silent [OF m q] True by (simp add: q)
  qed
qed

section \<open>The order of the final report\<close>

text \<open>What the exchange moves of a row: number, city and sum.\<close>

definition row_view :: "cell \<Rightarrow> int \<times> u8 list \<times> int" where "row_view v = (row_no v, s_city v, row_sum v)"

definition exchange_if_less :: "nat \<Rightarrow> cell list \<Rightarrow> cell list" where
  "exchange_if_less j r = (if row_sum (r ! j) < row_sum (r ! (j + 1)) then exchange j r else r)"

lemma bubble_pass_simps [simp]: "bubble_pass 0 rows = rows"
  "bubble_pass (Suc n) rows = exchange_if_less n (bubble_pass n rows)"
  by (simp_all add: bubble_pass_def exchange_if_less_def)

lemma exchange_view:
  "map row_view (exchange j rows) = (map row_view rows)[j := row_view (rows ! (j + 1)), j + 1 := row_view (rows ! j)]"
  by (simp add: exchange_def row_view_def map_update blank_cell_def Let_def)

lemma length_pass [simp]: "length (exchange j rows) = length rows" "length (exchange_if_less j rows) = length rows"
  "length (bubble_pass n rows) = length rows"
proof -
  show "length (exchange j rows) = length rows" for j and rows :: "cell list" by (simp add: exchange_def Let_def)
  then show "length (exchange_if_less j rows) = length rows" for j and rows :: "cell list" by (simp add: exchange_if_less_def)
  then show "length (bubble_pass n rows) = length rows" by (induction n) simp_all
qed

text \<open>One pass permutes the views, leaves the rows after its end alone, and carries the least sum to its end.\<close>

lemma exchange_mset: "j + 1 < length rows \<Longrightarrow> mset (map row_view (exchange_if_less j rows)) = mset (map row_view rows)"
  using mset_swap [of "j + 1" "map row_view rows" j] by (simp add: exchange_if_less_def exchange_view del: mset_map)

lemma exchange_nth:
  assumes "j + 1 < length rows"
  shows "row_sum (exchange_if_less j rows ! (j + 1)) = min (row_sum (rows ! j)) (row_sum (rows ! (j + 1)))"
    "row_sum (exchange_if_less j rows ! j) = max (row_sum (rows ! j)) (row_sum (rows ! (j + 1)))"
    "i \<noteq> j \<Longrightarrow> i \<noteq> j + 1 \<Longrightarrow> exchange_if_less j rows ! i = rows ! i"
  using assms by (simp_all add: exchange_if_less_def exchange_def Let_def)

lemma pass_mset: "n < length rows \<Longrightarrow> mset (map row_view (bubble_pass n rows)) = mset (map row_view rows)"
  by (induction n) (simp_all add: exchange_mset del: mset_map)

lemma pass_after: "i > n \<Longrightarrow> i < length rows \<Longrightarrow> bubble_pass n rows ! i = rows ! i"
  by (induction n) (simp_all add: exchange_nth)

lemma pass_least:
  "n < length rows \<Longrightarrow> i \<le> n \<Longrightarrow> row_sum (bubble_pass n rows ! n) \<le> row_sum (bubble_pass n rows ! i)"
proof (induction n arbitrary: i)
  case (Suc n)
  let ?r = "bubble_pass n rows"
  have n: "n + 1 < length ?r" using Suc.prems(1) by simp
  have le: "row_sum (exchange_if_less n ?r ! (n + 1)) \<le> row_sum (?r ! n)" by (subst exchange_nth(1) [OF n]) simp
  consider "i = Suc n" | "i = n" | "i < n" using Suc.prems(2) by linarith
  then show ?case
  proof cases
    case 2
    then show ?thesis using exchange_nth(1,2) [OF n] by simp
  next
    case 3
    then have "row_sum (?r ! n) \<le> row_sum (?r ! i)" using Suc by simp
    moreover have "exchange_if_less n ?r ! i = ?r ! i" using 3 exchange_nth(3) [OF n] by simp
    ultimately show ?thesis using le by simp
  qed simp
qed simp

lemma mset_split: "mset xs = mset ys \<Longrightarrow> drop k xs = drop k ys \<Longrightarrow> mset (take k xs) = mset (take k ys)"
  by (metis add_right_cancel append_take_drop_id mset_append)

definition decreasing :: "cell list \<Rightarrow> bool" where "decreasing rows = sorted_wrt (\<ge>) (map row_sum rows)"

lemma bubble_sorts:
  assumes "k \<le> length rows"
  shows "length (bubble k rows) = length rows \<and> drop k (bubble k rows) = drop k rows \<and>
    mset (map row_view (bubble k rows)) = mset (map row_view rows) \<and> decreasing (take k (bubble k rows))"
  using assms
proof (induction k arbitrary: rows)
  case 0
  then show ?case by (simp add: decreasing_def)
next
  case (Suc t)
  show ?case
  proof (cases "t = 0")
    case True
    then show ?thesis using Suc.prems by (cases rows) (simp_all add: decreasing_def)
  next
    case False
    let ?p = "bubble_pass t rows"
    let ?b = "bubble t ?p"
    have t: "t < length rows" using Suc.prems by simp
    have ih: "length ?b = length ?p" "drop t ?b = drop t ?p" "mset (map row_view ?b) = mset (map row_view ?p)" "decreasing (take t ?b)"
      using Suc.IH [of ?p] t by auto
    have b: "?b ! t = ?p ! t" by (metis ih(1,2) hd_drop_conv_nth length_pass(3) t)
    have "mset (take t (map row_view ?b)) = mset (take t (map row_view ?p))"
      using ih(2,3) by (intro mset_split) (simp_all add: drop_map)
    then have "set (map row_view (take t ?b)) = set (map row_view (take t ?p))"
      by (metis set_mset_mset take_map)
    then have "(\<lambda>v. snd (snd v)) ` set (map row_view (take t ?b)) = (\<lambda>v. snd (snd v)) ` set (map row_view (take t ?p))" by simp
    then have "row_sum ` set (take t ?b) = row_sum ` set (take t ?p)" by (simp add: image_image row_view_def)
    moreover have "\<forall>x \<in> row_sum ` set (take t ?p). row_sum (?p ! t) \<le> x"
      using pass_least [OF t] t by (auto simp: in_set_conv_nth)
    moreover have "take (Suc t) ?b = take t ?b @ [?p ! t]" using b t ih(1) by (simp add: take_Suc_conv_app_nth)
    ultimately have "decreasing (take (Suc t) ?b)" using ih(4) by (auto simp: decreasing_def sorted_wrt_append)
    moreover have "drop (Suc t) ?p = drop (Suc t) rows" by (rule nth_equalityI) (use t in \<open>simp_all add: pass_after\<close>)
    then have "drop (Suc t) ?b = drop (Suc t) rows" using ih(2) by (metis add_Suc_right add.right_neutral drop_drop plus_1_eq_Suc)
    ultimately show ?thesis using False ih(1,3) pass_mset [OF t] by simp
  qed
qed

lemma add_sums_simps [simp]: "add_sums 0 rows = rows" "add_sums (Suc k) rows =
    (add_sums k rows)[k := (add_sums k rows ! k)\<lparr>row_sum := s32 (s_a (add_sums k rows ! k) + s_b (add_sums k rows ! k) + s_c (add_sums k rows ! k))\<rparr>]"
  by (simp_all add: add_sums_def)

definition summed :: "cell \<Rightarrow> cell" where "summed v = v\<lparr>row_sum := s32 (s_a v + s_b v + s_c v)\<rparr>"

lemma add_sums: "k \<le> length rows \<Longrightarrow> add_sums k rows = map summed (take k rows) @ drop k rows"
proof (induction k)
  case (Suc k)
  then have "drop k rows = rows ! k # drop (Suc k) rows" by (simp add: Cons_nth_drop_Suc)
  then show ?case using Suc by (simp add: nth_append list_update_append take_Suc_conv_app_nth summed_def)
qed simp

lemma sort_rows_sorts:
  assumes "nat (type_num (rows ! 0)) = k" "k \<le> length rows"
  shows "length (sort_rows rows) = length rows" "decreasing (take k (sort_rows rows))"
    "mset (map row_view (take k (sort_rows rows))) = mset (map (\<lambda>v. row_view (summed v)) (take k rows))"
proof -
  let ?a = "add_sums k rows"
  have a: "length ?a = length rows" "take k ?a = map summed (take k rows)" using assms(2) by (simp_all add: add_sums)
  have b: "length (bubble k ?a) = length ?a" "drop k (bubble k ?a) = drop k ?a"
    "mset (map row_view (bubble k ?a)) = mset (map row_view ?a)" "decreasing (take k (bubble k ?a))"
    using bubble_sorts [of k ?a] a assms(2) by auto
  have s: "sort_rows rows = bubble k ?a" by (simp add: sort_rows_def assms(1))
  show "length (sort_rows rows) = length rows" "decreasing (take k (sort_rows rows))" using s a b by simp_all
  have "mset (take k (map row_view (bubble k ?a))) = mset (take k (map row_view ?a))"
    using b(2,3) by (intro mset_split) (simp_all add: drop_map)
  then show "mset (map row_view (take k (sort_rows rows))) = mset (map (\<lambda>v. row_view (summed v)) (take k rows))"
    using s a(2) by (simp add: take_map o_def)
qed

text \<open>
  C20: At the end the server lists the rows of every type by decreasing sum of their stocks, each with its own number, city and sum and
  none twice or missing, although its exchange of two rows loses the stocks themselves; equal sums stay sums of different rows.
\<close>

theorem server_sort_sorts:
  assumes "counts_in_table s" "int i < num s" "k = nat (type_num (data s ! i ! 0))"
  shows "\<exists>s'. server_sort s = Inr s' \<and> sorted_wrt (\<ge>) (map row_sum (take k (data s' ! i))) \<and>
    mset (map (\<lambda>v. (row_no v, s_city v, row_sum v)) (take k (data s' ! i))) =
    mset (map (\<lambda>v. (row_no v, s_city v, s32 (s_a v + s_b v + s_c v))) (take k (data s ! i)))"
proof -
  have i: "i < length (data s)" "type_num (data s ! i ! 0) \<le> int (length (data s ! i))" using assms by (auto simp: counts_in_table_def)
  then have "k \<le> length (data s ! i)" using assms(3) by simp
  then show ?thesis using i(1) assms sort_rows_sorts [of "data s ! i" k]
    by (simp add: server_sort_def decreasing_def row_view_def [abs_def] summed_def del: mset_map)
qed

section \<open>The properties on a small shop\<close>

definition little_shop :: shop where
  "little_shop = \<lparr>data = [[\<lparr>row_no = 1, s_a = 1, s_b = 2, s_c = 0, type_num = 2, row_sum = 0, type_name = ascii ''A'', s_city = ascii ''north''\<rparr>,
      \<lparr>row_no = 2, s_a = 4, s_b = 4, s_c = 4, type_num = 0, row_sum = 0, type_name = [], s_city = ascii ''south''\<rparr>]], num = 1, day = 1,
    alcohol = 5, alcohol_capacity = 9, buied = [], result_index = 0, writeToResult = []\<rparr>"

text \<open>Two clients in turn: the first buys on Monday and is refused on Tuesday, the second buys on Tuesday.\<close>

definition two_sales :: "shop_event list" where
  "two_sales = [Connect 4, Connect 5, Request 4 (login_text 0x41 [1, 0, 0, 0, 0, 0, 0, 0, 1]),
     Request 5 (login_text 0x41 [1, 0, 0, 0, 0, 0, 1, 1, 8]), Request 5 (order_text (ascii ''A'') 2 1 1 1),
     Request 4 (order_text (ascii ''A'') 1 1 2 0), Request 4 (login_text 0x41 [1, 0, 0, 0, 0, 0, 0, 0, 1]),
     Request 5 (order_text (ascii ''A'') 2 1 1 1), Request 4 (order_text (ascii ''A'') 2 1 1 1), Request 4 (ascii ''statics'')]"

definition sales_of :: "shop_error + ((int \<Rightarrow> session) \<times> shop \<times> (int \<times> u8 list) list) \<Rightarrow> (int \<times> u8 list) list option" where
  "sales_of r = (case r of Inl e \<Rightarrow> None | Inr (ss, s, sales) \<Rightarrow> Some sales)"

lemma sales_of_run: "sales_of r = Some sales \<Longrightarrow> \<exists>ss' s'. r = Inr (ss', s', sales)"
  by (auto simp: sales_of_def split: sum.splits)

lemma two_sales_sold: "sales_of (shop_run two_sales (\<lambda>fd. new_session) little_shop) = Some
    [(1, 0x41 # map digit_char [1, 0, 0, 0, 0, 0, 0, 0, 1]), (2, 0x41 # map digit_char [1, 0, 0, 0, 0, 0, 1, 1, 8])]"
  by code_simp

theorem once_a_week_witness:
  "\<exists>ss' s' sales. shop_run two_sales (\<lambda>fd. new_session) little_shop = Inr (ss', s', sales) \<and> length sales = 2 \<and> day s' = 3 \<and>
     check_ID (snd (sales ! 1)) = Some True"
proof -
  obtain ss' s' sales where r: "shop_run two_sales (\<lambda>fd. new_session) little_shop = Inr (ss', s', sales)" "length sales = 2"
    using sales_of_run [OF two_sales_sold] by force
  have d: "day little_shop = int 0 + 1" "(0::nat) < 7" "\<forall>fd. \<not> iflogin ((\<lambda>fd::int. new_session) fd)"
    by (simp_all add: little_shop_def new_session_def)
  from once_a_week [OF r(1) d] r show ?thesis by auto
qed

theorem shop_serves_witness:
  "\<exists>ss' s' sales. shop_run two_sales (\<lambda>fd. new_session) little_shop = Inr (ss', s', sales) \<and> masks s' \<le> masks little_shop"
proof -
  have "shop_safe little_shop" "list_all good_event two_sales" by code_simp+
  moreover have "int (length (buied little_shop) + length two_sales) \<le> BUY_ID_NUM"
    by (simp add: little_shop_def two_sales_def BUY_ID_NUM_def)
  ultimately show ?thesis using shop_serves [of little_shop two_sales "\<lambda>fd. new_session"] by blast
qed

theorem server_login_rule_witness:
  "\<exists>s' ses'. mask_server 4 (login_text 0x41 [1, 0, 0, 0, 0, 0, 0, 0, 1]) new_session little_shop = Inr (s', ses', login_succ) \<and> iflogin ses'"
proof -
  have "letter_value 0x41 = Some 10" by code_simp
  moreover have "length [1, 0, 0, 0, 0, 0, 0, 0, 1 :: nat] = 9" "list_all (\<lambda>d. d < 10) [1, 0, 0, 0, 0, 0, 0, 0, 1 :: nat]" by code_simp+
  moreover have "\<not> iflogin new_session \<and> id_sum 10 [1, 0, 0, 0, 0, 0, 0, 0, 1] mod 10 = 0 \<and> [1, 0, 0, 0, 0, 0, 0, 0, 1 :: nat] ! 8 \<noteq> 0" by code_simp
  ultimately show ?thesis
    using server_login_rule [of "0x41" 10 "[1, 0, 0, 0, 0, 0, 0, 0, 1]" 4 new_session little_shop] by simp
qed

definition known_client :: session where
  "known_client = \<lparr>iflogin = True, login_ID = 0x41 # map digit_char [1, 0, 0, 0, 0, 0, 0, 0, 1]\<rparr>"

definition served :: "reply \<Rightarrow> (shop \<times> session \<times> u8 list) option" where
  "served r = (case r of Inl e \<Rightarrow> None | Inr x \<Rightarrow> Some x)"

lemma served_run: "served r \<noteq> None \<Longrightarrow> \<exists>s' ses' out. r = Inr (s', ses', out)"
  by (auto simp: served_def split: sum.splits)

theorem order_served_witness:
  "\<exists>s' ses'. mask_server 4 (order_text (ascii ''A'') 1 1 2 0) known_client little_shop = Inr (s', ses', sold_text) \<and> day s' = 2 \<and>
     city_at 0 0 s' = (city_at 0 0 little_shop)\<lparr>s_a := 0, s_b := 0\<rparr> \<and> city_at 0 1 s' = city_at 0 1 little_shop"
proof -
  let ?v = "city_at 0 (1 - 1) little_shop"
  have h: "type_ok (ascii ''A'')" "(1::nat) \<le> 1" "(1::nat) < 10" "int32 1" "int32 2" "int32 0" "type_found (ascii ''A'') 0 little_shop"
    "counts_in_table little_shop" "int (length (buied little_shop)) < BUY_ID_NUM" "?v = city_at 0 (1 - 1) little_shop"
    by (code_simp | simp add: int32_def)+
  have "served (mask_server 4 (order_text (ascii ''A'') 1 1 2 0) known_client little_shop) \<noteq> None" by code_simp
  then obtain s' ses' out where r: "mask_server 4 (order_text (ascii ''A'') 1 1 2 0) known_client little_shop = Inr (s', ses', out)"
    using served_run by blast
  have c: "iflogin known_client" "check_day_of_week little_shop (login_ID known_client)" "int 1 \<le> type_num (data little_shop ! 0 ! 0)"
    "1 \<le> s_a ?v" "2 \<le> s_b ?v" "0 \<le> s_c ?v" "length (data little_shop) = 1" "length (data little_shop ! 0) = 2" "day little_shop = 1"
    "s_a ?v = 1" "s_b ?v = 2" "s_c ?v = 0" "?v\<lparr>s_c := 0\<rparr> = ?v"
    by code_simp+
  then show ?thesis using order_served [OF h r] r by auto
qed

theorem unknown_type_unanswered_witness:
  "\<exists>s' ses'. mask_server 4 (order_text (ascii ''B'') 1 1 0 0) known_client little_shop = Inr (s', ses', [])"
proof -
  let ?buf = "order_text (ascii ''B'') 1 1 0 0"
  have g: "good_request ?buf" by code_simp
  have "served (mask_server 4 ?buf known_client little_shop) \<noteq> None" by code_simp
  then obtain s' ses' out where r: "mask_server 4 ?buf known_client little_shop = Inr (s', ses', out)"
    using served_run by blast
  have "starts ''buy'' ?buf \<and> iflogin known_client \<and> check_day_of_week little_shop (login_ID known_client) \<and>
    (case scan_order ?buf of Inl e \<Rightarrow> False | Inr q \<Rightarrow> order_ok q \<and> take 3 (o_type q) \<noteq> ascii ''XXX'' \<and>
       list_all (\<lambda>i. o_type q \<noteq> type_name (data little_shop ! i ! 0)) [0..<nat (num little_shop)])" by code_simp
  then show ?thesis using unknown_type_unanswered [OF g r] r by simp
qed

theorem server_sort_sorts_witness:
  "\<exists>s'. server_sort little_shop = Inr s' \<and> sorted_wrt (\<ge>) (map row_sum (take 2 (data s' ! 0)))"
proof -
  have "counts_in_table little_shop" "int 0 < num little_shop" "2 = nat (type_num (data little_shop ! 0 ! 0))" by code_simp+
  from server_sort_sorts [OF this] show ?thesis by blast
qed

end
