(* ===== verification/Checker.thy ===== *)
theory Checker
  imports ShopServer "HOL-Library.List_Lexorder"
begin

text \<open>
  The checker of the mask shop server, \<open>0851084_eos_hw3/checker.cpp\<close>: after a run it reads the server's \<open>result.txt\<close>, replays the
  commands on its own copy of the inventory and notes every line whose result it would not have given. It is a second account
  of what the server has to do, by other data structures: maps from names to stores and from numbers to cities. Its client
  side, which sends the commands, and its timing and console output are not modelled.

  A \<open>std::map\<close> that is iterated over is the list of its pairs in the order of the keys (\<open>map_put\<close> keeps it); one that is only searched
  is a partial map. \<open>None\<close> stands for a run that leaves an array, reads a variable never set or a stream that has failed.
\<close>

section \<open>Data\<close>

record city =
  c_id :: int
  c_sum :: int
  c_name :: "u8 list"
  mask_0 :: int
  mask_1 :: int
  mask_2 :: int

record store =
  st_num :: int
  st_name :: "u8 list"
  cities_map :: "(int \<times> city) list"

record db =
  d_num :: int
  d_day :: int
  d_alcohol :: int
  ori_alcohol :: int
  stores_map :: "(u8 list \<times> store) list"
  buy_list :: "u8 list \<Rightarrow> bool option"

record log_file =
  l_index :: int
  l_day :: int
  l_connfd :: int
  l_command :: "u8 list"
  l_results :: "u8 list"

text \<open>The globals of the checks; \<open>wrong\<close> is what \<open>correct_answer\<close> writes: index, right answer, given answer.\<close>

record checks =
  log_static :: "int \<Rightarrow> bool"
  my_id :: "int \<Rightarrow> u8 list"
  mydata :: db
  area_start :: "nat list"
  area_end :: "nat list"
  wrong :: "(int \<times> u8 list \<times> u8 list) list"

fun map_put :: "('k::linorder) \<Rightarrow> 'v \<Rightarrow> ('k \<times> 'v) list \<Rightarrow> ('k \<times> 'v) list" where
  "map_put k v [] = [(k, v)]"
| "map_put k v ((k1, v1) # m) =
     (if k = k1 then (k, v) # m else if k < k1 then (k, v) # (k1, v1) # m else (k1, v1) # map_put k v m)"

text \<open>\<open>operator>>\<close> to an \<open>int\<close>: a number too large for it fails.\<close>

definition stream_int :: "u8 list \<Rightarrow> (int \<times> u8 list) option" where
  "stream_int s =
     (let s1 = dropWhile is_space s;
          s2 = (if s1 \<noteq> [] \<and> (hd s1 = 0x2d \<or> hd s1 = 0x2b) then tl s1 else s1);
          v = (if s1 \<noteq> [] \<and> hd s1 = 0x2d then - int (value_in 10 (takeWhile is_digit s2)) else int (value_in 10 (takeWhile is_digit s2)))
      in if takeWhile is_digit s2 = [] \<or> \<not> int32 v then None else Some (v, dropWhile is_digit s2))"

section \<open>Identity numbers\<close>

definition letter_num :: "u8 \<Rightarrow> int" where
  "letter_num ch =
    (let v = sint ch in
     if 65 \<le> v \<and> v \<le> 72 \<or> v = 87 then v - 55 else if v = 73 then v - 39
     else if 74 \<le> v \<and> v \<le> 78 then v - 56 else if v = 79 then v - 44
     else if 80 \<le> v \<and> v \<le> 86 \<or> v = 90 then v - 57 else if 88 \<le> v \<and> v \<le> 89 then v - 58 else v - 55)"

text \<open>\<open>atoi\<close>, and of a string of one character.\<close>

definition atoi_str :: "u8 list \<Rightarrow> int" where
  "atoi_str w = (case scan_int w of None \<Rightarrow> 0 | Some (v, r) \<Rightarrow> v)"

definition judge_correction :: "u8 list \<Rightarrow> bool option" where
  "judge_correction msg =
    (if length msg > 10 then Some False
     else if length msg < 10 then None
     else let n0 = letter_num (msg ! 0); n = (\<lambda>i. atoi_str [msg ! i]); Y = n0 sdiv 10 + (n0 smod 10) * 9;
            total = fold (\<lambda>i t. t + n i * (9 - int i)) [1..<9] Y
          in Some (10 - total smod 10 = n 9))"

section \<open>The commands\<close>

definition known_fd :: "int \<Rightarrow> bool" where "known_fd fd \<longleftrightarrow> 0 \<le> fd \<and> fd < 100"

definition expect :: "log_file \<Rightarrow> u8 list \<Rightarrow> checks \<Rightarrow> checks" where
  "expect l answer c = (if l_results l = answer then c else c\<lparr>wrong := wrong c @ [(l_index l, answer, l_results l)]\<rparr>)"

definition check_login :: "log_file \<Rightarrow> checks \<Rightarrow> checks option" where
  "check_login l c =
    (let msg = drop 6 (l_command l); fd = l_connfd l in
     case judge_correction msg of None \<Rightarrow> None
     | Some ok \<Rightarrow>
       if ok \<and> \<not> known_fd fd then None
       else if ok \<and> \<not> log_static c fd
       then let c1 = expect l (ascii ''Login successful.'') c
            in Some (c1\<lparr>my_id := (my_id c1)(fd := msg), log_static := (log_static c1)(fd := True)\<rparr>)
       else Some (expect l (ascii ''Login failed.'') c))"

definition check_logout :: "log_file \<Rightarrow> checks \<Rightarrow> checks option" where
  "check_logout l c =
    (let fd = l_connfd l in
     if \<not> known_fd fd then None
     else if \<not> log_static c fd then Some (expect l (ascii ''Logout failed.'') c)
     else let c1 = expect l (ascii ''Logout successful.'') c; d = mydata c1
          in Some (c1\<lparr>log_static := (log_static c1)(fd := False), mydata := d\<lparr>buy_list := (buy_list d)(my_id c1 fd \<mapsto> True)\<rparr>,
               my_id := (my_id c1)(fd := [])\<rparr>))"

definition may_buy_today :: "db \<Rightarrow> u8 list \<Rightarrow> bool" where
  "may_buy_today d w \<longleftrightarrow> (let n = digit_of (w ! 9) in
     (d_day d = 7 \<or> d_day d smod 2 = 1 \<and> n smod 2 = 1 \<or> d_day d smod 2 = 0 \<and> n smod 2 = 0) \<and> buy_list d w = None)"

definition stream_order :: "u8 list \<Rightarrow> (u8 list \<times> int \<times> int \<times> int \<times> int) option" where
  "stream_order s =
    (case scan_word s of None \<Rightarrow> None
     | Some (t, s1) \<Rightarrow> (case stream_int s1 of None \<Rightarrow> None
       | Some (k, s2) \<Rightarrow> (case stream_int s2 of None \<Rightarrow> None
         | Some (a, s3) \<Rightarrow> (case stream_int s3 of None \<Rightarrow> None
           | Some (b, s4) \<Rightarrow> (case stream_int s4 of None \<Rightarrow> None | Some (m, s5) \<Rightarrow> Some (t, k, a, b, m))))))"

text \<open>The sale, if there is one: the data after it.\<close>

definition take_sale :: "u8 list \<Rightarrow> u8 list \<times> int \<times> int \<times> int \<times> int \<Rightarrow> db \<Rightarrow> db option" where
  "take_sale w q d =
    (case q of (t, k, a, b, m) \<Rightarrow>
       if \<not> (a + b + m \<le> 3 \<and> a \<ge> 0 \<and> b \<ge> 0 \<and> m \<ge> 0) then None
       else case map_of (stores_map d) t of None \<Rightarrow> None
       | Some st \<Rightarrow> (case map_of (cities_map st) k of None \<Rightarrow> None
         | Some ci \<Rightarrow>
           if \<not> (mask_0 ci \<ge> a \<and> mask_1 ci \<ge> b \<and> mask_2 ci \<ge> m) then None
           else let alc = d_alcohol d - 1; ci1 = ci\<lparr>mask_0 := mask_0 ci - a, mask_1 := mask_1 ci - b, mask_2 := mask_2 ci - m\<rparr>;
                  st1 = st\<lparr>cities_map := map_put k ci1 (cities_map st)\<rparr>; today = d_day d + 1
                in Some (d\<lparr>d_alcohol := (if alc < 5 then ori_alcohol d else alc), stores_map := map_put t st1 (stores_map d),
                     d_day := (if today > 7 then 1 else today), buy_list := (if today > 7 then Map.empty else (buy_list d)(w \<mapsto> True))\<rparr>)))"

definition sale_answer :: "u8 list" where
  "sale_answer = ascii ''Disinfecting hands with alcohol. Putting masks into envelope. Thank you for your purchase.''"

text \<open>The area of a sale begins at the last line of the same connection before it, if there is one.\<close>

definition note_area :: "log_file list \<Rightarrow> nat \<Rightarrow> checks \<Rightarrow> checks" where
  "note_area logs i c =
    (let c1 = c\<lparr>area_end := area_end c @ [i]\<rparr>
     in case find (\<lambda>j. l_connfd (logs ! j) = l_connfd (logs ! i)) (rev [0..<i]) of None \<Rightarrow> c1
        | Some j \<Rightarrow> c1\<lparr>area_start := area_start c1 @ [j]\<rparr>)"

definition check_buy :: "log_file list \<Rightarrow> nat \<Rightarrow> checks \<Rightarrow> checks option" where
  "check_buy logs i c =
    (let l = logs ! i; fd = l_connfd l; w = my_id c fd; d = mydata c in
     if \<not> known_fd fd then None
     else case stream_order (drop 4 (l_command l)) of None \<Rightarrow> None
     | Some q \<Rightarrow>
       if log_static c fd \<and> length w < 10 then None
       else case (if log_static c fd \<and> may_buy_today d w then take_sale w q d else None) of
         None \<Rightarrow> Some (expect l (ascii ''Buy failed.'') c)
       | Some d1 \<Rightarrow> Some (expect l sale_answer (note_area logs i (c\<lparr>mydata := d1, log_static := (log_static c)(fd := False)\<rparr>))))"

section \<open>The two passes\<close>

definition check_flag :: "nat \<Rightarrow> checks \<Rightarrow> bool" where
  "check_flag n c \<longleftrightarrow> \<not> list_ex (\<lambda>i. n > area_start c ! i \<and> n < area_end c ! i) [0..<length (area_start c)]"

definition show2string :: "db \<Rightarrow> u8 list" where
  "show2string d = butlast (concat (map (\<lambda>(t, st). st_name st @ sp @ concat (map (\<lambda>(k, ci). dec (c_id ci) @ sp @ c_name ci @ sp @
     dec (mask_0 ci) @ sp @ dec (mask_1 ci) @ sp @ dec (mask_2 ci) @ sp) (cities_map st))) (stores_map d)))"

definition check_show :: "log_file list \<Rightarrow> nat \<Rightarrow> checks \<Rightarrow> checks" where
  "check_show logs i c =
    (let s = show2string (mydata c); msg = l_results (logs ! i) in
     if take (length s) msg \<noteq> s \<and> check_flag i c then c\<lparr>wrong := wrong c @ [(l_index (logs ! i), s, msg)]\<rparr> else c)"

definition check_statics :: "log_file list \<Rightarrow> nat \<Rightarrow> checks \<Rightarrow> checks" where
  "check_statics logs i c =
    (let x = atoi_str (l_results (logs ! i)) in
     if x \<noteq> d_alcohol (mydata c) \<and> check_flag i c
     then c\<lparr>wrong := wrong c @ [(l_index (logs ! i), dec (d_alcohol (mydata c)), dec x)]\<rparr> else c)"

definition check_line :: "bool \<Rightarrow> log_file list \<Rightarrow> nat \<Rightarrow> checks \<Rightarrow> checks option" where
  "check_line second logs i c =
    (let l = logs ! i; w = l_command l in
     if take 6 w = ascii ''login '' then check_login l c
     else if w = ascii ''logout'' then check_logout l c
     else if take 4 w = ascii ''buy '' then check_buy logs i c
     else if w = ascii ''show'' then Some (if second then check_show logs i c else c)
     else if w = ascii ''statics'' then Some (if second then check_statics logs i c else c)
     else Some (expect l (ascii ''Input format not valid.'') c))"

fun check_from :: "bool \<Rightarrow> log_file list \<Rightarrow> nat list \<Rightarrow> checks \<Rightarrow> checks option" where
  "check_from second logs [] c = Some c"
| "check_from second logs (i # is) c = (case check_line second logs i c of None \<Rightarrow> None | Some c1 \<Rightarrow> check_from second logs is c1)"

definition check_1 :: "log_file list \<Rightarrow> checks \<Rightarrow> checks option" where
  "check_1 logs = check_from False logs [0..<length logs]"

definition check_2 :: "log_file list \<Rightarrow> checks \<Rightarrow> checks option" where
  "check_2 logs = check_from True logs [0..<length logs]"

definition clear :: "checks \<Rightarrow> checks" where "clear c = c\<lparr>log_static := (\<lambda>fd. False), my_id := (\<lambda>fd. [])\<rparr>"

text \<open>The end of \<open>main\<close>: both passes from the same data; the areas the first one notes stay. The lines found wrong.\<close>

definition check_run :: "log_file list \<Rightarrow> db \<Rightarrow> (int \<times> u8 list \<times> u8 list) list option" where
  "check_run logs d =
    (let c = \<lparr>log_static = (\<lambda>fd. False), my_id = (\<lambda>fd. []), mydata = d, area_start = [], area_end = [], wrong = []\<rparr>
     in case check_1 logs c of None \<Rightarrow> None
        | Some c1 \<Rightarrow> map_option wrong (check_2 logs ((clear c1)\<lparr>mydata := d\<rparr>)))"

section \<open>The files\<close>

text \<open>\<open>getline\<close> up to a character, which is taken from the stream.\<close>

definition getline_to :: "u8 \<Rightarrow> u8 list \<Rightarrow> u8 list \<times> u8 list" where
  "getline_to ch s = (takeWhile (\<lambda>x. x \<noteq> ch) s, drop 1 (dropWhile (\<lambda>x. x \<noteq> ch) s))"

lemma getline_shorter: "ch \<in> set s \<Longrightarrow> length (snd (getline_to ch s)) < length s"
  using length_dropWhile_le [of "\<lambda>x. x \<noteq> ch" s] by (cases s) (auto simp: getline_to_def)

text \<open>The fields of a line. A \<open>getline\<close> that finds the end of the line leaves nothing for the next, which then keeps its string.\<close>

definition next_field :: "u8 \<Rightarrow> u8 list \<Rightarrow> u8 list option \<Rightarrow> u8 list \<times> u8 list option" where
  "next_field ch str ss =
    (case ss of None \<Rightarrow> (str, None)
     | Some s \<Rightarrow> if ch \<in> set s then (fst (getline_to ch s), Some (snd (getline_to ch s))) else (s, None))"

definition read_log_line :: "u8 list \<Rightarrow> log_file" where
  "read_log_line l =
    (let (i, r1) = next_field 0x2c l (Some l); (d, r2) = next_field 0x2c i r1; (fd, r3) = next_field 0x2c d r2;
         (w, r4) = next_field 0x2c [] r3; (res, r5) = next_field 0x0d [] r4
     in \<lparr>l_index = atoi_str i, l_day = atoi_str d, l_connfd = atoi_str fd, l_command = w, l_results = res\<rparr>)"

text \<open>A last line without its end is not read.\<close>

function read_log_file :: "u8 list \<Rightarrow> log_file list" where
  "read_log_file file = (if 0x0a \<notin> set file then [] else let (l, r) = getline_to 0x0a file in read_log_line l # read_log_file r)"
  by pat_completeness auto

termination
  by (relation "measure length") (auto, metis getline_shorter snd_conv)

declare read_log_file.simps [simp del]

section \<open>Reading the log\<close>

definition entry_text :: "log_file \<Rightarrow> u8 list" where
  "entry_text e = dec (l_index e) @ [0x2c] @ dec (l_day e) @ [0x2c] @ dec (l_connfd e) @ [0x2c] @ l_command e @ [0x2c] @ l_results e @ nl"

definition entry_ok :: "log_file \<Rightarrow> bool" where
  "entry_ok e \<longleftrightarrow> int32 (l_index e) \<and> int32 (l_day e) \<and> int32 (l_connfd e) \<and>
     0x2c \<notin> set (l_command e) \<and> 0x0a \<notin> set (l_command e) \<and> 0x0a \<notin> set (l_results e) \<and> 0x0d \<notin> set (l_results e)"

lemma getline_to_end: "ch \<notin> set l \<Longrightarrow> getline_to ch (l @ ch # r) = (l, r)"
  by (induction l) (auto simp: getline_to_def)

lemma next_field_end: "ch \<notin> set l \<Longrightarrow> next_field ch str (Some (l @ ch # r)) = (l, Some r)"
  "ch \<notin> set l \<Longrightarrow> next_field ch str (Some l) = (l, None)"
  by (simp_all add: next_field_def getline_to_end)

lemma dec_no_char: "ch \<in> set (dec x) \<Longrightarrow> ch = 0x2d \<or> is_digit ch"
  by (auto simp: dec_def dec_nat_chars split: if_splits)

lemma dec_no_comma: "0x2c \<notin> set (dec x)" "0x0d \<notin> set (dec x)" "\<not> is_space 0x2d"
  using dec_no_char [of "0x2c" x] dec_no_char [of "0x0d" x] by (auto simp: is_digit_def is_space_def)

lemma atoi_dec: "int32 x \<Longrightarrow> atoi_str (dec x) = x"
  using scan_int_dec [of "[]" x] by (simp add: atoi_str_def no_digit_first_def)

lemma read_log_line_entry:
  assumes "entry_ok e"
  shows "getline_to 0x0a (entry_text e @ r) = (butlast (entry_text e), r)" "read_log_line (butlast (entry_text e)) = e"
proof -
  let ?l = "dec (l_index e) @ 0x2c # dec (l_day e) @ 0x2c # dec (l_connfd e) @ 0x2c # l_command e @ 0x2c # l_results e"
  have t: "entry_text e = ?l @ [0x0a]" by (simp add: entry_text_def nl_def)
  have b: "butlast (entry_text e) = ?l" unfolding t by (rule butlast_snoc)
  have "0x0a \<notin> set ?l" using assms dec_chars by (simp add: entry_ok_def)
  then show "getline_to 0x0a (entry_text e @ r) = (butlast (entry_text e), r)"
    using getline_to_end [of "0x0a" ?l r] unfolding b by (simp add: t)
  show "read_log_line (butlast (entry_text e)) = e"
    using assms unfolding b by (simp add: entry_ok_def read_log_line_def next_field_end dec_no_comma atoi_dec)
qed

lemma read_log_entries: "list_all entry_ok es \<Longrightarrow> read_log_file (concat (map entry_text es)) = es"
proof (induction es)
  case Nil
  then show ?case by (subst read_log_file.simps) simp
next
  case (Cons e es)
  have "0x0a \<in> set (entry_text e)" by (simp add: entry_text_def nl_def)
  then show ?case using Cons read_log_line_entry [of e] by (subst read_log_file.simps) simp
qed

section \<open>The server's data as the checker keeps them\<close>

definition city_of :: "cell \<Rightarrow> city" where
  "city_of v = \<lparr>c_id = row_no v, c_sum = 0, c_name = s_city v, mask_0 = s_a v, mask_1 = s_b v, mask_2 = s_c v\<rparr>"

definition store_of :: "shop \<Rightarrow> nat \<Rightarrow> store" where
  "store_of s i = \<lparr>st_num = type_num (data s ! i ! 0), st_name = type_name (data s ! i ! 0),
     cities_map = map (\<lambda>v. (row_no v, city_of v)) (show_rows s i)\<rparr>"

definition db_of :: "shop \<Rightarrow> db" where
  "db_of s = \<lparr>d_num = num s, d_day = day s, d_alcohol = alcohol s, ori_alcohol = alcohol_capacity s,
     stores_map = map (\<lambda>i. (type_name (data s ! i ! 0), store_of s i)) [0..<nat (num s)],
     buy_list = (\<lambda>w. if w \<in> set (buied s) then Some True else None)\<rparr>"

text \<open>A shop whose file has its types in the order of their names and its rows numbered from 1.\<close>

definition plain :: "u8 list \<Rightarrow> bool" where
  "plain w \<longleftrightarrow> list_all (\<lambda>ch. ch \<noteq> 0x2c \<and> \<not> is_space ch) w"

definition row_fits :: "cell \<Rightarrow> bool" where
  "row_fits v \<longleftrightarrow> plain (s_city v) \<and> length (s_city v) \<le> 13 \<and> 0 \<le> s_a v \<and> s_a v < 1000 \<and> 0 \<le> s_b v \<and> s_b v < 1000 \<and> 0 \<le> s_c v \<and> s_c v < 1000"

definition names :: "shop \<Rightarrow> u8 list list" where "names s = map (\<lambda>i. type_name (data s ! i ! 0)) [0..<nat (num s)]"

definition type_fits :: "shop \<Rightarrow> nat \<Rightarrow> bool" where
  "type_fits s i \<longleftrightarrow> type_num (data s ! i ! 0) \<le> 9 \<and> map row_no (show_rows s i) = map (\<lambda>j. int j + 1) [0..<length (show_rows s i)] \<and>
     list_all row_fits (show_rows s i)"

definition shop_fits :: "shop \<Rightarrow> bool" where
  "shop_fits s \<longleftrightarrow> counts_in_table s \<and> sorted_wrt (<) (names s) \<and> list_all (\<lambda>t. type_ok t \<and> plain t) (names s) \<and>
     list_all (type_fits s) [0..<nat (num s)] \<and> 1 \<le> day s \<and> day s \<le> 7 \<and> 5 \<le> alcohol s \<and> alcohol s \<le> alcohol_capacity s \<and>
     alcohol_capacity s < 10000"

section \<open>Ordered maps\<close>

lemma map_put_at:
  "sorted_wrt (<) (map fst m) \<Longrightarrow> i < length m \<Longrightarrow> map_put (fst (m ! i)) v m = m[i := (fst (m ! i), v)]"
proof (induction m arbitrary: i)
  case (Cons x m)
  obtain k1 v1 where x: "x = (k1, v1)" by (cases x)
  show ?case
  proof (cases i)
    case 0
    then show ?thesis by (simp add: x)
  next
    case (Suc j)
    then have j: "j < length m" using Cons.prems(2) by simp
    then have "m ! j \<in> set m" by simp
    then have "k1 < fst (m ! j)" using Cons.prems(1) by (simp add: x)
    then have "fst (m ! j) \<noteq> k1" "\<not> fst (m ! j) < k1" by auto
    then show ?thesis using Cons.IH [of j] Cons.prems(1) j Suc by (simp add: x)
  qed
qed simp

lemma map_of_at:
  assumes "sorted_wrt (<) (map fst (m :: ('k::linorder \<times> 'v) list))" "i < length m" "fst (m ! i) = k"
  shows "map_of m k = Some (snd (m ! i))"
proof -
  have "distinct (map fst m)" using assms(1) by (simp add: strict_sorted_iff)
  then show ?thesis using assms(2,3) by (intro map_of_is_SomeI) (simp_all add: in_set_conv_nth, metis prod.collapse)
qed

section \<open>Numbers and orders as the checker reads them\<close>

lemma stream_int_dec:
  assumes "no_digit_first r" "int32 x"
  shows "stream_int (sp @ dec x @ r) = Some (x, r)"
proof -
  have s: "stream_int (sp @ s) = stream_int s" for s by (simp add: stream_int_def sp_def is_space_def)
  show ?thesis
  proof (cases "x < 0")
    case True
    have "\<not> is_space 0x2d" by (simp add: is_space_def)
    then show ?thesis unfolding s
      using True assms takeWhile_dec_nat [OF assms(1)] dec_nat_not_Nil
      by (simp add: stream_int_def dec_def Let_def value_dec_nat)
  next
    case False
    let ?n = "nat x"
    have hd: "\<not> is_space (hd (dec_nat ?n @ r))" "hd (dec_nat ?n @ r) \<noteq> 0x2d" "hd (dec_nat ?n @ r) \<noteq> 0x2b"
      using dec_nat_chars [OF dec_nat_hd] by blast+
    have ne: "dec_nat ?n @ r \<noteq> []" using dec_nat_not_Nil by simp
    have "dropWhile is_space (dec_nat ?n @ r) = dec_nat ?n @ r"
      using hd(1) ne by (cases "dec_nat ?n @ r") auto
    then show ?thesis unfolding s
      using False hd ne takeWhile_dec_nat [OF assms(1)] assms(2) dec_nat_not_Nil
      by (simp add: stream_int_def dec_def Let_def value_dec_nat)
  qed
qed

lemma dec_digit: "k < 10 \<Longrightarrow> dec (int k) = [digit_char k]"
  by (simp add: dec_def dec_nat.simps)

lemma stream_order_text:
  assumes "word_ok t" "k < 10" "int32 a" "int32 b" "int32 m"
  shows "take 4 (order_text t k a b m) = ascii ''buy ''" "stream_order (drop 4 (order_text t k a b m)) = Some (t, int k, a, b, m)"
proof -
  have t: "t \<noteq> []" "\<forall>ch \<in> set t. \<not> is_space ch" using assms(1) by (auto simp: word_ok_def list_all_iff)
  have k: "int32 (int k)" using assms(2) by (simp add: int32_def)
  have w: "order_text t k a b m = ascii ''buy '' @ t @ sp @ dec (int k) @ sp @ dec a @ sp @ dec b @ sp @ dec m"
    using dec_digit [OF assms(2)] by (simp add: order_text_def ascii_def sp_def)
  show "take 4 (order_text t k a b m) = ascii ''buy ''" unfolding w by (simp add: ascii_def)
  have "drop 4 (order_text t k a b m) = t @ sp @ dec (int k) @ sp @ dec a @ sp @ dec b @ sp @ dec m" unfolding w by (simp add: ascii_def)
  moreover have "stream_int (sp @ dec m) = Some (m, [])" using stream_int_dec [of "[]" m] assms(5) by (simp add: no_digit_first_def)
  ultimately show "stream_order (drop 4 (order_text t k a b m)) = Some (t, int k, a, b, m)"
    using scan_word_end(1) [OF t] k assms(3,4) by (simp add: stream_order_def stream_int_dec)
qed

lemma letter_num_value: "letter_value l = Some y \<Longrightarrow> letter_num l = y"
  by (auto simp: letter_value_def letter_num_def Let_def split: if_splits)

lemma atoi_digit: "d < 10 \<Longrightarrow> atoi_str [digit_char d] = int d"
  using atoi_dec [of "int d"] dec_digit [of d] by (simp add: int32_def)

text \<open>Both sides judge a number alike.\<close>

lemma judge_digits:
  assumes "letter_value l = Some y" "length ds = 9" "list_all (\<lambda>d. d < 10) ds"
  shows "judge_correction (l # map digit_char ds) = Some (id_sum y ds mod 10 = 0 \<and> ds ! 8 \<noteq> 0)"
proof -
  obtain a b c d e f g h k where ds: "ds = [a, b, c, d, e, f, g, h, k]"
    using assms(2) by (auto simp: numeral_eq_Suc length_Suc_conv)
  have small: "a < 10" "b < 10" "c < 10" "d < 10" "e < 10" "f < 10" "g < 10" "h < 10" "k < 10" using assms(3) ds by simp_all
  have r: "[Suc 0..<9] = [1, 2, 3, 4, 5, 6, 7, 8::nat]" by code_simp
  have "judge_correction (l # map digit_char ds) = check_ID (l # map digit_char ds)"
    using assms(1) small letter_num_value [OF assms(1)]
    by (simp add: judge_correction_def check_ID_def ds Let_def r atoi_digit digit_of_char algebra_simps)
  then show ?thesis using check_ID_digits [OF assms] by simp
qed

section \<open>The commands of the test files\<close>

datatype client_cmd = Show | Login u8 "nat list" | Logout | Buy "u8 list" nat int int int | Statics | Other "u8 list"

fun cmd_text :: "client_cmd \<Rightarrow> u8 list" where
  "cmd_text Show = ascii ''show''"
| "cmd_text (Login l ds) = login_text l ds"
| "cmd_text Logout = ascii ''logout''"
| "cmd_text (Buy t k a b m) = order_text t k a b m"
| "cmd_text Statics = ascii ''statics''"
| "cmd_text (Other w) = w"

text \<open>A city has one digit, not zero; a type is one of the shop's or begins with \<open>XXX\<close>; any other text begins with none of the five words.\<close>

fun cmd_ok :: "u8 list list \<Rightarrow> client_cmd \<Rightarrow> bool" where
  "cmd_ok ts (Login l ds) \<longleftrightarrow> letter_value l \<noteq> None \<and> length ds = 9 \<and> list_all (\<lambda>d. d < 10) ds"
| "cmd_ok ts (Buy t k a b m) \<longleftrightarrow> word_ok t \<and> plain t \<and> (t \<in> set ts \<or> take 3 t = ascii ''XXX'') \<and> 1 \<le> k \<and> k < 10 \<and>
     int32 a \<and> int32 b \<and> int32 m \<and> length (order_text t k a b m) \<le> 30"
| "cmd_ok ts (Other w) \<longleftrightarrow> \<not> starts ''show'' w \<and> \<not> starts ''login'' w \<and> \<not> starts ''logout'' w \<and> \<not> starts ''buy'' w \<and> \<not> starts ''statics'' w"
| "cmd_ok ts c \<longleftrightarrow> True"

text \<open>What the log calls the command; what a command does to data and session and the result logged.\<close>

fun logged :: "client_cmd \<Rightarrow> u8 list" where
  "logged (Other w) = ascii ''exit''"
| "logged c = cmd_text c"

definition show_text :: "shop \<Rightarrow> u8 list" where
  "show_text s = concat (map (\<lambda>i. (if i = 0 then [] else sp) @ type_name (data s ! i ! 0) @
     concat (map (\<lambda>v. sp @ show_row v) (show_rows s i))) [0..<nat (num s)])"

definition valid_id :: "u8 \<Rightarrow> nat list \<Rightarrow> bool" where
  "valid_id l ds \<longleftrightarrow> id_sum (letter_num l) ds mod 10 = 0 \<and> ds ! 8 \<noteq> 0"

definition type_index :: "u8 list \<Rightarrow> shop \<Rightarrow> nat option" where
  "type_index t s = find (\<lambda>i. type_name (data s ! i ! 0) = t) [0..<nat (num s)]"

definition accepts :: "session \<Rightarrow> shop \<Rightarrow> nat \<Rightarrow> nat \<Rightarrow> int \<Rightarrow> int \<Rightarrow> int \<Rightarrow> bool" where
  "accepts ses s i k a b m \<longleftrightarrow> iflogin ses \<and> check_day_of_week s (login_ID ses) \<and> (0 \<le> a \<and> 0 \<le> b \<and> 0 \<le> m \<and> a + b + m \<le> 3) \<and>
     int k \<le> type_num (data s ! i ! 0) \<and> a \<le> s_a (city_at i (k - 1) s) \<and> b \<le> s_b (city_at i (k - 1) s) \<and> m \<le> s_c (city_at i (k - 1) s)"

fun effect :: "client_cmd \<Rightarrow> session \<Rightarrow> shop \<Rightarrow> shop \<times> session \<times> u8 list" where
  "effect Show ses s = (s, ses, show_text s)"
| "effect (Login l ds) ses s = (if \<not> iflogin ses \<and> valid_id l ds
     then (s, ses\<lparr>iflogin := True, login_ID := l # map digit_char ds\<rparr>, ascii ''Login successful.'')
     else (s, ses, ascii ''Login failed.''))"
| "effect Logout ses s = (if iflogin ses
     then (s\<lparr>buied := buied s @ [login_ID ses]\<rparr>, ses\<lparr>iflogin := False\<rparr>, ascii ''Logout successful.'')
     else (s, ses, ascii ''Logout failed.''))"
| "effect (Buy t k a b m) ses s =
     (case type_index t s of None \<Rightarrow> (s, ses, ascii ''Buy failed.'')
      | Some i \<Rightarrow> if accepts ses s i k a b m
          then (sell i (k - 1) (order_of t k a b m) (login_ID ses) s, ses\<lparr>iflogin := False\<rparr>, sale_answer)
          else (s, ses, ascii ''Buy failed.''))"
| "effect Statics ses s = (s, ses, dec (alcohol s))"
| "effect (Other w) ses s = (s, ses, ascii ''Input format not valid.'')"

definition entry :: "int \<Rightarrow> client_cmd \<Rightarrow> session \<Rightarrow> shop \<Rightarrow> log_file" where
  "entry fd c ses s = \<lparr>l_index = result_index s, l_day = day s, l_connfd = fd, l_command = logged c, l_results = snd (snd (effect c ses s))\<rparr>"

text \<open>The server's side: it does that, and logs it in full.\<close>

lemma length_dec_nat_below: "n < 10 ^ k \<Longrightarrow> 0 < k \<Longrightarrow> length (dec_nat n) \<le> k"
proof (induction n arbitrary: k rule: dec_nat.induct)
  case (1 n)
  show ?case
  proof (cases "n < 10")
    case False
    then have "k \<noteq> 1" using 1(2) by auto
    then obtain j where k: "k = Suc j" "0 < j" using 1(3) by (cases k) auto
    have "n div 10 < 10 ^ j" using 1(2) k by (simp add: less_mult_imp_div_less mult.commute)
    then show ?thesis using 1(1) [OF False _ k(2)] False k by (subst dec_nat.simps) simp
  qed (use 1 in \<open>subst dec_nat.simps, simp\<close>)
qed

lemma length_dec_below: "0 \<le> x \<Longrightarrow> x < 10 ^ k \<Longrightarrow> 0 < k \<Longrightarrow> length (dec x) \<le> k"
  using length_dec_nat_below [of "nat x" k] by (simp add: dec_def nat_less_iff)

definition in_range :: "int \<Rightarrow> shop \<Rightarrow> bool" where
  "in_range fd s \<longleftrightarrow> 0 \<le> fd \<and> fd < 100 \<and> 0 \<le> result_index s \<and> result_index s < 100000"

lemma header_length:
  assumes "in_range fd s" "1 \<le> day s" "day s \<le> 7"
  shows "length (dec (result_index s)) \<le> 5" "length (dec (day s)) \<le> 1" "length (dec fd) \<le> 2"
  using assms length_dec_below [of "result_index s" 5] length_dec_below [of "day s" 1] length_dec_below [of fd 2] by (simp_all add: in_range_def)

lemma log_head_full:
  assumes "in_range fd s" "1 \<le> day s" "day s \<le> 7" "length cs + 13 \<le> n"
  shows "log_head n fd cs s = dec (result_index s) @ [0x2c] @ dec (day s) @ [0x2c] @ dec fd @ [0x2c] @ cs @ [0x2c]"
  using header_length [OF assms(1-3)] assms(4) by (simp add: log_head_def snprintf_def)

lemma entry_text_head:
  assumes "in_range fd s" "1 \<le> day s" "day s \<le> 7" "length (logged c) + 13 \<le> n"
  shows "entry_text (entry fd c ses s) = log_head n fd (logged c) s @ snd (snd (effect c ses s)) @ nl"
  using log_head_full [OF assms] by (simp add: entry_text_def entry_def)

lemma fits_row:
  assumes "shop_fits s" "i < nat (num s)" "v \<in> set (show_rows s i)"
  shows "row_fits v" "1 \<le> row_no v" "row_no v \<le> 9"
proof -
  have f: "type_fits s i" using assms(1,2) by (simp add: shop_fits_def list_all_iff)
  then show "row_fits v" using assms(3) by (simp add: type_fits_def list_all_iff)
  have m: "map row_no (show_rows s i) = map (\<lambda>j. int j + 1) [0..<length (show_rows s i)]" using f by (simp add: type_fits_def)
  have "row_no v \<in> set (map row_no (show_rows s i))" using assms(3) by simp
  then have "row_no v \<in> set (map (\<lambda>j. int j + 1) [0..<length (show_rows s i)])" unfolding m .
  moreover have "length (show_rows s i) \<le> 9" using f by (auto simp: show_rows_def type_fits_def)
  ultimately show "1 \<le> row_no v" "row_no v \<le> 9" by auto
qed

lemma fits_row_text: "row_fits v \<Longrightarrow> 1 \<le> row_no v \<Longrightarrow> row_no v \<le> 9 \<Longrightarrow> snprintf 30 (sp @ show_row v) = sp @ show_row v"
proof -
  assume r: "row_fits v" "1 \<le> row_no v" "row_no v \<le> 9"
  have "length (sp @ show_row v) = 5 + length (dec (row_no v)) + length (s_city v) + length (dec (s_a v)) + length (dec (s_b v)) + length (dec (s_c v))"
    by (simp add: show_row_def sp_def)
  moreover have "length (dec (row_no v)) \<le> 1" "length (dec (s_a v)) \<le> 3" "length (dec (s_b v)) \<le> 3" "length (dec (s_c v)) \<le> 3"
    "length (s_city v) \<le> 13"
    using r length_dec_below [of "row_no v" 1] length_dec_below [of "s_a v" 3] length_dec_below [of "s_b v" 3] length_dec_below [of "s_c v" 3]
    by (simp_all add: row_fits_def)
  ultimately have "length (sp @ show_row v) \<le> 29" by linarith
  then show ?thesis by (simp add: snprintf_def)
qed

lemma show_text_snprintf:
  assumes "shop_fits s"
  shows "concat (map (\<lambda>i. (if i = 0 then [] else sp) @ type_name (data s ! i ! 0) @
     concat (map (\<lambda>v. snprintf 30 (sp @ show_row v)) (show_rows s i))) [0..<nat (num s)]) = show_text s"
proof -
  have "concat (map (\<lambda>v. snprintf 30 (sp @ show_row v)) (show_rows s i)) = concat (map (\<lambda>v. sp @ show_row v) (show_rows s i))"
    if "i < nat (num s)" for i
    using fits_row [OF assms that] fits_row_text by (intro arg_cong [where f = concat] map_cong) simp_all
  then show ?thesis unfolding show_text_def by (intro arg_cong [where f = concat] map_cong) simp_all
qed

lemma type_index_found:
  assumes "type_index t s = Some i"
  shows "type_found t i s" "i < nat (num s)" "t \<in> set (names s)"
  using assms by (auto simp: type_index_def type_found_def names_def find_Some_iff)

lemma type_index_known: "t \<in> set (names s) \<Longrightarrow> \<exists>i. type_index t s = Some i"
  by (cases "type_index t s") (auto simp: type_index_def names_def find_None_iff)

lemma refused_text:
  assumes "word_ok t" "k < 10" "int32 a" "int32 b" "int32 m" "take 3 t = ascii ''XXX''"
  shows "mask_server fd (order_text t k a b m) ses s = Inr (log_result (log_head 50 fd (order_text t k a b m) s @ buy_fail) s, ses, buy_fail)"
  using scan_order_text [OF assms(1-5)] assms(6) by (simp add: mask_server_def starts_buy server_buy_def order_of_def Let_def)

lemma texts_nl: "login_succ = ascii ''Login successful.'' @ nl" "login_fail = ascii ''Login failed.'' @ nl"
  "logout_succ = ascii ''Logout successful.'' @ nl" "logout_fail = ascii ''Logout failed.'' @ nl" "buy_fail = ascii ''Buy failed.'' @ nl"
  "invalid_text = ascii ''Input format not valid.'' @ nl" "disinfect @ sp @ putting_mask @ sp @ thankyou @ nl = sale_answer @ nl"
  by (simp_all add: reply_texts sale_answer_def sp_def)

lemma log_after [simp]: "log_head n fd cs (s\<lparr>buied := x\<rparr>) = log_head n fd cs s"
  by (simp add: log_head_def)

lemma buy_effect:
  assumes "shop_fits s" "cmd_ok (names s) (Buy t k a b m)" "int (length (buied s)) < BUY_ID_NUM"
  shows "\<exists>out. mask_server fd (order_text t k a b m) ses s = Inr (log_result (log_head 50 fd (order_text t k a b m) s @
      snd (snd (effect (Buy t k a b m) ses s)) @ nl) (fst (effect (Buy t k a b m) ses s)), fst (snd (effect (Buy t k a b m) ses s)), out)"
proof (cases "type_index t s")
  case None
  then have "take 3 t = ascii ''XXX''" using assms(2) type_index_known by fastforce
  then have "mask_server fd (order_text t k a b m) ses s = Inr (log_result (log_head 50 fd (order_text t k a b m) s @ buy_fail) s, ses, buy_fail)"
    using assms(2) by (intro refused_text) simp_all
  then show ?thesis by (simp add: None texts_nl)
next
  case (Some i)
  have t: "type_ok t" using type_index_found(3) [OF Some] assms(1) by (simp add: shop_fits_def list_all_iff)
  have ok: "order_ok (order_of t k a b m) = (0 \<le> a \<and> 0 \<le> b \<and> 0 \<le> m \<and> a + b + m \<le> 3)" by (auto simp: order_ok_def order_of_def)
  have "counts_in_table s" using assms(1) by (simp add: shop_fits_def)
  have same: "order_of t k a b m = \<lparr>o_type = t, o_city = [digit_char k], o_a = a, o_b = b, o_c = m\<rparr>" by (simp add: order_of_def)
  have "mask_server fd (order_text t k a b m) ses s =
    (let head = log_head 50 fd (order_text t k a b m) s
     in Inr (if accepts ses s i k a b m
       then (log_result (head @ disinfect @ sp @ putting_mask @ sp @ thankyou @ nl)
               (sell i (k - 1) (order_of t k a b m) (login_ID ses) s), ses\<lparr>iflogin := False\<rparr>, sold_text)
       else (log_result (head @ buy_fail) s, ses, buy_fail)))"
    using order_answer [of t k a b m i s fd ses] t assms(2,3) type_index_found(1) [OF Some] \<open>counts_in_table s\<close>
    unfolding accepts_def ok [symmetric] by simp
  then show ?thesis unfolding texts_nl Let_def by (simp add: Some)
qed

lemma server_effect:
  assumes "shop_fits s" "in_range fd s" "cmd_ok (names s) c" "int (length (buied s)) < BUY_ID_NUM"
  shows "\<exists>out. mask_server fd (cmd_text c) ses s =
    Inr (log_result (entry_text (entry fd c ses s)) (fst (effect c ses s)), fst (snd (effect c ses s)), out)"
proof -
  have d: "1 \<le> day s" "day s \<le> 7" and cnt: "counts_in_table s" using assms(1) by (simp_all add: shop_fits_def)
  note head = entry_text_head [OF assms(2) d, where ses = ses]
  show ?thesis
  proof (cases c)
    case Show
    have "entry_text (entry fd c ses s) = log_head 30 fd (ascii ''show'') s @ show_text s @ nl"
      using head [of c 30] by (simp add: Show ascii_def)
    then show ?thesis using cnt show_text_snprintf [OF assms(1)]
      by (simp add: Show mask_server_def starts_def ascii_def server_show_def Let_def)
  next
    case (Login l ds)
    then obtain y where y: "letter_value l = Some y" "length ds = 9" "list_all (\<lambda>d. d < 10) ds" using assms(3) by auto
    have v: "valid_id l ds = (id_sum y ds mod 10 = 0 \<and> ds ! 8 \<noteq> 0)" by (simp add: valid_id_def letter_num_value [OF y(1)])
    have "entry_text (entry fd c ses s) = log_head 50 fd (login_text l ds) s @ snd (snd (effect c ses s)) @ nl"
      using head [of c 50] y(2) by (simp add: Login login_text_def ascii_def sp_def)
    then show ?thesis using login_text_answer [OF y, of fd ses s] by (simp add: Login v texts_nl)
  next
    case Logout
    have "entry_text (entry fd c ses s) = log_head 30 fd (ascii ''logout'') s @ snd (snd (effect c ses s)) @ nl"
      using head [of c 30] by (simp add: Logout ascii_def)
    then show ?thesis using assms(4)
      by (simp add: Logout mask_server_def starts_def server_logout_def add_buied_def Let_def texts_nl) (simp add: ascii_def)
  next
    case (Buy t k a b m)
    have "entry_text (entry fd c ses s) = log_head 50 fd (order_text t k a b m) s @ snd (snd (effect c ses s)) @ nl"
      using head [of c 50] assms(3) by (simp add: Buy)
    then show ?thesis using buy_effect [of s t k a b m fd ses] assms by (simp add: Buy)
  next
    case Statics
    have l: "length (dec (alcohol s)) \<le> 4" using assms(1) length_dec_below [of "alcohol s" 4] by (simp add: shop_fits_def)
    have e: "entry_text (entry fd c ses s) = dec (result_index s) @ [0x2c] @ dec (day s) @ [0x2c] @ dec fd @ ascii '',statics,'' @ dec (alcohol s) @ nl"
      by (simp add: Statics entry_text_def entry_def ascii_def)
    have "length (entry_text (entry fd c ses s)) \<le> 29"
      using header_length [OF assms(2) d] l by (simp add: e) (simp add: ascii_def nl_def)
    then have "snprintf 30 (entry_text (entry fd c ses s)) = entry_text (entry fd c ses s)" by (simp add: snprintf_def)
    then have "server_statics fd ses s = Inr (log_result (entry_text (entry fd c ses s)) s, ses, snprintf 10 (dec (alcohol s) @ nl))"
      by (simp add: server_statics_def e)
    moreover have "mask_server fd (cmd_text c) ses s = server_statics fd ses s"
      by (simp add: Statics mask_server_def starts_def ascii_def)
    ultimately show ?thesis by (simp add: Statics)
  next
    case (Other w)
    have "entry_text (entry fd c ses s) = log_head 30 fd (ascii ''exit'') s @ ascii ''Input format not valid.'' @ nl"
      using head [of c 30] by (simp add: Other ascii_def)
    then show ?thesis using assms(3) by (simp add: Other mask_server_def server_invalid_def texts_nl)
  qed
qed

section \<open>The checker's side\<close>

lemma sell_types:
  assumes "i < length (data s)" "j < length (data s ! i)" "i' < length (data s)" "data s ! i' \<noteq> []"
  shows "type_num (data (sell i j q w s) ! i' ! 0) = type_num (data s ! i' ! 0)"
    "type_name (data (sell i j q w s) ! i' ! 0) = type_name (data s ! i' ! 0)"
  using assms by (cases "i' = i"; cases j; simp add: sell_cell_def)+

lemma sell_rows:
  assumes "i < length (data s)" "j < length (data s ! i)" "i' < length (data s)" "data s ! i' \<noteq> []"
  shows "show_rows (sell i j q w s) i' = (if i' = i then (show_rows s i)[j := sell_cell q (city_at i j s)] else show_rows s i')"
  using assms sell_types(1) [OF assms] by (simp add: show_rows_def city_at_def take_update_swap)

lemma fits_index:
  assumes "shop_fits s" "i < nat (num s)"
  shows "i < length (data s)" "data s ! i \<noteq> []" "length (show_rows s i) = nat (type_num (data s ! i ! 0))"
    "nat (type_num (data s ! i ! 0)) \<le> length (data s ! i)"
proof -
  have c: "num s \<le> int (length (data s))" "data s ! i \<noteq> []" "type_num (data s ! i ! 0) \<le> int (length (data s ! i))"
    using assms by (auto simp: shop_fits_def counts_in_table_def)
  then show "i < length (data s)" "data s ! i \<noteq> []" "nat (type_num (data s ! i ! 0)) \<le> length (data s ! i)" using assms(2) by linarith+
  then show "length (show_rows s i) = nat (type_num (data s ! i ! 0))" by (simp add: show_rows_def)
qed

lemma city_keys:
  assumes "shop_fits s" "i < nat (num s)"
  shows "map fst (cities_map (store_of s i)) = map (\<lambda>j. int j + 1) [0..<nat (type_num (data s ! i ! 0))]"
    "sorted_wrt (<) (map fst (cities_map (store_of s i)))"
proof -
  have "type_fits s i" using assms by (simp add: shop_fits_def list_all_iff)
  then show k: "map fst (cities_map (store_of s i)) = map (\<lambda>j. int j + 1) [0..<nat (type_num (data s ! i ! 0))]"
    using fits_index(3) [OF assms] by (simp add: type_fits_def store_of_def comp_def)
  show "sorted_wrt (<) (map fst (cities_map (store_of s i)))" unfolding k by (simp add: sorted_wrt_iff_nth_less)
qed

lemma city_nth:
  assumes "shop_fits s" "i < nat (num s)" "j < nat (type_num (data s ! i ! 0))"
  shows "cities_map (store_of s i) ! j = (int j + 1, city_of (city_at i j s))" "j < length (cities_map (store_of s i))"
proof -
  have l: "j < length (show_rows s i)" using assms(3) fits_index(3) [OF assms(1,2)] by simp
  have "fst (cities_map (store_of s i) ! j) = map fst (cities_map (store_of s i)) ! j" using l by (simp add: store_of_def)
  also have "\<dots> = int j + 1" unfolding city_keys(1) [OF assms(1,2)] using assms(3) by simp
  finally show "cities_map (store_of s i) ! j = (int j + 1, city_of (city_at i j s))" "j < length (cities_map (store_of s i))"
    using l assms(3) by (simp_all add: store_of_def show_rows_def city_at_def)
qed

lemma store_nth:
  assumes "i < nat (num s)"
  shows "stores_map (db_of s) ! i = (type_name (data s ! i ! 0), store_of s i)" "i < length (stores_map (db_of s))"
  using assms by (simp_all add: db_of_def)

lemma store_keys: "shop_fits s \<Longrightarrow> sorted_wrt (<) (map fst (stores_map (db_of s)))"
  by (simp add: db_of_def shop_fits_def names_def comp_def)

text \<open>A sale in the one is a sale in the other.\<close>

lemma store_sold:
  assumes "shop_fits s" "i < nat (num s)" "j < nat (type_num (data s ! i ! 0))" "i' < nat (num s)"
  shows "store_of (sell i j q w s) i' = (if i' = i
    then (store_of s i)\<lparr>cities_map := (cities_map (store_of s i))[j := (int j + 1, city_of (sell_cell q (city_at i j s)))]\<rparr> else store_of s i')"
proof -
  have i: "i < length (data s)" "j < length (data s ! i)" "i' < length (data s)" "data s ! i' \<noteq> []"
    using fits_index [OF assms(1,2)] fits_index [OF assms(1,4)] assms(3) by simp_all
  have r: "row_no (sell_cell q (city_at i j s)) = int j + 1"
    using city_nth(1) [OF assms(1-3)] assms(3) i(2) by (simp add: store_of_def show_rows_def city_at_def sell_cell_def)
  show ?thesis
    using sell_types [OF i] sell_rows [OF i] r by (simp add: store_of_def map_update)
qed

lemma db_sold:
  assumes "shop_fits s" "type_index t s = Some i" "j < nat (type_num (data s ! i ! 0))"
  shows "stores_map (db_of (sell i j q w s)) = map_put t ((store_of s i)\<lparr>cities_map :=
     map_put (int j + 1) (city_of (sell_cell q (city_at i j s))) (cities_map (store_of s i))\<rparr>) (stores_map (db_of s))"
proof -
  have i: "i < nat (num s)" and t: "type_name (data s ! i ! 0) = t"
    using type_index_found [OF assms(2)] by (simp_all add: type_found_def)
  let ?ci = "city_of (sell_cell q (city_at i j s))"
  let ?st = "(store_of s i)\<lparr>cities_map := (cities_map (store_of s i))[j := (int j + 1, ?ci)]\<rparr>"
  have "map_put (int j + 1) ?ci (cities_map (store_of s i)) = (cities_map (store_of s i))[j := (int j + 1, ?ci)]"
    using map_put_at [OF city_keys(2) [OF assms(1) i] city_nth(2) [OF assms(1) i assms(3)]] city_nth(1) [OF assms(1) i assms(3)] by simp
  moreover have "map_put t ?st (stores_map (db_of s)) = (stores_map (db_of s))[i := (t, ?st)]"
    using map_put_at [OF store_keys [OF assms(1)] store_nth(2) [OF i]] store_nth(1) [OF i] t by simp
  moreover have "stores_map (db_of (sell i j q w s)) = (stores_map (db_of s))[i := (t, ?st)]"
  proof (rule nth_equalityI)
    show "length (stores_map (db_of (sell i j q w s))) = length ((stores_map (db_of s))[i := (t, ?st)])" by (simp add: db_of_def)
    fix i'
    assume "i' < length (stores_map (db_of (sell i j q w s)))"
    then have i': "i' < nat (num s)" by (simp add: db_of_def)
    have l: "i < length (data s)" "j < length (data s ! i)" "i' < length (data s)" "data s ! i' \<noteq> []"
      using fits_index [OF assms(1) i] fits_index [OF assms(1) i'] assms(3) by simp_all
    show "stores_map (db_of (sell i j q w s)) ! i' = (stores_map (db_of s))[i := (t, ?st)] ! i'"
      using i' i t sell_types(2) [OF l] store_sold [OF assms(1) i assms(3) i'] by (auto simp: db_of_def nth_list_update)
  qed
  ultimately show ?thesis by simp
qed

definition id_text :: "u8 list \<Rightarrow> bool" where
  "id_text w \<longleftrightarrow> length w = 10 \<and> 0 \<le> digit_of (w ! 9)"

lemma same_day_rule:
  assumes "1 \<le> day s" "id_text w" "list_all (\<lambda>b. length b = 10) (buied s)"
  shows "may_buy_today (db_of s) w = check_day_of_week s w"
proof -
  have "list_ex (\<lambda>b. \<forall>j \<in> set [0..<10]. w ! j = b ! j) (buied s) = (w \<in> set (buied s))"
  proof -
    have "b = w" if "b \<in> set (buied s)" "\<forall>j<10. w ! j = b ! j" for b
      using that assms(2,3) by (intro nth_equalityI) (auto simp: list_all_iff id_text_def)
    then show ?thesis by (auto simp: list_ex_iff)
  qed
  moreover have "d smod 2 = 0 \<or> d smod 2 = 1" if "0 \<le> d" for d :: int using smod_2_nonneg [OF that] by auto
  then have "digit_of (w ! 9) smod 2 = 0 \<or> digit_of (w ! 9) smod 2 = 1" "day s smod 2 = 0 \<or> day s smod 2 = 1"
    using assms(1,2) by (simp_all add: id_text_def)
  ultimately show ?thesis by (auto simp: may_buy_today_def check_day_of_week_def db_of_def Let_def)
qed

lemma same_sale:
  assumes "shop_fits s" "type_index t s = Some i" "k = j + 1"
  shows "take_sale w (t, int j + 1, a, b, m) (db_of s) =
    (if (0 \<le> a \<and> 0 \<le> b \<and> 0 \<le> m \<and> a + b + m \<le> 3) \<and> int j + 1 \<le> type_num (data s ! i ! 0) \<and>
        a \<le> s_a (city_at i j s) \<and> b \<le> s_b (city_at i j s) \<and> m \<le> s_c (city_at i j s)
     then Some (db_of (sell i j (order_of t k a b m) w s)) else None)"
proof -
  have i: "i < nat (num s)" and t: "type_name (data s ! i ! 0) = t"
    using type_index_found [OF assms(2)] by (simp_all add: type_found_def)
  have st: "map_of (stores_map (db_of s)) t = Some (store_of s i)"
    using map_of_at [OF store_keys [OF assms(1)] store_nth(2) [OF i], of t] store_nth(1) [OF i] t by simp
  let ?v = "city_at i j s"
  show ?thesis
  proof (cases "int j + 1 \<le> type_num (data s ! i ! 0)")
    case False
    have "int j + 1 \<notin> fst ` set (cities_map (store_of s i))"
      unfolding set_map [symmetric] city_keys(1) [OF assms(1) i] using False by auto
    then have "map_of (cities_map (store_of s i)) ((int j + 1)) = None" by (simp add: map_of_eq_None_iff)
    then show ?thesis using False by (simp add: take_sale_def st)
  next
    case True
    then have j: "j < nat (type_num (data s ! i ! 0))" by linarith
    have ci: "map_of (cities_map (store_of s i)) ((int j + 1)) = Some (city_of ?v)"
      using map_of_at [OF city_keys(2) [OF assms(1) i] city_nth(2) [OF assms(1) i j], of "int j + 1"] city_nth(1) [OF assms(1) i j] by simp
    have new: "city_of (sell_cell (order_of t k a b m) ?v) =
        (city_of ?v)\<lparr>mask_0 := s_a ?v - a, mask_1 := s_b ?v - b, mask_2 := s_c ?v - m\<rparr>"
      by (simp add: city_of_def sell_cell_def order_of_def)
    have "day s \<le> 7" using assms(1) by (simp add: shop_fits_def)
    then have rest: "d_num (db_of (sell i j q w s)) = d_num (db_of s)"
        "d_day (db_of (sell i j q w s)) = (if day s + 1 > 7 then 1 else day s + 1)"
        "d_alcohol (db_of (sell i j q w s)) = (if alcohol s - 1 < 5 then alcohol_capacity s else alcohol s - 1)"
        "ori_alcohol (db_of (sell i j q w s)) = ori_alcohol (db_of s)"
        "buy_list (db_of (sell i j q w s)) = (if day s + 1 > 7 then Map.empty else (buy_list (db_of s))(w \<mapsto> True))" for q
      by (auto simp: db_of_def)
    have f: "mask_0 (city_of ?v) = s_a ?v" "mask_1 (city_of ?v) = s_b ?v" "mask_2 (city_of ?v) = s_c ?v"
      "d_day (db_of s) = day s" "d_alcohol (db_of s) = alcohol s" "ori_alcohol (db_of s) = alcohol_capacity s"
      by (simp_all add: city_of_def db_of_def)
    let ?C = "0 \<le> a \<and> 0 \<le> b \<and> 0 \<le> m \<and> a + b + m \<le> 3"
    let ?E = "a \<le> s_a ?v \<and> b \<le> s_b ?v \<and> m \<le> s_c ?v"
    consider (no) "\<not> ?C" | (few) "?C" "\<not> ?E" | (yes) "?C" "?E" by blast
    then show ?thesis
    proof cases
      case no
      then have "take_sale w (t, int j + 1, a, b, m) (db_of s) = None" unfolding take_sale_def by (simp only: prod.case if_True) auto
      then show ?thesis using no by (simp only: if_False simp_thms)
    next
      case few
      then have "take_sale w (t, int j + 1, a, b, m) (db_of s) = None" unfolding take_sale_def by (simp add: st ci f)
      then show ?thesis using few by (simp only: if_False simp_thms)
    next
      case yes
      let ?q = "order_of t k a b m"
      have upd: "db_of (sell i j ?q w s) = (db_of s)\<lparr>d_alcohol := (if alcohol s - 1 < 5 then alcohol_capacity s else alcohol s - 1),
        stores_map := map_put t ((store_of s i)\<lparr>cities_map := map_put (int j + 1) ((city_of ?v)\<lparr>mask_0 := s_a ?v - a,
          mask_1 := s_b ?v - b, mask_2 := s_c ?v - m\<rparr>) (cities_map (store_of s i))\<rparr>) (stores_map (db_of s)),
        d_day := (if day s + 1 > 7 then 1 else day s + 1),
        buy_list := (if day s + 1 > 7 then Map.empty else (buy_list (db_of s))(w \<mapsto> True))\<rparr>" (is "_ = ?d")
        by (rule db.equality) (simp_all add: rest db_sold [OF assms(1,2) j] new)
      have "take_sale w (t, int j + 1, a, b, m) (db_of s) = Some ?d"
        unfolding take_sale_def prod.case st ci option.case f Let_def using yes by (simp only: simp_thms if_False)
      then have "take_sale w (t, int j + 1, a, b, m) (db_of s) = Some (db_of (sell i j ?q w s))" by (simp only: upd)
      then show ?thesis using yes True by (simp only: if_True simp_thms)
    qed
  qed
qed

lemma unknown_sale: "t \<notin> set (names s) \<Longrightarrow> take_sale w (t, k, a, b, m) (db_of s) = None"
proof -
  assume "t \<notin> set (names s)"
  then have "map_of (stores_map (db_of s)) t = None" by (auto simp: map_of_eq_None_iff db_of_def names_def)
  then show ?thesis by (simp add: take_sale_def)
qed

lemma rotate_sep: "sep @ concat (map (\<lambda>v. h v @ sep) vs) = concat (map (\<lambda>v. sep @ h v) vs) @ sep"
  by (induction vs) simp_all

lemma join_sep: "0 < n \<Longrightarrow> concat (map (\<lambda>i. g i @ sep) [0..<n]) = concat (map (\<lambda>i. (if i = 0 then [] else sep) @ g i) [0..<n]) @ sep"
  by (induction n) auto

lemma same_show: "show2string (db_of s) = show_text s"
proof -
  let ?g = "\<lambda>i. type_name (data s ! i ! 0) @ concat (map (\<lambda>v. sp @ show_row v) (show_rows s i))"
  have row: "st_name (store_of s i) @ sp @ concat (map (\<lambda>(k, ci). dec (c_id ci) @ sp @ c_name ci @ sp @
     dec (mask_0 ci) @ sp @ dec (mask_1 ci) @ sp @ dec (mask_2 ci) @ sp) (cities_map (store_of s i))) = ?g i @ sp" for i
    using rotate_sep [of sp show_row "show_rows s i"] by (simp add: store_of_def city_of_def show_row_def comp_def)
  have "show2string (db_of s) = butlast (concat (map (\<lambda>i. ?g i @ sp) [0..<nat (num s)]))"
    unfolding row [symmetric] by (simp add: show2string_def db_of_def comp_def)
  also have "\<dots> = show_text s"
  proof (cases "nat (num s)")
    case 0
    then show ?thesis by (simp add: show_text_def)
  next
    case (Suc n)
    then have "concat (map (\<lambda>i. ?g i @ sp) [0..<nat (num s)]) = show_text s @ sp"
      unfolding show_text_def by (intro join_sep) simp
    then show ?thesis by (simp add: sp_def)
  qed
  finally show ?thesis .
qed

section \<open>Both sides of one line\<close>

definition tracks :: "checks \<Rightarrow> (int \<Rightarrow> session) \<Rightarrow> shop \<Rightarrow> bool" where
  "tracks c ss s \<longleftrightarrow> mydata c = db_of s \<and>
     (\<forall>fd. log_static c fd = iflogin (ss fd) \<and> (iflogin (ss fd) \<longrightarrow> my_id c fd = login_ID (ss fd)))"

definition ids_ok :: "(int \<Rightarrow> session) \<Rightarrow> shop \<Rightarrow> bool" where
  "ids_ok ss s \<longleftrightarrow> (\<forall>fd. iflogin (ss fd) \<longrightarrow> id_text (login_ID (ss fd))) \<and> list_all (\<lambda>w. length w = 10) (buied s)"

lemma expect_right: "l_results l = answer \<Longrightarrow> expect l answer c = c" by (simp add: expect_def)

lemma db_of_log [simp]: "db_of (log_result cs s) = db_of s"
proof -
  have "show_rows (log_result cs s) = show_rows s" by (rule ext) (simp add: show_rows_def)
  then have "store_of (log_result cs s) = store_of s" by (intro ext) (simp add: store_of_def)
  then show ?thesis by (simp add: db_of_def)
qed

lemma db_of_buied: "db_of (s\<lparr>buied := buied s @ [w]\<rparr>) = (db_of s)\<lparr>buy_list := (buy_list (db_of s))(w \<mapsto> True)\<rparr>"
proof -
  have "show_rows (s\<lparr>buied := buied s @ [w]\<rparr>) = show_rows s" by (rule ext) (simp add: show_rows_def)
  then have "store_of (s\<lparr>buied := buied s @ [w]\<rparr>) = store_of s" by (intro ext) (simp add: store_of_def)
  then show ?thesis by (auto simp: db_of_def)
qed

lemma checked_login:
  assumes "cmd_ok ts (Login l ds)" "tracks c ss s" "known_fd fd" "e = entry fd (Login l ds) (ss fd) s"
  shows "\<exists>c'. check_login e c = Some c' \<and> wrong c' = wrong c \<and>
    tracks c' (ss(fd := fst (snd (effect (Login l ds) (ss fd) s)))) (fst (effect (Login l ds) (ss fd) s))"
proof -
  obtain y where y: "letter_value l = Some y" "length ds = 9" "list_all (\<lambda>d. d < 10) ds" using assms(1) by auto
  have j: "judge_correction (l # map digit_char ds) = Some (valid_id l ds)"
    using judge_digits [OF y] by (simp add: valid_id_def letter_num_value [OF y(1)])
  have e: "drop 6 (l_command e) = l # map digit_char ds" "l_connfd e = fd"
    "l_results e = snd (snd (effect (Login l ds) (ss fd) s))"
    by (simp_all add: assms(4) entry_def login_text_def ascii_def sp_def)
  have t: "log_static c fd = iflogin (ss fd)" using assms(2) by (simp add: tracks_def)
  show ?thesis
  proof (cases "\<not> iflogin (ss fd) \<and> valid_id l ds")
    case True
    then show ?thesis using assms(2,3) by (simp add: check_login_def e j t expect_right tracks_def)
  next
    case False
    then have x: "expect e (ascii ''Login failed.'') c = c" using e(3) by (auto simp: expect_right)
    have "check_login e c = Some c" using False assms(3) unfolding check_login_def e(1,2) j t Let_def by (auto simp: x)
    then show ?thesis using False assms(2) by auto
  qed
qed

lemma checked_logout:
  assumes "tracks c ss s" "known_fd fd" "e = entry fd Logout (ss fd) s"
  shows "\<exists>c'. check_logout e c = Some c' \<and> wrong c' = wrong c \<and>
    tracks c' (ss(fd := fst (snd (effect Logout (ss fd) s)))) (fst (effect Logout (ss fd) s))"
proof -
  have e: "l_connfd e = fd" "l_results e = snd (snd (effect Logout (ss fd) s))" by (simp_all add: assms(3) entry_def)
  show ?thesis
  proof (cases "iflogin (ss fd)")
    case True
    then show ?thesis using assms(1,2) by (simp add: check_logout_def e expect_right tracks_def db_of_buied Let_def)
  next
    case False
    then show ?thesis using assms(1,2) by (simp add: check_logout_def e expect_right tracks_def)
  qed
qed

lemma note_area_same [simp]: "wrong (note_area logs i c) = wrong c" "log_static (note_area logs i c) = log_static c"
  "my_id (note_area logs i c) = my_id c" "mydata (note_area logs i c) = mydata c"
  by (simp_all add: note_area_def Let_def split: option.split)

lemma checked_buy:
  assumes "shop_fits s" "cmd_ok (names s) (Buy t k a b m)" "tracks c ss s" "ids_ok ss s" "known_fd fd"
    and "logs ! n = entry fd (Buy t k a b m) (ss fd) s"
  shows "\<exists>c'. check_buy logs n c = Some c' \<and> wrong c' = wrong c \<and>
    tracks c' (ss(fd := fst (snd (effect (Buy t k a b m) (ss fd) s)))) (fst (effect (Buy t k a b m) (ss fd) s))"
proof -
  let ?w = "login_ID (ss fd)"
  obtain j where k: "k = j + 1" using assms(2) by (cases k) auto
  have q: "stream_order (drop 4 (order_text t k a b m)) = Some (t, int j + 1, a, b, m)"
    using assms(2) stream_order_text(2) [of t k a b m] k by simp
  have e: "l_connfd (logs ! n) = fd" "l_command (logs ! n) = order_text t k a b m"
    "l_results (logs ! n) = snd (snd (effect (Buy t k a b m) (ss fd) s))" by (simp_all add: assms(6) entry_def)
  have d: "mydata c = db_of s" "log_static c fd = iflogin (ss fd)" using assms(3) by (simp_all add: tracks_def)
  have day: "my_id c fd = ?w" "\<not> length ?w < 10" "may_buy_today (db_of s) ?w = check_day_of_week s ?w" if "iflogin (ss fd)"
    using that assms(1,3,4) same_day_rule [of s ?w] by (simp_all add: tracks_def ids_ok_def shop_fits_def id_text_def)
  let ?sale = "if iflogin (ss fd) \<and> may_buy_today (db_of s) (my_id c fd) then take_sale (my_id c fd) (t, int j + 1, a, b, m) (db_of s) else None"
  have sale: "?sale = (case type_index t s of None \<Rightarrow> None
      | Some i \<Rightarrow> if accepts (ss fd) s i k a b m then Some (db_of (sell i j (order_of t k a b m) ?w s)) else None)"
  proof (cases "type_index t s")
    case None
    then have "t \<notin> set (names s)" using type_index_known by fastforce
    then show ?thesis by (simp add: None unknown_sale)
  next
    case (Some i)
    show ?thesis
      using day same_sale [OF assms(1) Some k, of ?w a b m] k by (auto simp: Some accepts_def add.commute)
  qed
  have run: "check_buy logs n c = (case ?sale of None \<Rightarrow> Some (expect (logs ! n) (ascii ''Buy failed.'') c)
      | Some d1 \<Rightarrow> Some (expect (logs ! n) sale_answer (note_area logs n (c\<lparr>mydata := d1, log_static := (log_static c)(fd := False)\<rparr>))))"
    using assms(5) day(1,2) unfolding check_buy_def Let_def e(1,2) q d by (cases "iflogin (ss fd)") simp_all
  show ?thesis
  proof (cases "\<exists>i. type_index t s = Some i \<and> accepts (ss fd) s i k a b m")
    case True
    then obtain i where i: "type_index t s = Some i" "accepts (ss fd) s i k a b m" by blast
    have x: "l_results (logs ! n) = sale_answer" by (simp add: e(3) i)
    show ?thesis using assms(3) unfolding run sale
      using i(2) by (simp add: i(1) k x expect_right tracks_def)
  next
    case False
    then have "snd (snd (effect (Buy t k a b m) (ss fd) s)) = ascii ''Buy failed.''"
      "fst (effect (Buy t k a b m) (ss fd) s) = s" "fst (snd (effect (Buy t k a b m) (ss fd) s)) = ss fd"
      by (auto split: option.split)
    then show ?thesis using False assms(3) unfolding run sale by (auto simp: e(3) expect_right split: option.split)
  qed
qed

lemma checked_line:
  assumes "shop_fits s" "cmd_ok (names s) c" "tracks ch ss s" "ids_ok ss s" "known_fd fd" "logs ! n = entry fd c (ss fd) s"
  shows "\<exists>ch'. check_line second logs n ch = Some ch' \<and> wrong ch' = wrong ch \<and>
    tracks ch' (ss(fd := fst (snd (effect c (ss fd) s)))) (fst (effect c (ss fd) s))"
proof (cases c)
  case Show
  have "l_command (logs ! n) = ascii ''show''" by (simp add: assms(6) entry_def Show)
  moreover have "check_show logs n ch = ch"
    using assms(3) same_show [of s] by (simp add: check_show_def assms(6) entry_def Show tracks_def)
  ultimately show ?thesis using assms(3) by (simp add: check_line_def Show) (simp add: ascii_def)
next
  case (Login l ds)
  have "take 6 (l_command (logs ! n)) = ascii ''login ''" by (simp add: assms(6) entry_def Login login_text_def ascii_def sp_def)
  then show ?thesis using checked_login [of "names s" l ds ch ss s fd "logs ! n"] assms by (simp add: check_line_def Login)
next
  case Logout
  have "l_command (logs ! n) = ascii ''logout''" by (simp add: assms(6) entry_def Logout)
  then have "check_line second logs n ch = check_logout (logs ! n) ch" by (simp add: check_line_def) (simp add: ascii_def)
  then show ?thesis using checked_logout [of ch ss s fd "logs ! n"] assms by (simp add: Logout)
next
  case (Buy t k a b m)
  have l: "l_command (logs ! n) = order_text t k a b m" by (simp add: assms(6) entry_def Buy)
  have "take 4 (order_text t k a b m) = ascii ''buy ''" using assms(2) stream_order_text(1) [of t k a b m] by (simp add: Buy)
  moreover have "take 6 (order_text t k a b m) \<noteq> ascii ''login ''" "order_text t k a b m \<noteq> ascii ''logout''"
    by (simp_all add: order_text_def ascii_def)
  ultimately have "check_line second logs n ch = check_buy logs n ch" by (simp add: check_line_def l)
  then show ?thesis using checked_buy [of s t k a b m ch ss fd logs n] assms by (simp add: Buy)
next
  case Statics
  have "5 \<le> alcohol s" "alcohol s < 10000" using assms(1) by (simp_all add: shop_fits_def)
  then have "atoi_str (dec (alcohol s)) = alcohol s" by (intro atoi_dec) (simp add: int32_def)
  then have "check_statics logs n ch = ch"
    using assms(3) by (simp add: check_statics_def assms(6) entry_def Statics tracks_def db_of_def)
  moreover have "l_command (logs ! n) = ascii ''statics''" by (simp add: assms(6) entry_def Statics)
  ultimately show ?thesis using assms(3) by (simp add: check_line_def Statics) (simp add: ascii_def)
next
  case (Other w)
  have "l_command (logs ! n) = ascii ''exit''" "expect (logs ! n) (ascii ''Input format not valid.'') ch = ch"
    by (simp_all add: assms(6) entry_def Other expect_right)
  then show ?thesis using assms(3) by (simp add: check_line_def Other) (simp add: ascii_def)
qed

section \<open>What a command keeps\<close>

lemma log_rows [simp]: "show_rows (log_result cs s) i = show_rows s i" "show_rows (s\<lparr>buied := x\<rparr>) i = show_rows s i"
  "names (log_result cs s) = names s" "names (s\<lparr>buied := x\<rparr>) = names s"
  by (simp_all add: show_rows_def names_def)

lemma fits_log [simp]: "shop_fits (log_result cs s) = shop_fits s" "shop_fits (s\<lparr>buied := x\<rparr>) = shop_fits s"
proof -
  have "type_fits (log_result cs s) = type_fits s" "type_fits (s\<lparr>buied := x\<rparr>) = type_fits s" by (intro ext; simp add: type_fits_def)+
  then show "shop_fits (log_result cs s) = shop_fits s" "shop_fits (s\<lparr>buied := x\<rparr>) = shop_fits s"
    by (simp_all add: shop_fits_def counts_in_table_def)
qed

lemma city_in_rows:
  assumes "shop_fits s" "i < nat (num s)" "j < nat (type_num (data s ! i ! 0))"
  shows "city_at i j s = show_rows s i ! j" "j < length (show_rows s i)" "row_fits (city_at i j s)"
proof -
  show j: "city_at i j s = show_rows s i ! j" "j < length (show_rows s i)"
    using assms fits_index [OF assms(1,2)] by (simp_all add: show_rows_def city_at_def)
  then have "city_at i j s \<in> set (show_rows s i)" by simp
  then show "row_fits (city_at i j s)" by (rule fits_row [OF assms(1,2)])
qed

lemma fits_sell:
  assumes "shop_fits s" "i < nat (num s)" "j < nat (type_num (data s ! i ! 0))" "order_ok q"
    and "o_a q \<le> s_a (city_at i j s)" "o_b q \<le> s_b (city_at i j s)" "o_c q \<le> s_c (city_at i j s)"
  shows "shop_fits (sell i j q w s)" "names (sell i j q w s) = names s"
proof -
  have i: "i < length (data s)" "j < length (data s ! i)" using fits_index [OF assms(1,2)] assms(3) by simp_all
  note other = fits_index(1,2) [OF assms(1)]
  have counts: "counts_in_table (sell i j q w s)"
    using assms(1) i by (auto simp: shop_fits_def counts_in_table_def nth_list_update sell_cell_def)
  show n: "names (sell i j q w s) = names s"
    unfolding names_def sell_fields(2) using sell_types(2) [OF i other] by (intro map_cong) simp_all
  have new: "row_fits (sell_cell q (city_at i j s))" "row_no (sell_cell q (city_at i j s)) = row_no (show_rows s i ! j)"
    using city_in_rows [OF assms(1-3)] assms(4-7) by (auto simp: row_fits_def sell_cell_def order_ok_def)
  have "type_fits (sell i j q w s) i'" if "i' < nat (num s)" for i'
  proof -
    have t: "type_fits s i'" using assms(1) that by (simp add: shop_fits_def list_all_iff)
    show ?thesis
    proof (cases "i' = i")
      case True
      have "map row_no ((show_rows s i)[j := sell_cell q (city_at i j s)]) = map row_no (show_rows s i)"
        using new(2) city_in_rows(2) [OF assms(1-3)] by (simp add: map_update list_update_same_conv)
      then show ?thesis
        using t True new(1) sell_rows [OF i other [OF that]] sell_types(1) [OF i other [OF that]] by (simp add: type_fits_def list_all_put)
    next
      case False
      then show ?thesis using t sell_rows [OF i other [OF that]] sell_types(1) [OF i other [OF that]] by (simp add: type_fits_def)
    qed
  qed
  then show "shop_fits (sell i j q w s)" using assms(1) counts n by (auto simp: shop_fits_def list_all_iff)
qed

lemma accepts_sell:
  assumes "shop_fits s" "type_index t s = Some i" "accepts ses s i k a b m" "1 \<le> k"
  shows "shop_fits (sell i (k - 1) (order_of t k a b m) w s)" "names (sell i (k - 1) (order_of t k a b m) w s) = names s"
proof -
  have "i < nat (num s)" "k - 1 < nat (type_num (data s ! i ! 0))" "order_ok (order_of t k a b m)"
    "o_a (order_of t k a b m) \<le> s_a (city_at i (k - 1) s)" "o_b (order_of t k a b m) \<le> s_b (city_at i (k - 1) s)"
    "o_c (order_of t k a b m) \<le> s_c (city_at i (k - 1) s)"
    using type_index_found(2) [OF assms(2)] assms(3,4) by (auto simp: accepts_def order_of_def order_ok_def)
  from fits_sell [OF assms(1) this] show "shop_fits (sell i (k - 1) (order_of t k a b m) w s)"
    "names (sell i (k - 1) (order_of t k a b m) w s) = names s" by blast+
qed

lemma effect_keeps:
  assumes "shop_fits s" "cmd_ok (names s) c"
  shows "shop_fits (fst (effect c ses s))" "names (fst (effect c ses s)) = names s"
    "result_index (fst (effect c ses s)) = result_index s" "writeToResult (fst (effect c ses s)) = writeToResult s"
    "length (buied (fst (effect c ses s))) \<le> length (buied s) + 1"
proof -
  have sell: "result_index (sell i j q w s) = result_index s" "writeToResult (sell i j q w s) = writeToResult s" for i j q w
    by (simp_all add: sell_def use_alcohol_def next_day_def Let_def)
  show "result_index (fst (effect c ses s)) = result_index s" "writeToResult (fst (effect c ses s)) = writeToResult s"
    "length (buied (fst (effect c ses s))) \<le> length (buied s) + 1"
    by (cases c; auto simp: sell split: option.split)+
  show "shop_fits (fst (effect c ses s))" "names (fst (effect c ses s)) = names s"
    using assms accepts_sell [OF assms(1)] by (cases c; auto split: option.split)+
qed

lemma effect_ids:
  assumes "ids_ok ss s" "cmd_ok ts c"
  shows "ids_ok (ss(fd := fst (snd (effect c (ss fd) s)))) (fst (effect c (ss fd) s))"
proof (cases c)
  case (Login l ds)
  then have "id_text (l # map digit_char ds)" using assms(2) by (auto simp: id_text_def list_all_length digit_of_char)
  then show ?thesis using assms(1) Login by (simp add: ids_ok_def)
next
  case (Buy t k a b m)
  then show ?thesis using assms(1) by (auto simp: ids_ok_def id_text_def accepts_def split: option.split)
qed (use assms(1) in \<open>auto simp: ids_ok_def id_text_def\<close>)

section \<open>The log of a run\<close>

lemma letter_plain: "letter_value l \<noteq> None \<Longrightarrow> l \<noteq> 0x2c \<and> l \<noteq> 0x0a"
  by (auto simp: letter_value_def)

lemma plain_chars: "plain w \<Longrightarrow> ch \<in> set w \<Longrightarrow> ch \<noteq> 0x2c \<and> ch \<noteq> 0x0a \<and> ch \<noteq> 0x0d"
  by (auto simp: plain_def list_all_iff is_space_def)

lemma logged_plain:
  assumes "cmd_ok ts c" "ch \<in> set (logged c)"
  shows "ch \<noteq> 0x2c" "ch \<noteq> 0x0a"
proof -
  have "ch \<noteq> 0x2c \<and> ch \<noteq> 0x0a"
  proof (cases c)
    case (Login l ds)
    then have l: "letter_value l \<noteq> None" and ds: "\<forall>d \<in> set ds. d < 10" using assms(1) by (auto simp: list_all_iff)
    have "l \<noteq> 0x2c" "l \<noteq> 0x0a" using letter_plain [OF l] by simp_all
    moreover have "digit_char d \<noteq> 0x2c" "digit_char d \<noteq> 0x0a" if "d \<in> set ds" for d
      using digit_char_facts [of d] ds that by (auto simp: is_digit_def)
    ultimately show ?thesis using assms(2) Login by (auto simp: login_text_def ascii_def sp_def)
  next
    case (Buy t k a b m)
    then have "plain t" "k < 10" using assms(1) by auto
    moreover have "digit_char k \<noteq> 0x2c" "digit_char k \<noteq> 0x0a" if "k < 10"
      using digit_char_facts [OF that] by (auto simp: is_digit_def)
    ultimately show ?thesis using assms(2) Buy plain_chars dec_no_comma dec_chars
      by (auto simp: order_text_def ascii_def sp_def)
  qed (use assms(2) in \<open>auto simp: ascii_def\<close>)
  then show "ch \<noteq> 0x2c" "ch \<noteq> 0x0a" by simp_all
qed

lemma show_text_plain:
  assumes "shop_fits s"
  shows "0x0a \<notin> set (show_text s)" "0x0d \<notin> set (show_text s)"
proof -
  have name: "plain (type_name (data s ! i ! 0))" if "i < nat (num s)" for i
    using assms that by (auto simp: shop_fits_def names_def list_all_iff)
  have row: "ch \<noteq> 0x0a \<and> ch \<noteq> 0x0d" if "i < nat (num s)" "v \<in> set (show_rows s i)" "ch \<in> set (show_row v)" for i v ch
    using fits_row(1) [OF assms that(1,2)] that(3) plain_chars dec_no_comma dec_chars
    by (auto simp: show_row_def row_fits_def sp_def)
  have "ch \<noteq> 0x0a \<and> ch \<noteq> 0x0d" if "ch \<in> set (show_text s)" for ch
    using that plain_chars [OF name] row by (fastforce simp: show_text_def sp_def split: if_splits)
  then show "0x0a \<notin> set (show_text s)" "0x0d \<notin> set (show_text s)" by blast+
qed

lemma entry_is_ok:
  assumes "shop_fits s" "cmd_ok (names s) c" "in_range fd s"
  shows "entry_ok (entry fd c ses s)"
proof -
  have "0x0a \<notin> set (snd (snd (effect c ses s)))" "0x0d \<notin> set (snd (snd (effect c ses s)))"
    using show_text_plain [OF assms(1)] dec_chars dec_no_comma
    by (cases c; auto simp: ascii_def sale_answer_def split: option.split)+
  moreover have "1 \<le> day s" "day s \<le> 7" using assms(1) by (simp_all add: shop_fits_def)
  ultimately show ?thesis using assms(3) logged_plain [OF assms(2)]
    by (auto simp: entry_ok_def entry_def int32_def in_range_def)
qed

fun entries :: "(int \<times> client_cmd) list \<Rightarrow> (int \<Rightarrow> session) \<Rightarrow> shop \<Rightarrow> log_file list" where
  "entries [] ss s = []"
| "entries ((fd, c) # cs) ss s = entry fd c (ss fd) s # entries cs (ss(fd := fst (snd (effect c (ss fd) s))))
     (log_result (entry_text (entry fd c (ss fd) s)) (fst (effect c (ss fd) s)))"

definition requests :: "(int \<times> client_cmd) list \<Rightarrow> shop_event list" where
  "requests cs = map (\<lambda>(fd, c). Request fd (cmd_text c)) cs"

definition cmds_ok :: "u8 list list \<Rightarrow> (int \<times> client_cmd) list \<Rightarrow> bool" where
  "cmds_ok ts cs \<longleftrightarrow> list_all (\<lambda>(fd, c). known_fd fd \<and> cmd_ok ts c) cs"

text \<open>Ready for \<open>n\<close> more commands.\<close>

definition ready :: "nat \<Rightarrow> (int \<Rightarrow> session) \<Rightarrow> shop \<Rightarrow> bool" where
  "ready n ss s \<longleftrightarrow> shop_fits s \<and> ids_ok ss s \<and> 0 \<le> result_index s \<and> result_index s + int n \<le> 100000 \<and> int (length (buied s) + n) \<le> BUY_ID_NUM"

lemma ready_next:
  assumes "ready (Suc n) ss s" "cmd_ok (names s) c"
  shows "ready n (ss(fd := fst (snd (effect c (ss fd) s)))) (log_result t (fst (effect c (ss fd) s)))"
proof -
  have r: "shop_fits s" "ids_ok ss s" "0 \<le> result_index s" "result_index s + int (Suc n) \<le> 100000"
    "int (length (buied s) + Suc n) \<le> BUY_ID_NUM" using assms(1) by (simp_all add: ready_def)
  have "ids_ok (ss(fd := fst (snd (effect c (ss fd) s)))) (log_result t (fst (effect c (ss fd) s)))"
    using effect_ids [OF r(2) assms(2), of fd] by (simp add: ids_ok_def)
  moreover have "result_index (log_result t x) = result_index x + 1" for x by (simp add: log_result_def)
  ultimately show ?thesis using r(3-5) effect_keeps [OF r(1) assms(2), of "ss fd"] by (simp add: ready_def)
qed

lemma ready_range: "ready (Suc n) ss s \<Longrightarrow> known_fd fd \<Longrightarrow> in_range fd s \<and> int (length (buied s)) < BUY_ID_NUM"
  by (simp add: ready_def in_range_def known_fd_def)

lemma server_log:
  assumes "ready (length cs) ss s" "cmds_ok (names s) cs"
  shows "\<exists>ss' s' sales. shop_run (requests cs) ss s = Inr (ss', s', sales) \<and>
    writeToResult s' = writeToResult s @ concat (map entry_text (entries cs ss s)) \<and> list_all entry_ok (entries cs ss s)"
  using assms
proof (induction cs arbitrary: ss s)
  case Nil
  then show ?case by (simp add: requests_def)
next
  case (Cons x cs)
  obtain fd c where x: "x = (fd, c)" by (cases x)
  have p: "known_fd fd" "cmd_ok (names s) c" "cmds_ok (names s) cs" "ready (Suc (length cs)) ss s" "shop_fits s"
    using Cons.prems by (simp_all add: x cmds_ok_def ready_def)
  let ?e = "entry fd c (ss fd) s"
  let ?s1 = "log_result (entry_text ?e) (fst (effect c (ss fd) s))"
  let ?ss1 = "ss(fd := fst (snd (effect c (ss fd) s)))"
  have range: "in_range fd s" "int (length (buied s)) < BUY_ID_NUM" using ready_range [OF p(4,1)] by simp_all
  obtain out where m: "mask_server fd (cmd_text c) (ss fd) s = Inr (?s1, fst (snd (effect c (ss fd) s)), out)"
    using server_effect [OF p(5) range(1) p(2) range(2), of "ss fd"] by blast
  have n: "names ?s1 = names s" "writeToResult ?s1 = writeToResult s @ entry_text ?e"
    using effect_keeps [OF p(5,2), of "ss fd"] by simp_all (simp add: log_result_def)
  obtain ss' s' sales where r: "shop_run (requests cs) ?ss1 ?s1 = Inr (ss', s', sales)"
    "writeToResult s' = writeToResult ?s1 @ concat (map entry_text (entries cs ?ss1 ?s1))" "list_all entry_ok (entries cs ?ss1 ?s1)"
    using Cons.IH [OF ready_next [OF p(4,2)]] p(3) n(1) by metis
  have "requests (x # cs) = Request fd (cmd_text c) # requests cs" by (simp add: x requests_def)
  then show ?case using r n(2) m entry_is_ok [OF p(5,2) range(1)] by (simp add: x del: fun_upd_apply)
qed

lemma checker_follows:
  assumes "ready (length cs) ss s" "cmds_ok (names s) cs" "tracks ch ss s" "\<forall>i<length cs. logs ! (n + i) = entries cs ss s ! i"
  shows "\<exists>ch'. check_from second logs [n..<n + length cs] ch = Some ch' \<and> wrong ch' = wrong ch"
  using assms
proof (induction cs arbitrary: ss s ch n)
  case Nil
  then show ?case by simp
next
  case (Cons x cs)
  obtain fd c where x: "x = (fd, c)" by (cases x)
  have p: "known_fd fd" "cmd_ok (names s) c" "cmds_ok (names s) cs" "ready (Suc (length cs)) ss s" "shop_fits s" "ids_ok ss s"
    using Cons.prems(1,2) by (simp_all add: x cmds_ok_def ready_def)
  let ?s1 = "log_result (entry_text (entry fd c (ss fd) s)) (fst (effect c (ss fd) s))"
  let ?ss1 = "ss(fd := fst (snd (effect c (ss fd) s)))"
  have "logs ! n = entry fd c (ss fd) s" using Cons.prems(4) [rule_format, of 0] by (simp add: x)
  then obtain ch1 where c: "check_line second logs n ch = Some ch1" "wrong ch1 = wrong ch" "tracks ch1 ?ss1 (fst (effect c (ss fd) s))"
    using checked_line [OF p(5,2) Cons.prems(3) p(6,1)] by blast
  have "\<exists>ch'. check_from second logs [Suc n..<Suc n + length cs] ch1 = Some ch' \<and> wrong ch' = wrong ch1"
  proof (rule Cons.IH [where ss = ?ss1 and s = ?s1])
    show "ready (length cs) ?ss1 ?s1" by (rule ready_next [OF p(4,2)])
    show "cmds_ok (names ?s1) cs" using p(3) effect_keeps(2) [OF p(5,2)] by simp
    show "tracks ch1 ?ss1 ?s1" using c(3) by (simp add: tracks_def)
    show "\<forall>i<length cs. logs ! (Suc n + i) = entries cs ?ss1 ?s1 ! i"
    proof (intro allI impI)
      fix i
      assume "i < length cs"
      then show "logs ! (Suc n + i) = entries cs ?ss1 ?s1 ! i"
        using Cons.prems(4) [rule_format, of "Suc i"] by (simp add: x del: fun_upd_apply)
    qed
  qed
  then show ?case using c(1,2) by (auto simp: upt_conv_Cons simp del: upt_Suc)
qed

lemma length_entries [simp]: "length (entries cs ss s) = length cs"
  by (induction cs arbitrary: ss s) auto

definition opened :: "shop \<Rightarrow> bool" where
  "opened s \<longleftrightarrow> shop_fits s \<and> buied s = [] \<and> result_index s = 0 \<and> writeToResult s = []"

lemma server_passes:
  assumes "opened s" "cmds_ok (names s) cs" "length cs \<le> 100000"
  shows "\<exists>ss' s' sales. shop_run (requests cs) (\<lambda>fd. new_session) s = Inr (ss', s', sales) \<and>
    check_run (read_log_file (writeToResult s')) (db_of s) = Some []"
proof -
  let ?ss = "\<lambda>fd::int. new_session"
  let ?logs = "entries cs ?ss s"
  have r: "ready (length cs) ?ss s"
    using assms(1,3) by (simp add: ready_def opened_def ids_ok_def new_session_def BUY_ID_NUM_def)
  obtain ss' s' sales where s': "shop_run (requests cs) ?ss s = Inr (ss', s', sales)"
    "writeToResult s' = concat (map entry_text ?logs)" "list_all entry_ok ?logs"
    using server_log [OF r assms(2)] assms(1) by (auto simp: opened_def)
  let ?c = "\<lparr>log_static = (\<lambda>fd. False), my_id = (\<lambda>fd. []), mydata = db_of s, area_start = [], area_end = [], wrong = []\<rparr>"
  have run: "\<exists>ch'. check_from second ?logs [0..<length ?logs] ch = Some ch' \<and> wrong ch' = wrong ch" if "tracks ch ?ss s" for second ch
    using checker_follows [OF r assms(2) that, of ?logs 0 second] by simp
  obtain c1 where c1: "check_1 ?logs ?c = Some c1" "wrong c1 = []"
    using run [of ?c False] by (auto simp: check_1_def tracks_def new_session_def)
  have "tracks ((clear c1)\<lparr>mydata := db_of s\<rparr>) ?ss s" by (simp add: tracks_def clear_def new_session_def)
  then obtain c2 where "check_2 ?logs ((clear c1)\<lparr>mydata := db_of s\<rparr>) = Some c2" "wrong c2 = []"
    using run [of "(clear c1)\<lparr>mydata := db_of s\<rparr>" True] c1(2) by (auto simp: check_2_def clear_def)
  then have "check_run ?logs (db_of s) = Some []" using c1(1) by (simp add: check_run_def)
  then show ?thesis using s' read_log_entries [OF s'(3)] by auto
qed

section \<open>The inventory file\<close>

text \<open>\<open>read_file\<close>: rows and stores are entered under their numbers and names.\<close>

fun read_cities :: "nat \<Rightarrow> u8 list \<Rightarrow> (int \<times> city) list \<Rightarrow> (u8 list \<times> (int \<times> city) list) option" where
  "read_cities 0 s m = Some (s, m)"
| "read_cities (Suc k) s m =
     (case stream_int s of None \<Rightarrow> None | Some (n, s1) \<Rightarrow>
      (case scan_word s1 of None \<Rightarrow> None | Some (w, s2) \<Rightarrow>
       (case stream_int s2 of None \<Rightarrow> None | Some (a, s3) \<Rightarrow>
        (case stream_int s3 of None \<Rightarrow> None | Some (b, s4) \<Rightarrow>
         (case stream_int s4 of None \<Rightarrow> None | Some (c, s5) \<Rightarrow>
            read_cities k s5 (map_put n \<lparr>c_id = n, c_sum = 0, c_name = w, mask_0 = a, mask_1 = b, mask_2 = c\<rparr> m))))))"

fun read_stores :: "nat \<Rightarrow> u8 list \<Rightarrow> (u8 list \<times> store) list \<Rightarrow> (u8 list \<times> store) list option" where
  "read_stores 0 s m = Some m"
| "read_stores (Suc k) s m =
     (case scan_word s of None \<Rightarrow> None | Some (t, s1) \<Rightarrow>
      (case stream_int s1 of None \<Rightarrow> None | Some (n, s2) \<Rightarrow>
       (case read_cities (nat n) s2 [] of None \<Rightarrow> None | Some (s3, cs) \<Rightarrow>
          read_stores k s3 (map_put t \<lparr>st_num = n, st_name = t, cities_map = cs\<rparr> m))))"

text \<open>The data as \<open>main\<close> sets them up, from the arguments and the file.\<close>

definition checker_data :: "u8 list \<Rightarrow> int \<Rightarrow> int \<Rightarrow> db option" where
  "checker_data file d amount =
    (case stream_int file of None \<Rightarrow> None
     | Some (n, s) \<Rightarrow> map_option (\<lambda>m. \<lparr>d_num = n, d_day = d, d_alcohol = amount, ori_alcohol = amount, stores_map = m, buy_list = Map.empty\<rparr>)
         (read_stores (nat n) s []))"

text \<open>A file: the types in the order of their names, each with the cities and stocks of its rows.\<close>

type_synonym stock = "u8 list \<times> int \<times> int \<times> int"

definition stock_text :: "nat \<Rightarrow> stock \<Rightarrow> u8 list" where
  "stock_text n x = (case x of (w, a, b, c) \<Rightarrow> dec (int n + 1) @ sp @ w @ sp @ dec a @ sp @ dec b @ sp @ dec c @ nl)"

definition stocks_text :: "nat \<Rightarrow> nat \<Rightarrow> stock list \<Rightarrow> u8 list" where
  "stocks_text j k xs = concat (map (\<lambda>i. stock_text i (xs ! i)) [j..<j + k])"

definition store_text :: "u8 list \<times> stock list \<Rightarrow> u8 list" where
  "store_text p = fst p @ nl @ dec (int (length (snd p))) @ nl @ stocks_text 0 (length (snd p)) (snd p)"

definition inventory_text :: "(u8 list \<times> stock list) list \<Rightarrow> u8 list" where
  "inventory_text ps = dec (int (length ps)) @ nl @ concat (map store_text ps)"

definition stock_fits :: "stock \<Rightarrow> bool" where
  "stock_fits x = (case x of (w, a, b, c) \<Rightarrow> plain w \<and> w \<noteq> [] \<and> length w \<le> 13 \<and> 0 \<le> a \<and> a < 1000 \<and> 0 \<le> b \<and> b < 1000 \<and> 0 \<le> c \<and> c < 1000)"

definition inventory_fits :: "(u8 list \<times> stock list) list \<Rightarrow> bool" where
  "inventory_fits ps \<longleftrightarrow> length ps \<le> 15 \<and> sorted_wrt (<) (map fst ps) \<and>
     list_all (\<lambda>(t, xs). type_ok t \<and> plain t \<and> length xs \<le> 9 \<and> list_all stock_fits xs) ps"

subsection \<open>The checker reads it\<close>

definition stock_city :: "nat \<Rightarrow> stock \<Rightarrow> int \<times> city" where
  "stock_city n x = (case x of (w, a, b, c) \<Rightarrow>
     (int n + 1, \<lparr>c_id = int n + 1, c_sum = 0, c_name = w, mask_0 = a, mask_1 = b, mask_2 = c\<rparr>))"

lemma scan_after_nl: "stream_int (nl @ s) = stream_int s" "stream_int (sp @ s) = stream_int s" "scan_word (nl @ s) = scan_word s"
  "scan_word (sp @ s) = scan_word s"
  by (simp_all add: stream_int_def scan_word_def sp_def nl_def is_space_def)

lemma stream_int_first: "no_digit_first r \<Longrightarrow> int32 x \<Longrightarrow> stream_int (dec x @ r) = Some (x, r)"
  using stream_int_dec [of r x] by (simp add: scan_after_nl)

lemma word_end_nl [simp]: "word_end (nl @ r)" "word_end nl" by (simp_all add: word_end_def nl_def is_space_def)

lemma map_put_last: "\<forall>x \<in> set m. fst x < k \<Longrightarrow> map_put k v m = m @ [(k, v)]"
  by (induction m) auto

lemma plain_word: "plain w \<Longrightarrow> \<forall>ch \<in> set w. \<not> is_space ch" by (simp add: plain_def list_all_iff)

lemma int32_small: "0 \<le> x \<Longrightarrow> x < 1000 \<Longrightarrow> int32 x" by (simp add: int32_def)

lemma stocks_text_Suc: "stocks_text j (Suc k) xs = stock_text j (xs ! j) @ stocks_text (Suc j) k xs"
  by (simp add: stocks_text_def upt_conv_Cons del: upt_Suc)

lemma read_cities_text:
  assumes "\<forall>i. j \<le> i \<longrightarrow> i < j + k \<longrightarrow> stock_fits (xs ! i)" "j + k \<le> 100" "\<forall>x \<in> set m. fst x < int j + 1"
  shows "read_cities k (nl @ stocks_text j k xs @ r) m = Some (nl @ r, m @ map (\<lambda>i. stock_city i (xs ! i)) [j..<j + k])"
  using assms
proof (induction k arbitrary: j m)
  case 0
  then show ?case by (simp add: stocks_text_def)
next
  case (Suc k)
  obtain w a b c where x: "xs ! j = (w, a, b, c)" by (cases "xs ! j") auto
  have f: "stock_fits (w, a, b, c)" using Suc.prems(1) x by (metis add_Suc_right le_add1 le_refl less_Suc_eq_le)
  have w: "w \<noteq> []" "\<forall>ch \<in> set w. \<not> is_space ch" and i: "int32 a" "int32 b" "int32 c"
    using f plain_word int32_small by (auto simp: stock_fits_def)
  have n: "int32 (int j + 1)" using Suc.prems(2) by (simp add: int32_def)
  let ?m = "m @ [stock_city j (xs ! j)]"
  have m: "map_put (int j + 1) \<lparr>c_id = int j + 1, c_sum = 0, c_name = w, mask_0 = a, mask_1 = b, mask_2 = c\<rparr> m = ?m"
    using map_put_last [OF Suc.prems(3)] by (simp add: x stock_city_def)
  have "read_cities k (nl @ stocks_text (Suc j) k xs @ r) ?m = Some (nl @ r, ?m @ map (\<lambda>i. stock_city i (xs ! i)) [Suc j..<Suc j + k])"
    using Suc.prems by (intro Suc.IH) (auto simp: x stock_city_def)
  moreover have "[j..<j + Suc k] = j # [Suc j..<Suc j + k]" by (simp add: upt_conv_Cons del: upt_Suc)
  ultimately show ?case
    using n i scan_word_end [OF w] by (simp add: stocks_text_Suc stock_text_def x scan_after_nl stream_int_first m del: upt_Suc)
qed

definition store_entry :: "u8 list \<times> stock list \<Rightarrow> u8 list \<times> store" where
  "store_entry p = (fst p, \<lparr>st_num = int (length (snd p)), st_name = fst p,
     cities_map = map (\<lambda>i. stock_city i (snd p ! i)) [0..<length (snd p)]\<rparr>)"

definition pair_fits :: "u8 list \<times> stock list \<Rightarrow> bool" where
  "pair_fits p \<longleftrightarrow> type_ok (fst p) \<and> plain (fst p) \<and> length (snd p) \<le> 9 \<and> list_all stock_fits (snd p)"

lemma pair_word: "pair_fits p \<Longrightarrow> fst p \<noteq> [] \<and> (\<forall>ch \<in> set (fst p). \<not> is_space ch)"
  using plain_word by (auto simp: pair_fits_def type_ok_def word_ok_def)

lemma read_stores_text:
  assumes "list_all pair_fits ps" "sorted_wrt (<) (map fst ps)" "\<forall>x \<in> set m. \<forall>p \<in> set ps. fst x < fst p"
  shows "read_stores (length ps) (nl @ concat (map store_text ps)) m = Some (m @ map store_entry ps)"
  using assms
proof (induction ps arbitrary: m)
  case (Cons p ps)
  let ?r = "concat (map store_text ps)"
  have p: "pair_fits p" using Cons.prems(1) by simp
  have w: "fst p \<noteq> []" "\<forall>ch \<in> set (fst p). \<not> is_space ch" using pair_word [OF p] by simp_all
  have n: "int32 (int (length (snd p)))" using p by (simp add: int32_def pair_fits_def)
  have c: "read_cities (length (snd p)) (nl @ stocks_text 0 (length (snd p)) (snd p) @ ?r) [] =
      Some (nl @ ?r, map (\<lambda>i. stock_city i (snd p ! i)) [0..<length (snd p)])"
    using read_cities_text [of 0 "length (snd p)" "snd p" "[]" ?r] p by (auto simp: pair_fits_def list_all_length)
  have m: "map_put (fst p) \<lparr>st_num = int (length (snd p)), st_name = fst p,
      cities_map = map (\<lambda>i. stock_city i (snd p ! i)) [0..<length (snd p)]\<rparr> m = m @ [store_entry p]"
    using map_put_last [of m "fst p"] Cons.prems(3) by (simp add: store_entry_def)
  have "read_stores (length ps) (nl @ ?r) (m @ [store_entry p]) = Some ((m @ [store_entry p]) @ map store_entry ps)"
    using Cons.prems by (intro Cons.IH) (auto simp: store_entry_def)
  then show ?case
    using n scan_word_end(1) [OF w] m c by (simp add: store_text_def [of p] scan_after_nl stream_int_first)
qed simp

definition db_read :: "(u8 list \<times> stock list) list \<Rightarrow> int \<Rightarrow> int \<Rightarrow> db" where
  "db_read ps d amount = \<lparr>d_num = int (length ps), d_day = d, d_alcohol = amount, ori_alcohol = amount,
     stores_map = map store_entry ps, buy_list = Map.empty\<rparr>"

lemma inventory_pairs: "inventory_fits ps \<Longrightarrow> length ps \<le> 15 \<and> list_all pair_fits ps \<and> sorted_wrt (<) (map fst ps)"
  by (auto simp: inventory_fits_def list_all_iff pair_fits_def)

lemma checker_reads:
  assumes "inventory_fits ps"
  shows "checker_data (inventory_text ps) d amount = Some (db_read ps d amount)"
  using inventory_pairs [OF assms] read_stores_text [of ps "[]"]
  by (simp add: checker_data_def inventory_text_def stream_int_first int32_def db_read_def)

subsection \<open>The server reads it\<close>

definition put_stock :: "nat \<Rightarrow> stock \<Rightarrow> cell \<Rightarrow> cell" where
  "put_stock j x v = (case x of (w, a, b, c) \<Rightarrow> v\<lparr>row_no := int j + 1, s_city := w, s_a := a, s_b := b, s_c := c\<rparr>)"

lemma stock_line:
  assumes "stock_fits x" "n < 100"
  shows "fgets buf (stock_text n x @ r) = (stock_text n x, r)" "load_row (stock_text n x) v = Inr (put_stock n x v)"
proof -
  obtain w a b c where x: "x = (w, a, b, c)" by (cases x) auto
  have w: "plain w" "w \<noteq> []" "length w \<le> 13" and i: "int32 a" "int32 b" "int32 c"
    and s: "0 \<le> a" "a < 1000" "0 \<le> b" "b < 1000" "0 \<le> c" "c < 1000"
    using assms(1) int32_small by (auto simp: stock_fits_def x)
  have n: "int32 (int n + 1)" using assms(2) by (simp add: int32_def)
  let ?l = "dec (int n + 1) @ sp @ w @ sp @ dec a @ sp @ dec b @ sp @ dec c"
  have l: "stock_text n x = ?l @ nl" by (simp add: stock_text_def x)
  have "0x0a \<notin> set ?l" using dec_chars plain_chars [OF w(1)] by (auto simp: sp_def)
  moreover have "length (dec (int n + 1)) \<le> 3" "length (dec a) \<le> 3" "length (dec b) \<le> 3" "length (dec c) \<le> 3"
    using assms(2) s by (intro length_dec_below; simp)+
  then have "length ?l < 99" using w(3) by (simp add: sp_def)
  ultimately show "fgets buf (stock_text n x @ r) = (stock_text n x, r)" unfolding l using fgets_nl [of ?l buf r] by simp
  show "load_row (stock_text n x) v = Inr (put_stock n x v)"
    using n i w plain_word [OF w(1)] by (simp add: l [unfolded x] load_row_def scan_int_dec scan_int_sp scan_word_city put_stock_def x Let_def)
qed

lemma load_rows_text:
  assumes "\<forall>i. j \<le> i \<longrightarrow> i < j + k \<longrightarrow> stock_fits (xs ! i)" "j + k \<le> length rows" "j + k \<le> 100"
  shows "\<exists>buf'. load_rows k j buf (stocks_text j k xs @ r) rows =
    Inr (buf', r, map (\<lambda>i. if j \<le> i \<and> i < j + k then put_stock i (xs ! i) (rows ! i) else rows ! i) [0..<length rows])"
  using assms
proof (induction k arbitrary: j buf rows)
  case 0
  then show ?case by (auto simp: stocks_text_def intro!: nth_equalityI)
next
  case (Suc k)
  let ?x = "xs ! j"
  have x: "stock_fits ?x" "j < 100" using Suc.prems(1,3) by auto
  let ?rows = "rows[j := put_stock j ?x (rows ! j)]"
  have "\<forall>i. Suc j \<le> i \<longrightarrow> i < Suc j + k \<longrightarrow> stock_fits (xs ! i)" "Suc j + k \<le> length ?rows" "Suc j + k \<le> 100"
    using Suc.prems by auto
  from Suc.IH [OF this] obtain buf' where "load_rows k (Suc j) (stock_text j ?x) (stocks_text (Suc j) k xs @ r) ?rows =
      Inr (buf', r, map (\<lambda>i. if Suc j \<le> i \<and> i < Suc j + k then put_stock i (xs ! i) (?rows ! i) else ?rows ! i) [0..<length ?rows])"
    by blast
  moreover have "map (\<lambda>i. if Suc j \<le> i \<and> i < Suc j + k then put_stock i (xs ! i) (?rows ! i) else ?rows ! i) [0..<length ?rows] =
      map (\<lambda>i. if j \<le> i \<and> i < j + Suc k then put_stock i (xs ! i) (rows ! i) else rows ! i) [0..<length rows]"
    using Suc.prems(2) by (intro nth_equalityI) (auto simp: nth_list_update)
  ultimately show ?case using Suc.prems(2) by (simp add: stocks_text_Suc stock_line [OF x])
qed

text \<open>The rows of one type.\<close>

definition filled :: "u8 list \<times> stock list \<Rightarrow> cell list \<Rightarrow> cell list" where
  "filled p rows =
    (let rows1 = rows[0 := (rows ! 0)\<lparr>type_name := fst p, type_num := int (length (snd p))\<rparr>]
     in map (\<lambda>i. if i < length (snd p) then put_stock i (snd p ! i) (rows1 ! i) else rows1 ! i) [0..<length rows])"

lemma load_type_text:
  assumes "pair_fits p" "length rows = 100"
  shows "fgets buf (store_text p @ r) = (fst p @ nl, dec (int (length (snd p))) @ nl @ stocks_text 0 (length (snd p)) (snd p) @ r)"
    "scan_word (fst p @ nl) = Some (fst p, nl)" "length (fst p) < 20"
    "fgets buf (dec (int (length (snd p))) @ nl @ r) = (dec (int (length (snd p))) @ nl, r)"
    "scan_int (dec (int (length (snd p))) @ nl) = Some (int (length (snd p)), nl)"
    "\<exists>buf'. load_rows (length (snd p)) 0 buf (stocks_text 0 (length (snd p)) (snd p) @ r)
       (rows[0 := (rows ! 0)\<lparr>type_name := fst p, type_num := int (length (snd p))\<rparr>]) = Inr (buf', r, filled p rows)"
proof -
  have n: "int32 (int (length (snd p)))" "length (snd p) \<le> 9" using assms(1) by (simp_all add: int32_def pair_fits_def)
  have w: "fst p \<noteq> []" "\<forall>ch \<in> set (fst p). \<not> is_space ch" using pair_word [OF assms(1)] by simp_all
  show l: "length (fst p) < 20" using assms(1) by (simp add: pair_fits_def type_ok_def word_ok_def)
  have "0x0a \<notin> set (fst p)" using w(2) by (auto simp: is_space_def)
  then show "fgets buf (store_text p @ r) = (fst p @ nl, dec (int (length (snd p))) @ nl @ stocks_text 0 (length (snd p)) (snd p) @ r)"
    using fgets_nl [of "fst p" buf] l by (simp add: store_text_def)
  show "scan_word (fst p @ nl) = Some (fst p, nl)" using scan_word_end(1) [OF w] by simp
  show "fgets buf (dec (int (length (snd p))) @ nl @ r) = (dec (int (length (snd p))) @ nl, r)" by (rule fgets_dec [OF n(1)])
  show "scan_int (dec (int (length (snd p))) @ nl) = Some (int (length (snd p)), nl)" using n(1) by (simp add: scan_int_dec)
  let ?rows = "rows[0 := (rows ! 0)\<lparr>type_name := fst p, type_num := int (length (snd p))\<rparr>]"
  have "\<forall>i. 0 \<le> i \<longrightarrow> i < 0 + length (snd p) \<longrightarrow> stock_fits (snd p ! i)" "0 + length (snd p) \<le> length ?rows" "0 + length (snd p) \<le> 100"
    using assms n(2) by (auto simp: pair_fits_def list_all_length)
  from load_rows_text [OF this, of buf r]
  show "\<exists>buf'. load_rows (length (snd p)) 0 buf (stocks_text 0 (length (snd p)) (snd p) @ r) ?rows = Inr (buf', r, filled p rows)"
    unfolding filled_def Let_def by simp
qed

lemma load_types_text:
  assumes "list_all pair_fits ps" "i + length ps \<le> length tab" "list_all (\<lambda>rows. length rows = 100) tab"
  shows "load_types (length ps) i buf (concat (map store_text ps)) tab =
    Inr (take i tab @ map (\<lambda>j. filled (ps ! j) (tab ! (i + j))) [0..<length ps] @ drop (i + length ps) tab)"
  using assms
proof (induction ps arbitrary: i buf tab)
  case (Cons p ps)
  have p: "pair_fits p" using Cons.prems(1) by simp
  have i: "i < length tab" "length (tab ! i) = 100" using Cons.prems(2,3) by (simp_all add: list_all_length)
  note l = load_type_text [OF p i(2)]
  let ?tab = "tab[i := filled p (tab ! i)]"
  have "length (filled p (tab ! i)) = 100" using i(2) by (simp add: filled_def Let_def)
  then have t: "load_types (length ps) (Suc i) buf1 (concat (map store_text ps)) ?tab =
      Inr (take (Suc i) ?tab @ map (\<lambda>j. filled (ps ! j) (?tab ! (Suc i + j))) [0..<length ps] @ drop (Suc i + length ps) ?tab)" for buf1
    using Cons.prems by (intro Cons.IH) (simp_all add: list_all_put)
  obtain buf2 where r: "load_rows (length (snd p)) 0 (dec (int (length (snd p))) @ nl) (stocks_text 0 (length (snd p)) (snd p) @ concat (map store_text ps))
      ((tab ! i)[0 := (tab ! i ! 0)\<lparr>type_name := fst p, type_num := int (length (snd p))\<rparr>]) = Inr (buf2, concat (map store_text ps), filled p (tab ! i))"
    using l(6) by blast
  have "load_types (length (p # ps)) i buf (concat (map store_text (p # ps))) tab = load_types (length ps) (Suc i) buf2 (concat (map store_text ps)) ?tab"
    using i(1) l(1-5) r by (simp add: Let_def)
  moreover have "take (Suc i) ?tab = take i tab @ [filled p (tab ! i)]" using i(1) by (simp add: take_Suc_conv_app_nth)
  moreover have "map (\<lambda>j. filled ((p # ps) ! j) (tab ! (i + j))) [0..<length (p # ps)] =
      filled p (tab ! i) # map (\<lambda>j. filled (ps ! j) (?tab ! (Suc i + j))) [0..<length ps]"
    by (rule nth_equalityI) (auto simp: nth_Cons' simp del: upt_Suc)
  ultimately show ?case unfolding t by simp
qed simp

definition blank_rows :: "cell list" where "blank_rows = replicate 100 blank_cell"

definition shop_read :: "(u8 list \<times> stock list) list \<Rightarrow> int \<Rightarrow> int \<Rightarrow> shop" where
  "shop_read ps d amount = \<lparr>data = map (\<lambda>p. filled p blank_rows) ps @ replicate (15 - length ps) blank_rows, num = int (length ps), day = d,
     alcohol = amount, alcohol_capacity = amount, buied = [], result_index = 0, writeToResult = []\<rparr>"

lemma server_reads:
  assumes "inventory_fits ps"
  shows "shop_main (inventory_text ps) d amount = Inr (shop_read ps d amount)"
proof -
  have p: "length ps \<le> 15" "list_all pair_fits ps" using inventory_pairs [OF assms] by simp_all
  have n: "int32 (int (length ps))" using p(1) by (simp add: int32_def)
  have t: "load_types (length ps) 0 buf (concat (map store_text ps)) blank_table =
      Inr (map (\<lambda>j. filled (ps ! j) (blank_table ! j)) [0..<length ps] @ drop (length ps) blank_table)" for buf
    using load_types_text [OF p(2), of 0 blank_table buf] p(1) by (simp add: blank_table_def list_all_length)
  have "map (\<lambda>j. filled (ps ! j) (blank_table ! j)) [0..<length ps] = map (\<lambda>p. filled p blank_rows) ps"
    using p(1) by (intro nth_equalityI) (simp_all add: blank_table_def blank_rows_def)
  then show ?thesis
    by (simp add: shop_main_def inventory_text_def fgets_dec [OF n] scan_int_dec [OF _ n] t shop_read_def Let_def)
      (simp add: blank_table_def blank_rows_def)
qed

lemma filled_first:
  "type_name (filled p blank_rows ! 0) = fst p" "type_num (filled p blank_rows ! 0) = int (length (snd p))" "length (filled p blank_rows) = 100"
  "filled p blank_rows \<noteq> []"
proof -
  show l: "length (filled p blank_rows) = 100" by (simp add: filled_def blank_rows_def Let_def)
  then show "filled p blank_rows \<noteq> []" by auto
  have put: "type_name (put_stock j x v) = type_name v" "type_num (put_stock j x v) = type_num v" for j x v
    by (simp_all add: put_stock_def split: prod.split)
  show "type_name (filled p blank_rows ! 0) = fst p" "type_num (filled p blank_rows ! 0) = int (length (snd p))"
    by (simp_all add: filled_def blank_rows_def Let_def put)
qed

lemma filled_row:
  assumes "pair_fits p" "j < length (snd p)"
  shows "row_no (filled p blank_rows ! j) = int j + 1" "(row_no (filled p blank_rows ! j), city_of (filled p blank_rows ! j)) = stock_city j (snd p ! j)"
    "row_fits (filled p blank_rows ! j)"
proof -
  obtain w a b c where x: "snd p ! j = (w, a, b, c)" by (cases "snd p ! j") auto
  have j: "j < 100" "stock_fits (snd p ! j)" using assms by (auto simp: pair_fits_def list_all_length)
  then show "row_no (filled p blank_rows ! j) = int j + 1"
    "(row_no (filled p blank_rows ! j), city_of (filled p blank_rows ! j)) = stock_city j (snd p ! j)"
    "row_fits (filled p blank_rows ! j)"
    using assms(2) by (auto simp: filled_def blank_rows_def Let_def put_stock_def x city_of_def stock_city_def stock_fits_def row_fits_def)
qed

lemma read_type:
  assumes "inventory_fits ps" "i < length ps"
  shows "data (shop_read ps d amount) ! i = filled (ps ! i) blank_rows" "pair_fits (ps ! i)"
    "show_rows (shop_read ps d amount) i = map (\<lambda>j. filled (ps ! i) blank_rows ! j) [0..<length (snd (ps ! i))]"
proof -
  show d: "data (shop_read ps d amount) ! i = filled (ps ! i) blank_rows" using assms(2) by (simp add: shop_read_def nth_append)
  show p: "pair_fits (ps ! i)" using inventory_pairs [OF assms(1)] assms(2) by (simp add: list_all_length)
  have "length (snd (ps ! i)) \<le> 9" using p by (simp add: pair_fits_def)
  then show "show_rows (shop_read ps d amount) i = map (\<lambda>j. filled (ps ! i) blank_rows ! j) [0..<length (snd (ps ! i))]"
    unfolding show_rows_def d by (intro nth_equalityI) (simp_all add: filled_first)
qed

lemma read_shop_opened:
  assumes "inventory_fits ps" "1 \<le> d" "d \<le> 7" "5 \<le> amount" "amount < 10000"
  shows "opened (shop_read ps d amount)" "names (shop_read ps d amount) = map fst ps"
    "db_of (shop_read ps d amount) = db_read ps d amount"
proof -
  let ?s = "shop_read ps d amount"
  note ps = inventory_pairs [OF assms(1)]
  have n: "num ?s = int (length ps)" "length (data ?s) = 15" using ps by (simp_all add: shop_read_def)
  have type: "type_name (data ?s ! i ! 0) = fst (ps ! i)" "type_num (data ?s ! i ! 0) = int (length (snd (ps ! i)))"
    "length (data ?s ! i) = 100" "data ?s ! i \<noteq> []" if "i < length ps" for i
    using read_type(1) [OF assms(1) that] filled_first by simp_all
  show names: "names ?s = map fst ps" unfolding names_def n by (intro nth_equalityI) (simp_all add: type)
  have "type_fits ?s i" if "i < length ps" for i
    using read_type(2) [OF assms(1) that] type(2) [OF that] filled_row [OF read_type(2) [OF assms(1) that]]
    unfolding type_fits_def read_type(3) [OF assms(1) that] by (auto simp: pair_fits_def list_all_length)
  moreover have "length (snd (ps ! i)) \<le> 100" if "i < length ps" for i
    using read_type(2) [OF assms(1) that] by (simp add: pair_fits_def)
  then have "counts_in_table ?s" using type n ps by (auto simp: counts_in_table_def)
  moreover have "sorted_wrt (<) (names ?s)" "list_all (\<lambda>t. type_ok t \<and> plain t) (names ?s)"
    using ps unfolding names by (auto simp: list_all_iff pair_fits_def)
  ultimately have "shop_fits ?s" using assms(2-5) n(1) by (simp add: shop_fits_def list_all_iff) (simp add: shop_read_def)
  then show "opened ?s" by (simp add: opened_def shop_read_def)
  have "(type_name (data ?s ! i ! 0), store_of ?s i) = store_entry (ps ! i)" if "i < length ps" for i
    using filled_row(2) [OF read_type(2) [OF assms(1) that]]
    by (simp add: store_of_def store_entry_def type [OF that] read_type(3) [OF assms(1) that] comp_def)
  then have "map (\<lambda>i. (type_name (data ?s ! i ! 0), store_of ?s i)) [0..<length ps] = map store_entry ps"
    by (intro nth_equalityI) simp_all
  then show "db_of ?s = db_read ps d amount" by (simp add: db_of_def n db_read_def) (simp add: shop_read_def)
qed

text \<open>
  C9: The checker of the exercise accepts the server. From the same inventory file, day and amount of alcohol, whatever well-formed
  commands the clients send in whatever order, the server serves them all, and the checker, which replays the log on maps of its
  own, reads every line as it was meant and finds none wrong in either of its passes: the server is equivalent to the checker's
  account of the shop.
\<close>

theorem checker_accepts:
  assumes "inventory_fits ps" "1 \<le> d" "d \<le> 7" "5 \<le> amount" "amount < 10000" "cmds_ok (map fst ps) cs" "length cs \<le> 100000"
  shows "\<exists>s ss' s' sales m. shop_main (inventory_text ps) d amount = Inr s \<and>
    shop_run (requests cs) (\<lambda>fd. new_session) s = Inr (ss', s', sales) \<and>
    checker_data (inventory_text ps) d amount = Some m \<and> check_run (read_log_file (writeToResult s')) m = Some []"
  using server_passes [OF read_shop_opened(1) [OF assms(1-5)] _ assms(7)] assms(6)
    server_reads [OF assms(1), of d amount] checker_reads [OF assms(1), of d amount] read_shop_opened(2,3) [OF assms(1-5)]
  by simp

definition small_inventory :: "(u8 list \<times> stock list) list" where
  "small_inventory = [(ascii ''S1'', [(ascii ''C1'', 2, 1, 0), (ascii ''C2'', 9, 9, 9)]), (ascii ''S2'', [(ascii ''C1'', 5, 5, 5)])]"

definition test_commands :: "(int \<times> client_cmd) list" where
  "test_commands = [(5, Login 0x46 [1, 4, 4, 8, 3, 9, 8, 6, 3]), (6, Login 0x41 [1, 1, 7, 1, 8, 8, 5, 5, 6]), (5, Buy (ascii ''S1'') 1 1 1 1),
     (5, Buy (ascii ''S1'') 2 1 1 1), (6, Buy (ascii ''XXX'') 1 1 0 0), (5, Logout), (6, Show), (6, Statics), (6, Other (ascii ''hello''))]"

theorem checker_accepts_witness:
  "\<exists>s ss' s' sales m. shop_main (inventory_text small_inventory) 3 50 = Inr s \<and>
    shop_run (requests test_commands) (\<lambda>fd. new_session) s = Inr (ss', s', sales) \<and>
    checker_data (inventory_text small_inventory) 3 50 = Some m \<and> check_run (read_log_file (writeToResult s')) m = Some []"
proof (rule checker_accepts)
  show "inventory_fits small_inventory" by code_simp
  show "cmds_ok (map fst small_inventory) test_commands" by code_simp
qed (simp_all add: test_commands_def)

end
