(* ===== verification/Client.thy ===== *)
theory Client
  imports Checker
begin

text \<open>
  The test client of the mask shop server, \<open>0851084_eos_hw2/client.cpp\<close>: each of its threads opens a connection and sends random
  requests, for types and cities of the inventory file and also for a type and a city that do not exist. The numbers of \<open>rand()\<close> are
  a parameter, the \<open>n\<close>-th call giving \<open>rand n\<close>; a division by zero is \<open>None\<close>. What the client prints is not modelled.
\<close>

section \<open>The inventory\<close>

text \<open>Every word of the file is read into a string first; \<open>string2int\<close> of a word that is no number is not set.\<close>

definition string2int :: "u8 list \<Rightarrow> int option" where
  "string2int w = map_option fst (stream_int w)"

record client_store =
  cs_num :: int
  cs_name :: "u8 list"
  citys :: "city list"

fun read_ints :: "nat \<Rightarrow> u8 list \<Rightarrow> (int list \<times> u8 list) option" where
  "read_ints 0 s = Some ([], s)"
| "read_ints (Suc k) s =
     (case scan_word s of None \<Rightarrow> None | Some (w, s1) \<Rightarrow>
      (case string2int w of None \<Rightarrow> None | Some x \<Rightarrow>
       (case read_ints k s1 of None \<Rightarrow> None | Some (xs, s2) \<Rightarrow> Some (x # xs, s2))))"

fun read_citys :: "nat \<Rightarrow> u8 list \<Rightarrow> (city list \<times> u8 list) option" where
  "read_citys 0 s = Some ([], s)"
| "read_citys (Suc k) s =
     (case read_ints 1 s of None \<Rightarrow> None | Some (ids, s1) \<Rightarrow>
      (case scan_word s1 of None \<Rightarrow> None | Some (w, s2) \<Rightarrow>
       (case read_ints 3 s2 of None \<Rightarrow> None | Some (xs, s3) \<Rightarrow>
        (case read_citys k s3 of None \<Rightarrow> None | Some (cs, s4) \<Rightarrow>
           Some (\<lparr>c_id = ids ! 0, c_sum = 0, c_name = w, mask_0 = xs ! 0, mask_1 = xs ! 1, mask_2 = xs ! 2\<rparr> # cs, s4)))))"

fun read_client_stores :: "nat \<Rightarrow> u8 list \<Rightarrow> client_store list option" where
  "read_client_stores 0 s = Some []"
| "read_client_stores (Suc k) s =
     (case scan_word s of None \<Rightarrow> None | Some (t, s1) \<Rightarrow>
      (case read_ints 1 s1 of None \<Rightarrow> None | Some (ns, s2) \<Rightarrow>
       (case read_citys (nat (ns ! 0)) s2 of None \<Rightarrow> None | Some (cs, s3) \<Rightarrow>
        map_option (Cons \<lparr>cs_num = ns ! 0, cs_name = t, citys = cs\<rparr>) (read_client_stores k s3))))"

text \<open>\<open>read_file\<close>: \<open>mydata.num\<close> and \<open>mydata.stores\<close>.\<close>

definition client_read :: "u8 list \<Rightarrow> (int \<times> client_store list) option" where
  "client_read file =
    (case read_ints 1 file of None \<Rightarrow> None
     | Some (ns, s) \<Rightarrow> map_option (\<lambda>sts. (ns ! 0, sts)) (read_client_stores (nat (ns ! 0)) s))"

section \<open>The requests\<close>

definition client_ids :: "string list" where
  "client_ids = [''A117188556'', ''B174959258'', ''C124442496'', ''D127578896'', ''E165814285'',
     ''F144839863'', ''G132796381'', ''H288868017'', ''J161621706'', ''K164296902'',
     ''L157449751'', ''M129448656'', ''N177233546'', ''P149589598'', ''Q119678958'',
     ''R167761572'', ''S142039712'', ''T173532954'', ''U171830029'', ''V155914441'',
     ''W186714857'', ''X184327514'', ''Y191108548'', ''Z196589652'', ''O176202085'',
     ''I169747354'', ''X184327515'', ''Y191108546'', ''Z196589657'', ''O176202088'']"

definition client_amounts :: "string list" where
  "client_amounts = [''3 0 0'', ''2 1 0'', ''2 0 1'', ''1 2 0'', ''1 0 2'', ''1 1 1'', ''0 2 1'', ''0 1 2'', ''0 3 0'', ''0 0 3'']"

definition client_login :: "(nat \<Rightarrow> int) \<Rightarrow> nat \<Rightarrow> u8 list \<times> nat" where
  "client_login rand n = (ascii ''login '' @ ascii (client_ids ! nat (rand n mod 30)), n + 1)"

text \<open>The masks: one of ten orders, or three numbers below four.\<close>

definition client_masks :: "(nat \<Rightarrow> int) \<Rightarrow> nat \<Rightarrow> u8 list \<times> nat" where
  "client_masks rand n =
    (let x = rand n mod 11 in
     if x < 10 then (ascii (client_amounts ! nat x), n + 1)
     else (dec (rand (n + 1) mod 4) @ sp @ dec (rand (n + 2) mod 4) @ sp @ dec (rand (n + 3) mod 4), n + 4))"

definition client_buy :: "(nat \<Rightarrow> int) \<Rightarrow> int \<times> client_store list \<Rightarrow> nat \<Rightarrow> (u8 list \<times> nat) option" where
  "client_buy rand md n =
    (let m = fst md; stores = snd md; store_name = rand n mod (m + 1);
         temp = (if store_name < m then cs_name (stores ! nat store_name) else ascii ''XXX'')
     in if m + 1 = 0 \<or> temp = ascii ''XXX'' \<and> m = 0 then None
        else let (store_name, n1) = (if temp = ascii ''XXX'' then (rand (n + 1) mod m, n + 2) else (store_name, n + 1));
                 cn = cs_num (stores ! nat store_name)
             in if cn + 1 = 0 then None
                else let city_id = rand n1 mod (cn + 1); (masks, n2) = client_masks rand (n1 + 1)
                     in Some (ascii ''buy'' @ sp @ temp @ sp @ dec (if city_id < cn then city_id + 1 else cn + 1) @ sp @ masks, n2))"

text \<open>One turn of the loop of \<open>myclient\<close>: what it sends, and the calls of \<open>rand\<close> made so far.\<close>

definition client_turn :: "(nat \<Rightarrow> int) \<Rightarrow> int \<times> client_store list \<Rightarrow> nat \<Rightarrow> (u8 list \<times> nat) option" where
  "client_turn rand md n =
    (let command = rand n mod 6 in
     if command = 0 then Some (ascii ''show'', n + 1)
     else if command = 1 then Some (client_login rand (n + 1))
     else if command = 2 then Some (ascii ''logout'', n + 1)
     else if command = 3 then client_buy rand md (n + 1)
     else if command = 4 then Some (ascii ''statics'', n + 1)
     else Some (ascii ''exit'', n + 1))"

section \<open>The client reads what the server reads\<close>

lemma dec_word: "dec x \<noteq> []" "\<forall>ch \<in> set (dec x). \<not> is_space ch"
  using dec_nat_not_Nil dec_nat_chars dec_no_comma(3) by (auto simp: dec_def)

lemma string2int_dec: "int32 x \<Longrightarrow> string2int (dec x) = Some x"
  using stream_int_first [of "[]" x] by (simp add: string2int_def no_digit_first_def)

lemma read_int_dec:
  assumes "int32 x" "word_end r" "ws = nl \<or> ws = sp"
  shows "read_ints (Suc k) (ws @ dec x @ r) = map_option (\<lambda>(xs, s). (x # xs, s)) (read_ints k r)"
  using assms scan_word_end(1) [OF dec_word, of r x] string2int_dec [of x]
  by (auto simp: scan_after_nl split: option.split)

lemma read_first_dec: "int32 x \<Longrightarrow> word_end r \<Longrightarrow> read_ints (Suc 0) (dec x @ r) = Some ([x], r)"
  using scan_word_end(1) [OF dec_word, of r x] string2int_dec [of x] by simp

lemma read_citys_text:
  assumes "\<forall>i. j \<le> i \<longrightarrow> i < j + k \<longrightarrow> stock_fits (xs ! i)" "j + k \<le> 100"
  shows "read_citys k (nl @ stocks_text j k xs @ r) = Some (map (\<lambda>i. snd (stock_city i (xs ! i))) [j..<j + k], nl @ r)"
  using assms
proof (induction k arbitrary: j)
  case 0
  then show ?case by (simp add: stocks_text_def)
next
  case (Suc k)
  obtain w a b c where x: "xs ! j = (w, a, b, c)" by (cases "xs ! j") auto
  have f: "stock_fits (w, a, b, c)" using Suc.prems(1) x by (metis add_Suc_right le_add1 le_refl less_Suc_eq_le)
  have w: "w \<noteq> []" "\<forall>ch \<in> set w. \<not> is_space ch" and i: "int32 a" "int32 b" "int32 c"
    using f plain_word int32_small by (auto simp: stock_fits_def)
  have n: "int32 (int j + 1)" using Suc.prems(2) by (simp add: int32_def)
  have "read_citys k (nl @ stocks_text (Suc j) k xs @ r) = Some (map (\<lambda>i. snd (stock_city i (xs ! i))) [Suc j..<Suc j + k], nl @ r)"
    using Suc.prems by (intro Suc.IH) auto
  moreover have "[j..<j + Suc k] = j # [Suc j..<Suc j + k]" by (simp add: upt_conv_Cons del: upt_Suc)
  ultimately show ?case
    using n i scan_word_end [OF w]
    by (simp add: stocks_text_Suc stock_text_def x read_int_dec numeral_3_eq_3 stock_city_def del: upt_Suc read_ints.simps(2))
qed

definition client_entry :: "u8 list \<times> stock list \<Rightarrow> client_store" where
  "client_entry p = \<lparr>cs_num = int (length (snd p)), cs_name = fst p, citys = map (\<lambda>i. snd (stock_city i (snd p ! i))) [0..<length (snd p)]\<rparr>"

lemma read_client_stores_text:
  assumes "list_all pair_fits ps"
  shows "read_client_stores (length ps) (nl @ concat (map store_text ps)) = Some (map client_entry ps)"
  using assms
proof (induction ps)
  case (Cons p ps)
  have p: "pair_fits p" using Cons.prems by simp
  have w: "fst p \<noteq> []" "\<forall>ch \<in> set (fst p). \<not> is_space ch" using pair_word [OF p] by simp_all
  have n: "int32 (int (length (snd p)))" using p by (simp add: int32_def pair_fits_def)
  have c: "read_citys (length (snd p)) (nl @ stocks_text 0 (length (snd p)) (snd p) @ concat (map store_text ps)) =
      Some (citys (client_entry p), nl @ concat (map store_text ps))"
    using read_citys_text [of 0 "length (snd p)" "snd p"] p by (auto simp: pair_fits_def list_all_length client_entry_def)
  then show ?case using Cons n scan_word_end(1) [OF w]
    by (simp add: store_text_def [of p] scan_after_nl read_int_dec del: read_ints.simps(2)) (simp add: client_entry_def)
qed simp

lemma client_reads:
  assumes "inventory_fits ps"
  shows "client_read (inventory_text ps) = Some (int (length ps), map client_entry ps)"
  using inventory_pairs [OF assms] read_client_stores_text [of ps]
  by (simp add: client_read_def inventory_text_def read_first_dec int32_def del: read_ints.simps(2))

section \<open>What it sends is well formed\<close>

definition id_digits :: "u8 list \<Rightarrow> nat list" where "id_digits w = map (\<lambda>ch. unat ch - 48) (tl w)"

lemma digit_back: "is_digit ch \<Longrightarrow> digit_char (unat ch - 48) = ch \<and> unat ch - 48 < 10"
  by (auto simp: is_digit_def digit_char_def)

lemma id_chars: "\<forall>c \<in> set ''0123456789''. is_digit (of_char c)" "\<forall>c \<in> set ''ABCDEFGHIJKLMNOPQRSTUVWXYZ''. letter_value (of_char c) \<noteq> None"
  by code_simp+

lemma id_form:
  "list_all (\<lambda>w. length w = 10 \<and> hd w \<in> set ''ABCDEFGHIJKLMNOPQRSTUVWXYZ'' \<and> list_all (\<lambda>c. c \<in> set ''0123456789'') (tl w)) client_ids"
  by code_simp

lemma client_id_ok:
  assumes "w \<in> set client_ids"
  shows "letter_value (hd (ascii w)) \<noteq> None" "ascii w = hd (ascii w) # map digit_char (id_digits (ascii w))"
    "length (id_digits (ascii w)) = 9" "list_all (\<lambda>d. d < 10) (id_digits (ascii w))"
proof -
  have f: "length w = 10" "hd w \<in> set ''ABCDEFGHIJKLMNOPQRSTUVWXYZ''" "\<forall>c \<in> set (tl w). c \<in> set ''0123456789''"
    using id_form assms by (auto simp only: list_all_iff)
  obtain l r where w: "w = l # r" using f(1) by (cases w) auto
  have "\<forall>ch \<in> set (map of_char r :: u8 list). is_digit ch" using f(3) id_chars(1) by (simp only: w list.sel set_map) blast
  then have "map digit_char (id_digits (ascii w)) = map of_char r" "list_all (\<lambda>d. d < 10) (id_digits (ascii w))"
    using digit_back by (simp_all add: id_digits_def ascii_def w list_all_iff)
  moreover have "letter_value (of_char l) \<noteq> None" using f(2) id_chars(2) unfolding w list.sel by blast
  ultimately show "letter_value (hd (ascii w)) \<noteq> None" "ascii w = hd (ascii w) # map digit_char (id_digits (ascii w))"
    "length (id_digits (ascii w)) = 9" "list_all (\<lambda>d. d < 10) (id_digits (ascii w))"
    using f(1) by (simp_all add: ascii_def w id_digits_def)
qed

lemma client_login_cmd: "\<exists>l ds. fst (client_login rand n) = cmd_text (Login l ds) \<and> cmd_ok ts (Login l ds)"
proof -
  let ?w = "client_ids ! nat (rand n mod 30)"
  have "nat (rand n mod 30) < length client_ids" by (simp add: client_ids_def nat_less_iff)
  then have "?w \<in> set client_ids" by simp
  note w = client_id_ok [OF this]
  have "fst (client_login rand n) = ascii ''login'' @ sp @ ascii ?w" by (simp add: client_login_def ascii_def sp_def)
  then have "fst (client_login rand n) = cmd_text (Login (hd (ascii ?w)) (id_digits (ascii ?w)))"
    using w(2) by (simp add: login_text_def)
  then show ?thesis using w by (intro exI conjI) auto
qed

definition amounts_of :: "(int \<times> int \<times> int) list" where
  "amounts_of = [(3, 0, 0), (2, 1, 0), (2, 0, 1), (1, 2, 0), (1, 0, 2), (1, 1, 1), (0, 2, 1), (0, 1, 2), (0, 3, 0), (0, 0, 3)]"

lemma client_amounts_text: "map ascii client_amounts = map (\<lambda>(a, b, c). dec a @ sp @ dec b @ sp @ dec c) amounts_of"
  by code_simp

lemma client_masks_text: "\<exists>a b c. fst (client_masks rand n) = dec a @ sp @ dec b @ sp @ dec c \<and> 0 \<le> a \<and> a < 4 \<and> 0 \<le> b \<and> b < 4 \<and> 0 \<le> c \<and> c < 4"
proof (cases "rand n mod 11 < 10")
  case True
  let ?x = "nat (rand n mod 11)"
  have x: "?x < 10" using True by (simp add: nat_less_iff)
  have len: "length client_amounts = 10" "length amounts_of = 10" by (simp_all add: client_amounts_def amounts_of_def)
  obtain a b c where t: "amounts_of ! ?x = (a, b, c)" by (cases "amounts_of ! ?x") auto
  have "list_all (\<lambda>(a, b, c). 0 \<le> a \<and> a < 4 \<and> 0 \<le> b \<and> b < 4 \<and> 0 \<le> c \<and> c < 4) amounts_of" by (simp add: amounts_of_def)
  then have "0 \<le> a \<and> a < 4 \<and> 0 \<le> b \<and> b < 4 \<and> 0 \<le> c \<and> c < 4" using x t len by (auto simp: list_all_length dest: spec [where x = ?x])
  moreover have "ascii (client_amounts ! ?x) = map ascii client_amounts ! ?x" using x len by simp
  then have "ascii (client_amounts ! ?x) = dec a @ sp @ dec b @ sp @ dec c" unfolding client_amounts_text using x t len by simp
  ultimately show ?thesis using True by (auto simp: client_masks_def)
next
  case False
  show ?thesis
    by (rule exI [of _ "rand (n + 1) mod 4"], rule exI [of _ "rand (n + 2) mod 4"], rule exI [of _ "rand (n + 3) mod 4"])
      (use False in \<open>simp add: client_masks_def\<close>)
qed

definition client_inventory :: "(u8 list \<times> stock list) list \<Rightarrow> bool" where
  "client_inventory ps \<longleftrightarrow> inventory_fits ps \<and> ps \<noteq> [] \<and> list_all (\<lambda>p. length (snd p) \<le> 8 \<and> length (fst p) \<le> 18) ps"

lemma buy_cmd:
  assumes "word_ok t \<and> plain t \<and> length t \<le> 18" "t \<in> set ts \<or> take 3 t = ascii ''XXX''" "1 \<le> k" "k \<le> 9"
  shows "\<exists>c. ascii ''buy'' @ sp @ t @ sp @ dec k @ sp @ fst (client_masks rand n) = cmd_text c \<and> cmd_ok ts c"
proof -
  obtain a b m where masks: "fst (client_masks rand n) = dec a @ sp @ dec b @ sp @ dec m" "0 \<le> a" "a < 4" "0 \<le> b" "b < 4" "0 \<le> m" "m < 4"
    using client_masks_text by blast
  have k: "dec k = [digit_char (nat k)]" using dec_digit [of "nat k"] assms(3,4) by simp
  have tx: "ascii ''buy'' @ sp @ t @ sp @ dec k @ sp @ fst (client_masks rand n) = order_text t (nat k) a b m"
    by (simp add: order_text_def masks(1) k)
  have "length (dec a) \<le> 1" "length (dec b) \<le> 1" "length (dec m) \<le> 1"
    using masks by (intro length_dec_below; simp)+
  then have "length (order_text t (nat k) a b m) \<le> 30" using assms(1) by (simp add: order_text_def sp_def ascii_def)
  moreover have "1 \<le> nat k" "nat k < 10" using assms(3,4) by linarith+
  ultimately have "cmd_ok ts (Buy t (nat k) a b m)" using assms masks by (simp add: int32_def)
  then show ?thesis unfolding tx by (intro exI [of _ "Buy t (nat k) a b m"]) simp
qed

lemma client_buy_cmd:
  assumes "client_inventory ps"
  shows "\<exists>c n'. client_buy rand (int (length ps), map client_entry ps) n = Some (cmd_text c, n') \<and> cmd_ok (map fst ps) c"
proof -
  let ?m = "int (length ps)"
  have m: "0 < ?m" using assms by (simp add: client_inventory_def)
  have at: "type_ok (fst (ps ! i)) \<and> plain (fst (ps ! i))" "length (snd (ps ! i)) \<le> 8 \<and> length (fst (ps ! i)) \<le> 18" if "i < length ps" for i
    using assms that inventory_pairs [of ps] by (simp_all add: client_inventory_def list_all_length pair_fits_def)
  define r where "r = rand n mod (?m + 1)"
  have r: "0 \<le> r" "r < ?m + 1" using m pos_mod_bound [of "?m + 1" "rand n"] by (simp_all add: r_def)
  define i where "i = (if r < ?m then nat r else nat (rand (n + 1) mod ?m))"
  have i: "i < length ps" using r m by (auto simp: i_def nat_less_iff)
  define temp where "temp = (if r < ?m then fst (ps ! i) else ascii ''XXX'')"
  define n1 where "n1 = (if r < ?m then n + 1 else n + 2)"
  have xxx: "fst (ps ! j) \<noteq> ascii ''XXX''" if "j < length ps" for j
    using at(1) [OF that] by (auto simp: type_ok_def ascii_def)
  let ?cn = "int (length (snd (ps ! i)))"
  let ?city = "if rand n1 mod (?cn + 1) < ?cn then rand n1 mod (?cn + 1) + 1 else ?cn + 1"
  have city: "1 \<le> ?city" "?city \<le> 9" using at(2) [OF i] by auto
  have "client_buy rand (?m, map client_entry ps) n =
      Some (ascii ''buy'' @ sp @ temp @ sp @ dec ?city @ sp @ fst (client_masks rand (n1 + 1)), snd (client_masks rand (n1 + 1)))"
  proof (cases "r < ?m")
    case True
    then have "i = nat r" "temp = fst (ps ! i)" "n1 = n + 1" "nat r < length ps" using r by (simp_all add: i_def temp_def n1_def)
    then show ?thesis using True m xxx [of i] i
      by (simp add: client_buy_def r_def [symmetric] client_entry_def case_prod_unfold Let_def)
  next
    case False
    then have "i = nat (rand (n + 1) mod ?m)" "temp = ascii ''XXX''" "n1 = n + 2" by (simp_all add: i_def temp_def n1_def)
    then show ?thesis using False m i
      by (simp add: client_buy_def r_def [symmetric] client_entry_def case_prod_unfold Let_def)
  qed
  moreover have "word_ok temp \<and> plain temp \<and> length temp \<le> 18"
    using at [OF i] by (auto simp: temp_def type_ok_def) (simp_all add: word_ok_def plain_def ascii_def is_space_def)
  moreover have "temp \<in> set (map fst ps) \<or> take 3 temp = ascii ''XXX''" using i by (auto simp: temp_def ascii_def)
  ultimately show ?thesis using buy_cmd [of temp "map fst ps" ?city rand "n1 + 1"] city by auto
qed

lemma client_turn_cmd:
  assumes "client_inventory ps"
  shows "\<exists>c n'. client_turn rand (int (length ps), map client_entry ps) n = Some (cmd_text c, n') \<and> cmd_ok (map fst ps) c"
proof -
  have "ascii ''show'' = cmd_text Show \<and> cmd_ok ts Show" "ascii ''logout'' = cmd_text Logout \<and> cmd_ok ts Logout"
    "ascii ''statics'' = cmd_text Statics \<and> cmd_ok ts Statics"
    "ascii ''exit'' = cmd_text (Other (ascii ''exit'')) \<and> cmd_ok ts (Other (ascii ''exit''))" for ts
    by (simp_all add: starts_def) (simp_all add: ascii_def)
  then have "\<exists>c. ascii ''show'' = cmd_text c \<and> cmd_ok ts c" "\<exists>c. ascii ''logout'' = cmd_text c \<and> cmd_ok ts c"
    "\<exists>c. ascii ''statics'' = cmd_text c \<and> cmd_ok ts c" "\<exists>c. ascii ''exit'' = cmd_text c \<and> cmd_ok ts c" for ts
    by blast+
  moreover have "\<exists>c n'. Some (client_login rand (n + 1)) = Some (cmd_text c, n') \<and> cmd_ok (map fst ps) c"
    using client_login_cmd [of rand "n + 1" "map fst ps"] by (metis prod.collapse)
  ultimately show ?thesis
    using client_buy_cmd [OF assms, of rand "n + 1"] by (simp add: client_turn_def Let_def)
qed

text \<open>The turns of all clients, each with its connection and the numbers it draws, as requests.\<close>

definition turn_request :: "int \<times> client_store list \<Rightarrow> int \<times> (nat \<Rightarrow> int) \<times> nat \<Rightarrow> shop_event option" where
  "turn_request md t = (case t of (fd, rand, n) \<Rightarrow> map_option (\<lambda>(w, n'). Request fd w) (client_turn rand md n))"

lemma turns_cmds:
  assumes "client_inventory ps" "list_all (\<lambda>t. known_fd (fst t)) turns"
  shows "\<exists>cs. map (turn_request (int (length ps), map client_entry ps)) turns = map Some (requests cs) \<and>
    cmds_ok (map fst ps) cs \<and> length cs = length turns"
  using assms(2)
proof (induction turns)
  case Nil
  then show ?case by (simp add: requests_def cmds_ok_def)
next
  case (Cons t turns)
  obtain fd rand n where t: "t = (fd, rand, n)" by (cases t) auto
  obtain cs where cs: "map (turn_request (int (length ps), map client_entry ps)) turns = map Some (requests cs)"
    "cmds_ok (map fst ps) cs" "length cs = length turns" using Cons by auto
  obtain c n' where "client_turn rand (int (length ps), map client_entry ps) n = Some (cmd_text c, n')" "cmd_ok (map fst ps) c"
    using client_turn_cmd [OF assms(1)] by blast
  then show ?case using cs Cons.prems
    by (intro exI [of _ "(fd, c) # cs"]) (simp add: t turn_request_def [of _ "(fd, rand, n)"] requests_def cmds_ok_def)
qed

text \<open>
  C10: Client, server and checker fit together. Whatever numbers the clients draw and in whatever order their turns come, with at most
  eight cities to a type, every request they make is one the server serves to its end, and the checker finds no line of the server's
  log wrong. With nine cities the client also asks for city 10, which the server does not read as such.
\<close>

theorem clients_served:
  assumes "client_inventory ps" "1 \<le> d" "d \<le> 7" "5 \<le> amount" "amount < 10000"
    and "list_all (\<lambda>t. known_fd (fst t)) turns" "length turns \<le> 100000"
  shows "\<exists>md reqs s ss' s' sales m. client_read (inventory_text ps) = Some md \<and> map (turn_request md) turns = map Some reqs \<and>
    shop_main (inventory_text ps) d amount = Inr s \<and> shop_run reqs (\<lambda>fd. new_session) s = Inr (ss', s', sales) \<and>
    checker_data (inventory_text ps) d amount = Some m \<and> check_run (read_log_file (writeToResult s')) m = Some []"
proof -
  have ps: "inventory_fits ps" using assms(1) by (simp add: client_inventory_def)
  obtain cs where cs: "map (turn_request (int (length ps), map client_entry ps)) turns = map Some (requests cs)"
    "cmds_ok (map fst ps) cs" "length cs \<le> 100000" using turns_cmds [OF assms(1,6)] assms(7) by auto
  have "opened (shop_read ps d amount)" "cmds_ok (names (shop_read ps d amount)) cs"
    using read_shop_opened [OF ps assms(2-5)] cs(2) by simp_all
  from server_passes [OF this cs(3)] show ?thesis
    using client_reads [OF ps] cs(1) server_reads [OF ps, of d amount] checker_reads [OF ps, of d amount]
      read_shop_opened(3) [OF ps assms(2-5)] by auto
qed

definition three_turns :: "(int \<times> (nat \<Rightarrow> int) \<times> nat) list" where
  "three_turns = [(5, (\<lambda>n. 7 * int n + 1), 0), (6, (\<lambda>n. 5 * int n + 3), 0), (5, (\<lambda>n. 7 * int n + 1), 2)]"

theorem clients_served_witness:
  "\<exists>md reqs s ss' s' sales m. client_read (inventory_text small_inventory) = Some md \<and> map (turn_request md) three_turns = map Some reqs \<and>
    shop_main (inventory_text small_inventory) 1 50 = Inr s \<and> shop_run reqs (\<lambda>fd. new_session) s = Inr (ss', s', sales) \<and>
    checker_data (inventory_text small_inventory) 1 50 = Some m \<and> check_run (read_log_file (writeToResult s')) m = Some []"
proof (rule clients_served)
  show "client_inventory small_inventory" by code_simp
  show "list_all (\<lambda>t. known_fd (fst t)) three_turns" by (simp add: three_turns_def known_fd_def)
qed (simp_all add: three_turns_def)

end
