(* ===== verification/Spec2Isabelle.thy ===== *)
theory Spec2Isabelle
  imports EndToEnd Irq MyDev MaskShop IoApps Pcmcia Mach FlashMap Rtc Sbull Tsdev Guess Bank Client
begin

text \<open>
  A verification development of the C and C++ code of a course on embedded operating systems: the Linux
  drivers of the Creator PXA270 board and the programs that use them.

  Below, \<open>linux\<close> stands for \<open>microtime/pro/devkit/lsp/create-pxa270/linux-2.6.15.3\<close>; all paths are
  under \<open>src/\<close>.

  The program. The board has a text and graphics display, a keypad of sixteen keys, eight lamps, four
  seven-segment digits, a serial EEPROM and a few interrupt lines behind a CPLD. One character
  device, \<open>linux/drivers/char/creator-pxa270-lcd.c\<close>, gives user programs all of them through \<open>write\<close>
  and some twenty \<open>ioctl\<close> commands; a timer scans the keypad and keeps the clock, a timer interrupt
  multiplexes the digits. \<open>linux/arch/arm/mach-pxa/creator-pxa270-core.c\<close> holds the shadow registers
  and probes the board, \<open>creator-pxa270-irq.c\<close> demultiplexes its interrupts, \<open>mach-creator-pxa270.c\<close> describes the
  machine and starts it up. Three more drivers serve the compact-flash socket
  (\<open>linux/drivers/pcmcia/pxa2xx-creator-pxa270.c\<close>), the boot flash (\<open>linux/drivers/mtd/maps/creator-pxa270-flash.c\<close>) and
  the audio codec (\<open>linux/drivers/i2c/chips/creator-pxa270-tlv320aic12.c\<close>). The touch screen is a stack of its own: the UCB1400 chip behind
  the AC97 link (\<open>linux/drivers/mfd/mcp-ac97.c\<close>, \<open>ucb1x00-core.c\<close>), the driver that samples the pen (\<open>ucb1x00-ts.c\<close>), the event filter
  of the input core (\<open>linux/drivers/input/input.c\<close>) and the reader behind \<open>/dev/ts\<close> (\<open>linux/drivers/input/tsdev.c\<close>). The programs are a keypad
  calculator (\<open>0851084_eos_lab3/lab3.c\<close>), a mask shop (\<open>0851084_eos_hw1/hw1.c\<close> and its earlier version
  \<open>LAB_3/IO_subsystem/src/mask.c\<close>), four exercises of \<open>LAB_3/IO_subsystem/src\<close>, a small character
  device of its own (\<open>0851084_eos_lab4/mydev.c\<close>), the socket helpers of two network exercises
  (\<open>0851084_eos_hw2/sockop.c\<close>, \<open>0851084_eos_hw3/sockop.c\<close>), and three programs of several processes or threads that run on
  the host: the mask shop as a server (\<open>0851084_eos_hw3/hw3.cpp\<close>) with
  the checker that judges its log (\<open>checker.cpp\<close>), an account that clients share
  (\<open>0851084_eos_lab6\<close>), and a guessing game over shared memory and signals (\<open>0851084_eos_lab7/guess.cpp\<close>, \<open>game.cpp\<close>).

  The theories, in the order of their imports:

  \<^item> \<open>Prelude\<close>: machine types, errno values, iteration, circular positions, and rings with a read and a write index.
  \<^item> \<open>Font\<close>: the table of \<open>genfont8_8.h\<close>.
  \<^item> \<open>Lcd\<close>: the static variables of the text display (record \<open>lcdtxt\<close>) and its routines, one function
    for each, from \<open>WriteLCD\<close> to \<open>LCD_putchar\<close> and \<open>Initial_LCD\<close>; a bus access is recorded in the state.
  \<^item> \<open>LcdPanel\<close>: the abstract side: a panel that decodes the bus traffic, a character terminal, and the
    relation \<open>displays\<close> between driver state and terminal. The locale \<open>char_display\<close> states what a
    client relies on, and is interpreted by the driver's \<open>LCD_putchar\<close>.
  \<^item> \<open>Keypad\<close>: code tables, ring (record \<open>keypad\<close>), matrix read-out and debounce. The locale \<open>key_fifo\<close>
    is the contract between scan timer and readers, interpreted by the ring.
  \<^item> \<open>Board\<close>, \<open>Irq\<close>: shadow registers, probe, interrupts, over a record of register accesses.
  \<^item> \<open>SegLed\<close>, \<open>Eeprom\<close>, \<open>Ioctl\<close>: lamps and digits; the EEPROM protocol in the shadow register; command numbers, structure
    layouts and user memory.
  \<^item> \<open>LcdDriver\<close>: all of it as one device (record \<open>lcd_drv\<close>): \<open>ScanTimer\<close>, \<open>segment_timer_irq\<close>, \<open>write\<close>,
    \<open>ioctl\<close>, module init and cleanup, the step relation \<open>drv_step\<close> and its invariant \<open>drv_inv\<close>.
  \<^item> \<open>Apps\<close>, \<open>AppsOnDriver\<close>: the requests a program makes, and the simulation that whatever timers run
    in between, the driver looks as if the requests had been carried out one after the other.
  \<^item> \<open>EndToEnd\<close>: system calls with switches, timers and displays on the other side; the reader that
    sleeps; what of an EEPROM command the segment interrupt takes to the pins.
  \<^item> \<open>Lab3\<close>; \<open>Inventory\<close>, \<open>Hw1\<close>, \<open>MaskShop\<close>; \<open>IoApps\<close>; \<open>MyDev\<close>: the programs.

  \<^item> \<open>Gpio\<close>: the pin registers (record \<open>gpio\<close>) and \<open>pxa_gpio_mode\<close> of \<open>linux/arch/arm/mach-pxa/generic.c\<close>, which refines a
    table of pins. The locale \<open>pin_controller\<close> is that contract, interpreted by \<open>pxa_gpio_mode\<close>; \<open>Pcmcia\<close> and
    \<open>Mach\<close> extend the record and route their pins through it.
  \<^item> \<open>Pcmcia\<close>: the socket (record \<open>pcc\<close>) and the layer above it: interrupt lines, configuration, event loop.
  \<^item> \<open>Mach\<close>: panels, partitions, memory map, memory card, start-up (record \<open>mach\<close>).
  \<^item> \<open>FlashMap\<close>, \<open>Codec\<close>: drivers as functions to a result and a log of the calls they make, from which what
    they hold is counted; \<open>Codec\<close> has the address scan of \<open>linux/drivers/i2c/i2c-core.c\<close> as well.
  \<^item> \<open>Rtc\<close>: the clock chip \<open>linux/drivers/i2c/chips/rtc8564.c\<close>: registers, commands, and \<open>/dev/rtc\<close> behind its global pointer.
  \<^item> \<open>Sbull\<close>: the RAM disk \<open>linux/drivers/block/sbull.c\<close>, which refines a map from sectors to contents.
  \<^item> \<open>Ucb\<close>: the chip's core (records \<open>ac97\<close>, \<open>ucb1x00\<close>) over a log of the link; the locale \<open>source_handler\<close> states what an
    interrupt handler has to keep so that the core's record stays what the chip holds.
  \<^item> \<open>Input\<close>: the filter of the input core (record \<open>input_dev\<close>).
  \<^item> \<open>Touch\<close>: the touch driver (record \<open>touch\<close>, an extension of the chip's): panels, pixels, the sampling thread as the steps
    of \<open>touch_step\<close>; it interprets \<open>source_handler\<close>.
  \<^item> \<open>Tsdev\<close>: the reader: a ring for each file, a second interpretation of \<open>key_fifo\<close>; the devices and their life (\<open>tsdev_step\<close>);
    a stroke followed from the pen to the ring.
  \<^item> \<open>Sockets\<close>: the socket helpers, over a record of what the network answers.
  \<^item> \<open>Guess\<close>: both processes of the game as one record \<open>lab7\<close>; a step is a tick of the guesser or an answer of the game.
  \<^item> \<open>Bank\<close>: the threads of the account server (record \<open>worker\<close>), one action a step, with its semaphore; the client's messages.
  \<^item> \<open>ShopServer\<close>: the data under the server's mutex (record \<open>shop\<close>), a session for each connection, one function for each request.
    \<open>outcome\<close> is the abstract account of what a request can do; what it keeps, every run of requests keeps (\<open>shop_run_keeps\<close>).
  \<^item> \<open>Checker\<close>: the checker's data as ordered maps (record \<open>db\<close>), its passes over the log, and the abstraction \<open>db_of\<close> from the
    server's table to them, under which each command is the same step of both (\<open>server_effect\<close>, \<open>checked_line\<close>).
  \<^item> \<open>Client\<close>: the test client of \<open>0851084_eos_hw2/client.cpp\<close>: what it reads and sends, over the numbers \<open>rand()\<close> gives; client,
    server and checker together.

  How the state corresponds to the code. Each record has the static variables of its file under their
  own names. A kernel or hardware answer is a parameter: the record \<open>lcd_env\<close> of the driver, the
  function \<open>device\<close> of the core and the interrupts, \<open>status\<close> of the EEPROM. Nothing is assumed of them but
  what a theorem states: that a register reads back what was written (\<open>reads_back\<close>), or that a closed
  switch pulls its column low (\<open>matrix_wired\<close>). User memory is a partial map. A program is a function
  of the keys it receives to the requests it makes.

  What the lemmas show. The display refines a terminal and the keypad a queue of debounced presses;
  the lamps and digits carry what the commands say, and the EEPROM's pins what the segment interrupt copies of them; every call comes
  back, but for exactly those that read outside a table, and the driver's invariant holds in every reachable state; the calculator is an
  evaluator with precedence, on the keys and the displays, and on the driver for values up to 1023; the inventory file is a round trip and a purchase is
  recorded. A stroke of the pen arrives at its reader as the
  frames it is made of, the driver of the screen never sleeps with the pen's interrupt off, and its reader's devices live and go with
  their files. The account server loses nothing in any interleaving, the shop server answers, sells only what it has and to nobody
  twice a week, and writes a log that the checker accepts line by line; the game finds its number. Where the code does not do what it means to, a property states what it does: the two rings
  that empty themselves (the keypad's with its read index at 0), the screen that cannot be closed without a touch, the chord that reads past a table, the lost wake-up, the reset that never
  reaches the socket, the wrong bit of \<open>OIER\<close>, the rules of the shop. The drivers of the machine are shown to keep
  their books: what an error path or a removal gives back of what was taken, with the exceptions (a null
  pointer followed, an interrupt line and a chip never given back, interrupts left disabled).

  Loops and bounds. Structural or measured recursion, with these exceptions, where nothing bounds the
  code: the tab loop of \<open>LCD_putchar\<close>, the outer loops of the two demultiplexers, the event loop of the socket and the polling of the
  converter are
  \<open>partial_function (option)\<close>; that the tab loop ends from every state of the driver is proved, and the
  demultiplexer and the event loop are shown to end when a round finds nothing new. The EEPROM and font loops have the
  source's constants. The two loops that poll the converter (\<open>adc_wait\<close>, \<open>detect_wait\<close>) return exactly when the chip ever
  answers. Words have the source's widths; the counters of \<open>Hw1\<close> are unbounded.

  Not modelled: locking (a call is one step, but where a theory says otherwise; what another caller may do between the change of the
  chip's record and the writes to its registers is left out), delays, console output and device registration; signals and wake-ups of readers; the rest of the input core; what the test clients of
  \<open>0851084_eos_hw2\<close> and \<open>hw3\<close> print and the sending half of \<open>checker.cpp\<close>; the small demonstrations of \<open>lab4\<close>, \<open>lab5\<close> and \<open>lab7\<close>; the copies of \<open>lab3.c\<close> and \<open>hw1.c\<close> in \<open>LAB_3\<close>; the vendor's boot
  loader and libraries in \<open>LAB_2\<close>; the rest of the kernel, which is third-party code.
\<close>

end
